(* ===== verification/Prelude.thy ===== *)
theory Prelude
  imports Main "HOL-Library.Multiset" "HOL-Library.Word"
begin

text \<open>
  The shared base of the development: names for the Go types the components use, the
  iteration order of a Go map, the results of fallible functions, and the generic lemmas on
  lists, maps and options that the component theories rely on.

  \<^item> A Go \<open>map[K]V\<close> is a partial function \<open>'k \<rightharpoonup> 'v\<close>.  Go visits the keys of a map in an
    unspecified order, so every loop over a map takes the visiting order as an argument, a
    list \<open>ks\<close> with \<open>iter_order ks m\<close>; a theorem about such a loop holds for every order.
  \<^item> A function that returns \<open>(T, error)\<close> returns \<open>err + 'a\<close>, \<open>Inl\<close> for the error.
  \<^item> \<open>time.Time\<close> is an \<open>int\<close> of nanoseconds that counts from the zero \<open>Time\<close>, so that
    \<open>IsZero\<close> is \<open>t = 0\<close>; \<open>Before\<close> and \<open>After\<close> are \<open><\<close> and \<open>></\<close>.  A read of the clock is an
    argument \<open>now\<close> of the operation.
  \<^item> A mutex-protected method is one atomic step; logging is not modelled.
\<close>

type_synonym time = int
type_synonym duration = int
type_synonym int64 = "64 word"

abbreviation Millisecond :: int where "Millisecond \<equiv> 1000000"
abbreviation Second :: int where "Second \<equiv> 1000000000"
abbreviation Minute :: int where "Minute \<equiv> 60 * Second"
abbreviation Hour :: int where "Hour \<equiv> 60 * Minute"

named_theorems store_simps \<open>characteristic equations of the store operations\<close>
named_theorems invar_intros \<open>an operation keeps an invariant\<close>

subsection \<open>Iteration order of a map\<close>

definition iter_order :: "'k list \<Rightarrow> ('k \<rightharpoonup> 'v) \<Rightarrow> bool" where
  "iter_order ks m \<longleftrightarrow> distinct ks \<and> set ks = dom m"

lemma iter_orderD [dest]:
  assumes "iter_order ks m"
  shows "distinct ks" and "set ks = dom m"
  using assms by (simp_all add: iter_order_def)

lemma iter_order_finite: "iter_order ks m \<Longrightarrow> finite (dom m)"
  by (metis iter_order_def finite_set)

lemma iter_order_card: "iter_order ks m \<Longrightarrow> length ks = card (dom m)"
  by (metis iter_order_def distinct_card)

lemma iter_order_exists:
  assumes "finite (dom m)"
  shows "\<exists>ks. iter_order ks m"
  using finite_distinct_list [OF assms] by (auto simp: iter_order_def)

text \<open>The values of a map in visiting order.\<close>

definition map_values :: "'k list \<Rightarrow> ('k \<rightharpoonup> 'v) \<Rightarrow> 'v list" where
  "map_values ks m = List.map_filter m ks"

lemma set_map_values [simp]: "set (map_values ks m) = {v. \<exists>k \<in> set ks. m k = Some v}"
  by (auto simp: map_values_def List.map_filter_def) force

lemma set_map_values_order: "iter_order ks m \<Longrightarrow> set (map_values ks m) = ran m"
  by (auto simp: iter_order_def ran_def dom_def)

subsection \<open>Lists\<close>

lemma count_list_concat: "count_list (concat xss) x = sum_list (map (\<lambda>xs. count_list xs x) xss)"
  by (induction xss) auto

lemma count_list_eq_length_filter_eq: "count_list xs x = length (filter (\<lambda>y. y = x) xs)"
  by (induction xs) auto

lemma sum_list_count_list_filter:
  assumes "distinct qs"
  shows "sum_list (map (\<lambda>q. count_list ds q) qs) = length (filter (\<lambda>d. d \<in> set qs) ds)"
  using assms
proof (induction ds)
  case Nil
  then show ?case by (induction qs) auto
next
  case (Cons d ds)
  have split: "sum_list (map (\<lambda>q. count_list (d # ds) q) qs)
      = (\<Sum>q\<leftarrow>qs. (if d = q then 1 else 0)) + sum_list (map (\<lambda>q. count_list ds q) qs)"
    by (induction qs) auto
  have one: "(\<Sum>q\<leftarrow>qs. (if d = q then 1 else 0 :: nat)) = (if d \<in> set qs then 1 else 0)"
    using Cons.prems by (induction qs) auto
  show ?case using Cons.IH [OF Cons.prems] split one by simp
qed

lemma length_filter_notin_eq_0: "length (filter (\<lambda>d. d \<notin> A) ds) = 0 \<longleftrightarrow> set ds \<subseteq> A"
  by (auto simp: filter_empty_conv)

lemma length_filter_pos: "x \<in> set xs \<Longrightarrow> P x \<Longrightarrow> 0 < length (filter P xs)"
  by (induction xs) auto

lemma find_member:
  assumes "find P xs = Some x"
  shows "x \<in> set xs" and "P x"
proof -
  have "find P xs = Some x \<longrightarrow> x \<in> set xs \<and> P x" by (induction xs) auto
  with assms show "x \<in> set xs" "P x" by auto
qed

lemma find_snoc: "\<forall>y \<in> set xs. \<not> P y \<Longrightarrow> P x \<Longrightarrow> find P (xs @ [x]) = Some x"
  by (induction xs) auto

subsection \<open>Machine integers\<close>

text \<open>
  \<open>int\<close>, \<open>int64\<close> and \<open>time.Duration\<close> are 64 bits wide; where a computation may leave the
  range, \<open>wrap64\<close> writes the wrap-around out.
\<close>

definition wrap64 :: "int \<Rightarrow> int" where
  "wrap64 x = (x + 2 ^ 63) mod 2 ^ 64 - 2 ^ 63"

lemma wrap64_id [simp]: "- (2 ^ 63) \<le> x \<Longrightarrow> x < 2 ^ 63 \<Longrightarrow> wrap64 x = x"
  by (simp add: wrap64_def)

lemma wrap64_above:
  assumes "2 ^ 63 \<le> x" "x < 2 ^ 63 + 2 ^ 64"
  shows "wrap64 x = x - 2 ^ 64"
proof -
  have "(x + 2 ^ 63) mod 2 ^ 64 = (x + 2 ^ 63 - 2 ^ 64) mod 2 ^ 64" by (metis minus_mod_self2)
  also have "\<dots> = x + 2 ^ 63 - 2 ^ 64" using assms by (intro mod_pos_pos_trivial) simp_all
  finally show ?thesis by (simp add: wrap64_def)
qed

lemma wrap64_add:
  assumes "0 \<le> x" "x \<le> 2 ^ 61" "0 \<le> y" "y < 2 ^ 61"
  shows "wrap64 (x + y) = x + y"
  using assms by (intro wrap64_id) simp_all

lemma wrap64_range: "- (2 ^ 63) \<le> wrap64 x" "wrap64 x < 2 ^ 63"
proof -
  have "0 \<le> (x + 2 ^ 63) mod 2 ^ 64" "(x + 2 ^ 63) mod 2 ^ 64 < 2 ^ 64" by simp_all
  then show "- (2 ^ 63) \<le> wrap64 x" "wrap64 x < 2 ^ 63" by (simp_all add: wrap64_def)
qed

text \<open>The value \<open>wrap64\<close> gives is the one of the 64-bit word.\<close>

lemma wrap64_sint: "wrap64 x = sint (word_of_int x :: int64)"
  by (simp add: wrap64_def int_word_sint)

end
