(* ===== verification/Dag.thy ===== *)
theory Dag
  imports Prelude
begin

text \<open>
  The DAG of \<open>backend/pkg/dagrunner/dag.go\<close>: nodes with dependencies, the topological sort
  into levels (Kahn's algorithm, one level at a time) and the validation.  The sort is proved
  sound (the levels partition the nodes, every dependency sits in an earlier level, and no
  node waits longer than it has to) and complete (it fails exactly on an unknown dependency
  or a cycle), for every order in which Go visits the maps.
\<close>

record Node =
  Node_ID :: string
  Node_Deps :: "string list"

record DAG =
  DAG_Nodes :: "string \<rightharpoonup> Node"

datatype dag_error =
    DependsOnUnknown string string
  | ContainsCycle

definition NewDAG :: DAG where
  "NewDAG = \<lparr>DAG_Nodes = Map.empty\<rparr>"

definition AddNode :: "DAG \<Rightarrow> string \<Rightarrow> string list \<Rightarrow> DAG" where
  "AddNode d i deps = d\<lparr>DAG_Nodes := (DAG_Nodes d)(i \<mapsto> \<lparr>Node_ID = i, Node_Deps = deps\<rparr>)\<rparr>"

text \<open>The dependencies of a node; a missing node has none.\<close>

definition deps_of :: "DAG \<Rightarrow> string \<Rightarrow> string list" where
  "deps_of d i = (case DAG_Nodes d i of None \<Rightarrow> [] | Some n \<Rightarrow> Node_Deps n)"

subsection \<open>The sort\<close>

text \<open>
  The two maps of the sort are read with Go's zero default: \<open>inDegree\<close> is total with default
  0, \<open>adj\<close> with default the nil slice.  The first error found while the edges are collected
  is returned.
\<close>

type_synonym in_degree = "string \<Rightarrow> int"
type_synonym adjacency = "string \<Rightarrow> string list"

fun collect_deps ::
  "DAG \<Rightarrow> string \<Rightarrow> string list \<Rightarrow> adjacency \<times> in_degree \<Rightarrow> dag_error + adjacency \<times> in_degree" where
  "collect_deps d i [] s = Inr s"
| "collect_deps d i (dep # deps) (adj, inDegree) =
     (if DAG_Nodes d dep = None then Inl (DependsOnUnknown i dep)
      else collect_deps d i deps
             (adj(dep := adj dep @ [i]), inDegree(i := inDegree i + 1)))"

fun collect_edges ::
  "DAG \<Rightarrow> string list \<Rightarrow> adjacency \<times> in_degree \<Rightarrow> dag_error + adjacency \<times> in_degree" where
  "collect_edges d [] s = Inr s"
| "collect_edges d (i # ks) s =
     (case collect_deps d i (deps_of d i) s of
        Inl e \<Rightarrow> Inl e
      | Inr s' \<Rightarrow> collect_edges d ks s')"

text \<open>The inner loop: decrement the successors of one node, queue those that reach 0.\<close>

fun relax :: "string list \<Rightarrow> in_degree \<times> string list \<Rightarrow> in_degree \<times> string list" where
  "relax [] s = s"
| "relax (next # ns) (inDegree, nextQueue) =
     (let inDegree' = inDegree(next := inDegree next - 1)
      in relax ns (inDegree', if inDegree' next = 0 then nextQueue @ [next] else nextQueue))"

text \<open>One level: the state is \<open>(visited, inDegree, nextQueue)\<close>.\<close>

fun visit_level ::
  "adjacency \<Rightarrow> string list \<Rightarrow> nat \<times> in_degree \<times> string list \<Rightarrow> nat \<times> in_degree \<times> string list" where
  "visit_level adj [] s = s"
| "visit_level adj (i # queue) (visited, s) =
     visit_level adj queue (visited + 1, relax (adj i) s)"

text \<open>
  The outer loop.  Each round visits at least one node and no node twice, so one unit of fuel
  per node and one for the last test is enough (\<open>visit_levels_Some\<close> below); running out of
  fuel is \<open>None\<close>.
\<close>

fun visit_levels ::
  "nat \<Rightarrow> adjacency \<Rightarrow> string list list \<Rightarrow> nat \<Rightarrow> in_degree \<Rightarrow> string list
    \<Rightarrow> (string list list \<times> nat) option" where
  "visit_levels 0 adj levels visited inDegree queue = None"
| "visit_levels (Suc fuel) adj levels visited inDegree queue =
     (if queue = [] then Some (levels, visited)
      else
        (let (visited', inDegree', nextQueue) = visit_level adj queue (visited, inDegree, [])
         in visit_levels fuel adj (levels @ [queue]) visited' inDegree' nextQueue))"

text \<open>\<open>ks1\<close> is the order of the loop over the nodes, \<open>ks2\<close> that of the loop over the degrees.\<close>

definition TopologicalSort ::
  "string list \<Rightarrow> string list \<Rightarrow> DAG \<Rightarrow> (dag_error + string list list) option" where
  "TopologicalSort ks1 ks2 d =
     (case collect_edges d ks1 (\<lambda>_. [], \<lambda>_. 0) of
        Inl e \<Rightarrow> Some (Inl e)
      | Inr (adj, inDegree) \<Rightarrow>
          (case visit_levels (Suc (length ks1)) adj [] 0 inDegree
                  (filter (\<lambda>i. inDegree i = 0) ks2) of
             None \<Rightarrow> None
           | Some (levels, visited) \<Rightarrow>
               Some (if visited \<noteq> length ks1 then Inl ContainsCycle else Inr levels)))"

datatype validate_msg =
    ReferencesUnknown string string
  | SortFailed dag_error

definition dag_missing_deps :: "DAG \<Rightarrow> string list \<Rightarrow> validate_msg list" where
  "dag_missing_deps d ks =
     concat (map (\<lambda>i. map (ReferencesUnknown i)
                        (filter (\<lambda>dep. DAG_Nodes d dep = None) (deps_of d i))) ks)"

definition DAG_Validate :: "string list \<Rightarrow> string list \<Rightarrow> string list \<Rightarrow> DAG \<Rightarrow> validate_msg list option" where
  "DAG_Validate ks0 ks1 ks2 d =
     (case TopologicalSort ks1 ks2 d of
        None \<Rightarrow> None
      | Some (Inl e) \<Rightarrow> Some (dag_missing_deps d ks0 @ [SortFailed e])
      | Some (Inr _) \<Rightarrow> Some (dag_missing_deps d ks0))"


subsection \<open>Collecting the edges\<close>

text \<open>
  When every dependency is known the collection succeeds; \<open>adj\<close> then holds a node once per
  occurrence of a dependency, and the degree is the number of dependencies.
\<close>

lemma collect_deps_Inr:
  "set deps \<subseteq> dom (DAG_Nodes d) \<Longrightarrow>
   collect_deps d i deps (adj, deg) =
     Inr (\<lambda>x. adj x @ replicate (count_list deps x) i, deg(i := deg i + int (length deps)))"
proof (induction deps arbitrary: adj deg)
  case Nil
  show ?case by simp
next
  case (Cons a deps)
  then have "DAG_Nodes d a \<noteq> None" and "set deps \<subseteq> dom (DAG_Nodes d)" by auto
  with Cons.IH show ?case
    by (auto simp: fun_eq_iff replicate_append_same [symmetric])
qed

lemma collect_deps_Inl:
  "\<not> set deps \<subseteq> dom (DAG_Nodes d) \<Longrightarrow>
   \<exists>x. x \<in> set deps \<and> DAG_Nodes d x = None \<and> collect_deps d i deps s = Inl (DependsOnUnknown i x)"
  by (induction d i deps s rule: collect_deps.induct) (auto split: if_splits)

definition deps_known :: "DAG \<Rightarrow> string list \<Rightarrow> bool" where
  "deps_known d ks \<longleftrightarrow> (\<forall>i \<in> set ks. set (deps_of d i) \<subseteq> dom (DAG_Nodes d))"

lemma collect_edges_Inr:
  assumes "deps_known d ks" "distinct ks"
  shows "\<exists>adj' deg'. collect_edges d ks (adj, deg) = Inr (adj', deg') \<and>
    (\<forall>x j. count_list (adj' x) j =
        count_list (adj x) j + (if j \<in> set ks then count_list (deps_of d j) x else 0)) \<and>
    (\<forall>x. set (adj' x) \<subseteq> set (adj x) \<union> set ks) \<and>
    (\<forall>j. deg' j = deg j + (if j \<in> set ks then int (length (deps_of d j)) else 0))"
  using assms
proof (induction ks arbitrary: adj deg)
  case Nil
  then show ?case by simp
next
  case (Cons k ks)
  let ?adj = "\<lambda>x. adj x @ replicate (count_list (deps_of d k) x) k"
  let ?deg = "deg(k := deg k + int (length (deps_of d k)))"
  have k: "collect_deps d k (deps_of d k) (adj, deg) = Inr (?adj, ?deg)"
    using Cons.prems(1) by (intro collect_deps_Inr) (simp add: deps_known_def)
  have "deps_known d ks" "distinct ks" and notin: "k \<notin> set ks"
    using Cons.prems by (auto simp: deps_known_def)
  from Cons.IH [OF this(1,2), of ?adj ?deg] obtain adj' deg' where
    res: "collect_edges d ks (?adj, ?deg) = Inr (adj', deg')" and
    cnt: "\<And>x j. count_list (adj' x) j =
        count_list (?adj x) j + (if j \<in> set ks then count_list (deps_of d j) x else 0)" and
    sub: "\<And>x. set (adj' x) \<subseteq> set (?adj x) \<union> set ks" and
    deg: "\<And>j. deg' j = ?deg j + (if j \<in> set ks then int (length (deps_of d j)) else 0)"
    by blast
  have cr: "count_list (replicate n k) j = (if j = k then n else 0)" for n j
    by (induction n) auto
  show ?case
  proof (intro exI conjI allI)
    show "collect_edges d (k # ks) (adj, deg) = Inr (adj', deg')" using k res by simp
    show "count_list (adj' x) j =
        count_list (adj x) j + (if j \<in> set (k # ks) then count_list (deps_of d j) x else 0)" for x j
      using cnt notin by (auto simp: cr)
    show "set (adj' x) \<subseteq> set (adj x) \<union> set (k # ks)" for x
      using sub [of x] by (auto split: if_splits)
    show "deg' j = deg j + (if j \<in> set (k # ks) then int (length (deps_of d j)) else 0)" for j
      using deg notin by auto
  qed
qed

lemma collect_edges_Inl:
  assumes "\<not> deps_known d ks"
  shows "\<exists>i x. i \<in> set ks \<and> x \<in> set (deps_of d i) \<and> DAG_Nodes d x = None \<and>
    collect_edges d ks s = Inl (DependsOnUnknown i x)"
  using assms
proof (induction ks arbitrary: s)
  case Nil
  then show ?case by (simp add: deps_known_def)
next
  case (Cons k ks)
  obtain adj deg where s: "s = (adj, deg)" by (cases s)
  show ?case
  proof (cases "set (deps_of d k) \<subseteq> dom (DAG_Nodes d)")
    case True
    with Cons.prems have "\<not> deps_known d ks" by (simp add: deps_known_def)
    from Cons.IH [OF this] True s show ?thesis by (fastforce simp: collect_deps_Inr)
  next
    case False
    from collect_deps_Inl [OF this, of k s] show ?thesis by auto
  qed
qed

subsection \<open>One level\<close>

lemma relax_append: "relax (xs @ ys) s = relax ys (relax xs s)"
  by (induction xs s rule: relax.induct) (simp_all add: Let_def)

lemma visit_level_relax:
  "visit_level adj q (v, s) = (v + length q, relax (concat (map adj q)) s)"
  by (induction q arbitrary: v s) (simp_all add: relax_append)

lemma relax_degree: "fst (relax xs (deg, nq)) j = deg j - int (count_list xs j)"
  by (induction xs arbitrary: deg nq) (auto simp: Let_def)

text \<open>A successor enters the next queue exactly once: when its degree reaches 0.\<close>

lemma relax_queue:
  "\<exists>ys. snd (relax xs (deg, nq)) = nq @ ys \<and> distinct ys \<and>
     set ys = {j. 0 < deg j \<and> deg j \<le> int (count_list xs j)}"
proof (induction xs arbitrary: deg nq)
  case Nil
  show ?case by auto
next
  case (Cons x xs)
  let ?deg = "deg(x := deg x - 1)"
  show ?case
  proof (cases "deg x = 1")
    case True
    from Cons.IH [of ?deg "nq @ [x]"] obtain ys where
      ys: "snd (relax xs (?deg, nq @ [x])) = (nq @ [x]) @ ys" "distinct ys"
        "set ys = {j. 0 < ?deg j \<and> ?deg j \<le> int (count_list xs j)}" by blast
    then have "snd (relax (x # xs) (deg, nq)) = nq @ (x # ys)" using True by simp
    moreover have "distinct (x # ys)" using ys True by auto
    moreover have "set (x # ys) = {j. 0 < deg j \<and> deg j \<le> int (count_list (x # xs) j)}"
      using ys(3) True by auto
    ultimately show ?thesis by blast
  next
    case False
    from Cons.IH [of ?deg nq] obtain ys where
      ys: "snd (relax xs (?deg, nq)) = nq @ ys" "distinct ys"
        "set ys = {j. 0 < ?deg j \<and> ?deg j \<le> int (count_list xs j)}" by blast
    then have "snd (relax (x # xs) (deg, nq)) = nq @ ys" using False by simp
    moreover have "set ys = {j. 0 < deg j \<and> deg j \<le> int (count_list (x # xs) j)}"
      using ys(3) False by auto
    ultimately show ?thesis using ys(2) by blast
  qed
qed

subsection \<open>The invariant of the outer loop\<close>

text \<open>
  \<open>A\<close> is the set of the nodes visited so far: the degrees count the dependencies outside
  \<open>A\<close>, and the queue holds the nodes outside \<open>A\<close> all of whose dependencies are in \<open>A\<close>.
\<close>

definition adj_ok :: "DAG \<Rightarrow> string set \<Rightarrow> adjacency \<Rightarrow> bool" where
  "adj_ok d N adj \<longleftrightarrow>
     (\<forall>x j. count_list (adj x) j = (if j \<in> N then count_list (deps_of d j) x else 0))"

definition kahn_inv :: "DAG \<Rightarrow> string set \<Rightarrow> string set \<Rightarrow> in_degree \<Rightarrow> string list \<Rightarrow> bool" where
  "kahn_inv d N A deg queue \<longleftrightarrow>
     A \<subseteq> N \<and> distinct queue \<and>
     set queue = {i \<in> N - A. set (deps_of d i) \<subseteq> A} \<and>
     (\<forall>i \<in> A. set (deps_of d i) \<subseteq> A) \<and>
     (\<forall>i \<in> N. deg i = int (length (filter (\<lambda>x. x \<notin> A) (deps_of d i)))) \<and>
     (\<forall>i. i \<notin> N \<longrightarrow> deg i = 0)"

lemma adj_ok_count:
  assumes "adj_ok d N adj" "distinct q"
  shows "count_list (concat (map adj q)) j =
    (if j \<in> N then length (filter (\<lambda>x. x \<in> set q) (deps_of d j)) else 0)"
proof (cases "j \<in> N")
  case True
  then have "sum_list (map (\<lambda>x. count_list (adj x) j) q)
      = sum_list (map (\<lambda>x. count_list (deps_of d j) x) q)"
    using assms(1) by (intro arg_cong [of _ _ sum_list] map_cong) (simp_all add: adj_ok_def)
  also have "\<dots> = length (filter (\<lambda>x. x \<in> set q) (deps_of d j))"
    by (rule sum_list_count_list_filter [OF assms(2)])
  finally show ?thesis using True by (simp add: count_list_concat comp_def)
next
  case False
  then have "sum_list (map (\<lambda>x. count_list (adj x) j) q) = 0"
    using assms(1) by (simp add: adj_ok_def sum_list_eq_0_iff)
  then show ?thesis using False by (simp add: count_list_concat comp_def)
qed

lemma length_filter_split:
  "length (filter (\<lambda>x. x \<notin> A) xs) =
   length (filter (\<lambda>x. x \<notin> A \<union> B) xs) + length (filter (\<lambda>x. x \<in> B) (filter (\<lambda>x. x \<notin> A) xs))"
  by (induction xs) auto

lemma kahn_step:
  assumes adj: "adj_ok d N adj" and inv: "kahn_inv d N A deg queue"
    and step: "visit_level adj queue (v, deg, []) = (v', deg', nextQueue)"
  shows "v' = v + length queue" and "kahn_inv d N (A \<union> set queue) deg' nextQueue"
proof -
  let ?xs = "concat (map adj queue)"
  have q: "distinct queue" "set queue = {i \<in> N - A. set (deps_of d i) \<subseteq> A}"
    and A: "A \<subseteq> N" "\<forall>i \<in> A. set (deps_of d i) \<subseteq> A"
    and deg: "\<forall>i \<in> N. deg i = int (length (filter (\<lambda>x. x \<notin> A) (deps_of d i)))"
      "\<forall>i. i \<notin> N \<longrightarrow> deg i = 0"
    using inv by (auto simp: kahn_inv_def)
  have relaxed: "relax ?xs (deg, []) = (deg', nextQueue)" and "v' = v + length queue"
    using step by (simp_all add: visit_level_relax)
  then show "v' = v + length queue" by simp
  have cnt: "count_list ?xs j =
      (if j \<in> N then length (filter (\<lambda>x. x \<in> set queue) (deps_of d j)) else 0)" for j
    using adj q(1) by (rule adj_ok_count)
  have deg': "deg' j = deg j - int (count_list ?xs j)" for j
    using relax_degree [of ?xs deg "[]" j] relaxed by simp
  have disj: "set queue \<inter> A = {}" using q(2) by auto
  have in_filter: "filter (\<lambda>x. x \<in> set queue) (filter (\<lambda>x. x \<notin> A) xs)
      = filter (\<lambda>x. x \<in> set queue) xs" for xs
    using disj by (auto simp: filter_eq_Cons_iff intro!: filter_cong)
  have degN: "deg' j = int (length (filter (\<lambda>x. x \<notin> A \<union> set queue) (deps_of d j)))"
    if "j \<in> N" for j
    using deg' [of j] deg(1) that cnt [of j] in_filter [of "deps_of d j"]
      length_filter_split [of A "deps_of d j" "set queue"] by simp
  obtain ys where ys: "nextQueue = ys" "distinct ys"
    "set ys = {j. 0 < deg j \<and> deg j \<le> int (count_list ?xs j)}"
    using relax_queue [of ?xs deg "[]"] relaxed by auto
  have "set nextQueue = {i \<in> N - (A \<union> set queue). set (deps_of d i) \<subseteq> A \<union> set queue}"
  proof (intro equalityI subsetI)
    fix j assume "j \<in> set nextQueue"
    then have pos: "0 < deg j" and le: "deg j \<le> int (count_list ?xs j)" using ys by auto
    then have N: "j \<in> N" using deg(2) by fastforce
    have notsub: "\<not> set (deps_of d j) \<subseteq> A"
      using pos deg(1) N by (auto simp: filter_empty_conv)
    then have "j \<notin> A" "j \<notin> set queue" using A(2) q(2) by auto
    moreover have "length (filter (\<lambda>x. x \<notin> A \<union> set queue) (deps_of d j)) = 0"
      using degN [OF N] deg' [of j] le by linarith
    then have "set (deps_of d j) \<subseteq> A \<union> set queue"
      by (rule length_filter_notin_eq_0 [THEN iffD1])
    ultimately show "j \<in> {i \<in> N - (A \<union> set queue). set (deps_of d i) \<subseteq> A \<union> set queue}"
      using N by simp
  next
    fix j assume j: "j \<in> {i \<in> N - (A \<union> set queue). set (deps_of d i) \<subseteq> A \<union> set queue}"
    then have N: "j \<in> N" by simp
    have "\<not> set (deps_of d j) \<subseteq> A" using j q(2) by auto
    then have "0 < deg j" using deg(1) N by (auto simp: filter_empty_conv)
    moreover have "deg' j = 0" using degN [OF N] j by (auto simp: filter_empty_conv)
    then have "deg j \<le> int (count_list ?xs j)" using deg' [of j] by simp
    ultimately show "j \<in> set nextQueue" using ys by simp
  qed
  moreover have "deg' j = 0" if "j \<notin> N" for j
    using that deg(2) deg' [of j] cnt [of j] by simp
  ultimately show "kahn_inv d N (A \<union> set queue) deg' nextQueue"
    using A q(2) ys degN by (auto simp: kahn_inv_def)
qed

text \<open>The shape of the levels built from a set \<open>A\<close> of visited nodes.\<close>

fun layered :: "DAG \<Rightarrow> string set \<Rightarrow> string list list \<Rightarrow> bool" where
  "layered d A [] \<longleftrightarrow> True"
| "layered d A (l # ls) \<longleftrightarrow>
     (\<forall>i \<in> set l. set (deps_of d i) \<subseteq> A) \<and>
     (case ls of [] \<Rightarrow> True | l' # _ \<Rightarrow> \<forall>i \<in> set l'. \<not> set (deps_of d i) \<subseteq> A) \<and>
     layered d (A \<union> set l) ls"

lemma visit_levels_Some:
  assumes "adj_ok d N adj" "kahn_inv d N A deg queue" "finite N" "card (N - A) < fuel"
  shows "\<exists>L. visit_levels fuel adj levels visited deg queue =
      Some (levels @ L, visited + length (concat L)) \<and>
    distinct (concat L) \<and> set (concat L) \<inter> A = {} \<and> set (concat L) \<subseteq> N \<and>
    (case L of [] \<Rightarrow> queue = [] | l # _ \<Rightarrow> l = queue) \<and> layered d A L \<and>
    (\<forall>i \<in> N - (A \<union> set (concat L)). \<not> set (deps_of d i) \<subseteq> A \<union> set (concat L))"
  using assms
proof (induction fuel arbitrary: A deg queue levels visited)
  case 0
  then show ?case by simp
next
  case (Suc fuel)
  have q: "distinct queue" "set queue = {i \<in> N - A. set (deps_of d i) \<subseteq> A}"
    using Suc.prems(2) by (auto simp: kahn_inv_def)
  show ?case
  proof (cases "queue = []")
    case True
    then show ?thesis using q by (intro exI [of _ "[]"]) auto
  next
    case False
    obtain v' deg' nq where step: "visit_level adj queue (visited, deg, []) = (v', deg', nq)"
      by (cases "visit_level adj queue (visited, deg, [])") auto
    note ks = kahn_step [OF Suc.prems(1,2) step]
    have "hd queue \<in> set queue" using False by simp
    then have "hd queue \<in> N - A" "hd queue \<notin> N - (A \<union> set queue)" using q(2) by auto
    then have "N - (A \<union> set queue) \<subset> N - A" by auto
    then have "card (N - (A \<union> set queue)) < fuel"
      using Suc.prems(3,4) psubset_card_mono [of "N - A" "N - (A \<union> set queue)"] by fastforce
    from Suc.IH [OF Suc.prems(1) ks(2) Suc.prems(3) this] obtain L where
      L: "visit_levels fuel adj (levels @ [queue]) v' deg' nq =
          Some ((levels @ [queue]) @ L, v' + length (concat L))"
        "distinct (concat L)" "set (concat L) \<inter> (A \<union> set queue) = {}" "set (concat L) \<subseteq> N"
        "case L of [] \<Rightarrow> nq = [] | l # _ \<Rightarrow> l = nq" "layered d (A \<union> set queue) L"
        "\<forall>i \<in> N - (A \<union> set queue \<union> set (concat L)).
           \<not> set (deps_of d i) \<subseteq> A \<union> set queue \<union> set (concat L)"
      by blast
    have next_late: "\<forall>i \<in> set nq. \<not> set (deps_of d i) \<subseteq> A"
      using ks(2) q(2) by (auto simp: kahn_inv_def)
    have "layered d A (queue # L)"
      using q(2) L(5,6) next_late by (cases L) auto
    moreover have "A \<union> set (concat (queue # L)) = A \<union> set queue \<union> set (concat L)" by auto
    ultimately show ?thesis
      using False step L q ks(1)
      by (intro exI [of _ "queue # L"]) (auto simp: Let_def add.assoc)
  qed
qed

subsection \<open>The result of the sort\<close>

definition dep_rel :: "DAG \<Rightarrow> (string \<times> string) set" where
  "dep_rel d = {(x, i). x \<in> set (deps_of d i)}"

lemma deps_of_dom: "x \<in> set (deps_of d i) \<Longrightarrow> i \<in> dom (DAG_Nodes d)"
  by (cases "DAG_Nodes d i") (auto simp: deps_of_def)

lemma TopologicalSort_unknown:
  assumes "\<not> deps_known d ks1"
  shows "\<exists>i x. i \<in> set ks1 \<and> x \<in> set (deps_of d i) \<and> DAG_Nodes d x = None \<and>
    TopologicalSort ks1 ks2 d = Some (Inl (DependsOnUnknown i x))"
  using collect_edges_Inl [OF assms, of "(\<lambda>_. [], \<lambda>_. 0)"] by (auto simp: TopologicalSort_def)

text \<open>With known dependencies the sort runs to the end and visits a set \<open>concat L\<close>.\<close>

lemma TopologicalSort_known:
  assumes o1: "iter_order ks1 (DAG_Nodes d)" and o2: "iter_order ks2 (DAG_Nodes d)"
    and known: "deps_known d ks1"
  shows "\<exists>L. TopologicalSort ks1 ks2 d =
      Some (if length (concat L) \<noteq> length ks1 then Inl ContainsCycle else Inr L) \<and>
    distinct (concat L) \<and> set (concat L) \<subseteq> dom (DAG_Nodes d) \<and> layered d {} L \<and>
    (\<forall>i \<in> dom (DAG_Nodes d) - set (concat L). \<not> set (deps_of d i) \<subseteq> set (concat L))"
proof -
  let ?N = "dom (DAG_Nodes d)"
  have set1: "set ks1 = ?N" and dist1: "distinct ks1" using o1 by auto
  have set2: "set ks2 = ?N" and dist2: "distinct ks2" using o2 by auto
  obtain adj deg where
    res: "collect_edges d ks1 (\<lambda>_. [], \<lambda>_. 0) = Inr (adj, deg)" and
    cnt: "\<And>x j. count_list (adj x) j = (if j \<in> ?N then count_list (deps_of d j) x else 0)" and
    deg: "\<And>j. deg j = (if j \<in> ?N then int (length (deps_of d j)) else 0)"
    using collect_edges_Inr [OF known dist1, of "\<lambda>_. []" "\<lambda>_. 0"] set1 by auto
  let ?queue = "filter (\<lambda>i. deg i = 0) ks2"
  have adj: "adj_ok d ?N adj" using cnt by (simp add: adj_ok_def)
  have inv: "kahn_inv d ?N {} deg ?queue"
    using dist2 set2 deg by (auto simp: kahn_inv_def)
  have fin: "finite ?N" using o1 by (rule iter_order_finite)
  have "card (?N - {}) < Suc (length ks1)" using iter_order_card [OF o1] by simp
  from visit_levels_Some [OF adj inv fin this, of "[]" 0] obtain L where
    "visit_levels (Suc (length ks1)) adj [] 0 deg ?queue = Some (L, length (concat L))"
    "distinct (concat L)" "set (concat L) \<subseteq> ?N" "layered d {} L"
    "\<forall>i \<in> ?N - set (concat L). \<not> set (deps_of d i) \<subseteq> set (concat L)"
    by auto
  with res show ?thesis by (intro exI [of _ L]) (simp add: TopologicalSort_def)
qed

lemma layered_nth:
  assumes "layered d A L" "k < length L" "i \<in> set (L ! k)"
  shows "set (deps_of d i) \<subseteq> A \<union> (\<Union>j<k. set (L ! j))"
  using assms
proof (induction L arbitrary: A k)
  case Nil
  then show ?case by simp
next
  case (Cons l L)
  show ?case
  proof (cases k)
    case 0
    then show ?thesis using Cons.prems by auto
  next
    case (Suc k')
    then have "set (deps_of d i) \<subseteq> (A \<union> set l) \<union> (\<Union>j<k'. set (L ! j))"
      using Cons.IH [of "A \<union> set l" k'] Cons.prems by simp
    also have "\<dots> \<subseteq> A \<union> (\<Union>j<k. set ((l # L) ! j))"
      using Suc by (fastforce simp: nth_Cons')
    finally show ?thesis .
  qed
qed

lemma layered_late:
  assumes "layered d A L" "Suc k < length L" "i \<in> set (L ! Suc k)"
  shows "\<exists>x \<in> set (deps_of d i). x \<in> set (L ! k)"
  using assms
proof (induction L arbitrary: A k)
  case Nil
  then show ?case by simp
next
  case (Cons l L)
  show ?case
  proof (cases k)
    case 0
    then obtain l' ls where "L = l' # ls" using Cons.prems(2) by (cases L) auto
    then show ?thesis using Cons.prems 0 by fastforce
  next
    case (Suc k')
    then show ?thesis using Cons.IH [of "A \<union> set l" k'] Cons.prems by simp
  qed
qed

lemma layered_acyclic:
  assumes lay: "layered d {} L" and all: "set (concat L) = dom (DAG_Nodes d)"
  shows "acyclic (dep_rel d)"
proof -
  define rank where "rank i = (LEAST k. k < length L \<and> i \<in> set (L ! k))" for i
  have ex: "\<exists>k. k < length L \<and> i \<in> set (L ! k)" if "i \<in> dom (DAG_Nodes d)" for i
    using that all [symmetric] by simp (metis in_set_conv_nth)
  have "rank x < rank i" if "(x, i) \<in> dep_rel d" for x i
  proof -
    from that have x: "x \<in> set (deps_of d i)" by (simp add: dep_rel_def)
    then have "i \<in> dom (DAG_Nodes d)" by (rule deps_of_dom)
    then have ri: "rank i < length L" "i \<in> set (L ! rank i)"
      unfolding rank_def using LeastI_ex [OF ex] by auto
    from layered_nth [OF lay this] x obtain j where j: "j < rank i" "x \<in> set (L ! j)" by auto
    with ri(1) have "j < length L \<and> x \<in> set (L ! j)" by simp
    then have "rank x \<le> j" unfolding rank_def by (rule Least_le)
    with j show ?thesis by simp
  qed
  then have "\<forall>p \<in> dep_rel d. rank (fst p) < rank (snd p)" by auto
  then have "dep_rel d \<subseteq> inv_image less_than rank" by (auto simp: inv_image_def)
  then show ?thesis by (meson acyclic_subset wf_acyclic wf_inv_image wf_less_than)
qed

lemma acyclic_all_visited:
  assumes "acyclic (dep_rel d)" "finite (dom (DAG_Nodes d))" "V \<subseteq> dom (DAG_Nodes d)"
    and known: "\<forall>i \<in> dom (DAG_Nodes d). set (deps_of d i) \<subseteq> dom (DAG_Nodes d)"
    and stuck: "\<forall>i \<in> dom (DAG_Nodes d) - V. \<not> set (deps_of d i) \<subseteq> V"
  shows "V = dom (DAG_Nodes d)"
proof (rule ccontr)
  assume "V \<noteq> dom (DAG_Nodes d)"
  then obtain i where i: "i \<in> dom (DAG_Nodes d) - V" using assms(3) by auto
  have "dep_rel d \<subseteq> dom (DAG_Nodes d) \<times> dom (DAG_Nodes d)"
    using known deps_of_dom by (fastforce simp: dep_rel_def)
  then have "finite (dep_rel d)" using assms(2) finite_subset by blast
  then have "wf (dep_rel d)" using assms(1) by (rule finite_acyclic_wf)
  from wfE_min [OF this i] obtain z where z: "z \<in> dom (DAG_Nodes d) - V"
    and min: "\<And>y. (y, z) \<in> dep_rel d \<Longrightarrow> y \<notin> dom (DAG_Nodes d) - V" by blast
  have "set (deps_of d z) \<subseteq> V" using min known z by (fastforce simp: dep_rel_def)
  with stuck z show False by blast
qed

lemma deps_known_order:
  "iter_order ks (DAG_Nodes d) \<Longrightarrow>
   deps_known d ks \<longleftrightarrow> (\<forall>i \<in> dom (DAG_Nodes d). set (deps_of d i) \<subseteq> dom (DAG_Nodes d))"
  by (simp add: deps_known_def iter_order_def)

lemma TopologicalSort_sound:
  assumes o1: "iter_order ks1 (DAG_Nodes d)" and o2: "iter_order ks2 (DAG_Nodes d)"
    and ok: "TopologicalSort ks1 ks2 d = Some (Inr levels)"
  shows "distinct (concat levels) \<and> set (concat levels) = dom (DAG_Nodes d) \<and>
    (\<forall>k < length levels. \<forall>i \<in> set (levels ! k). \<forall>dep \<in> set (deps_of d i).
       \<exists>j < k. dep \<in> set (levels ! j)) \<and>
    (\<forall>k. Suc k < length levels \<longrightarrow>
       (\<forall>i \<in> set (levels ! Suc k). \<exists>dep \<in> set (deps_of d i). dep \<in> set (levels ! k)))"
proof -
  have known: "deps_known d ks1"
    using TopologicalSort_unknown [of d ks1 ks2] ok by fastforce
  from TopologicalSort_known [OF o1 o2 known] ok obtain L where
    L: "distinct (concat L)" "set (concat L) \<subseteq> dom (DAG_Nodes d)" "layered d {} L"
      "length (concat L) = length ks1" "levels = L"
    by (auto split: if_splits)
  have "card (set (concat L)) = card (dom (DAG_Nodes d))"
    using distinct_card [OF L(1)] L(4) iter_order_card [OF o1] by (simp only:)
  then have "set (concat L) = dom (DAG_Nodes d)"
    by (rule card_subset_eq [OF iter_order_finite [OF o1] L(2)])
  then show ?thesis
    using L layered_nth [OF L(3)] layered_late [OF L(3)] by fastforce
qed

text \<open>
  C1: when the sort succeeds, the levels partition the nodes of the graph, every dependency
  of a node is in an earlier level, and a node beyond the first level has a dependency in the
  level just before its own, so no node runs later than it has to.
\<close>

theorem TopologicalSort_levels:
  assumes o1: "iter_order ks1 (DAG_Nodes d)" and o2: "iter_order ks2 (DAG_Nodes d)"
    and ok: "TopologicalSort ks1 ks2 d = Some (Inr levels)"
  shows "distinct (concat levels) \<and> set (concat levels) = dom (DAG_Nodes d) \<and>
    (\<forall>k < length levels. \<forall>i \<in> set (levels ! k). \<forall>dep \<in> set (deps_of d i).
       \<exists>j < k. dep \<in> set (levels ! j)) \<and>
    (\<forall>k. Suc k < length levels \<longrightarrow>
       (\<forall>i \<in> set (levels ! Suc k). \<exists>dep \<in> set (deps_of d i). dep \<in> set (levels ! k)))"
  using assms by (rule TopologicalSort_sound)

lemma TopologicalSort_outcome:
  assumes o1: "iter_order ks1 (DAG_Nodes d)" and o2: "iter_order ks2 (DAG_Nodes d)"
  shows "if \<not> (\<forall>i \<in> dom (DAG_Nodes d). set (deps_of d i) \<subseteq> dom (DAG_Nodes d))
    then \<exists>i x. x \<in> set (deps_of d i) \<and> DAG_Nodes d x = None \<and>
           TopologicalSort ks1 ks2 d = Some (Inl (DependsOnUnknown i x))
    else if acyclic (dep_rel d) then \<exists>levels. TopologicalSort ks1 ks2 d = Some (Inr levels)
    else TopologicalSort ks1 ks2 d = Some (Inl ContainsCycle)"
proof (cases "\<forall>i \<in> dom (DAG_Nodes d). set (deps_of d i) \<subseteq> dom (DAG_Nodes d)")
  case False
  then have "\<not> deps_known d ks1" by (simp add: deps_known_order [OF o1])
  from TopologicalSort_unknown [OF this, of ks2] False show ?thesis by auto
next
  case True
  then have "deps_known d ks1" by (simp add: deps_known_order [OF o1])
  from TopologicalSort_known [OF o1 o2 this] obtain L where
    L: "TopologicalSort ks1 ks2 d =
        Some (if length (concat L) \<noteq> length ks1 then Inl ContainsCycle else Inr L)"
      "distinct (concat L)" "set (concat L) \<subseteq> dom (DAG_Nodes d)" "layered d {} L"
      "\<forall>i \<in> dom (DAG_Nodes d) - set (concat L). \<not> set (deps_of d i) \<subseteq> set (concat L)"
    by blast
  have fin: "finite (dom (DAG_Nodes d))" using o1 by (rule iter_order_finite)
  have len: "length (concat L) = length ks1 \<longleftrightarrow> set (concat L) = dom (DAG_Nodes d)"
    using L(2,3) iter_order_card [OF o1] fin card_subset_eq [OF fin L(3)]
    by (metis distinct_card)
  have "acyclic (dep_rel d) \<longleftrightarrow> set (concat L) = dom (DAG_Nodes d)"
    using layered_acyclic [OF L(4)] acyclic_all_visited [OF _ fin L(3) True L(5)] by blast
  with L(1) len True show ?thesis by auto
qed

text \<open>
  C2: the sort always returns, and it succeeds exactly when every dependency is a node of the
  graph and the dependency relation is acyclic; otherwise the error says which of the two
  failed.
\<close>

theorem TopologicalSort_complete:
  assumes o1: "iter_order ks1 (DAG_Nodes d)" and o2: "iter_order ks2 (DAG_Nodes d)"
  shows "if \<not> (\<forall>i \<in> dom (DAG_Nodes d). set (deps_of d i) \<subseteq> dom (DAG_Nodes d))
    then \<exists>i x. x \<in> set (deps_of d i) \<and> DAG_Nodes d x = None \<and>
           TopologicalSort ks1 ks2 d = Some (Inl (DependsOnUnknown i x))
    else if acyclic (dep_rel d) then \<exists>levels. TopologicalSort ks1 ks2 d = Some (Inr levels)
    else TopologicalSort ks1 ks2 d = Some (Inl ContainsCycle)"
  using assms by (rule TopologicalSort_outcome)

text \<open>A diamond of four nodes, used by the witnesses.\<close>

definition diamond :: DAG where
  "diamond = AddNode (AddNode (AddNode (AddNode NewDAG ''a'' []) ''b'' [''a'']) ''c'' [''a''])
     ''d'' [''b'', ''c'']"

lemma diamond_order: "iter_order [''a'', ''b'', ''c'', ''d''] (DAG_Nodes diamond)"
  by (auto simp: iter_order_def diamond_def AddNode_def NewDAG_def)

lemma diamond_sort:
  "TopologicalSort [''a'', ''b'', ''c'', ''d''] [''a'', ''b'', ''c'', ''d''] diamond
   = Some (Inr [[''a''], [''b'', ''c''], [''d'']])"
  by (simp add: TopologicalSort_def diamond_def AddNode_def NewDAG_def deps_of_def Let_def
      eval_nat_numeral)

lemma TopologicalSort_levels_witness:
  "distinct (concat [[''a''], [''b'', ''c''], [''d'']]) \<and>
   set (concat [[''a''], [''b'', ''c''], [''d'']]) = dom (DAG_Nodes diamond)"
  using TopologicalSort_levels [OF diamond_order diamond_order diamond_sort] by blast

lemma TopologicalSort_complete_witness:
  "\<exists>i x. TopologicalSort [''a''] [''a''] (AddNode NewDAG ''a'' [''z''])
     = Some (Inl (DependsOnUnknown i x))"
proof -
  have "iter_order [''a''] (DAG_Nodes (AddNode NewDAG ''a'' [''z'']))"
    by (auto simp: iter_order_def AddNode_def NewDAG_def)
  from TopologicalSort_complete [OF this this] show ?thesis
    by (auto simp: AddNode_def NewDAG_def deps_of_def split: if_splits)
qed

subsection \<open>Validation\<close>

lemma dag_missing_deps_Nil: "dag_missing_deps d ks = [] \<longleftrightarrow> deps_known d ks"
  by (auto simp: dag_missing_deps_def deps_known_def filter_empty_conv dom_def subset_eq)

text \<open>The validation reports nothing exactly on the graphs the sort accepts.\<close>

lemma DAG_Validate_Nil:
  assumes "iter_order ks0 (DAG_Nodes d)" "iter_order ks1 (DAG_Nodes d)" "iter_order ks2 (DAG_Nodes d)"
  shows "\<exists>msgs. DAG_Validate ks0 ks1 ks2 d = Some msgs \<and>
    (msgs = [] \<longleftrightarrow>
       (\<forall>i \<in> dom (DAG_Nodes d). set (deps_of d i) \<subseteq> dom (DAG_Nodes d)) \<and> acyclic (dep_rel d))"
proof (cases "\<forall>i \<in> dom (DAG_Nodes d). set (deps_of d i) \<subseteq> dom (DAG_Nodes d)")
  case False
  with TopologicalSort_outcome [OF assms(2,3)] obtain e where
    "TopologicalSort ks1 ks2 d = Some (Inl e)" by (auto simp only: if_True not_False_eq_True)
  with False show ?thesis by (auto simp: DAG_Validate_def)
next
  case True
  have known: "dag_missing_deps d ks0 = []"
    using True by (simp add: dag_missing_deps_Nil deps_known_order [OF assms(1)])
  show ?thesis
  proof (cases "acyclic (dep_rel d)")
    case yes: True
    with TopologicalSort_outcome [OF assms(2,3)] True obtain levels where
      "TopologicalSort ks1 ks2 d = Some (Inr levels)" by auto
    with True yes known show ?thesis by (simp add: DAG_Validate_def)
  next
    case no: False
    with TopologicalSort_outcome [OF assms(2,3)] True
    have "TopologicalSort ks1 ks2 d = Some (Inl ContainsCycle)" by auto
    with no show ?thesis by (simp add: DAG_Validate_def)
  qed
qed

end
