(* ===== verification/Runner.thy ===== *)
theory Runner
  imports Dag
begin

text \<open>
  The runner of \<open>backend/pkg/dagrunner/runner.go\<close>.  \<open>Run\<close> starts one goroutine per node of a
  level, joins them at a barrier and goes on with the next level.  The goroutines interleave
  freely, so the run is a step relation: \<open>run_step r L s t\<close> is one atomic action of the main
  loop or of one goroutine, for the levels \<open>L\<close> the sort returned.  What a task returns, and
  when the context is cancelled, is the choice of the environment.  The capacity of the update
  channel is not modelled: its consumer is assumed to drain it.
\<close>

datatype run_error =
    TaskErr string
  | NodeFailed string string
  | NodePanic string string
  | CtxErr string

record StatusUpdate =
  SU_NodeID :: string
  SU_Status :: string
  SU_Error :: "run_error option"

record Runner =
  Runner_dag :: DAG
  Runner_maxParallel :: int
  Runner_continueOnError :: bool

definition NewRunnerBounded :: "DAG \<Rightarrow> int \<Rightarrow> Runner" where
  "NewRunnerBounded dag maxParallel =
     \<lparr>Runner_dag = dag, Runner_maxParallel = maxParallel, Runner_continueOnError = False\<rparr>"

definition NewRunner :: "DAG \<Rightarrow> Runner" where
  "NewRunner dag = NewRunnerBounded dag 0"

definition NewRunnerBoundedContinue :: "DAG \<Rightarrow> int \<Rightarrow> Runner" where
  "NewRunnerBoundedContinue dag maxParallel =
     (NewRunnerBounded dag maxParallel)\<lparr>Runner_continueOnError := True\<rparr>"

text \<open>
  Where a goroutine of the current level is: at the semaphore, past it, inside the task, or
  between the \<open>failed\<close> status and the send on \<open>errCh\<close> (with the slot still held, or, after a
  cancelled wait, without one).  A finished goroutine has no phase.
\<close>

datatype phase = Waiting | Acquired | Running | Failing run_error | WaitFailing run_error

record RunState =
  rs_next :: nat
  rs_active :: bool
  rs_phase :: "string \<rightharpoonup> phase"
  rs_statuses :: "string \<rightharpoonup> string"
  rs_updates :: "StatusUpdate list"
  rs_errCh :: "run_error option"
  rs_firstErr :: "run_error option"
  rs_ctx :: "run_error option"
  rs_result :: "run_error option option"

definition run_start :: "Runner \<Rightarrow> RunState" where
  "run_start r = \<lparr>rs_next = 0, rs_active = False, rs_phase = Map.empty,
     rs_statuses = (\<lambda>i. if i \<in> dom (DAG_Nodes (Runner_dag r)) then Some ''pending'' else None),
     rs_updates = [], rs_errCh = None, rs_firstErr = None, rs_ctx = None, rs_result = None\<rparr>"

definition emitStatus :: "string \<Rightarrow> string \<Rightarrow> run_error option \<Rightarrow> RunState \<Rightarrow> RunState" where
  "emitStatus i st err s = s\<lparr>rs_statuses := (rs_statuses s)(i \<mapsto> st),
     rs_updates := rs_updates s @ [\<lparr>SU_NodeID = i, SU_Status = st, SU_Error = err\<rparr>]\<rparr>"

text \<open>The non-blocking send on the channel of capacity 1: a second error is dropped.\<close>

definition fail_send :: "run_error \<Rightarrow> RunState \<Rightarrow> RunState" where
  "fail_send e s = s\<lparr>rs_errCh := (case rs_errCh s of None \<Rightarrow> Some e | Some e' \<Rightarrow> Some e')\<rparr>"

definition set_phase :: "string \<Rightarrow> phase \<Rightarrow> RunState \<Rightarrow> RunState" where
  "set_phase i p s = s\<lparr>rs_phase := (rs_phase s)(i \<mapsto> p)\<rparr>"

definition end_phase :: "string \<Rightarrow> RunState \<Rightarrow> RunState" where
  "end_phase i s = s\<lparr>rs_phase := (rs_phase s)(i := None)\<rparr>"

fun holds_slot :: "phase \<Rightarrow> bool" where
  "holds_slot Acquired = True"
| "holds_slot Running = True"
| "holds_slot (Failing e) = True"
| "holds_slot _ = False"

definition holders :: "RunState \<Rightarrow> string set" where
  "holders s = {i. \<exists>p. rs_phase s i = Some p \<and> holds_slot p}"

inductive run_step :: "Runner \<Rightarrow> string list list \<Rightarrow> RunState \<Rightarrow> RunState \<Rightarrow> bool"
  for r :: Runner and L :: "string list list" where
  level_start:
    "rs_result s = None \<Longrightarrow> \<not> rs_active s \<Longrightarrow> rs_next s < length L \<Longrightarrow> rs_ctx s = None \<Longrightarrow>
     run_step r L s (s\<lparr>rs_next := Suc (rs_next s), rs_active := True,
       rs_phase := (\<lambda>i. if i \<in> set (L ! rs_next s) then Some Waiting else None)\<rparr>)"
| level_abort:
    "rs_result s = None \<Longrightarrow> \<not> rs_active s \<Longrightarrow> rs_next s < length L \<Longrightarrow> rs_ctx s = Some e \<Longrightarrow>
     run_step r L s (s\<lparr>rs_result := Some (Some (case rs_firstErr s of Some e1 \<Rightarrow> e1 | None \<Rightarrow> e))\<rparr>)"
| all_done:
    "rs_result s = None \<Longrightarrow> \<not> rs_active s \<Longrightarrow> rs_next s = length L \<Longrightarrow>
     run_step r L s (s\<lparr>rs_result := Some (rs_firstErr s)\<rparr>)"
| acquire:
    "rs_phase s i = Some Waiting \<Longrightarrow>
     Runner_maxParallel r \<le> 0 \<or> int (card (holders s)) < Runner_maxParallel r \<Longrightarrow>
     run_step r L s (set_phase i Acquired s)"
| wait_cancelled:
    "rs_phase s i = Some Waiting \<Longrightarrow> 0 < Runner_maxParallel r \<Longrightarrow> rs_ctx s = Some e \<Longrightarrow>
     run_step r L s (set_phase i (WaitFailing e) (emitStatus i ''failed'' (Some e) s))"
| start_task:
    "rs_phase s i = Some Acquired \<Longrightarrow>
     run_step r L s (set_phase i Running (emitStatus i ''running'' None s))"
| task_success:
    "rs_phase s i = Some Running \<Longrightarrow>
     run_step r L s (end_phase i (emitStatus i ''success'' None s))"
| task_skipped:
    "rs_phase s i = Some Running \<Longrightarrow>
     run_step r L s (end_phase i (emitStatus i ''skipped'' None s))"
| task_failed:
    "rs_phase s i = Some Running \<Longrightarrow>
     run_step r L s (set_phase i (Failing (NodeFailed i msg))
       (emitStatus i ''failed'' (Some (TaskErr msg)) s))"
| task_panic:
    "rs_phase s i = Some Running \<Longrightarrow>
     run_step r L s (set_phase i (Failing (NodePanic i msg))
       (emitStatus i ''failed'' (Some (NodePanic i msg)) s))"
| send_error:
    "rs_phase s i = Some (Failing e) \<or> rs_phase s i = Some (WaitFailing e) \<Longrightarrow>
     run_step r L s (end_phase i (fail_send e s))"
| barrier_clean:
    "rs_active s \<Longrightarrow> rs_phase s = Map.empty \<Longrightarrow> rs_errCh s = None \<Longrightarrow>
     run_step r L s (s\<lparr>rs_active := False\<rparr>)"
| barrier_abort:
    "rs_active s \<Longrightarrow> rs_phase s = Map.empty \<Longrightarrow> rs_errCh s = Some e \<Longrightarrow>
     \<not> Runner_continueOnError r \<Longrightarrow>
     run_step r L s (s\<lparr>rs_active := False, rs_errCh := None, rs_result := Some (Some e)\<rparr>)"
| barrier_continue:
    "rs_active s \<Longrightarrow> rs_phase s = Map.empty \<Longrightarrow> rs_errCh s = Some e \<Longrightarrow>
     Runner_continueOnError r \<Longrightarrow>
     run_step r L s (s\<lparr>rs_active := False, rs_errCh := None,
       rs_firstErr := (case rs_firstErr s of None \<Rightarrow> Some e | Some e1 \<Rightarrow> Some e1)\<rparr>)"
| ctx_cancel:
    "rs_ctx s = None \<Longrightarrow> run_step r L s (s\<lparr>rs_ctx := Some (CtxErr msg)\<rparr>)"

inductive run_reachable :: "Runner \<Rightarrow> string list list \<Rightarrow> RunState \<Rightarrow> bool"
  for r :: Runner and L :: "string list list" where
  run_init: "run_reachable r L (run_start r)"
| run_next: "run_reachable r L s \<Longrightarrow> run_step r L s t \<Longrightarrow> run_reachable r L t"

lemmas run_update_defs = emitStatus_def set_phase_def end_phase_def fail_send_def

subsection \<open>The levels behind the barrier are settled\<close>

definition settled :: "string option \<Rightarrow> bool" where
  "settled st \<longleftrightarrow> st = Some ''success'' \<or> st = Some ''failed'' \<or> st = Some ''skipped''"

lemma settled_simps [simp]:
  "settled (Some ''success'')" "settled (Some ''failed'')" "settled (Some ''skipped'')"
  "\<not> settled (Some ''running'')" "\<not> settled (Some ''pending'')" "\<not> settled None"
  by (simp_all add: settled_def)

text \<open>
  \<open>rs_next\<close> levels have been started; while one is active it is the last of these, and its
  goroutines are those with a phase.
\<close>

definition past_levels :: "RunState \<Rightarrow> nat" where
  "past_levels s = (if rs_active s then rs_next s - 1 else rs_next s)"

definition level_inv :: "string list list \<Rightarrow> RunState \<Rightarrow> bool" where
  "level_inv L s \<longleftrightarrow>
     rs_next s \<le> length L \<and>
     (rs_active s \<longrightarrow> 0 < rs_next s) \<and>
     (\<forall>j < past_levels s. \<forall>i \<in> set (L ! j). settled (rs_statuses s i)) \<and>
     (if rs_active s
      then dom (rs_phase s) \<subseteq> set (L ! (rs_next s - 1)) \<and>
        (\<forall>i \<in> set (L ! (rs_next s - 1)) - dom (rs_phase s). settled (rs_statuses s i))
      else rs_phase s = Map.empty) \<and>
     (\<forall>i e. rs_phase s i = Some (Failing e) \<or> rs_phase s i = Some (WaitFailing e) \<longrightarrow>
        rs_statuses s i = Some ''failed'')"

lemma level_inv_start: "level_inv L (run_start r)"
  by (simp add: level_inv_def run_start_def past_levels_def)

lemma level_inv_active:
  "level_inv L s \<Longrightarrow> rs_phase s i = Some p \<Longrightarrow> rs_active s \<and> i \<in> set (L ! (rs_next s - 1))"
  by (auto simp: level_inv_def split: if_splits)

text \<open>A node of the current level is in no earlier one, so its status changes keep the past.\<close>

lemma distinct_levels:
  assumes "distinct (concat L)" "j < k" "k < length L" "i \<in> set (L ! k)"
  shows "i \<notin> set (L ! j)"
proof -
  have "L = take k L @ L ! k # drop (Suc k) L" using assms(3) by (simp add: id_take_nth_drop)
  then have "distinct (concat (take k L) @ L ! k)"
    using assms(1) by (metis append_assoc concat.simps(2) concat_append distinct_append)
  moreover have "L ! j \<in> set (take k L)" using assms(2,3) by (auto simp: in_set_conv_nth)
  ultimately show ?thesis using assms(4) by (auto simp: disjoint_iff)
qed

lemma level_inv_goroutine:
  assumes inv: "level_inv L s" and dist: "distinct (concat L)" and ph: "rs_phase s i = Some p"
    and q: "st = ''failed'' \<or> (\<forall>e. q \<noteq> Failing e \<and> q \<noteq> WaitFailing e)"
  shows "level_inv L (set_phase i q (emitStatus i st err s))"
proof -
  from level_inv_active [OF inv ph] have act: "rs_active s" and i: "i \<in> set (L ! (rs_next s - 1))"
    by auto
  have "0 < rs_next s" "rs_next s \<le> length L" using inv act by (auto simp: level_inv_def)
  then have past: "i \<notin> set (L ! j)" if "j < rs_next s - 1" for j
    using distinct_levels [OF dist that _ i] by simp
  show ?thesis
    using inv act i q past ph by (auto simp: level_inv_def run_update_defs past_levels_def)
qed

lemma level_inv_end:
  assumes inv: "level_inv L s" and dist: "distinct (concat L)" and ph: "rs_phase s i = Some p"
    and st: "settled (Some st)"
  shows "level_inv L (end_phase i (emitStatus i st err s))"
proof -
  from level_inv_active [OF inv ph] have act: "rs_active s" and i: "i \<in> set (L ! (rs_next s - 1))"
    by auto
  have "0 < rs_next s" "rs_next s \<le> length L" using inv act by (auto simp: level_inv_def)
  then have past: "i \<notin> set (L ! j)" if "j < rs_next s - 1" for j
    using distinct_levels [OF dist that _ i] by simp
  show ?thesis
    using inv act i st past ph by (auto simp: level_inv_def run_update_defs past_levels_def)
qed

text \<open>When the active level has no goroutine left, it joins the settled levels.\<close>

lemma level_inv_barrier:
  assumes inv: "level_inv L s" and act: "rs_active s" and ph: "rs_phase s = Map.empty"
  shows "\<forall>j < rs_next s. \<forall>i \<in> set (L ! j). settled (rs_statuses s i)"
proof (intro allI impI)
  fix j assume "j < rs_next s"
  then have "j < rs_next s - 1 \<or> j = rs_next s - 1" by linarith
  then show "\<forall>i \<in> set (L ! j). settled (rs_statuses s i)"
    using inv act ph by (auto simp: level_inv_def past_levels_def)
qed

lemma level_inv_step:
  assumes "run_step r L s t" "level_inv L s" and dist: "distinct (concat L)"
  shows "level_inv L t"
  using assms(1,2)
proof (cases rule: run_step.cases)
  case level_start
  then show ?thesis using assms(2) by (auto simp: level_inv_def past_levels_def split: if_splits)
next
  case level_abort
  then show ?thesis using assms(2) by (auto simp: level_inv_def past_levels_def)
next
  case all_done
  then show ?thesis using assms(2) by (auto simp: level_inv_def past_levels_def)
next
  case (acquire i)
  then show ?thesis using assms(2) by (auto simp: level_inv_def past_levels_def set_phase_def split: if_splits)
next
  case (wait_cancelled i e)
  then show ?thesis using level_inv_goroutine [OF assms(2) dist wait_cancelled(2)] by simp
next
  case (start_task i)
  then show ?thesis using level_inv_goroutine [OF assms(2) dist start_task(2)] by simp
next
  case (task_success i)
  then show ?thesis using level_inv_end [OF assms(2) dist task_success(2)] by simp
next
  case (task_skipped i)
  then show ?thesis using level_inv_end [OF assms(2) dist task_skipped(2)] by simp
next
  case (task_failed i msg)
  then show ?thesis using level_inv_goroutine [OF assms(2) dist task_failed(2)] by simp
next
  case (task_panic i msg)
  then show ?thesis using level_inv_goroutine [OF assms(2) dist task_panic(2)] by simp
next
  case (send_error i e)
  then show ?thesis using assms(2)
    by (auto simp: level_inv_def past_levels_def end_phase_def fail_send_def split: if_splits)
next
  case barrier_clean
  then show ?thesis using assms(2) level_inv_barrier [OF assms(2)]
    by (auto simp: level_inv_def past_levels_def)
next
  case (barrier_abort e)
  then show ?thesis using assms(2) level_inv_barrier [OF assms(2)]
    by (auto simp: level_inv_def past_levels_def)
next
  case (barrier_continue e)
  then show ?thesis using assms(2) level_inv_barrier [OF assms(2)]
    by (auto simp: level_inv_def past_levels_def)
next
  case (ctx_cancel msg)
  then show ?thesis using assms(2)
    by (cases "rs_active s") (simp_all add: level_inv_def past_levels_def)
qed

lemma run_reachable_level_inv:
  "run_reachable r L s \<Longrightarrow> distinct (concat L) \<Longrightarrow> level_inv L s"
  by (induction rule: run_reachable.induct) (auto intro: level_inv_start level_inv_step)

subsection \<open>The semaphore\<close>

definition slot_inv :: "Runner \<Rightarrow> RunState \<Rightarrow> bool" where
  "slot_inv r s \<longleftrightarrow> finite (dom (rs_phase s)) \<and>
     (0 < Runner_maxParallel r \<longrightarrow> int (card (holders s)) \<le> Runner_maxParallel r)"

lemma holders_subset: "holders s \<subseteq> dom (rs_phase s)"
  by (auto simp: holders_def)

lemma holders_set_phase:
  "holders (set_phase i p s) = (if holds_slot p then insert i (holders s) else holders s - {i})"
  by (auto simp: holders_def set_phase_def)

lemma holders_end_phase: "holders (end_phase i s) = holders s - {i}"
  by (auto simp: holders_def end_phase_def)

lemma holders_emit [simp]: "holders (emitStatus i st err s) = holders s"
  by (simp add: holders_def emitStatus_def)

lemma holders_update [simp]:
  "holders (s\<lparr>rs_result := x\<rparr>) = holders s" "holders (s\<lparr>rs_active := b\<rparr>) = holders s"
  "holders (s\<lparr>rs_errCh := e\<rparr>) = holders s" "holders (s\<lparr>rs_firstErr := e\<rparr>) = holders s"
  "holders (s\<lparr>rs_ctx := e\<rparr>) = holders s"
  by (simp_all add: holders_def)

lemma holders_fail [simp]: "holders (fail_send e s) = holders s"
  by (simp add: holders_def fail_send_def)

lemma holdsI: "rs_phase s i = Some p \<Longrightarrow> holds_slot p \<Longrightarrow> insert i (holders s) = holders s"
  by (auto simp: holders_def)

lemma rs_phase_simps [simp]:
  "rs_phase (emitStatus i st err s) = rs_phase s"
  "rs_phase (fail_send e s) = rs_phase s"
  "rs_phase (set_phase i p s) = (rs_phase s)(i \<mapsto> p)"
  "rs_phase (end_phase i s) = (rs_phase s)(i := None)"
  by (simp_all add: run_update_defs)

lemma slot_inv_start: "slot_inv r (run_start r)"
  by (simp add: slot_inv_def run_start_def holders_def)

lemma slot_inv_step:
  assumes step: "run_step r L s t" and inv: "slot_inv r s"
  shows "slot_inv r t"
proof -
  have fin: "finite (holders s)" 
    using finite_subset [OF holders_subset] inv by (simp add: slot_inv_def)
  have minus: "int (card (holders s - {i})) \<le> n" if "int (card (holders s)) \<le> n" for i n
    using that card_mono [OF fin, of "holders s - {i}"] by auto
  from step show ?thesis
  proof (cases rule: run_step.cases)
    case level_start
    have "holders t = {}" using level_start(1) by (auto simp: holders_def split: if_splits)
    then show ?thesis using level_start(1) by (auto simp: slot_inv_def dom_def)
  next
    case (acquire i)
    then show ?thesis using inv card_insert_le_m1 [of "nat (Runner_maxParallel r)" "holders s" i]
      by (auto simp: slot_inv_def holders_set_phase card_insert_if fin)
  next
    case (start_task i)
    then show ?thesis using inv by (auto simp: slot_inv_def holders_set_phase holdsI)
  next
    case (task_failed i msg)
    then show ?thesis using inv by (auto simp: slot_inv_def holders_set_phase holdsI)
  next
    case (task_panic i msg)
    then show ?thesis using inv by (auto simp: slot_inv_def holders_set_phase holdsI)
  qed (use inv minus in \<open>auto simp: slot_inv_def holders_set_phase holders_end_phase\<close>)
qed

lemma run_reachable_slot_inv: "run_reachable r L s \<Longrightarrow> slot_inv r s"
  by (induction rule: run_reachable.induct) (auto intro: slot_inv_start slot_inv_step)

subsection \<open>Every failure is accounted for\<close>

definition is_failing :: "phase \<Rightarrow> bool" where
  "is_failing p \<longleftrightarrow> (\<exists>e. p = Failing e \<or> p = WaitFailing e)"

lemma is_failing_simps [simp]:
  "is_failing (Failing e)" "is_failing (WaitFailing e)" "\<not> is_failing Waiting"
  "\<not> is_failing Acquired" "\<not> is_failing Running"
  by (simp_all add: is_failing_def)

text \<open>
  A failed node has been recorded in \<open>firstErr\<close>, has ended the run, or its error is in the
  channel or about to be sent; when the run aborts at the first error, no level behind the
  barrier holds a failed node.
\<close>

definition err_inv :: "Runner \<Rightarrow> string list list \<Rightarrow> RunState \<Rightarrow> bool" where
  "err_inv r L s \<longleftrightarrow>
     ((\<exists>i. rs_statuses s i = Some ''failed'') \<longrightarrow>
        rs_firstErr s \<noteq> None \<or> (\<exists>e. rs_result s = Some (Some e)) \<or>
        rs_active s \<and> (rs_errCh s \<noteq> None \<or> (\<exists>j p. rs_phase s j = Some p \<and> is_failing p))) \<and>
     (\<not> Runner_continueOnError r \<and> rs_result s = None \<longrightarrow>
        (\<forall>j < past_levels s. \<forall>i \<in> set (L ! j). rs_statuses s i \<noteq> Some ''failed'')) \<and>
     (\<not> rs_active s \<longrightarrow> rs_errCh s = None) \<and>
     (\<not> Runner_continueOnError r \<longrightarrow> rs_firstErr s = None) \<and>
     (rs_result s \<noteq> None \<longrightarrow> \<not> rs_active s) \<and>
     (rs_result s = Some None \<longrightarrow> rs_firstErr s = None \<and> rs_next s = length L)"

lemma err_inv_start: "err_inv r L (run_start r)"
  by (simp add: err_inv_def run_start_def past_levels_def)

lemma past_level_notin:
  assumes inv: "level_inv L s" and dist: "distinct (concat L)" and ph: "rs_phase s i = Some p"
    and j: "j < past_levels s"
  shows "i \<notin> set (L ! j)"
proof -
  from level_inv_active [OF inv ph] have act: "rs_active s" and i: "i \<in> set (L ! (rs_next s - 1))"
    by auto
  have "0 < rs_next s" "rs_next s \<le> length L" using inv act by (auto simp: level_inv_def)
  then show ?thesis using distinct_levels [OF dist _ _ i] j act by (simp add: past_levels_def)
qed

lemma past_levels_simps [simp]:
  "past_levels (emitStatus i st err s) = past_levels s"
  "past_levels (set_phase i p s) = past_levels s"
  "past_levels (end_phase i s) = past_levels s"
  "past_levels (fail_send e s) = past_levels s"
  by (simp_all add: past_levels_def run_update_defs)

definition failing :: "RunState \<Rightarrow> bool" where
  "failing s \<longleftrightarrow> (\<exists>j p. rs_phase s j = Some p \<and> is_failing p)"

lemma failing_simps [simp]:
  "failing (emitStatus i st err s) = failing s"
  "failing (fail_send e s) = failing s"
  "failing (s\<lparr>rs_ctx := c\<rparr>) = failing s"
  by (simp_all add: failing_def run_update_defs)

lemma failing_set_phase:
  "rs_phase s i = Some p0 \<Longrightarrow> \<not> is_failing p0 \<Longrightarrow> failing (set_phase i p s) \<longleftrightarrow> is_failing p \<or> failing s"
  unfolding failing_def rs_phase_simps by (metis fun_upd_apply option.inject)

lemma failing_end_phase:
  "rs_phase s i = Some p0 \<Longrightarrow> \<not> is_failing p0 \<Longrightarrow> failing (end_phase i s) \<longleftrightarrow> failing s"
  unfolding failing_def rs_phase_simps by (metis fun_upd_apply option.inject option.distinct(1))

lemma err_inv_goroutine:
  assumes inv: "err_inv r L s" and act: "rs_active s"
    and past: "\<And>j. j < past_levels s \<Longrightarrow> i \<notin> set (L ! j)"
    and ph: "rs_phase s i = Some p0" "\<not> is_failing p0"
    and st: "st = ''failed'' \<Longrightarrow> is_failing q"
  shows "err_inv r L (set_phase i q (emitStatus i st err s))"
proof -
  let ?s = "emitStatus i st err s"
  have "failing (set_phase i q ?s) \<longleftrightarrow> is_failing q \<or> failing s"
    using failing_set_phase [of ?s i p0 q] ph by simp
  then show ?thesis
    using inv act past st unfolding err_inv_def failing_def [symmetric]
    by (auto simp: emitStatus_def set_phase_def past_levels_def)
qed

lemma err_inv_end:
  assumes inv: "err_inv r L s" and act: "rs_active s"
    and ph: "rs_phase s i = Some p0" "\<not> is_failing p0" and st: "st \<noteq> ''failed''"
  shows "err_inv r L (end_phase i (emitStatus i st err s))"
proof -
  let ?s = "emitStatus i st err s"
  have "failing (end_phase i ?s) \<longleftrightarrow> failing s"
    using failing_end_phase [of ?s i p0] ph by simp
  then show ?thesis
    using inv act st unfolding err_inv_def failing_def [symmetric]
    by (auto simp: emitStatus_def end_phase_def past_levels_def)
qed

lemma err_inv_step:
  assumes step: "run_step r L s t" and inv: "err_inv r L s" and lev: "level_inv L s"
    and dist: "distinct (concat L)"
  shows "err_inv r L t"
proof -
  have past: "i \<notin> set (L ! j)" if "rs_phase s i = Some p" "j < past_levels s" for i p j
    using past_level_notin [OF lev dist that] .
  have active: "rs_active s" if "rs_phase s i = Some p" for i p
    using level_inv_active [OF lev that] by simp
  from step show ?thesis
  proof (cases rule: run_step.cases)
    case level_start
    then show ?thesis using inv by (auto simp: err_inv_def past_levels_def)
  next
    case level_abort
    then show ?thesis using inv by (simp add: err_inv_def past_levels_def)
  next
    case all_done
    then show ?thesis using inv by (simp add: err_inv_def past_levels_def)
  next
    case (acquire i)
    then have "failing t = failing s" using failing_set_phase [of s i Waiting Acquired] by simp
    then show ?thesis using inv acquire(1) unfolding err_inv_def failing_def [symmetric]
      by (auto simp: set_phase_def past_levels_def)
  next
    case (wait_cancelled i e)
    show ?thesis unfolding wait_cancelled(1)
      by (rule err_inv_goroutine [OF inv active [OF wait_cancelled(2)] past [OF wait_cancelled(2)] wait_cancelled(2)]) simp_all
  next
    case (start_task i)
    show ?thesis unfolding start_task(1)
      by (rule err_inv_goroutine [OF inv active [OF start_task(2)] past [OF start_task(2)] start_task(2)]) simp_all
  next
    case (task_success i)
    show ?thesis unfolding task_success(1)
      by (rule err_inv_end [OF inv active [OF task_success(2)] task_success(2)]) simp_all
  next
    case (task_skipped i)
    show ?thesis unfolding task_skipped(1)
      by (rule err_inv_end [OF inv active [OF task_skipped(2)] task_skipped(2)]) simp_all
  next
    case (task_failed i msg)
    show ?thesis unfolding task_failed(1)
      by (rule err_inv_goroutine [OF inv active [OF task_failed(2)] past [OF task_failed(2)] task_failed(2)]) simp_all
  next
    case (task_panic i msg)
    show ?thesis unfolding task_panic(1)
      by (rule err_inv_goroutine [OF inv active [OF task_panic(2)] past [OF task_panic(2)] task_panic(2)]) simp_all
  next
    case (send_error i e)
    then have "rs_active s" using active by blast
    moreover have "rs_errCh t \<noteq> None"
      using send_error(1) by (simp add: fail_send_def end_phase_def split: option.splits)
    ultimately show ?thesis using inv send_error(1)
      by (simp add: err_inv_def fail_send_def end_phase_def past_levels_def)
  next
    case barrier_clean
    then show ?thesis using inv by (auto simp: err_inv_def past_levels_def)
  next
    case (barrier_abort e)
    then show ?thesis using inv by (auto simp: err_inv_def past_levels_def)
  next
    case (barrier_continue e)
    then show ?thesis using inv by (cases "rs_firstErr s") (auto simp: err_inv_def past_levels_def)
  next
    case (ctx_cancel msg)
    then show ?thesis using inv by (simp add: err_inv_def past_levels_def)
  qed
qed

lemma run_reachable_err_inv:
  "run_reachable r L s \<Longrightarrow> distinct (concat L) \<Longrightarrow> err_inv r L s"
  by (induction rule: run_reachable.induct)
    (auto intro: err_inv_start err_inv_step run_reachable_level_inv)


subsection \<open>The run ends\<close>

fun phase_work :: "phase option \<Rightarrow> nat" where
  "phase_work None = 0"
| "phase_work (Some Waiting) = 4"
| "phase_work (Some Acquired) = 3"
| "phase_work (Some Running) = 2"
| "phase_work (Some (Failing e)) = 1"
| "phase_work (Some (WaitFailing e)) = 1"

text \<open>An upper bound on the number of steps that are left.\<close>

definition run_work :: "string list list \<Rightarrow> RunState \<Rightarrow> nat" where
  "run_work L s =
     (\<Sum>l\<leftarrow>drop (rs_next s) L. 4 * length l + 2) +
     (if rs_active s then 1 + (\<Sum>i\<leftarrow>L ! (rs_next s - 1). phase_work (rs_phase s i)) else 0) +
     (if rs_ctx s = None then 1 else 0) + (if rs_result s = None then 1 else 0)"

lemma run_work_goroutine:
  assumes ph: "rs_phase s i = Some p" and act: "rs_active s" and i: "i \<in> set (L ! (rs_next s - 1))"
    and same: "rs_next t = rs_next s" "rs_active t = rs_active s" "rs_ctx t = rs_ctx s"
      "rs_result t = rs_result s" "rs_phase t = (rs_phase s)(i := q)"
    and less: "phase_work q < phase_work (Some p)"
  shows "run_work L t < run_work L s"
proof -
  have "(\<Sum>x\<leftarrow>l. phase_work (rs_phase t x)) < (\<Sum>x\<leftarrow>l. phase_work (rs_phase s x))"
    if "i \<in> set l" for l
    using that
  proof (induction l)
    case (Cons a l)
    have le: "(\<Sum>x\<leftarrow>l. phase_work (rs_phase t x)) \<le> (\<Sum>x\<leftarrow>l. phase_work (rs_phase s x))"
      using ph less by (intro sum_list_mono) (auto simp: same)
    show ?case
    proof (cases "a = i")
      case True
      then show ?thesis using le ph less by (simp add: same)
    next
      case False
      with Cons show ?thesis by (simp add: same)
    qed
  qed simp
  from this [OF i] act show ?thesis by (simp add: run_work_def same)
qed

lemma run_step_work:
  assumes step: "run_step r L s t" and lev: "level_inv L s" and err: "err_inv r L s"
  shows "run_work L t < run_work L s"
proof -
  have go: "run_work L t < run_work L s"
    if "rs_phase s i = Some p" "rs_next t = rs_next s" "rs_active t = rs_active s"
      "rs_ctx t = rs_ctx s" "rs_result t = rs_result s" "rs_phase t = (rs_phase s)(i := q)"
      "phase_work q < phase_work (Some p)" for i p q
    using run_work_goroutine [of s i p L t q] level_inv_active [OF lev that(1)] that by blast
  from step show ?thesis
  proof (cases rule: run_step.cases)
    case level_start
    then have "drop (rs_next s) L = L ! rs_next s # drop (Suc (rs_next s)) L"
      by (simp add: Cons_nth_drop_Suc)
    moreover have "(\<Sum>i\<leftarrow>l. phase_work (if i \<in> set l then Some Waiting else None)) = 4 * length l"
      for l
      by (subst map_cong [where g = "\<lambda>_. 4"]) (simp_all add: sum_list_triv)
    note this [of "L ! rs_next s"]
    ultimately show ?thesis using level_start by (simp add: run_work_def)
  next
    case level_abort
    then show ?thesis by (simp add: run_work_def)
  next
    case all_done
    then show ?thesis by (simp add: run_work_def)
  next
    case (acquire i)
    then show ?thesis by (intro go [of i Waiting "Some Acquired"]) (simp_all add: run_update_defs)
  next
    case (wait_cancelled i e)
    then show ?thesis
      by (intro go [of i Waiting "Some (WaitFailing e)"]) (simp_all add: run_update_defs)
  next
    case (start_task i)
    then show ?thesis by (intro go [of i Acquired "Some Running"]) (simp_all add: run_update_defs)
  next
    case (task_success i)
    then show ?thesis by (intro go [of i Running None]) (simp_all add: run_update_defs)
  next
    case (task_skipped i)
    then show ?thesis by (intro go [of i Running None]) (simp_all add: run_update_defs)
  next
    case (task_failed i msg)
    then show ?thesis
      by (intro go [of i Running "Some (Failing (NodeFailed i msg))"]) (simp_all add: run_update_defs)
  next
    case (task_panic i msg)
    then show ?thesis
      by (intro go [of i Running "Some (Failing (NodePanic i msg))"]) (simp_all add: run_update_defs)
  next
    case (send_error i e)
    then obtain p where "rs_phase s i = Some p" "phase_work (Some p) = 1" by auto
    then show ?thesis using send_error(1)
      by (intro go [of i p None]) (simp_all add: run_update_defs)
  next
    case barrier_clean
    then show ?thesis by (simp add: run_work_def)
  next
    case (barrier_abort e)
    then show ?thesis by (simp add: run_work_def)
  next
    case (barrier_continue e)
    then show ?thesis by (simp add: run_work_def)
  next
    case (ctx_cancel msg)
    then show ?thesis by (simp add: run_work_def)
  qed
qed

text \<open>
  A run that has not returned can always take a step of its own: some goroutine can move (a
  full semaphore has a holder), or the main loop can.
\<close>

lemma run_progress:
  assumes lev: "level_inv L s" and err: "err_inv r L s" and res: "rs_result s = None"
  shows "\<exists>t. run_step r L s t \<and> rs_ctx t = rs_ctx s"
proof (cases "rs_active s")
  case False
  show ?thesis
  proof (cases "rs_next s < length L")
    case True
    with False res show ?thesis
      by (cases "rs_ctx s") (force intro: level_start level_abort)+
  next
    case last: False
    then have "rs_next s = length L" using lev by (simp add: level_inv_def)
    from all_done [OF res False this, of r] show ?thesis by force
  qed
next
  case True
  show ?thesis
  proof (cases "rs_phase s = Map.empty")
    case clean: True
    show ?thesis
    proof (cases "rs_errCh s")
      case None
      from barrier_clean [OF True clean None] show ?thesis by force
    next
      case (Some e)
      show ?thesis
      proof (cases "Runner_continueOnError r")
        case c: True
        from barrier_continue [OF True clean Some c] show ?thesis by force
      next
        case c: False
        from barrier_abort [OF True clean Some c] show ?thesis by force
      qed
    qed
  next
    case False
    show ?thesis
    proof (cases "\<forall>i p. rs_phase s i = Some p \<longrightarrow> p = Waiting")
      case waiting: True
      then have "holders s = {}" using holds_slot.simps by (fastforce simp: holders_def)
      moreover obtain i where "rs_phase s i = Some Waiting" using False waiting by fastforce
      ultimately have "run_step r L s (set_phase i Acquired s)"
        by (intro acquire) auto
      then show ?thesis by (force simp: run_update_defs)
    next
      case some: False
      then obtain i p where ph: "rs_phase s i = Some p" "p \<noteq> Waiting" by blast
      show ?thesis
      proof (cases p)
        case Acquired
        from start_task [of s i r L] ph Acquired show ?thesis by (force simp: run_update_defs)
      next
        case Running
        from task_success [of s i r L] ph Running show ?thesis by (force simp: run_update_defs)
      next
        case (Failing e)
        from send_error [of s i e r L] ph Failing show ?thesis by (force simp: run_update_defs)
      next
        case (WaitFailing e)
        from send_error [of s i e r L] ph WaitFailing show ?thesis by (force simp: run_update_defs)
      qed (use ph in simp)
    qed
  qed
qed

subsection \<open>The properties\<close>

lemma sorted_reachable:
  assumes o1: "iter_order ks1 (DAG_Nodes (Runner_dag r))" and o2: "iter_order ks2 (DAG_Nodes (Runner_dag r))"
    and sort: "TopologicalSort ks1 ks2 (Runner_dag r) = Some (Inr L)"
    and reach: "run_reachable r L s"
  shows "level_inv L s" "err_inv r L s" "set (concat L) = dom (DAG_Nodes (Runner_dag r))"
    "\<forall>k < length L. \<forall>i \<in> set (L ! k). \<forall>dep \<in> set (deps_of (Runner_dag r) i).
       \<exists>j < k. dep \<in> set (L ! j)"
  using TopologicalSort_sound [OF o1 o2 sort] run_reachable_level_inv [OF reach]
    run_reachable_err_inv [OF reach] by simp_all

text \<open>
  C3: a goroutine of a node exists only after every dependency of the node has settled
  (success, failed or skipped); when the runner aborts at the first failure, every dependency
  has then succeeded or been skipped.  This holds in every reachable state, for every
  interleaving of the goroutines and every cancellation.
\<close>

theorem Run_deps_settled:
  assumes "iter_order ks1 (DAG_Nodes (Runner_dag r))" "iter_order ks2 (DAG_Nodes (Runner_dag r))"
    and "TopologicalSort ks1 ks2 (Runner_dag r) = Some (Inr L)"
    and "run_reachable r L s"
    and ph: "rs_phase s i = Some p" and dep: "dep \<in> set (deps_of (Runner_dag r) i)"
  shows "rs_statuses s dep \<in> {Some ''success'', Some ''skipped'', Some ''failed''} \<and>
    (\<not> Runner_continueOnError r \<longrightarrow> rs_statuses s dep \<in> {Some ''success'', Some ''skipped''})"
proof -
  note inv = sorted_reachable [OF assms(1-4)]
  from level_inv_active [OF inv(1) ph] have act: "rs_active s" and
    i: "i \<in> set (L ! (rs_next s - 1))" by auto
  have "rs_next s - 1 < length L" using inv(1) act by (auto simp: level_inv_def)
  from inv(4) [rule_format, OF this i dep] act
  obtain j where j: "j < past_levels s" "dep \<in> set (L ! j)" by (auto simp: past_levels_def)
  have "settled (rs_statuses s dep)" using inv(1) j by (auto simp: level_inv_def)
  moreover have "\<not> Runner_continueOnError r \<longrightarrow> rs_statuses s dep \<noteq> Some ''failed''"
    using inv(2) j act by (auto simp: err_inv_def)
  ultimately show ?thesis by (auto simp: settled_def)
qed

text \<open>
  C4: at most \<open>maxParallel\<close> goroutines are past the semaphore at any time, when
  \<open>maxParallel\<close> is positive.
\<close>

theorem Run_maxParallel:
  assumes "run_reachable r L s" "0 < Runner_maxParallel r"
  shows "int (card {i. \<exists>p. rs_phase s i = Some p \<and> holds_slot p}) \<le> Runner_maxParallel r"
  using run_reachable_slot_inv [OF assms(1)] assms(2) by (simp add: slot_inv_def holders_def)

text \<open>What a nil result says of the nodes.\<close>

lemma run_nil_all:
  assumes "iter_order ks1 (DAG_Nodes (Runner_dag r))" "iter_order ks2 (DAG_Nodes (Runner_dag r))"
    and "TopologicalSort ks1 ks2 (Runner_dag r) = Some (Inr L)"
    and "run_reachable r L s" and nil: "rs_result s = Some None"
  shows "\<forall>i \<in> dom (DAG_Nodes (Runner_dag r)). rs_statuses s i \<in> {Some ''success'', Some ''skipped''}"
proof
  fix i assume "i \<in> dom (DAG_Nodes (Runner_dag r))"
  note inv = sorted_reachable [OF assms(1-4)]
  with \<open>i \<in> _\<close> obtain j where j: "j < length L" "i \<in> set (L ! j)"
    by (metis in_set_conv_nth concat_eq_concat_iff UN_E set_concat)
  have "\<not> rs_active s" "rs_next s = length L" "rs_firstErr s = None"
    using inv(2) nil by (auto simp: err_inv_def)
  then have "settled (rs_statuses s i)" "rs_statuses s i \<noteq> Some ''failed''"
    using inv(1,2) j nil by (auto simp: level_inv_def err_inv_def past_levels_def)
  then show "rs_statuses s i \<in> {Some ''success'', Some ''skipped''}" by (auto simp: settled_def)
qed

text \<open>
  C5: when \<open>Run\<close> returns nil, every node of the graph has been run and its status is
  \<open>success\<close> or \<open>skipped\<close>; no failure, panic or cancelled wait is lost on the way through the
  error channel of capacity 1.
\<close>

theorem Run_nil_complete:
  assumes "iter_order ks1 (DAG_Nodes (Runner_dag r))" "iter_order ks2 (DAG_Nodes (Runner_dag r))"
    and "TopologicalSort ks1 ks2 (Runner_dag r) = Some (Inr L)"
    and "run_reachable r L s" and nil: "rs_result s = Some None"
  shows "\<forall>i \<in> dom (DAG_Nodes (Runner_dag r)). rs_statuses s i \<in> {Some ''success'', Some ''skipped''}"
  using run_nil_all [OF assms] .

text \<open>
  C6: \<open>Run\<close> ends and never deadlocks.  Every step lowers a bound on the remaining steps, and
  as long as \<open>Run\<close> has not returned some step other than a cancellation is possible, also
  when the semaphore is full.
\<close>

theorem Run_terminates:
  assumes "iter_order ks1 (DAG_Nodes (Runner_dag r))" "iter_order ks2 (DAG_Nodes (Runner_dag r))"
    and "TopologicalSort ks1 ks2 (Runner_dag r) = Some (Inr L)"
    and "run_reachable r L s"
  shows "(\<forall>t. run_step r L s t \<longrightarrow> run_work L t < run_work L s) \<and>
    (rs_result s = None \<longrightarrow> (\<exists>t. run_step r L s t \<and> rs_ctx t = rs_ctx s))"
  using run_step_work run_progress sorted_reachable [OF assms] by blast

subsection \<open>A run of two nodes, used by the witnesses\<close>

definition two_nodes :: Runner where
  "two_nodes = NewRunnerBounded (AddNode (AddNode NewDAG ''a'' []) ''b'' [''a'']) 1"

abbreviation two_levels :: "string list list" where
  "two_levels \<equiv> [[''a''], [''b'']]"

lemma two_nodes_simps [simp]:
  "Runner_maxParallel two_nodes = 1" "\<not> Runner_continueOnError two_nodes"
  "DAG_Nodes (Runner_dag two_nodes) =
    [''a'' \<mapsto> \<lparr>Node_ID = ''a'', Node_Deps = []\<rparr>, ''b'' \<mapsto> \<lparr>Node_ID = ''b'', Node_Deps = [''a'']\<rparr>]"
  by (simp_all add: two_nodes_def NewRunnerBounded_def AddNode_def NewDAG_def)

lemma two_nodes_order: "iter_order [''a'', ''b''] (DAG_Nodes (Runner_dag two_nodes))"
  by (auto simp: iter_order_def)

lemma two_nodes_sort:
  "TopologicalSort [''a'', ''b''] [''a'', ''b''] (Runner_dag two_nodes) = Some (Inr two_levels)"
  by (simp add: TopologicalSort_def deps_of_def Let_def eval_nat_numeral)

text \<open>One node taken from its level start to the barrier.\<close>

lemma run_one_node:
  assumes reach: "run_reachable r L s" and idle: "rs_result s = None" "\<not> rs_active s" "rs_ctx s = None"
    and lvl: "rs_next s < length L" "L ! rs_next s = [i]" and cap: "0 < Runner_maxParallel r"
    and err: "rs_errCh s = None"
  shows "\<exists>t. run_reachable r L t \<and> rs_phase t = [i \<mapsto> Waiting] \<and> rs_statuses t = rs_statuses s"
    and "\<exists>t. run_reachable r L t \<and> rs_result t = None \<and> \<not> rs_active t \<and> rs_ctx t = None \<and>
      rs_next t = Suc (rs_next s) \<and> rs_errCh t = None \<and> rs_firstErr t = rs_firstErr s \<and>
      rs_statuses t = (rs_statuses s)(i \<mapsto> ''success'')"
proof -
  define s1 where "s1 = s\<lparr>rs_next := Suc (rs_next s), rs_active := True, rs_phase := [i \<mapsto> Waiting]\<rparr>"
  have eq: "(\<lambda>x. if x \<in> set [i] then Some Waiting else None) = [i \<mapsto> Waiting]" by auto
  have r1: "run_reachable r L s1"
    using run_next [OF reach level_start [OF idle(1,2) lvl(1) idle(3)]]
    unfolding s1_def lvl(2) eq .
  then show "\<exists>t. run_reachable r L t \<and> rs_phase t = [i \<mapsto> Waiting] \<and> rs_statuses t = rs_statuses s"
    by (intro exI [of _ s1]) (simp add: s1_def)
  define s2 where "s2 = set_phase i Acquired s1"
  have "holders s1 = {}" by (auto simp: holders_def s1_def split: if_splits)
  then have r2: "run_reachable r L s2"
    unfolding s2_def using cap by (intro run_next [OF r1 acquire]) (simp_all add: s1_def)
  define s3 where "s3 = set_phase i Running (emitStatus i ''running'' None s2)"
  have r3: "run_reachable r L s3"
    unfolding s3_def by (intro run_next [OF r2 start_task]) (simp add: s2_def)
  define s4 where "s4 = end_phase i (emitStatus i ''success'' None s3)"
  have r4: "run_reachable r L s4"
    unfolding s4_def by (intro run_next [OF r3 task_success]) (simp add: s3_def)
  note defs = s4_def s3_def s2_def s1_def run_update_defs
  have "run_reachable r L (s4\<lparr>rs_active := False\<rparr>)"
    by (intro run_next [OF r4 barrier_clean]) (simp_all add: defs err)
  then show "\<exists>t. run_reachable r L t \<and> rs_result t = None \<and> \<not> rs_active t \<and> rs_ctx t = None \<and>
      rs_next t = Suc (rs_next s) \<and> rs_errCh t = None \<and> rs_firstErr t = rs_firstErr s \<and>
      rs_statuses t = (rs_statuses s)(i \<mapsto> ''success'')"
    by (intro exI [of _ "s4\<lparr>rs_active := False\<rparr>"]) (simp add: defs idle err)
qed

lemma two_nodes_run:
  obtains s t where
    "run_reachable two_nodes two_levels s" "rs_phase s = [''b'' \<mapsto> Waiting]"
    "rs_statuses s ''a'' = Some ''success''"
    "run_reachable two_nodes two_levels t" "rs_result t = Some None"
proof -
  have "run_reachable two_nodes two_levels (run_start two_nodes)" by (rule run_init)
  from run_one_node(2) [OF this, of "''a''"] obtain s1 where
    s1: "run_reachable two_nodes two_levels s1" "rs_result s1 = None" "\<not> rs_active s1" "rs_ctx s1 = None"
      "rs_next s1 = 1" "rs_errCh s1 = None" "rs_firstErr s1 = None" "rs_statuses s1 ''a'' = Some ''success''"
    by (auto simp: run_start_def)
  from run_one_node(1) [OF s1(1-4), of "''b''"] s1 obtain s where
    s: "run_reachable two_nodes two_levels s" "rs_phase s = [''b'' \<mapsto> Waiting]"
      "rs_statuses s ''a'' = Some ''success''" by auto
  from run_one_node(2) [OF s1(1-4), of "''b''"] s1 obtain s2 where
    s2: "run_reachable two_nodes two_levels s2" "rs_result s2 = None" "\<not> rs_active s2" "rs_next s2 = 2"
      "rs_firstErr s2 = None" by auto
  have "run_reachable two_nodes two_levels (s2\<lparr>rs_result := Some (rs_firstErr s2)\<rparr>)"
    using s2 by (intro run_next [OF s2(1) all_done]) simp_all
  with s s2 show thesis by (intro that [of s "s2\<lparr>rs_result := Some (rs_firstErr s2)\<rparr>"]) simp_all
qed

lemma Run_deps_settled_witness:
  "\<exists>s. run_reachable two_nodes two_levels s \<and> rs_phase s ''b'' = Some Waiting \<and>
     rs_statuses s ''a'' \<in> {Some ''success'', Some ''skipped''}"
proof -
  obtain s where s: "run_reachable two_nodes two_levels s" "rs_phase s = [''b'' \<mapsto> Waiting]"
    by (rule two_nodes_run)
  then have "rs_phase s ''b'' = Some Waiting" by simp
  from Run_deps_settled [OF two_nodes_order two_nodes_order two_nodes_sort s(1) this, of "''a''"]
  show ?thesis using s by (auto simp: deps_of_def)
qed

lemma Run_maxParallel_witness:
  "int (card {i. \<exists>p. rs_phase (run_start two_nodes) i = Some p \<and> holds_slot p}) \<le> 1"
  using Run_maxParallel [OF run_init [of two_nodes two_levels]] by simp

lemma Run_nil_complete_witness:
  "\<exists>s. run_reachable two_nodes two_levels s \<and> rs_result s = Some None \<and>
     rs_statuses s ''a'' \<in> {Some ''success'', Some ''skipped''} \<and>
     rs_statuses s ''b'' \<in> {Some ''success'', Some ''skipped''}"
proof -
  obtain t where t: "run_reachable two_nodes two_levels t" "rs_result t = Some None"
    by (rule two_nodes_run)
  from Run_nil_complete [OF two_nodes_order two_nodes_order two_nodes_sort t] t
  show ?thesis by auto
qed

lemma Run_terminates_witness:
  "(\<exists>t. run_step two_nodes two_levels (run_start two_nodes) t) \<and>
   run_work two_levels (run_start two_nodes) = 14"
  using Run_terminates [OF two_nodes_order two_nodes_order two_nodes_sort run_init]
  by (auto simp: run_start_def run_work_def)

end
