(* ===== verification/RunStatus.thy ===== *)
theory RunStatus
  imports Prelude
begin

text \<open>
  The run and stage state machines of \<open>backend/internal/runstate\<close> (\<open>fsm.go\<close>, \<open>run.go\<close>,
  \<open>stage.go\<close>, \<open>transition.go\<close>).  States and events are Go strings, cast freely from
  \<open>model.RunStatus\<close>, so they are \<open>string\<close> here too and every theorem covers strings that
  are no declared state.  The transition rules are delegated to the package
  \<open>github.com/looplab/fsm\<close>, whose two entry points are parameters: \<open>lf_event cur evs e\<close> is
  the outcome of \<open>NewFSM(cur, evs, nil).Event(e)\<close>, \<open>lf_can cur evs e\<close> that of \<open>Can(e)\<close>.
\<close>

record Transition =
  Tr_From :: string
  Tr_Event :: string
  Tr_To :: string

record EventDesc =
  ED_Name :: string
  ED_Src :: "string list"
  ED_Dst :: string

datatype looplab_error = InvalidEventError | UnknownEventError | OtherEventError

datatype runstate_error =
    ErrInvalidTransition string string string
  | EventFailed string string string looplab_error

record FSM =
  FSM_current :: string
  FSM_events :: "EventDesc list"
  FSM_names :: string

record Builder =
  Builder_table :: "string \<times> string \<rightharpoonup> string"
  Builder_name :: string

definition NewBuilder :: "string \<Rightarrow> Builder" where
  "NewBuilder nm = \<lparr>Builder_table = Map.empty, Builder_name = nm\<rparr>"

text \<open>\<open>None\<close> is the panic on a duplicate edge.\<close>

definition Allow :: "Transition \<Rightarrow> Builder \<Rightarrow> Builder option" where
  "Allow t b =
     (let k = (Tr_From t, Tr_Event t) in
      if Builder_table b k \<noteq> None then None
      else Some (b\<lparr>Builder_table := (Builder_table b)(k \<mapsto> Tr_To t)\<rparr>))"

fun allow_all :: "Transition list \<Rightarrow> Builder \<Rightarrow> Builder option" where
  "allow_all [] b = Some b"
| "allow_all (t # ts) b = (case Allow t b of None \<Rightarrow> None | Some b' \<Rightarrow> allow_all ts b')"

text \<open>
  \<open>events\<close> groups the table by event and target; \<open>ks\<close> is the order of the loop over the
  table, \<open>gs\<close> that of the loop over the groups.
\<close>

fun group_table ::
  "(string \<times> string \<rightharpoonup> string) \<Rightarrow> (string \<times> string) list
    \<Rightarrow> (string \<times> string \<rightharpoonup> string list) \<Rightarrow> (string \<times> string \<rightharpoonup> string list)" where
  "group_table tab [] groups = groups"
| "group_table tab ((src, ev) # ks) groups =
     (case tab (src, ev) of
        None \<Rightarrow> group_table tab ks groups
      | Some dst \<Rightarrow>
          group_table tab ks (groups((ev, dst) \<mapsto>
            (case groups (ev, dst) of None \<Rightarrow> [] | Some srcs \<Rightarrow> srcs) @ [src])))"

definition Builder_events ::
  "(string \<times> string) list \<Rightarrow> (string \<times> string) list \<Rightarrow> Builder \<Rightarrow> EventDesc list" where
  "Builder_events ks gs b =
     (let groups = group_table (Builder_table b) ks Map.empty in
      map (\<lambda>(ev, dst). \<lparr>ED_Name = ev,
             ED_Src = (case groups (ev, dst) of None \<Rightarrow> [] | Some srcs \<Rightarrow> srcs), ED_Dst = dst\<rparr>) gs)"

text \<open>A build visits the table and the groups, each in an order of its own.\<close>

definition build_orders :: "Builder \<Rightarrow> (string \<times> string) list \<Rightarrow> (string \<times> string) list \<Rightarrow> bool" where
  "build_orders b ks gs \<longleftrightarrow>
     iter_order ks (Builder_table b) \<and> iter_order gs (group_table (Builder_table b) ks Map.empty)"

definition Build ::
  "(string \<times> string) list \<Rightarrow> (string \<times> string) list \<Rightarrow> Builder \<Rightarrow> string \<Rightarrow> FSM" where
  "Build ks gs b initial =
     \<lparr>FSM_current = initial, FSM_events = Builder_events ks gs b, FSM_names = Builder_name b\<rparr>"

type_synonym lf_event = "string \<Rightarrow> EventDesc list \<Rightarrow> string \<Rightarrow> looplab_error + string"
type_synonym lf_can = "string \<Rightarrow> EventDesc list \<Rightarrow> string \<Rightarrow> bool"

definition FSM_Can :: "lf_can \<Rightarrow> FSM \<Rightarrow> string \<Rightarrow> bool" where
  "FSM_Can lf_can f event = lf_can (FSM_current f) (FSM_events f) event"

text \<open>\<open>Apply\<close> returns the machine unchanged beside an error.\<close>

definition FSM_Apply :: "lf_event \<Rightarrow> FSM \<Rightarrow> string \<Rightarrow> FSM \<times> runstate_error option" where
  "FSM_Apply lf_event f event =
     (case lf_event (FSM_current f) (FSM_events f) event of
        Inl InvalidEventError \<Rightarrow> (f, Some (ErrInvalidTransition (FSM_names f) (FSM_current f) event))
      | Inl UnknownEventError \<Rightarrow> (f, Some (ErrInvalidTransition (FSM_names f) (FSM_current f) event))
      | Inl OtherEventError \<Rightarrow>
          (f, Some (EventFailed (FSM_names f) (FSM_current f) event OtherEventError))
      | Inr st \<Rightarrow> (f\<lparr>FSM_current := st\<rparr>, None))"

text \<open>\<open>None\<close> is the panic.\<close>

definition MustApply :: "lf_event \<Rightarrow> FSM \<Rightarrow> string \<Rightarrow> FSM option" where
  "MustApply lf_event f event =
     (case FSM_Apply lf_event f event of (f', None) \<Rightarrow> Some f' | (_, Some _) \<Rightarrow> None)"

subsection \<open>The two tables\<close>

definition run_transitions :: "Transition list" where
  "run_transitions =
     [\<lparr>Tr_From = ''pending'', Tr_Event = ''start'', Tr_To = ''running''\<rparr>,
      \<lparr>Tr_From = ''pending'', Tr_Event = ''cancel'', Tr_To = ''cancelled''\<rparr>,
      \<lparr>Tr_From = ''running'', Tr_Event = ''succeed'', Tr_To = ''success''\<rparr>,
      \<lparr>Tr_From = ''running'', Tr_Event = ''fail'', Tr_To = ''failed''\<rparr>,
      \<lparr>Tr_From = ''running'', Tr_Event = ''cancel'', Tr_To = ''cancelled''\<rparr>]"

definition runBuilder :: Builder where
  "runBuilder = the (allow_all run_transitions (NewBuilder ''run''))"

definition stage_transitions :: "Transition list" where
  "stage_transitions =
     [\<lparr>Tr_From = ''pending'', Tr_Event = ''start'', Tr_To = ''running''\<rparr>,
      \<lparr>Tr_From = ''pending'', Tr_Event = ''cancel'', Tr_To = ''cancelled''\<rparr>,
      \<lparr>Tr_From = ''pending'', Tr_Event = ''skip'', Tr_To = ''skipped''\<rparr>,
      \<lparr>Tr_From = ''running'', Tr_Event = ''succeed'', Tr_To = ''success''\<rparr>,
      \<lparr>Tr_From = ''running'', Tr_Event = ''fail'', Tr_To = ''failed''\<rparr>,
      \<lparr>Tr_From = ''running'', Tr_Event = ''cancel'', Tr_To = ''cancelled''\<rparr>]"

definition stageBuilder :: Builder where
  "stageBuilder = the (allow_all stage_transitions (NewBuilder ''stage''))"

definition IsTerminal :: "string \<Rightarrow> bool" where
  "IsTerminal s \<longleftrightarrow> s = ''success'' \<or> s = ''failed'' \<or> s = ''cancelled'' \<or> s = ''skipped''"

definition TransitionRun ::
  "lf_event \<Rightarrow> (string \<times> string) list \<Rightarrow> (string \<times> string) list \<Rightarrow> string \<Rightarrow> string
    \<Rightarrow> string \<times> runstate_error option" where
  "TransitionRun lf_event ks gs current event =
     (case FSM_Apply lf_event (Build ks gs runBuilder current) event of
        (_, Some e) \<Rightarrow> (current, Some e)
      | (next, None) \<Rightarrow> (FSM_current next, None))"

definition TransitionStage ::
  "lf_event \<Rightarrow> (string \<times> string) list \<Rightarrow> (string \<times> string) list \<Rightarrow> string \<Rightarrow> string
    \<Rightarrow> string \<times> runstate_error option" where
  "TransitionStage lf_event ks gs current event =
     (case FSM_Apply lf_event (Build ks gs stageBuilder current) event of
        (_, Some e) \<Rightarrow> (current, Some e)
      | (next, None) \<Rightarrow> (FSM_current next, None))"

definition CanTransitionRun ::
  "lf_can \<Rightarrow> (string \<times> string) list \<Rightarrow> (string \<times> string) list \<Rightarrow> string \<Rightarrow> string \<Rightarrow> bool" where
  "CanTransitionRun lf_can ks gs current event = FSM_Can lf_can (Build ks gs runBuilder current) event"

subsection \<open>What the two builders hold\<close>

lemma run_table:
  "allow_all run_transitions (NewBuilder ''run'') \<noteq> None"
  "Builder_table runBuilder =
     [(''pending'', ''start'') \<mapsto> ''running'', (''pending'', ''cancel'') \<mapsto> ''cancelled'',
      (''running'', ''succeed'') \<mapsto> ''success'', (''running'', ''fail'') \<mapsto> ''failed'',
      (''running'', ''cancel'') \<mapsto> ''cancelled'']"
  "Builder_name runBuilder = ''run''"
  by (simp_all add: runBuilder_def run_transitions_def NewBuilder_def Allow_def)

lemma stage_table:
  "allow_all stage_transitions (NewBuilder ''stage'') \<noteq> None"
  "Builder_table stageBuilder =
     [(''pending'', ''start'') \<mapsto> ''running'', (''pending'', ''cancel'') \<mapsto> ''cancelled'',
      (''pending'', ''skip'') \<mapsto> ''skipped'',
      (''running'', ''succeed'') \<mapsto> ''success'', (''running'', ''fail'') \<mapsto> ''failed'',
      (''running'', ''cancel'') \<mapsto> ''cancelled'']"
  "Builder_name stageBuilder = ''stage''"
  by (simp_all add: stageBuilder_def stage_transitions_def NewBuilder_def Allow_def)

subsection \<open>The grouping loses no edge\<close>

definition desc_edge :: "EventDesc list \<Rightarrow> string \<Rightarrow> string \<Rightarrow> string \<Rightarrow> bool" where
  "desc_edge evs src ev dst \<longleftrightarrow>
     (\<exists>D \<in> set evs. ED_Name D = ev \<and> src \<in> set (ED_Src D) \<and> ED_Dst D = dst)"

lemma group_table_member:
  "(\<exists>srcs. group_table tab ks groups (ev, dst) = Some srcs \<and> src \<in> set srcs) \<longleftrightarrow>
   (\<exists>srcs. groups (ev, dst) = Some srcs \<and> src \<in> set srcs) \<or>
   ((src, ev) \<in> set ks \<and> tab (src, ev) = Some dst)"
proof (induction ks arbitrary: groups)
  case Nil
  show ?case by simp
next
  case (Cons k ks)
  obtain s e where k: "k = (s, e)" by (cases k)
  show ?case
  proof (cases "tab (s, e)")
    case None
    with Cons.IH k show ?thesis by auto
  next
    case (Some d)
    then show ?thesis
      unfolding k group_table.simps Some option.case Cons.IH
      by (cases "groups (e, d)") (use Some in auto)
  qed
qed

lemma events_edges:
  assumes "build_orders b ks gs"
  shows "desc_edge (Builder_events ks gs b) src ev dst \<longleftrightarrow> Builder_table b (src, ev) = Some dst"
proof -
  let ?g = "group_table (Builder_table b) ks Map.empty"
  have gs: "set gs = dom ?g" and ks: "set ks = dom (Builder_table b)"
    using assms by (auto simp: build_orders_def)
  have "desc_edge (Builder_events ks gs b) src ev dst \<longleftrightarrow>
      (ev, dst) \<in> set gs \<and> (\<exists>srcs. ?g (ev, dst) = Some srcs \<and> src \<in> set srcs)"
  proof
    assume "desc_edge (Builder_events ks gs b) src ev dst"
    then show "(ev, dst) \<in> set gs \<and> (\<exists>srcs. ?g (ev, dst) = Some srcs \<and> src \<in> set srcs)"
      by (cases "?g (ev, dst)") (auto simp: desc_edge_def Builder_events_def Let_def)
  next
    assume "(ev, dst) \<in> set gs \<and> (\<exists>srcs. ?g (ev, dst) = Some srcs \<and> src \<in> set srcs)"
    then obtain srcs where "(ev, dst) \<in> set gs" "?g (ev, dst) = Some srcs" "src \<in> set srcs" by blast
    then show "desc_edge (Builder_events ks gs b) src ev dst"
      unfolding desc_edge_def Builder_events_def Let_def
      by (intro bexI [of _ "\<lparr>ED_Name = ev, ED_Src = srcs, ED_Dst = dst\<rparr>"])
        (auto intro: rev_image_eqI)
  qed
  also have "\<dots> \<longleftrightarrow> (\<exists>srcs. ?g (ev, dst) = Some srcs \<and> src \<in> set srcs)"
    unfolding gs by auto
  also have "\<dots> \<longleftrightarrow> Builder_table b (src, ev) = Some dst"
    unfolding group_table_member using ks by auto
  finally show ?thesis .
qed

subsection \<open>The transition functions\<close>

text \<open>
  What the package documents: an event declared for the current state moves the machine to
  the declared target (when the target is another state and only one target is declared),
  and an event not declared for it is refused as invalid or unknown; \<open>Can\<close> tells which.
\<close>

definition looplab_ok :: "lf_event \<Rightarrow> bool" where
  "looplab_ok lf_event \<longleftrightarrow>
     (\<forall>evs cur ev.
        (\<forall>dst. desc_edge evs cur ev dst \<and> dst \<noteq> cur \<and> (\<forall>d. desc_edge evs cur ev d \<longrightarrow> d = dst) \<longrightarrow>
           lf_event cur evs ev = Inr dst) \<and>
        ((\<forall>dst. \<not> desc_edge evs cur ev dst) \<longrightarrow>
           lf_event cur evs ev \<in> {Inl InvalidEventError, Inl UnknownEventError}))"

definition looplab_can_ok :: "lf_can \<Rightarrow> bool" where
  "looplab_can_ok lf_can \<longleftrightarrow>
     (\<forall>evs cur ev. lf_can cur evs ev \<longleftrightarrow> (\<exists>dst. desc_edge evs cur ev dst))"

lemma Apply_table:
  assumes lf: "looplab_ok lf_event" and ord: "build_orders b ks gs"
    and no_loop: "Builder_table b (cur, ev) \<noteq> Some cur"
  shows "FSM_Apply lf_event (Build ks gs b cur) ev =
    (case Builder_table b (cur, ev) of
       None \<Rightarrow> (Build ks gs b cur, Some (ErrInvalidTransition (Builder_name b) cur ev))
     | Some dst \<Rightarrow> (Build ks gs b dst, None))"
proof (cases "Builder_table b (cur, ev)")
  case None
  then have "\<forall>dst. \<not> desc_edge (Builder_events ks gs b) cur ev dst"
    by (simp add: events_edges [OF ord])
  then have "lf_event cur (Builder_events ks gs b) ev \<in> {Inl InvalidEventError, Inl UnknownEventError}"
    using lf unfolding looplab_ok_def by blast
  with None show ?thesis by (auto simp: FSM_Apply_def Build_def)
next
  case (Some dst)
  then have "desc_edge (Builder_events ks gs b) cur ev dst"
    "\<forall>d. desc_edge (Builder_events ks gs b) cur ev d \<longrightarrow> d = dst" "dst \<noteq> cur"
    using no_loop by (auto simp: events_edges [OF ord])
  then have "lf_event cur (Builder_events ks gs b) ev = Inr dst"
    using lf unfolding looplab_ok_def by blast
  with Some show ?thesis by (simp add: FSM_Apply_def Build_def)
qed

lemma no_self_edge:
  "Builder_table runBuilder (cur, ev) \<noteq> Some cur" "Builder_table stageBuilder (cur, ev) \<noteq> Some cur"
  by (auto simp: run_table stage_table)

text \<open>
  \<open>TransitionRun\<close> follows exactly the five declared edges, whatever order Go visits the
  transition table in, and on every other pair it returns the current status unchanged beside
  \<open>ErrInvalidTransition\<close>.
\<close>

theorem TransitionRun_table:
  assumes "looplab_ok lf_event" and "build_orders runBuilder ks gs"
  shows "TransitionRun lf_event ks gs cur ev =
    (if cur = ''pending'' \<and> ev = ''start'' then (''running'', None)
     else if cur = ''pending'' \<and> ev = ''cancel'' then (''cancelled'', None)
     else if cur = ''running'' \<and> ev = ''succeed'' then (''success'', None)
     else if cur = ''running'' \<and> ev = ''fail'' then (''failed'', None)
     else if cur = ''running'' \<and> ev = ''cancel'' then (''cancelled'', None)
     else (cur, Some (ErrInvalidTransition ''run'' cur ev)))"
  unfolding TransitionRun_def Apply_table [OF assms no_self_edge(1)]
  by (simp add: run_table Build_def)

lemma TransitionStage_table:
  assumes "looplab_ok lf_event" and "build_orders stageBuilder ks gs"
  shows "TransitionStage lf_event ks gs cur ev =
    (if cur = ''pending'' \<and> ev = ''start'' then (''running'', None)
     else if cur = ''pending'' \<and> ev = ''cancel'' then (''cancelled'', None)
     else if cur = ''pending'' \<and> ev = ''skip'' then (''skipped'', None)
     else if cur = ''running'' \<and> ev = ''succeed'' then (''success'', None)
     else if cur = ''running'' \<and> ev = ''fail'' then (''failed'', None)
     else if cur = ''running'' \<and> ev = ''cancel'' then (''cancelled'', None)
     else (cur, Some (ErrInvalidTransition ''stage'' cur ev)))"
  unfolding TransitionStage_def Apply_table [OF assms no_self_edge(2)]
  by (simp add: stage_table Build_def)

text \<open>A history of stage events, errors ignored as the callers do.\<close>

fun stage_history ::
  "lf_event \<Rightarrow> (string \<times> string) list \<Rightarrow> (string \<times> string) list \<Rightarrow> string \<Rightarrow> string list \<Rightarrow> string" where
  "stage_history lf ks gs cur [] = cur"
| "stage_history lf ks gs cur (ev # evs) =
     stage_history lf ks gs (fst (TransitionStage lf ks gs cur ev)) evs"

lemma history_terminal:
  assumes "looplab_ok lf" and "build_orders stageBuilder ks gs" and "IsTerminal cur"
  shows "stage_history lf ks gs cur evs = cur"
proof (induction evs)
  case (Cons ev evs)
  have "fst (TransitionStage lf ks gs cur ev) = cur"
    using assms(3) by (auto simp: TransitionStage_table [OF assms(1,2)] IsTerminal_def)
  with Cons show ?case by simp
qed simp

lemmas history_ends = history_terminal [where cur = "''success''", simplified IsTerminal_def, simplified]
  history_terminal [where cur = "''failed''", simplified IsTerminal_def, simplified]
  history_terminal [where cur = "''cancelled''", simplified IsTerminal_def, simplified]
  history_terminal [where cur = "''skipped''", simplified IsTerminal_def, simplified]

lemma history_running:
  assumes "looplab_ok lf" and "build_orders stageBuilder ks gs"
  shows "stage_history lf ks gs ''running'' evs \<in> {''running'', ''success'', ''failed'', ''cancelled''}"
proof (induction evs)
  case (Cons ev evs)
  have "fst (TransitionStage lf ks gs ''running'' ev)
      \<in> {''running'', ''success'', ''failed'', ''cancelled''}"
    by (simp add: TransitionStage_table [OF assms])
  then show ?case using Cons history_ends [OF assms] by fastforce
qed simp

lemma history_pending:
  assumes "looplab_ok lf" and "build_orders stageBuilder ks gs"
  shows "stage_history lf ks gs ''pending'' evs
    \<in> {''pending'', ''running'', ''success'', ''failed'', ''cancelled'', ''skipped''}"
proof (induction evs)
  case (Cons ev evs)
  have "fst (TransitionStage lf ks gs ''pending'' ev)
      \<in> {''pending'', ''running'', ''cancelled'', ''skipped''}"
    by (simp add: TransitionStage_table [OF assms])
  then show ?case using Cons history_running [OF assms, of evs] history_ends [OF assms] by fastforce
qed simp

text \<open>
  A terminal stage status is never left, whatever events arrive; a stage that starts
  pending only ever holds one of the six declared statuses, and one that is running never
  becomes pending or skipped again.
\<close>

theorem stage_terminal_sticky:
  assumes "looplab_ok lf" and "build_orders stageBuilder ks gs"
  shows "(IsTerminal cur \<longrightarrow> stage_history lf ks gs cur evs = cur) \<and>
    (cur = ''running'' \<longrightarrow>
       stage_history lf ks gs cur evs \<in> {''running'', ''success'', ''failed'', ''cancelled''}) \<and>
    (cur = ''pending'' \<longrightarrow> stage_history lf ks gs cur evs
       \<in> {''pending'', ''running'', ''success'', ''failed'', ''cancelled'', ''skipped''})"
  using history_terminal [OF assms] history_running [OF assms] history_pending [OF assms] by blast

lemma CanTransitionRun_iff:
  assumes "looplab_ok lf_event" "looplab_can_ok lf_can" "build_orders runBuilder ks gs"
  shows "CanTransitionRun lf_can ks gs cur ev \<longleftrightarrow> snd (TransitionRun lf_event ks gs cur ev) = None"
  using assms(2) events_edges [OF assms(3), of cur ev] Apply_table [OF assms(1,3) no_self_edge(1)]
  by (auto simp: CanTransitionRun_def FSM_Can_def looplab_can_ok_def TransitionRun_def
      Build_def split: option.splits)

subsection \<open>A concrete machine, used by the witnesses\<close>

definition looplab_ref :: "lf_event" where
  "looplab_ref cur evs ev =
     (case filter (\<lambda>D. ED_Name D = ev \<and> cur \<in> set (ED_Src D)) evs of
        [] \<Rightarrow> Inl (if ev \<in> set (map ED_Name evs) then InvalidEventError else UnknownEventError)
      | D # _ \<Rightarrow> Inr (ED_Dst D))"

lemma looplab_ref_ok: "looplab_ok looplab_ref"
proof -
  have hit: "looplab_ref cur evs ev = Inr dst"
    if "desc_edge evs cur ev dst" "\<forall>d. desc_edge evs cur ev d \<longrightarrow> d = dst" for evs cur ev dst
  proof (cases "filter (\<lambda>D. ED_Name D = ev \<and> cur \<in> set (ED_Src D)) evs")
    case Nil
    with that(1) show ?thesis by (auto simp: desc_edge_def filter_empty_conv)
  next
    case (Cons D Ds)
    have "D \<in> set (filter (\<lambda>D. ED_Name D = ev \<and> cur \<in> set (ED_Src D)) evs)"
      unfolding Cons by simp
    then have "desc_edge evs cur ev (ED_Dst D)" by (auto simp: desc_edge_def)
    with that(2) Cons show ?thesis by (simp add: looplab_ref_def)
  qed
  have miss: "looplab_ref cur evs ev \<in> {Inl InvalidEventError, Inl UnknownEventError}"
    if "\<forall>dst. \<not> desc_edge evs cur ev dst" for evs cur ev
  proof -
    have "filter (\<lambda>D. ED_Name D = ev \<and> cur \<in> set (ED_Src D)) evs = []"
      using that by (auto simp: desc_edge_def filter_empty_conv)
    then show ?thesis by (simp add: looplab_ref_def)
  qed
  show ?thesis unfolding looplab_ok_def using hit miss by blast
qed

abbreviation run_keys :: "(string \<times> string) list" where
  "run_keys \<equiv> [(''pending'', ''start''), (''pending'', ''cancel''), (''running'', ''succeed''),
     (''running'', ''fail''), (''running'', ''cancel'')]"

abbreviation run_groups :: "(string \<times> string) list" where
  "run_groups \<equiv> [(''start'', ''running''), (''cancel'', ''cancelled''), (''succeed'', ''success''),
     (''fail'', ''failed'')]"

lemma run_build_orders: "build_orders runBuilder run_keys run_groups"
  by (auto simp: build_orders_def iter_order_def run_table)

lemma stage_build_orders:
  "build_orders stageBuilder ((''pending'', ''skip'') # run_keys) ((''skip'', ''skipped'') # run_groups)"
  by (auto simp: build_orders_def iter_order_def stage_table)

lemma TransitionRun_table_witness:
  "TransitionRun looplab_ref run_keys run_groups ''pending'' ''start'' = (''running'', None) \<and>
   TransitionRun looplab_ref run_keys run_groups ''success'' ''start''
     = (''success'', Some (ErrInvalidTransition ''run'' ''success'' ''start''))"
  by (simp add: TransitionRun_table [OF looplab_ref_ok run_build_orders])

lemma stage_terminal_sticky_witness:
  "stage_history looplab_ref ((''pending'', ''skip'') # run_keys) ((''skip'', ''skipped'') # run_groups)
     ''skipped'' [''start'', ''fail''] = ''skipped''"
  using stage_terminal_sticky [OF looplab_ref_ok stage_build_orders,
      where cur = "''skipped''" and evs = "[''start'', ''fail'']"]
  by (simp add: IsTerminal_def)

end
