(* ===== verification/Retry.thy ===== *)
theory Retry
  imports Prelude
begin

text \<open>
  The retry loop of \<open>backend/internal/retry/retry.go\<close>.  The operation, the context and the
  random source are the environment: \<open>op k\<close> is the result of the \<open>k\<close>-th call (\<open>None\<close> for
  nil), \<open>ctx_err k\<close> that of \<open>ctx.Err()\<close> before it, \<open>ctx_wait k\<close> tells whether the wait after
  it is cut short by the context, and \<open>rnd k\<close> is the number the jitter reads.
\<close>

record 'e Policy =
  Policy_MaxAttempts :: int
  Policy_Initial :: int
  Policy_Max :: int
  Policy_IsTransient :: "('e \<Rightarrow> bool) option"

definition retry_jitter :: "int \<Rightarrow> int \<Rightarrow> int" where
  "retry_jitter rnd d = (if d \<le> 0 then 0 else (rnd mod 2 ^ 62) mod (d div 2 + 1))"

text \<open>
  The loop, at \<open>attempt\<close> with the current delay; the last two arguments
  collect the calls and the waits.
  The number of attempts that are left bounds the recursion.
\<close>

function do_loop ::
  "'e Policy \<Rightarrow> (int \<Rightarrow> 'e option) \<Rightarrow> (int \<Rightarrow> 'e option) \<Rightarrow> (int \<Rightarrow> 'e option) \<Rightarrow> (int \<Rightarrow> int)
    \<Rightarrow> int \<Rightarrow> int \<Rightarrow> 'e option \<Rightarrow> int list \<Rightarrow> int list \<Rightarrow> 'e option \<times> int list \<times> int list" where
  "do_loop p op ctx_err ctx_wait rnd attempt delay lastErr calls waits =
     (if attempt \<le> Policy_MaxAttempts p then
        (case ctx_err attempt of
           Some e \<Rightarrow> (Some e, calls, waits)
         | None \<Rightarrow>
             (case op attempt of
                None \<Rightarrow> (None, calls @ [attempt], waits)
              | Some e \<Rightarrow>
                  if attempt = Policy_MaxAttempts p then (Some e, calls @ [attempt], waits)
                  else if (case Policy_IsTransient p of None \<Rightarrow> False | Some tr \<Rightarrow> \<not> tr e)
                  then (Some e, calls @ [attempt], waits)
                  else
                    (let jittered = wrap64 (delay + retry_jitter (rnd attempt) delay) in
                     case ctx_wait attempt of
                       Some e' \<Rightarrow> (Some e', calls @ [attempt], waits @ [jittered])
                     | None \<Rightarrow>
                         let delay' = (if delay < Policy_Max p
                                       then (let d2 = wrap64 (delay * 2) in if d2 > Policy_Max p then Policy_Max p else d2)
                                       else delay)
                         in do_loop p op ctx_err ctx_wait rnd (attempt + 1) delay' (Some e)
                              (calls @ [attempt]) (waits @ [jittered]))))
      else (lastErr, calls, waits))"
  by pat_completeness auto
termination
  by (relation "measure (\<lambda>(p, op, ce, cw, rnd, attempt, _). nat (Policy_MaxAttempts p + 1 - attempt))") auto

declare do_loop.simps [simp del]

definition Do ::
  "'e Policy \<Rightarrow> (int \<Rightarrow> 'e option) \<Rightarrow> (int \<Rightarrow> 'e option) \<Rightarrow> (int \<Rightarrow> 'e option) \<Rightarrow> (int \<Rightarrow> int)
    \<Rightarrow> 'e option \<times> int list \<times> int list" where
  "Do p op ctx_err ctx_wait rnd =
     (let p1 = (if Policy_MaxAttempts p < 1 then p\<lparr>Policy_MaxAttempts := 1\<rparr> else p);
          p2 = (if Policy_Initial p1 \<le> 0 then p1\<lparr>Policy_Initial := 500 * Millisecond\<rparr> else p1);
          p3 = (if Policy_Max p2 \<le> 0 then p2\<lparr>Policy_Max := 10 * Second\<rparr> else p2)
      in do_loop p3 op ctx_err ctx_wait rnd 1 (Policy_Initial p3) None [] [])"

text \<open>The numbers the defaults stand for.\<close>

definition max_attempts :: "'e Policy \<Rightarrow> int" where
  "max_attempts p = (if Policy_MaxAttempts p < 1 then 1 else Policy_MaxAttempts p)"

definition initial_delay :: "'e Policy \<Rightarrow> int" where
  "initial_delay p = (if Policy_Initial p \<le> 0 then 500 * Millisecond else Policy_Initial p)"

definition max_delay :: "'e Policy \<Rightarrow> int" where
  "max_delay p = (if Policy_Max p \<le> 0 then 10 * Second else Policy_Max p)"

lemma jitter_bounds: "0 \<le> retry_jitter r d" "0 < d \<Longrightarrow> retry_jitter r d \<le> d div 2"
proof -
  show "0 \<le> retry_jitter r d" by (simp add: retry_jitter_def)
  assume "0 < d"
  then have "(r mod 2 ^ 62) mod (d div 2 + 1) < d div 2 + 1" by (intro pos_mod_bound) simp
  with \<open>0 < d\<close> show "retry_jitter r d \<le> d div 2" by (simp add: retry_jitter_def)
qed

definition is_transient :: "'e Policy \<Rightarrow> 'e \<Rightarrow> bool" where
  "is_transient p e = (case Policy_IsTransient p of None \<Rightarrow> True | Some tr \<Rightarrow> tr e)"

definition next_delay :: "'e Policy \<Rightarrow> int \<Rightarrow> int" where
  "next_delay p delay = (if delay < Policy_Max p
     then (let d2 = wrap64 (delay * 2) in if d2 > Policy_Max p then Policy_Max p else d2) else delay)"

text \<open>The ways one round can end, with the round that follows it.\<close>

lemma do_loop_step:
  assumes "attempt \<le> Policy_MaxAttempts p"
  shows "do_loop p op ce cw rnd attempt delay le calls waits =
    (case ce attempt of Some e \<Rightarrow> (Some e, calls, waits) | None \<Rightarrow>
     case op attempt of None \<Rightarrow> (None, calls @ [attempt], waits) | Some e \<Rightarrow>
     if attempt = Policy_MaxAttempts p \<or> \<not> is_transient p e then (Some e, calls @ [attempt], waits)
     else case cw attempt of
       Some e' \<Rightarrow> (Some e', calls @ [attempt], waits @ [wrap64 (delay + retry_jitter (rnd attempt) delay)])
     | None \<Rightarrow> do_loop p op ce cw rnd (attempt + 1) (next_delay p delay) (Some e)
         (calls @ [attempt]) (waits @ [wrap64 (delay + retry_jitter (rnd attempt) delay)]))"
  using assms
  by (subst do_loop.simps)
    (auto simp: Let_def is_transient_def next_delay_def split: option.splits)

definition calls_ok ::
  "'e Policy \<Rightarrow> (int \<Rightarrow> 'e option) \<Rightarrow> (int \<Rightarrow> 'e option) \<Rightarrow> (int \<Rightarrow> 'e option) \<Rightarrow> int \<Rightarrow> int \<Rightarrow> 'e option \<Rightarrow> bool" where
  "calls_ok p op ce cw attempt n res \<longleftrightarrow>
     attempt - 1 \<le> n \<and> n \<le> Policy_MaxAttempts p \<and>
     (\<forall>k. attempt \<le> k \<and> k < n \<longrightarrow> (\<exists>e. op k = Some e \<and> is_transient p e)) \<and>
     (res = None \<longleftrightarrow> attempt \<le> n \<and> op n = None) \<and>
     ((\<forall>k. ce k = None \<and> cw k = None) \<longrightarrow> attempt \<le> n \<and> res = op n \<and>
        (\<forall>e. op n = Some e \<longrightarrow> n = Policy_MaxAttempts p \<or> \<not> is_transient p e))"

lemma do_loop_calls:
  assumes "attempt \<le> Policy_MaxAttempts p"
    and "do_loop p op ce cw rnd attempt delay le calls waits = (res, cs, ws)"
  shows "\<exists>n. cs = calls @ [attempt..n] \<and> calls_ok p op ce cw attempt n res"
  using assms
proof (induction "nat (Policy_MaxAttempts p - attempt)" arbitrary: attempt delay le calls waits)
  case (0 attempt delay le calls waits)
  then have "attempt = Policy_MaxAttempts p" by simp
  with 0 show ?case
    by (cases "ce attempt"; cases "op attempt")
      (force simp: do_loop_step calls_ok_def intro: exI [of _ attempt] exI [of _ "attempt - 1"])+
next
  case (Suc m attempt delay le calls waits)
  then have less: "attempt < Policy_MaxAttempts p" by simp
  note eq = Suc.prems(2) [unfolded do_loop_step [OF Suc.prems(1)]]
  consider (ctx) e where "ce attempt = Some e"
    | (ok) "ce attempt = None" "op attempt = None"
    | (perm) e where "ce attempt = None" "op attempt = Some e" "\<not> is_transient p e"
    | (cut) e e' where "ce attempt = None" "op attempt = Some e" "is_transient p e" "cw attempt = Some e'"
    | (again) e where "ce attempt = None" "op attempt = Some e" "is_transient p e" "cw attempt = None"
    by (cases "ce attempt"; cases "op attempt"; cases "cw attempt") blast+
  then show ?case
  proof cases
    case ctx
    then have "res = Some e" "cs = calls" using eq by simp_all
    with ctx less show ?thesis
      by (intro exI [of _ "attempt - 1"]) (auto simp: calls_ok_def intro: exI [of _ attempt])
  next
    case ok
    with eq less show ?thesis by (intro exI [of _ attempt]) (auto simp: calls_ok_def)
  next
    case perm
    with eq less show ?thesis by (intro exI [of _ attempt]) (auto simp: calls_ok_def)
  next
    case cut
    then have "res = Some e'" "cs = calls @ [attempt]" using eq less by simp_all
    with cut less show ?thesis
      by (intro exI [of _ attempt]) (auto simp: calls_ok_def intro: exI [of _ attempt])
  next
    case again
    have "m = nat (Policy_MaxAttempts p - (attempt + 1))" "attempt + 1 \<le> Policy_MaxAttempts p"
      using Suc.hyps(2) less by simp_all
    from Suc.hyps(1) [OF this, of "next_delay p delay" "Some e" "calls @ [attempt]"
        "waits @ [wrap64 (delay + retry_jitter (rnd attempt) delay)]"] eq again less
    obtain n where n: "cs = (calls @ [attempt]) @ [attempt + 1..n]"
      "calls_ok p op ce cw (attempt + 1) n res" by auto
    then have "cs = calls @ [attempt..n]" by (simp add: calls_ok_def upto_rec1)
    moreover have "calls_ok p op ce cw attempt n res"
      using n(2) again less unfolding calls_ok_def
      by (smt (verit) option.distinct(1))
    ultimately show ?thesis by blast
  qed
qed

text \<open>The waits: the delay doubles up to the cap, the jitter adds at most half of it.\<close>

definition delay_at :: "'e Policy \<Rightarrow> int \<Rightarrow> nat \<Rightarrow> int" where
  "delay_at p delay i = (if delay < Policy_Max p then min (delay * 2 ^ i) (Policy_Max p) else delay)"

lemma delay_at_next:
  assumes "0 < delay" "delay \<le> 2 ^ 61" "0 < Policy_Max p" "Policy_Max p \<le> 2 ^ 61"
  shows "0 < next_delay p delay" "next_delay p delay \<le> 2 ^ 61"
    "delay_at p (next_delay p delay) i = delay_at p delay (Suc i)"
proof -
  have w: "wrap64 (delay * 2) = delay * 2" using assms by (intro wrap64_id) auto
  then show "0 < next_delay p delay" "next_delay p delay \<le> 2 ^ 61"
    using assms by (auto simp: next_delay_def Let_def)
  have big: "Policy_Max p \<le> delay * (2 * 2 ^ i)" if "Policy_Max p \<le> delay * 2"
  proof -
    have "delay * 2 * 1 \<le> delay * 2 * 2 ^ i" using assms(1) by (intro mult_left_mono) auto
    with that show ?thesis by (simp add: mult.assoc)
  qed
  show "delay_at p (next_delay p delay) i = delay_at p delay (Suc i)"
    using big by (auto simp: delay_at_def next_delay_def Let_def w min_def)
qed

lemma wait_bounds:
  assumes "0 < delay" "delay \<le> 2 ^ 61"
  shows "delay \<le> wrap64 (delay + retry_jitter r delay)"
    "wrap64 (delay + retry_jitter r delay) \<le> delay + delay div 2"
proof -
  note j = jitter_bounds(1) [of r delay] jitter_bounds(2) [OF assms(1), of r]
  then have "wrap64 (delay + retry_jitter r delay) = delay + retry_jitter r delay"
    using assms by (intro wrap64_id) auto
  with j show "delay \<le> wrap64 (delay + retry_jitter r delay)"
    "wrap64 (delay + retry_jitter r delay) \<le> delay + delay div 2" by simp_all
qed

lemma do_loop_waits:
  assumes "attempt \<le> Policy_MaxAttempts p" "0 < delay" "delay \<le> 2 ^ 61" "0 < Policy_Max p" "Policy_Max p \<le> 2 ^ 61"
    and "do_loop p op ce cw rnd attempt delay le calls waits = (res, cs, ws)"
  shows "\<exists>new. ws = waits @ new \<and> (\<forall>i < length new.
    delay_at p delay i \<le> new ! i \<and> new ! i \<le> delay_at p delay i + delay_at p delay i div 2)"
  using assms
proof (induction "nat (Policy_MaxAttempts p - attempt)" arbitrary: attempt delay le calls waits)
  case (0 attempt delay le calls waits)
  then have "attempt = Policy_MaxAttempts p" by simp
  with 0 show ?case
    by (cases "ce attempt"; cases "op attempt") (simp_all add: do_loop_step)
next
  case (Suc m attempt delay le calls waits)
  then have less: "attempt < Policy_MaxAttempts p" by simp
  note eq = Suc.prems(6) [unfolded do_loop_step [OF Suc.prems(1)]]
  let ?w = "wrap64 (delay + retry_jitter (rnd attempt) delay)"
  note w = wait_bounds [OF Suc.prems(2,3), of "rnd attempt"]
  have first: "delay_at p delay 0 = delay" by (simp add: delay_at_def)
  show ?case
  proof (cases "ce attempt = None \<and> (\<exists>e. op attempt = Some e \<and> is_transient p e)")
    case False
    then have "ws = waits" using eq less by (auto split: option.splits if_splits)
    then show ?thesis by simp
  next
    case True
    then obtain e where e: "ce attempt = None" "op attempt = Some e" "is_transient p e" by blast
    show ?thesis
    proof (cases "cw attempt")
      case (Some e')
      with e eq less have "ws = waits @ [?w]" by simp
      then show ?thesis using w first by (intro exI [of _ "[?w]"]) simp
    next
      case None
      note d = delay_at_next [OF Suc.prems(2-5)]
      have "m = nat (Policy_MaxAttempts p - (attempt + 1))" "attempt + 1 \<le> Policy_MaxAttempts p"
        using Suc.hyps(2) less by simp_all
      from Suc.hyps(1) [OF this d(1,2) Suc.prems(4,5), of "Some e" "calls @ [attempt]" "waits @ [?w]"]
      obtain new where new: "ws = (waits @ [?w]) @ new"
        "\<forall>i < length new. delay_at p delay (Suc i) \<le> new ! i \<and>
           new ! i \<le> delay_at p delay (Suc i) + delay_at p delay (Suc i) div 2"
        using e None eq less d(3) by auto
      then show ?thesis using w first
        by (intro exI [of _ "?w # new"]) (auto simp: nth_Cons split: nat.split)
    qed
  qed
qed

lemma Do_loop_of:
  "\<exists>q. Do p op ce cw rnd = do_loop q op ce cw rnd 1 (initial_delay p) None [] [] \<and>
    Policy_MaxAttempts q = max_attempts p \<and> Policy_Max q = max_delay p \<and> is_transient q = is_transient p"
proof -
  let ?q = "p\<lparr>Policy_MaxAttempts := max_attempts p, Policy_Initial := initial_delay p,
    Policy_Max := max_delay p\<rparr>"
  have "Do p op ce cw rnd = do_loop ?q op ce cw rnd 1 (initial_delay p) None [] []"
    by (cases p) (auto simp: Do_def Let_def max_attempts_def initial_delay_def max_delay_def)
  then show ?thesis by (intro exI [of _ ?q]) (simp add: is_transient_def fun_eq_iff)
qed

text \<open>
  \<open>Do\<close> calls the operation \<open>n\<close> times in order, never more than the attempt cap (at least
  one); every call but the last failed with an error the classifier calls transient; it
  returns nil exactly when a last call succeeded; and when the context is never cancelled, it
  returns the result of the last call, and stops early only on a success or a permanent error.
\<close>

theorem Do_calls:
  assumes "Do p op ctx_err ctx_wait rnd = (res, calls, waits)"
  shows "\<exists>n. calls = [1..n] \<and> 0 \<le> n \<and> n \<le> max_attempts p \<and>
    (\<forall>k. 1 \<le> k \<and> k < n \<longrightarrow> (\<exists>e. op k = Some e \<and> is_transient p e)) \<and>
    (res = None \<longleftrightarrow> 1 \<le> n \<and> op n = None) \<and>
    ((\<forall>k. ctx_err k = None \<and> ctx_wait k = None) \<longrightarrow> 1 \<le> n \<and> res = op n \<and>
       (\<forall>e. op n = Some e \<longrightarrow> n = max_attempts p \<or> \<not> is_transient p e))"
proof -
  obtain q where q: "do_loop q op ctx_err ctx_wait rnd 1 (initial_delay p) None [] [] = (res, calls, waits)"
    "Policy_MaxAttempts q = max_attempts p" "is_transient q = is_transient p"
    using Do_loop_of [of p op ctx_err ctx_wait rnd] assms by auto
  have "1 \<le> Policy_MaxAttempts q" by (simp add: q(2) max_attempts_def)
  from do_loop_calls [OF this q(1)] show ?thesis by (simp add: calls_ok_def q(2,3))
qed

text \<open>
  For delays below \<open>2^61\<close> nanoseconds (73 years), the \<open>i\<close>-th wait of \<open>Do\<close> lies between
  the advertised delay (the initial delay doubled \<open>i\<close> times, capped at the maximum) and one
  and a half times that delay.
\<close>

theorem Do_waits:
  assumes "Do p op ctx_err ctx_wait rnd = (res, calls, waits)"
    and "initial_delay p \<le> 2 ^ 61" "max_delay p \<le> 2 ^ 61" and "i < length waits"
  shows "let d = (if initial_delay p < max_delay p then min (initial_delay p * 2 ^ i) (max_delay p)
                  else initial_delay p)
    in d \<le> waits ! i \<and> waits ! i \<le> d + d div 2"
proof -
  obtain q where q: "do_loop q op ctx_err ctx_wait rnd 1 (initial_delay p) None [] [] = (res, calls, waits)"
    "Policy_MaxAttempts q = max_attempts p" "Policy_Max q = max_delay p"
    using Do_loop_of [of p op ctx_err ctx_wait rnd] assms by auto
  have "1 \<le> Policy_MaxAttempts q" "0 < initial_delay p" "0 < Policy_Max q" "Policy_Max q \<le> 2 ^ 61"
    using assms by (simp_all add: q max_attempts_def initial_delay_def max_delay_def)
  from do_loop_waits [OF this(1,2) assms(2) this(3,4) q(1)] assms(4) show ?thesis
    by (auto simp: delay_at_def q Let_def)
qed

text \<open>Three attempts from one second, all of which fail.\<close>

definition Default :: "unit Policy" where
  "Default = \<lparr>Policy_MaxAttempts = 3, Policy_Initial = 1 * Second, Policy_Max = 8 * Second, Policy_IsTransient = None\<rparr>"

lemma Default_run:
  "Do Default (\<lambda>k. Some ()) (\<lambda>k. None) (\<lambda>k. None) (\<lambda>k. 0) = (Some (), [1, 2, 3], [1 * Second, 2 * Second])"
  by (simp add: Do_def Default_def Let_def do_loop_step is_transient_def next_delay_def retry_jitter_def)

lemma Do_calls_witness:
  "\<exists>n. [1, 2, 3] = [1..n] \<and> n \<le> max_attempts Default"
  using Do_calls [OF Default_run] by blast

lemma Do_waits_witness:
  "let d = min (initial_delay Default * 2 ^ 1) (max_delay Default)
   in d \<le> [1 * Second, 2 * Second] ! 1 \<and> [1 * Second, 2 * Second] ! 1 \<le> d + d div 2"
  using Do_waits [OF Default_run, of 1] by (simp add: Default_def initial_delay_def max_delay_def)

end
