(* ===== verification/JobQueue.thy ===== *)
theory JobQueue
  imports Prelude
begin

text \<open>
  The job queue of \<open>backend/internal/jobqueue\<close>: the job record (\<open>jobqueue.go\<close>), the
  in-memory store (\<open>memory.go\<close>) and its invariant.  The store hands out clones, so no
  caller shares a record with it and a job is a value here.  Every method holds the mutex and
  is one atomic operation; a history of the store is a sequence of them.
\<close>

datatype job_status = StatusPending | StatusRunning | StatusSucceeded | StatusFailed | StatusCancelled

fun Status_IsTerminal :: "job_status \<Rightarrow> bool" where
  "Status_IsTerminal StatusSucceeded = True"
| "Status_IsTerminal StatusFailed = True"
| "Status_IsTerminal StatusCancelled = True"
| "Status_IsTerminal _ = False"

record Job =
  job_ID :: string
  job_Kind :: string
  job_Payload :: string
  job_Status :: job_status
  job_Attempts :: int
  job_MaxAttempts :: int
  job_RunAt :: time
  job_LockedBy :: string
  job_LockedAt :: "time option"
  job_StartedAt :: "time option"
  job_FinishedAt :: "time option"
  job_LastError :: string
  job_ConcurrencyKey :: string
  job_CreatedAt :: time
  job_UpdatedAt :: time

record EnqueueOptions =
  eo_RunAt :: time
  eo_MaxAttempts :: int
  eo_ConcurrencyKey :: string
  eo_ID :: string

datatype jq_error = EmptyKind | DuplicateJobID string | JobNotFound | ErrNotLocked

type_synonym job_map = "string \<rightharpoonup> Job"

definition JobMem_New :: job_map where
  "JobMem_New = Map.empty"

text \<open>A nil payload is \<open>None\<close>; \<open>newid\<close> is what \<open>newID()\<close> returns when it is called.\<close>

definition JobMem_Enqueue ::
  "time \<Rightarrow> string \<Rightarrow> string \<Rightarrow> string option \<Rightarrow> EnqueueOptions \<Rightarrow> job_map \<Rightarrow> jq_error + job_map \<times> Job" where
  "JobMem_Enqueue now newid kind payload opts m =
     (if kind = [] then Inl EmptyKind
      else
        (let runAt = (if eo_RunAt opts = 0 then now else eo_RunAt opts);
             maxAttempts = (if eo_MaxAttempts opts \<le> 0 then 1 else eo_MaxAttempts opts);
             i = (if eo_ID opts = [] then newid else eo_ID opts);
             pl = (case payload of None \<Rightarrow> ''{}'' | Some p \<Rightarrow> p);
             j = \<lparr>job_ID = i, job_Kind = kind, job_Payload = pl, job_Status = StatusPending,
                  job_Attempts = 0, job_MaxAttempts = maxAttempts, job_RunAt = runAt,
                  job_LockedBy = [], job_LockedAt = None, job_StartedAt = None,
                  job_FinishedAt = None, job_LastError = [],
                  job_ConcurrencyKey = eo_ConcurrencyKey opts, job_CreatedAt = now,
                  job_UpdatedAt = now\<rparr>
         in if m i \<noteq> None then Inl (DuplicateJobID i) else Inr (m(i \<mapsto> j), j)))"

definition toSet :: "string list \<Rightarrow> string set" where
  "toSet s = set (filter (\<lambda>v. v \<noteq> []) s)"

definition running_keys :: "string list \<Rightarrow> job_map \<Rightarrow> string set" where
  "running_keys ks m = set (map job_ConcurrencyKey
     (filter (\<lambda>j. job_Status j = StatusRunning \<and> job_ConcurrencyKey j \<noteq> []) (map_values ks m)))"

definition candidates :: "time \<Rightarrow> string list \<Rightarrow> string list \<Rightarrow> string list \<Rightarrow> job_map \<Rightarrow> Job list" where
  "candidates now ks1 ks2 kinds m =
     filter (\<lambda>j. job_Status j = StatusPending \<and> \<not> job_RunAt j > now \<and>
               \<not> (toSet kinds \<noteq> {} \<and> job_Kind j \<notin> toSet kinds) \<and>
               \<not> (job_ConcurrencyKey j \<noteq> [] \<and> job_ConcurrencyKey j \<in> running_keys ks1 m))
       (map_values ks2 m)"

definition claim_job :: "time \<Rightarrow> string \<Rightarrow> Job \<Rightarrow> Job" where
  "claim_job now workerID j = j\<lparr>job_Status := StatusRunning, job_LockedBy := workerID,
     job_LockedAt := Some now, job_StartedAt := Some now, job_Attempts := job_Attempts j + 1,
     job_UpdatedAt := now\<rparr>"

text \<open>
  \<open>ks1\<close> and \<open>ks2\<close> are the orders of the two loops over the jobs.  \<open>sort.Slice\<close> orders equal
  keys arbitrarily; as \<open>ks2\<close> is arbitrary, the stable \<open>sort_key\<close> covers each such order.
\<close>

definition JobMem_Dequeue ::
  "time \<Rightarrow> string list \<times> string list \<Rightarrow> string \<Rightarrow> string list \<Rightarrow> job_map \<Rightarrow> job_map \<times> Job option" where
  "JobMem_Dequeue now ord workerID kinds m =
     (case sort_key job_RunAt (candidates now (fst ord) (snd ord) kinds m) of
        [] \<Rightarrow> (m, None)
      | picked # _ \<Rightarrow> (let j = claim_job now workerID picked in (m(job_ID j \<mapsto> j), Some j)))"

definition JobMem_Complete :: "time \<Rightarrow> string \<Rightarrow> string \<Rightarrow> job_map \<Rightarrow> jq_error + job_map" where
  "JobMem_Complete now workerID jobID m =
     (case m jobID of
        None \<Rightarrow> Inl JobNotFound
      | Some j \<Rightarrow>
          if job_LockedBy j \<noteq> workerID \<or> job_Status j \<noteq> StatusRunning then Inl ErrNotLocked
          else Inr (m(jobID \<mapsto> j\<lparr>job_Status := StatusSucceeded, job_FinishedAt := Some now,
                      job_LockedBy := [], job_UpdatedAt := now\<rparr>)))"

definition JobMem_Fail :: "time \<Rightarrow> string \<Rightarrow> string \<Rightarrow> string \<Rightarrow> job_map \<Rightarrow> jq_error + job_map" where
  "JobMem_Fail now workerID jobID lastError m =
     (case m jobID of
        None \<Rightarrow> Inl JobNotFound
      | Some j \<Rightarrow>
          if job_LockedBy j \<noteq> workerID \<or> job_Status j \<noteq> StatusRunning then Inl ErrNotLocked
          else Inr (m(jobID \<mapsto> j\<lparr>job_Status := StatusFailed, job_FinishedAt := Some now,
                      job_LastError := lastError, job_LockedBy := [], job_UpdatedAt := now\<rparr>)))"

definition JobMem_Reschedule ::
  "time \<Rightarrow> string \<Rightarrow> string \<Rightarrow> time \<Rightarrow> string \<Rightarrow> job_map \<Rightarrow> jq_error + job_map" where
  "JobMem_Reschedule now workerID jobID nextRunAt lastError m =
     (case m jobID of
        None \<Rightarrow> Inl JobNotFound
      | Some j \<Rightarrow>
          if job_LockedBy j \<noteq> workerID \<or> job_Status j \<noteq> StatusRunning then Inl ErrNotLocked
          else if job_Attempts j \<ge> job_MaxAttempts j then
            Inr (m(jobID \<mapsto> j\<lparr>job_Status := StatusFailed, job_FinishedAt := Some now,
                   job_LastError := lastError, job_LockedBy := [], job_UpdatedAt := now\<rparr>))
          else
            Inr (m(jobID \<mapsto> j\<lparr>job_Status := StatusPending, job_RunAt := nextRunAt,
                   job_LastError := lastError, job_LockedBy := [], job_LockedAt := None,
                   job_StartedAt := None, job_UpdatedAt := now\<rparr>)))"

definition JobMem_Get :: "string \<Rightarrow> job_map \<Rightarrow> jq_error + Job" where
  "JobMem_Get jobID m = (case m jobID of None \<Rightarrow> Inl JobNotFound | Some j \<Rightarrow> Inr j)"

definition JobMem_Stats :: "string list \<Rightarrow> job_map \<Rightarrow> job_status \<Rightarrow> nat" where
  "JobMem_Stats ks m st = count_list (map job_Status (map_values ks m)) st"

fun JobMem_DeleteOlderThan :: "time \<Rightarrow> string list \<Rightarrow> job_map \<Rightarrow> nat \<Rightarrow> job_map \<times> nat" where
  "JobMem_DeleteOlderThan cutoff [] m n = (m, n)"
| "JobMem_DeleteOlderThan cutoff (i # ks) m n =
     (case m i of
        None \<Rightarrow> JobMem_DeleteOlderThan cutoff ks m n
      | Some j \<Rightarrow>
          if \<not> Status_IsTerminal (job_Status j) then JobMem_DeleteOlderThan cutoff ks m n
          else
            (let finished = (case job_FinishedAt j of None \<Rightarrow> job_UpdatedAt j | Some t \<Rightarrow> t)
             in if finished < cutoff then JobMem_DeleteOlderThan cutoff ks (m(i := None)) (n + 1)
                else JobMem_DeleteOlderThan cutoff ks m n))"

subsection \<open>Histories\<close>

datatype jq_op =
    OpEnqueue time string string "string option" EnqueueOptions
  | OpDequeue time "string list \<times> string list" string "string list"
  | OpComplete time string string
  | OpFail time string string string
  | OpReschedule time string string time string
  | OpDelete time "string list"

fun jq_worker :: "jq_op \<Rightarrow> string option" where
  "jq_worker (OpDequeue now ord w kinds) = Some w"
| "jq_worker (OpComplete now w i) = Some w"
| "jq_worker (OpFail now w i e) = Some w"
| "jq_worker (OpReschedule now w i t e) = Some w"
| "jq_worker _ = None"

text \<open>The orders an operation carries are orders of the map it meets.\<close>

fun jq_enabled :: "jq_op \<Rightarrow> job_map \<Rightarrow> bool" where
  "jq_enabled (OpDequeue now ord w kinds) m = (iter_order (fst ord) m \<and> iter_order (snd ord) m)"
| "jq_enabled (OpDelete cutoff ks) m = iter_order ks m"
| "jq_enabled _ m = True"

definition keep :: "job_map \<Rightarrow> jq_error + job_map \<Rightarrow> job_map" where
  "keep m r = (case r of Inl e \<Rightarrow> m | Inr m' \<Rightarrow> m')"

fun jq_exec :: "jq_op \<Rightarrow> job_map \<Rightarrow> job_map" where
  "jq_exec (OpEnqueue now newid kind payload opts) m =
     (case JobMem_Enqueue now newid kind payload opts m of Inl e \<Rightarrow> m | Inr (m', j) \<Rightarrow> m')"
| "jq_exec (OpDequeue now ord w kinds) m = fst (JobMem_Dequeue now ord w kinds m)"
| "jq_exec (OpComplete now w i) m = keep m (JobMem_Complete now w i m)"
| "jq_exec (OpFail now w i e) m = keep m (JobMem_Fail now w i e m)"
| "jq_exec (OpReschedule now w i t e) m = keep m (JobMem_Reschedule now w i t e m)"
| "jq_exec (OpDelete cutoff ks) m = fst (JobMem_DeleteOlderThan cutoff ks m 0)"

inductive jq_history :: "job_map \<Rightarrow> jq_op list \<Rightarrow> job_map \<Rightarrow> bool" where
  jq_nil: "jq_history m [] m"
| jq_cons: "jq_enabled op m \<Longrightarrow> jq_history (jq_exec op m) ops m' \<Longrightarrow> jq_history m (op # ops) m'"

inductive_cases jq_history_NilE: "jq_history m [] m'"
inductive_cases jq_history_ConsE: "jq_history m (op # ops) m'"

subsection \<open>The invariant\<close>

text \<open>
  A record is sound by itself (\<open>job_ok\<close>), and no two running jobs share a non-empty
  concurrency key.
\<close>

definition job_ok :: "string \<Rightarrow> Job \<Rightarrow> bool" where
  "job_ok i j \<longleftrightarrow> job_ID j = i \<and> 0 \<le> job_Attempts j \<and> job_Attempts j \<le> job_MaxAttempts j \<and>
     (job_Status j = StatusPending \<longrightarrow> job_Attempts j < job_MaxAttempts j) \<and>
     (job_Status j = StatusRunning \<longrightarrow> 0 < job_Attempts j \<and> job_StartedAt j \<noteq> None) \<and>
     (job_Status j \<noteq> StatusRunning \<longrightarrow> job_LockedBy j = []) \<and>
     (Status_IsTerminal (job_Status j) \<longleftrightarrow> job_FinishedAt j \<noteq> None)"

definition jobs_ok :: "job_map \<Rightarrow> bool" where
  "jobs_ok m \<longleftrightarrow> (\<forall>i j. m i = Some j \<longrightarrow> job_ok i j)"

definition running_with :: "job_map \<Rightarrow> string \<Rightarrow> string \<Rightarrow> bool" where
  "running_with m i k \<longleftrightarrow>
     (\<exists>j. m i = Some j \<and> job_Status j = StatusRunning \<and> job_ConcurrencyKey j = k)"

definition exclusive :: "job_map \<Rightarrow> bool" where
  "exclusive m \<longleftrightarrow>
     (\<forall>k i1 i2. k \<noteq> [] \<and> running_with m i1 k \<and> running_with m i2 k \<longrightarrow> i1 = i2)"

lemma running_with_upd:
  "running_with (m(i \<mapsto> j)) x k \<longleftrightarrow>
   (if x = i then job_Status j = StatusRunning \<and> job_ConcurrencyKey j = k else running_with m x k)"
  by (simp add: running_with_def)

definition jq_inv :: "job_map \<Rightarrow> bool" where
  "jq_inv m \<longleftrightarrow> finite (dom m) \<and> jobs_ok m \<and> exclusive m"

lemma jobs_ok_upd: "jobs_ok m \<Longrightarrow> job_ok i j \<Longrightarrow> jobs_ok (m(i \<mapsto> j))"
  by (auto simp: jobs_ok_def)

lemma exclusive_upd:
  assumes "exclusive m" "job_Status j \<noteq> StatusRunning"
  shows "exclusive (m(i \<mapsto> j))"
  using assms unfolding exclusive_def running_with_upd by metis

lemma exclusive_claim:
  assumes "exclusive m" "job_ConcurrencyKey j = [] \<or> (\<forall>x. \<not> running_with m x (job_ConcurrencyKey j))"
  shows "exclusive (m(i \<mapsto> j))"
  using assms unfolding exclusive_def running_with_upd by metis

lemma jq_inv_upd:
  "jq_inv m \<Longrightarrow> job_ok i j \<Longrightarrow> job_Status j \<noteq> StatusRunning \<Longrightarrow> jq_inv (m(i \<mapsto> j))"
  by (auto simp: jq_inv_def intro: jobs_ok_upd exclusive_upd)

lemma jq_inv_job: "jq_inv m \<Longrightarrow> m i = Some j \<Longrightarrow> job_ok i j"
  by (simp add: jq_inv_def jobs_ok_def)

lemma jq_inv_empty: "jq_inv JobMem_New"
  by (simp add: jq_inv_def jobs_ok_def exclusive_def running_with_def JobMem_New_def)

lemma jq_inv_enqueue [invar_intros]:
  "jq_inv m \<Longrightarrow> JobMem_Enqueue now newid kind payload opts m = Inr (m', j) \<Longrightarrow> jq_inv m'"
  by (auto simp: JobMem_Enqueue_def Let_def job_ok_def split: if_splits intro!: jq_inv_upd)

lemma jq_inv_complete [invar_intros]:
  "jq_inv m \<Longrightarrow> JobMem_Complete now w i m = Inr m' \<Longrightarrow> jq_inv m'"
  by (auto simp: JobMem_Complete_def job_ok_def dest: jq_inv_job intro!: jq_inv_upd
      split: if_splits option.splits)

lemma jq_inv_fail [invar_intros]:
  "jq_inv m \<Longrightarrow> JobMem_Fail now w i e m = Inr m' \<Longrightarrow> jq_inv m'"
  by (auto simp: JobMem_Fail_def job_ok_def dest: jq_inv_job intro!: jq_inv_upd
      split: if_splits option.splits)

lemma jq_inv_reschedule [invar_intros]:
  "jq_inv m \<Longrightarrow> JobMem_Reschedule now w i t e m = Inr m' \<Longrightarrow> jq_inv m'"
  by (auto simp: JobMem_Reschedule_def job_ok_def dest: jq_inv_job intro!: jq_inv_upd
      split: if_splits option.splits)

subsection \<open>The claim\<close>

text \<open>A job the claim may take: the abstract reading of the three guards.\<close>

definition eligible :: "time \<Rightarrow> string list \<Rightarrow> job_map \<Rightarrow> Job \<Rightarrow> bool" where
  "eligible now kinds m j \<longleftrightarrow> job_Status j = StatusPending \<and> job_RunAt j \<le> now \<and>
     (toSet kinds = {} \<or> job_Kind j \<in> toSet kinds) \<and>
     (job_ConcurrencyKey j = [] \<or> (\<forall>i. \<not> running_with m i (job_ConcurrencyKey j)))"

lemma set_candidates:
  assumes "iter_order ks1 m" "iter_order ks2 m"
  shows "set (candidates now ks1 ks2 kinds m) = {j \<in> ran m. eligible now kinds m j}"
proof -
  have keys: "running_keys ks1 m = {k. k \<noteq> [] \<and> (\<exists>i. running_with m i k)}"
    unfolding running_keys_def set_map set_filter set_map_values_order [OF assms(1)]
      running_with_def ran_def by (auto simp: image_iff)
  show ?thesis
    unfolding candidates_def set_filter set_map_values_order [OF assms(2)] keys eligible_def
      mem_Collect_eq not_less by blast
qed

lemma sort_key_Cons:
  assumes "sort_key f xs = y # ys"
  shows "y \<in> set xs" "\<forall>x \<in> set xs. f y \<le> f x"
proof -
  have "set (sort_key f xs) = set xs" "sorted (map f (sort_key f xs))" by simp_all
  with assms show "y \<in> set xs" "\<forall>x \<in> set xs. f y \<le> f x" by (auto simp: assms)
qed

lemma Dequeue_cases:
  assumes ord: "iter_order (fst ord) m" "iter_order (snd ord) m"
  obtains (none) "JobMem_Dequeue now ord w kinds m = (m, None)"
      "\<forall>j \<in> ran m. \<not> eligible now kinds m j"
    | (claim) j where "j \<in> ran m" "eligible now kinds m j"
      "\<forall>j' \<in> ran m. eligible now kinds m j' \<longrightarrow> job_RunAt j \<le> job_RunAt j'"
      "JobMem_Dequeue now ord w kinds m =
         (m(job_ID j \<mapsto> claim_job now w j), Some (claim_job now w j))"
proof (cases "sort_key job_RunAt (candidates now (fst ord) (snd ord) kinds m)")
  case Nil
  then have "set (candidates now (fst ord) (snd ord) kinds m) = {}"
    by (metis set_sort set_empty)
  then show thesis using none Nil unfolding set_candidates [OF ord] by (auto simp: JobMem_Dequeue_def)
next
  case (Cons j js)
  note j = sort_key_Cons [OF Cons, unfolded set_candidates [OF ord]]
  have "JobMem_Dequeue now ord w kinds m =
      (m(job_ID j \<mapsto> claim_job now w j), Some (claim_job now w j))"
    using Cons by (simp add: JobMem_Dequeue_def Let_def claim_job_def)
  with j claim show thesis by blast
qed

lemma jq_inv_claim:
  assumes inv: "jq_inv m" and j: "j \<in> ran m" "eligible now kinds m j"
  shows "jq_inv (m(job_ID j \<mapsto> claim_job now w j))" "m (job_ID j) = Some j"
proof -
  obtain i where "m i = Some j" using j(1) by (auto simp: ran_def)
  moreover from this have ok: "job_ok i j" using inv by (rule jq_inv_job [rotated])
  ultimately have mi: "m (job_ID j) = Some j" and i: "job_ID j = i" by (auto simp: job_ok_def)
  show "m (job_ID j) = Some j" by (rule mi)
  have "job_ok (job_ID j) (claim_job now w j)"
    using ok j(2) by (auto simp: job_ok_def claim_job_def eligible_def)
  moreover have "exclusive (m(job_ID j \<mapsto> claim_job now w j))"
    using inv j(2) by (intro exclusive_claim) (simp_all add: jq_inv_def eligible_def claim_job_def)
  ultimately show "jq_inv (m(job_ID j \<mapsto> claim_job now w j))"
    using inv by (auto simp: jq_inv_def intro: jobs_ok_upd)
qed

lemma delete_loop:
  assumes "distinct ks"
  shows "JobMem_DeleteOlderThan cutoff ks m n =
    (\<lambda>i. case m i of None \<Rightarrow> None | Some j \<Rightarrow>
       if i \<in> set ks \<and> Status_IsTerminal (job_Status j) \<and>
          (case job_FinishedAt j of None \<Rightarrow> job_UpdatedAt j | Some t \<Rightarrow> t) < cutoff
       then None else Some j,
     n + length (filter (\<lambda>i. case m i of None \<Rightarrow> False | Some j \<Rightarrow>
            Status_IsTerminal (job_Status j) \<and>
            (case job_FinishedAt j of None \<Rightarrow> job_UpdatedAt j | Some t \<Rightarrow> t) < cutoff) ks))"
  using assms
proof (induction ks arbitrary: m n)
  case Nil
  show ?case by (auto split: option.splits)
next
  case (Cons k ks)
  then have k: "k \<notin> set ks" "distinct ks" by auto
  have cong: "filter (\<lambda>i. P ((m(k := None)) i)) ks = filter (\<lambda>i. P (m i)) ks" for P
    using k(1) by (intro filter_cong) auto
  show ?case
    unfolding JobMem_DeleteOlderThan.simps Let_def Cons.IH [OF k(2)] cong
    using k(1) by (auto split: option.splits if_splits simp: fun_eq_iff)
qed

lemma jq_inv_dequeue:
  assumes "jq_inv m" "iter_order (fst ord) m" "iter_order (snd ord) m"
  shows "jq_inv (fst (JobMem_Dequeue now ord w kinds m))"
  using assms(2,3)
proof (cases rule: Dequeue_cases [where now = now and w = w and kinds = kinds])
  case none
  with assms(1) show ?thesis by simp
next
  case (claim j)
  with jq_inv_claim(1) [OF assms(1) claim(1,2)] show ?thesis by simp
qed

lemma jq_inv_delete:
  assumes "jq_inv m" "distinct ks"
  shows "jq_inv (fst (JobMem_DeleteOlderThan cutoff ks m n))"
proof -
  let ?m = "fst (JobMem_DeleteOlderThan cutoff ks m n)"
  have sub: "m i = Some j" if "?m i = Some j" for i j
    using that unfolding delete_loop [OF assms(2)] by (auto split: option.splits if_splits)
  then have "dom ?m \<subseteq> dom m" by auto
  then have "finite (dom ?m)" using assms(1) finite_subset by (auto simp: jq_inv_def)
  moreover have "jobs_ok ?m" using assms(1) sub by (simp add: jq_inv_def jobs_ok_def)
  moreover have "exclusive ?m"
    using assms(1) sub unfolding jq_inv_def exclusive_def running_with_def by metis
  ultimately show ?thesis by (simp add: jq_inv_def)
qed

lemma jq_inv_exec: "jq_inv m \<Longrightarrow> jq_enabled op m \<Longrightarrow> jq_inv (jq_exec op m)"
  by (cases op)
    (auto simp: keep_def intro: invar_intros jq_inv_dequeue jq_inv_delete split: sum.split)

lemma jq_inv_history: "jq_history m ops m' \<Longrightarrow> jq_inv m \<Longrightarrow> jq_inv m'"
  by (induction rule: jq_history.induct) (auto intro: jq_inv_exec)

subsection \<open>The properties of the store\<close>


text \<open>
  \<open>Dequeue\<close> returns nothing, and changes nothing, exactly when no job is eligible
  (pending, due, of a wanted kind, and with no running job of its concurrency key); otherwise
  it claims an eligible job with the earliest \<open>run_at\<close>, stamps it and leaves every other job
  as it was.
\<close>

theorem JobMem_Dequeue_spec:
  assumes "jq_inv m" and ord: "iter_order (fst ord) m" "iter_order (snd ord) m"
  shows "case JobMem_Dequeue now ord w kinds m of
    (m', None) \<Rightarrow> m' = m \<and> (\<forall>j \<in> ran m. \<not> eligible now kinds m j)
  | (m', Some j') \<Rightarrow>
      \<exists>i j. m i = Some j \<and> eligible now kinds m j \<and>
        (\<forall>k \<in> ran m. eligible now kinds m k \<longrightarrow> job_RunAt j \<le> job_RunAt k) \<and>
        j' = j\<lparr>job_Status := StatusRunning, job_LockedBy := w, job_LockedAt := Some now,
               job_StartedAt := Some now, job_Attempts := job_Attempts j + 1, job_UpdatedAt := now\<rparr> \<and>
        m' = m(i \<mapsto> j')"
  using ord
proof (cases rule: Dequeue_cases [where now = now and w = w and kinds = kinds])
  case none
  then show ?thesis by simp
next
  case (claim j)
  with jq_inv_claim(2) [OF assms(1) claim(1,2)] show ?thesis
    by (auto simp: claim_job_def intro!: exI [of _ "job_ID j"])
qed

lemma exec_locked:
  assumes inv: "jq_inv m" and en: "jq_enabled op m"
    and j: "m i = Some j" "job_Status j = StatusRunning" "job_LockedBy j = w"
    and other: "jq_worker op \<noteq> Some w"
  shows "jq_exec op m i = Some j"
proof (cases op)
  case (OpEnqueue now newid kind payload opts)
  then show ?thesis using j(1) by (auto simp: JobMem_Enqueue_def Let_def split: if_splits)
next
  case (OpDequeue now ord w' kinds)
  then have "iter_order (fst ord) m" "iter_order (snd ord) m" using en by auto
  then show ?thesis
  proof (cases rule: Dequeue_cases [where now = now and w = w' and kinds = kinds])
    case none
    then show ?thesis using OpDequeue j by simp
  next
    case (claim k)
    have "m (job_ID k) = Some k" using jq_inv_claim(2) [OF inv claim(1,2)] .
    then have "job_ID k \<noteq> i" using claim(2) j by (auto simp: eligible_def)
    then show ?thesis using OpDequeue j claim(4) by simp
  qed
next
  case (OpComplete now w' i')
  then show ?thesis using j other
    by (auto simp: JobMem_Complete_def keep_def split: option.splits)
next
  case (OpFail now w' i' e)
  then show ?thesis using j other
    by (auto simp: JobMem_Fail_def keep_def split: option.splits)
next
  case (OpReschedule now w' i' t e)
  then show ?thesis using j other
    by (auto simp: JobMem_Reschedule_def keep_def split: option.splits)
next
  case (OpDelete cutoff ks)
  then have "distinct ks" using en by auto
  then show ?thesis using OpDelete j by (simp add: delete_loop)
qed

lemma history_locked:
  assumes "jq_history m ops m'" "jq_inv m" "m i = Some j" "job_Status j = StatusRunning"
    and "\<forall>op \<in> set ops. jq_worker op \<noteq> Some (job_LockedBy j)"
  shows "m' i = Some j"
  using assms
proof (induction rule: jq_history.induct)
  case (jq_cons op m ops m')
  then have "jq_exec op m i = Some j" "jq_inv (jq_exec op m)"
    using exec_locked [of m op i j] jq_inv_exec by auto
  with jq_cons show ?case by simp
qed simp

text \<open>
  A claimed job belongs to its worker.  From the claim on, no history of operations by
  other workers (claims, reports under their own names, enqueues, retention sweeps) changes or
  removes its record.
\<close>

theorem JobMem_lock_frame:
  assumes "jq_inv m" "iter_order (fst ord) m" "iter_order (snd ord) m"
    and "JobMem_Dequeue now ord w kinds m = (m1, Some j)"
    and "jq_history m1 ops m2" and "\<forall>op \<in> set ops. jq_worker op \<noteq> Some w"
  shows "m2 (job_ID j) = Some j"
  using assms(2,3)
proof (cases rule: Dequeue_cases [where now = now and w = w and kinds = kinds])
  case none
  with assms(4) show ?thesis by simp
next
  case (claim k)
  then have m1: "m1 = m(job_ID k \<mapsto> j)" and j: "j = claim_job now w k" using assms(4) by auto
  moreover have "jq_inv m1" using jq_inv_claim(1) [OF assms(1) claim(1,2)] m1 j by simp
  moreover have "m1 (job_ID j) = Some j" "job_Status j = StatusRunning" "job_LockedBy j = w"
    using m1 j by (simp_all add: claim_job_def)
  ultimately show ?thesis using history_locked [OF assms(5)] assms(6) by simp
qed

text \<open>
  The retention sweep deletes exactly the terminal jobs that finished before the cutoff
  and returns their number; a pending or running job is never deleted.
\<close>

theorem JobMem_DeleteOlderThan_spec:
  assumes "jq_inv m" and "iter_order ks m"
  shows "fst (JobMem_DeleteOlderThan cutoff ks m 0) =
      m |` {i. \<exists>j. m i = Some j \<and> \<not> (\<exists>t. job_FinishedAt j = Some t \<and> t < cutoff)} \<and>
    snd (JobMem_DeleteOlderThan cutoff ks m 0) =
      card {i. \<exists>j t. m i = Some j \<and> job_FinishedAt j = Some t \<and> t < cutoff} \<and>
    (\<forall>i j. m i = Some j \<and> \<not> Status_IsTerminal (job_Status j) \<longrightarrow>
       fst (JobMem_DeleteOlderThan cutoff ks m 0) i = Some j)"
proof -
  have ks: "distinct ks" "set ks = dom m" using assms(2) by auto
  let ?old = "\<lambda>i. case m i of None \<Rightarrow> False | Some j \<Rightarrow> Status_IsTerminal (job_Status j) \<and>
            (case job_FinishedAt j of None \<Rightarrow> job_UpdatedAt j | Some t \<Rightarrow> t) < cutoff"
  have old: "?old i \<longleftrightarrow> (\<exists>j t. m i = Some j \<and> job_FinishedAt j = Some t \<and> t < cutoff)" for i
    using jq_inv_job [OF assms(1), of i] by (auto simp: job_ok_def split: option.splits)
  have mem: "fst (JobMem_DeleteOlderThan cutoff ks m 0) i = (if ?old i then None else m i)" for i
    unfolding delete_loop [OF ks(1)] using ks(2) by (auto split: option.splits)
  have "length (filter ?old ks) = card {i \<in> set ks. ?old i}"
    unfolding set_filter [symmetric]
    by (rule distinct_card [OF distinct_filter [OF ks(1)], symmetric])
  also have "{i \<in> set ks. ?old i} = {i. \<exists>j t. m i = Some j \<and> job_FinishedAt j = Some t \<and> t < cutoff}"
    unfolding old using ks(2) by auto
  finally have count: "snd (JobMem_DeleteOlderThan cutoff ks m 0) =
      card {i. \<exists>j t. m i = Some j \<and> job_FinishedAt j = Some t \<and> t < cutoff}"
    unfolding delete_loop [OF ks(1)] by simp
  have "fst (JobMem_DeleteOlderThan cutoff ks m 0) =
      m |` {i. \<exists>j. m i = Some j \<and> \<not> (\<exists>t. job_FinishedAt j = Some t \<and> t < cutoff)}"
  proof
    fix i
    show "fst (JobMem_DeleteOlderThan cutoff ks m 0) i =
        (m |` {i. \<exists>j. m i = Some j \<and> \<not> (\<exists>t. job_FinishedAt j = Some t \<and> t < cutoff)}) i"
      unfolding mem old by (cases "m i") (auto simp: restrict_map_def)
  qed
  moreover have "\<forall>i j. m i = Some j \<and> \<not> Status_IsTerminal (job_Status j) \<longrightarrow>
       fst (JobMem_DeleteOlderThan cutoff ks m 0) i = Some j"
    unfolding mem by simp
  ultimately show ?thesis using count by blast
qed

subsection \<open>A small queue, used by the witnesses\<close>

abbreviation demo_opts :: EnqueueOptions where
  "demo_opts \<equiv> \<lparr>eo_RunAt = 0, eo_MaxAttempts = 2, eo_ConcurrencyKey = ''app'', eo_ID = []\<rparr>"

definition demo_job :: "string \<Rightarrow> Job" where
  "demo_job i = \<lparr>job_ID = i, job_Kind = ''run'', job_Payload = ''{}'', job_Status = StatusPending,
     job_Attempts = 0, job_MaxAttempts = 2, job_RunAt = 10, job_LockedBy = [], job_LockedAt = None,
     job_StartedAt = None, job_FinishedAt = None, job_LastError = [], job_ConcurrencyKey = ''app'',
     job_CreatedAt = 10, job_UpdatedAt = 10\<rparr>"

definition demo_queue :: job_map where
  "demo_queue = [''a'' \<mapsto> demo_job ''a'']"

lemma demo_order: "iter_order [''a''] demo_queue"
  by (simp add: iter_order_def demo_queue_def)

lemma demo_history: "jq_history JobMem_New [OpEnqueue 10 ''a'' ''run'' None demo_opts] demo_queue"
proof -
  have "jq_exec (OpEnqueue 10 ''a'' ''run'' None demo_opts) JobMem_New = demo_queue"
    by (simp add: JobMem_Enqueue_def JobMem_New_def demo_queue_def demo_job_def Let_def)
  then show ?thesis by (metis jq_cons jq_enabled.simps(3) jq_nil)
qed

lemma demo_inv: "jq_inv demo_queue"
  using jq_inv_history [OF demo_history jq_inv_empty] .

lemma demo_claim:
  "JobMem_Dequeue 20 ([''a''], [''a'']) ''w'' [''run''] demo_queue
   = ([''a'' \<mapsto> claim_job 20 ''w'' (demo_job ''a'')], Some (claim_job 20 ''w'' (demo_job ''a'')))"
  by (simp add: JobMem_Dequeue_def candidates_def map_values_def List.map_filter_simps
      running_keys_def toSet_def demo_queue_def demo_job_def claim_job_def Let_def)


lemma JobMem_Dequeue_spec_witness:
  "\<exists>i j. demo_queue i = Some j \<and> eligible 20 [''run''] demo_queue j"
  using JobMem_Dequeue_spec [OF demo_inv, where ord = "([''a''], [''a''])" and now = 20
      and w = "''w''" and kinds = "[''run'']"]
  by (auto simp: demo_order demo_claim)

lemma JobMem_lock_frame_witness:
  "[''a'' \<mapsto> claim_job 20 ''w'' (demo_job ''a'')] ''a'' = Some (claim_job 20 ''w'' (demo_job ''a''))"
proof -
  have "jq_history [''a'' \<mapsto> claim_job 20 ''w'' (demo_job ''a'')] [OpComplete 30 ''v'' ''a'']
      [''a'' \<mapsto> claim_job 20 ''w'' (demo_job ''a'')]"
    by (rule jq_cons) (simp_all add: jq_nil JobMem_Complete_def claim_job_def keep_def)
  from JobMem_lock_frame [OF demo_inv _ _ demo_claim this] show ?thesis
    by (simp add: demo_order claim_job_def demo_job_def)
qed

lemma JobMem_DeleteOlderThan_spec_witness:
  "fst (JobMem_DeleteOlderThan 100 [''a''] demo_queue 0) ''a'' = Some (demo_job ''a'')"
  using JobMem_DeleteOlderThan_spec [OF demo_inv demo_order, of 100]
  by (simp add: demo_queue_def demo_job_def)

end
