(* ===== verification/JobWorker.thy ===== *)
theory JobWorker
  imports JobQueue
begin

text \<open>
  The worker side of \<open>backend/internal/jobqueue\<close>: the backoff policy (\<open>backoff.go\<close>), the
  handler registry (\<open>registry.go\<close>) and the worker pool (\<open>worker.go\<close>).  The pool knows its
  store through the \<open>Store\<close> interface only, so the store operations it calls are arguments of
  its definitions; the locale \<open>job_store\<close> states what the interface promises, the worker's
  lemmas are proved in it, and it is interpreted on the in-memory store.
\<close>

subsection \<open>Backoff\<close>

record ExponentialBackoff =
  Backoff_Base :: int
  Backoff_Max :: int

text \<open>\<open>None\<close> is a failed read of the random source; \<open>div\<close> agrees with Go's \<open>/\<close> here.\<close>

definition backoff_jitter :: "int option \<Rightarrow> int \<Rightarrow> int" where
  "backoff_jitter rnd d =
     (if d \<le> 0 then 0
      else case rnd of None \<Rightarrow> 0 | Some n \<Rightarrow> (n mod 2 ^ 62) mod wrap64 (d + 1))"

definition NextDelay :: "int option \<Rightarrow> ExponentialBackoff \<Rightarrow> int \<Rightarrow> int" where
  "NextDelay rnd e attempt =
     (let attempt = (if attempt < 1 then 1 else attempt);
          base = (if Backoff_Base e \<le> 0 then 1 * Second else Backoff_Base e);
          maxD = (if Backoff_Max e \<le> 0 then 5 * Minute else Backoff_Max e);
          shift = (if attempt - 1 > 30 then 30 else attempt - 1);
          d = wrap64 (base * 2 ^ nat shift);
          d = (if d \<le> 0 \<or> d > maxD then maxD else d)
      in wrap64 (d + backoff_jitter rnd (base div 2)))"

definition DefaultBackoff :: ExponentialBackoff where
  "DefaultBackoff = \<lparr>Backoff_Base = 5 * Second, Backoff_Max = 5 * Minute\<rparr>"

lemma backoff_jitter_bounds:
  assumes "d < 2 ^ 62"
  shows "0 \<le> backoff_jitter rnd d" "0 \<le> d \<Longrightarrow> backoff_jitter rnd d \<le> d"
proof -
  have j: "0 \<le> n mod wrap64 (d + 1) \<and> n mod wrap64 (d + 1) < d + 1" if "0 < d" for n
    using that assms pos_mod_bound [of "d + 1" n] by simp
  show "0 \<le> backoff_jitter rnd d"
    using j by (cases rnd) (auto simp: backoff_jitter_def)
  show "backoff_jitter rnd d \<le> d" if "0 \<le> d"
    using that j by (cases rnd) (force simp: backoff_jitter_def)+
qed

text \<open>
  As long as the base delay does not overflow when it is shifted by 30 bits (below 8.6
  seconds) and the ceiling is below \<open>2^61\<close>, the delay after the \<open>attempt\<close>-th failure is
  \<open>base * 2^(attempt-1)\<close> capped at the ceiling (for every attempt while \<open>base * 2^30\<close> reaches
  the ceiling), plus a jitter between 0 and half the base.
\<close>

theorem NextDelay_bounds:
  assumes base: "0 < Backoff_Base e" "Backoff_Base e < 2 ^ 33"
    and maxD: "0 < Backoff_Max e" "Backoff_Max e \<le> 2 ^ 61" "Backoff_Max e \<le> Backoff_Base e * 2 ^ 30"
    and attempt: "1 \<le> attempt"
  shows "min (Backoff_Base e * 2 ^ nat (attempt - 1)) (Backoff_Max e) \<le> NextDelay rnd e attempt \<and>
    NextDelay rnd e attempt
      \<le> min (Backoff_Base e * 2 ^ nat (attempt - 1)) (Backoff_Max e) + Backoff_Base e div 2"
proof -
  define b where "b = Backoff_Base e"
  define s where "s = nat (if attempt - 1 > 30 then 30 else attempt - 1)"
  have s: "s \<le> 30" by (auto simp: s_def nat_le_iff)
  have pow: "b * 2 ^ s \<le> b * 2 ^ 30"
    using base(1) s by (intro mult_left_mono power_increasing) (simp_all add: b_def)
  have pos: "0 < b * 2 ^ s" using base(1) by (simp add: b_def)
  have "b * 2 ^ 30 \<le> 2 ^ 33 * 2 ^ 30" using base(2) by (simp add: b_def)
  with pow pos have w: "wrap64 (b * 2 ^ s) = b * 2 ^ s"
    using base(2) by (intro wrap64_id) (simp_all add: b_def)
  let ?d = "min (b * 2 ^ nat (attempt - 1)) (Backoff_Max e)"
  have capped: "(if b * 2 ^ s \<le> 0 \<or> b * 2 ^ s > Backoff_Max e then Backoff_Max e else b * 2 ^ s) = ?d"
  proof (cases "attempt - 1 > 30")
    case True
    then have "b * 2 ^ 30 \<le> b * 2 ^ nat (attempt - 1)"
      using base(1) by (intro mult_left_mono power_increasing) (simp_all add: b_def)
    moreover have "Backoff_Max e \<le> b * 2 ^ 30" using maxD(3) by (simp add: b_def)
    ultimately have "Backoff_Max e \<le> b * 2 ^ nat (attempt - 1)" by (rule order_trans [rotated])
    then show ?thesis using True maxD(3) pos by (auto simp: s_def b_def)
  next
    case False
    then show ?thesis using pos by (auto simp: s_def)
  qed
  have j: "0 \<le> backoff_jitter rnd (b div 2)" "backoff_jitter rnd (b div 2) \<le> b div 2"
    using backoff_jitter_bounds [of "b div 2" rnd] base by (simp_all add: b_def)
  have "NextDelay rnd e attempt = wrap64 (?d + backoff_jitter rnd (b div 2))"
  proof -
    have n: "\<not> attempt < 1" "\<not> b \<le> 0" "\<not> Backoff_Max e \<le> 0"
      using base(1) maxD(1) attempt by (simp_all add: b_def)
    show ?thesis
      unfolding NextDelay_def Let_def if_not_P [OF n(1)] if_not_P [OF n(3)]
        s_def [symmetric] b_def [symmetric] if_not_P [OF n(2)] w capped ..
  qed
  also have "\<dots> = ?d + backoff_jitter rnd (b div 2)"
  proof (rule wrap64_add)
    have "0 \<le> b * 2 ^ nat (attempt - 1)" using base(1) by (simp add: b_def)
    then show "0 \<le> ?d" "?d \<le> 2 ^ 61" using maxD by (simp_all add: min_le_iff_disj)
    show "0 \<le> backoff_jitter rnd (b div 2)" "backoff_jitter rnd (b div 2) < 2 ^ 61"
      using j base by (simp_all add: b_def)
  qed
  finally show ?thesis using j by (simp add: b_def)
qed

text \<open>
  Beyond that bound the guard against overflow is not enough.  With a base of 17.2 seconds
  and a ceiling of 5 minutes, the delay after 31 failures wraps to a small positive number, so
  it passes the test \<open>d <= 0 || d > maxD\<close> and the worker waits 1.07 seconds instead of 5
  minutes.
\<close>

theorem NextDelay_overflow:
  "NextDelay None \<lparr>Backoff_Base = 2 ^ 34 + 1, Backoff_Max = 5 * Minute\<rparr> 31 = 2 ^ 30 \<and>
   NextDelay None \<lparr>Backoff_Base = 2 ^ 34 + 1, Backoff_Max = 5 * Minute\<rparr> 6 = 5 * Minute"
  by code_simp

lemma NextDelay_bounds_witness:
  "20 * Second \<le> NextDelay None DefaultBackoff 3"
  using NextDelay_bounds [of DefaultBackoff 3 None] by (simp add: DefaultBackoff_def)

subsection \<open>Identifiers\<close>

text \<open>\<open>strconv.FormatInt\<close> and \<open>FormatUint\<close> in base 36, most significant digit first.\<close>

definition digits36 :: string where
  "digits36 = ''0123456789abcdefghijklmnopqrstuvwxyz''"

fun format36 :: "nat \<Rightarrow> string" where
  "format36 n = (if n < 36 then [digits36 ! n] else format36 (n div 36) @ [digits36 ! (n mod 36)])"

declare format36.simps [simp del]

definition formatID :: "int \<Rightarrow> nat \<Rightarrow> string" where
  "formatID unixNano sq = ''job_'' @
     (if unixNano < 0 then CHR ''-'' # format36 (nat (- unixNano)) else format36 (nat unixNano))
     @ ''_'' @ format36 sq"

lemma digits36_length: "length digits36 = 36"
  by (simp add: digits36_def)

lemma digits36_distinct: "distinct digits36"
  by (simp add: digits36_def)

lemma digits36_no_sep: "CHR ''_'' \<notin> set digits36" "CHR ''-'' \<notin> set digits36"
  by (simp_all add: digits36_def)

lemma digit_inj: "a < 36 \<Longrightarrow> b < 36 \<Longrightarrow> digits36 ! a = digits36 ! b \<Longrightarrow> a = b"
  using nth_eq_iff_index_eq [OF digits36_distinct] by (simp add: digits36_length)

lemma format36_nonempty: "format36 n \<noteq> []"
  by (subst format36.simps) simp

lemma format36_set: "set (format36 n) \<subseteq> set digits36"
proof (induction n rule: format36.induct)
  case (1 n)
  have "digits36 ! (n mod 36) \<in> set digits36" by (rule nth_mem) (simp add: digits36_length)
  moreover have "digits36 ! n \<in> set digits36" if "n < 36"
    using that by (intro nth_mem) (simp add: digits36_length)
  ultimately show ?case using 1 by (subst format36.simps) auto
qed

lemma format36_inj: "format36 n = format36 m \<Longrightarrow> n = m"
proof (induction n arbitrary: m rule: format36.induct)
  case (1 n)
  show ?case
  proof (cases "n < 36")
    case True
    then have n: "format36 n = [digits36 ! n]" by (simp add: format36.simps [of n])
    show ?thesis
    proof (cases "m < 36")
      case m: True
      then have "format36 m = [digits36 ! m]" by (simp add: format36.simps [of m])
      with n 1 True m show ?thesis by (simp add: digit_inj)
    next
      case m: False
      then have "format36 m = format36 (m div 36) @ [digits36 ! (m mod 36)]"
        by (simp add: format36.simps [of m])
      with n 1(2) show ?thesis using format36_nonempty [of "m div 36"] by simp
    qed
  next
    case False
    then have n: "format36 n = format36 (n div 36) @ [digits36 ! (n mod 36)]"
      by (simp add: format36.simps [of n])
    show ?thesis
    proof (cases "m < 36")
      case m: True
      then have "format36 m = [digits36 ! m]" by (simp add: format36.simps [of m])
      with n 1(2) show ?thesis using format36_nonempty [of "n div 36"]
        by (metis append_eq_Cons_conv append_is_Nil_conv not_Cons_self2)
    next
      case m: False
      then have "format36 m = format36 (m div 36) @ [digits36 ! (m mod 36)]"
        by (simp add: format36.simps [of m])
      with n 1(2) have "format36 (n div 36) = format36 (m div 36)"
        "digits36 ! (n mod 36) = digits36 ! (m mod 36)" by simp_all
      with 1(1) [OF False] have "n div 36 = m div 36" "n mod 36 = m mod 36"
        by (auto intro: digit_inj)
      then show ?thesis by (metis div_mult_mod_eq)
    qed
  qed
qed

lemma split_at_sep:
  assumes "xs @ c # ys = xs' @ c # ys'" "c \<notin> set xs" "c \<notin> set xs'"
  shows "xs = xs' \<and> ys = ys'"
  using assms
proof (induction xs arbitrary: xs')
  case Nil
  then show ?case by (cases xs') auto
next
  case (Cons x xs)
  then show ?case by (cases xs') auto
qed

text \<open>
  Generated job ids are unique: two ids are equal only when both the clock reading and the
  sequence number are, so ids of one process never collide while the counter has not wrapped.
\<close>

theorem formatID_inj:
  "formatID t1 n1 = formatID t2 n2 \<longleftrightarrow> t1 = t2 \<and> n1 = n2"
proof
  assume eq: "formatID t1 n1 = formatID t2 n2"
  let ?ts = "\<lambda>t. if t < 0 then CHR ''-'' # format36 (nat (- t)) else format36 (nat t)"
  have sep: "CHR ''_'' \<notin> set (?ts t)" for t :: int
    using format36_set digits36_no_sep by (auto split: if_splits)
  have minus: "CHR ''-'' # format36 a \<noteq> format36 b" for a b
    using format36_set [of b] digits36_no_sep(2) by (metis list.set_intros(1) subsetD)
  from eq have "?ts t1 @ CHR ''_'' # format36 n1 = ?ts t2 @ CHR ''_'' # format36 n2"
    by (simp add: formatID_def)
  from split_at_sep [OF this sep sep] have "?ts t1 = ?ts t2" "format36 n1 = format36 n2" by auto
  note ts = this(1) and n = format36_inj [OF this(2)]
  have "t1 = t2"
  proof (cases "t1 < 0")
    case True
    then have neg: "t2 < 0" using ts minus by (metis (full_types))
    with True ts have "nat (- t1) = nat (- t2)" by (auto intro: format36_inj)
    with True neg show ?thesis by simp
  next
    case False
    then have pos: "\<not> t2 < 0" using ts minus by (metis (full_types))
    with False ts have "nat t1 = nat t2" by (auto intro: format36_inj)
    with False pos show ?thesis by simp
  qed
  with n show "t1 = t2 \<and> n1 = n2" by simp
qed simp

subsection \<open>Handlers\<close>

text \<open>A handler returns an error text or nil, or panics.\<close>

datatype handler_outcome = Returned "string option" | Panicked string

type_synonym registry = "string \<rightharpoonup> (Job \<Rightarrow> handler_outcome)"

definition NewRegistry :: registry where
  "NewRegistry = Map.empty"

text \<open>\<open>None\<close> is a panic; a nil handler is \<open>None\<close> as an argument.\<close>

definition Register :: "string \<Rightarrow> (Job \<Rightarrow> handler_outcome) option \<Rightarrow> registry \<Rightarrow> registry option" where
  "Register kind h r =
     (if kind = [] then None
      else case h of
        None \<Rightarrow> None
      | Some f \<Rightarrow> if r kind \<noteq> None then None else Some (r(kind \<mapsto> f)))"

definition Kinds :: "string list \<Rightarrow> registry \<Rightarrow> string list" where
  "Kinds ks r = ks"

text \<open>\<open>quote\<close> is the \<open>%q\<close> of \<open>fmt\<close>.\<close>

definition Dispatch :: "(string \<Rightarrow> string) \<Rightarrow> registry \<Rightarrow> Job \<Rightarrow> handler_outcome" where
  "Dispatch quote r j =
     (case r (job_Kind j) of
        None \<Rightarrow> Returned (Some (''jobqueue: no handler registered for kind '' @ quote (job_Kind j)))
      | Some h \<Rightarrow> h j)"

definition handler_err :: "handler_outcome \<Rightarrow> string option" where
  "handler_err out = (case out of Returned e \<Rightarrow> e | Panicked v \<Rightarrow> Some (''handler panic: '' @ v))"

subsection \<open>The pool\<close>

record PoolOptions =
  po_Size :: int
  po_PollEvery :: int
  po_Backoff :: "(int \<Rightarrow> int) option"
  po_WorkerIDPrefix :: string

definition NewPool :: "(int \<Rightarrow> int) \<Rightarrow> bool \<Rightarrow> bool \<Rightarrow> PoolOptions \<Rightarrow> string + PoolOptions" where
  "NewPool default_backoff has_store has_registry opts =
     (if \<not> has_store then Inl ''jobqueue: PoolOptions.Store is nil''
      else if \<not> has_registry then Inl ''jobqueue: PoolOptions.Registry is nil''
      else Inr (opts\<lparr>po_Size := (if po_Size opts \<le> 0 then 4 else po_Size opts),
                     po_PollEvery := (if po_PollEvery opts \<le> 0 then 5 * Second else po_PollEvery opts),
                     po_Backoff := (case po_Backoff opts of None \<Rightarrow> Some default_backoff | Some b \<Rightarrow> Some b),
                     po_WorkerIDPrefix := (if po_WorkerIDPrefix opts = [] then ''cooker''
                                           else po_WorkerIDPrefix opts)\<rparr>))"

type_synonym ('e, 's) complete_op = "time \<Rightarrow> string \<Rightarrow> string \<Rightarrow> 's \<Rightarrow> 'e + 's"
type_synonym ('e, 's) resched_op = "time \<Rightarrow> string \<Rightarrow> string \<Rightarrow> time \<Rightarrow> string \<Rightarrow> 's \<Rightarrow> 'e + 's"
type_synonym ('e, 'o, 's) dequeue_op = "time \<Rightarrow> 'o \<Rightarrow> string \<Rightarrow> string list \<Rightarrow> 's \<Rightarrow> 'e + 's \<times> Job option"

text \<open>An error of the report is only logged.\<close>

definition Pool_handle ::
  "('e, 's) complete_op \<Rightarrow> ('e, 's) resched_op \<Rightarrow> (int \<Rightarrow> int) \<Rightarrow> (Job \<Rightarrow> handler_outcome)
    \<Rightarrow> time \<Rightarrow> string \<Rightarrow> Job \<Rightarrow> 's \<Rightarrow> 's" where
  "Pool_handle complete resched nextDelay dispatch now workerID j s =
     (case handler_err (dispatch j) of
        None \<Rightarrow> (case complete now workerID (job_ID j) s of Inl e \<Rightarrow> s | Inr s' \<Rightarrow> s')
      | Some msg \<Rightarrow>
          (let nextRunAt = now + nextDelay (job_Attempts j)
           in case resched now workerID (job_ID j) nextRunAt msg s of Inl e \<Rightarrow> s | Inr s' \<Rightarrow> s'))"

text \<open>One round of a worker's loop, and what the worker does next.\<close>

datatype pool_next = Exit | RetrySleep | IdleWait | Again

definition Pool_run_round ::
  "('e, 'o, 's) dequeue_op \<Rightarrow> ('e, 's) complete_op \<Rightarrow> ('e, 's) resched_op \<Rightarrow> (int \<Rightarrow> int)
    \<Rightarrow> (Job \<Rightarrow> handler_outcome) \<Rightarrow> bool \<Rightarrow> time \<Rightarrow> time \<Rightarrow> 'o \<Rightarrow> string \<Rightarrow> string list \<Rightarrow> 's
    \<Rightarrow> pool_next \<times> 's" where
  "Pool_run_round dequeue complete resched nextDelay dispatch ctx_done now1 now2 ord workerID kinds s =
     (if ctx_done then (Exit, s)
      else case dequeue now1 ord workerID kinds s of
        Inl e \<Rightarrow> (RetrySleep, s)
      | Inr (s', None) \<Rightarrow> (IdleWait, s')
      | Inr (s', Some j) \<Rightarrow>
          (Again, Pool_handle complete resched nextDelay dispatch now2 workerID j s'))"

subsection \<open>The store interface\<close>

definition succeeded_job :: "time \<Rightarrow> Job \<Rightarrow> Job" where
  "succeeded_job now j = j\<lparr>job_Status := StatusSucceeded, job_FinishedAt := Some now,
     job_LockedBy := [], job_UpdatedAt := now\<rparr>"

definition rescheduled_job :: "time \<Rightarrow> time \<Rightarrow> string \<Rightarrow> Job \<Rightarrow> Job" where
  "rescheduled_job now t msg j =
     (if job_Attempts j \<ge> job_MaxAttempts j
      then j\<lparr>job_Status := StatusFailed, job_FinishedAt := Some now, job_LastError := msg,
             job_LockedBy := [], job_UpdatedAt := now\<rparr>
      else j\<lparr>job_Status := StatusPending, job_RunAt := t, job_LastError := msg, job_LockedBy := [],
             job_LockedAt := None, job_StartedAt := None, job_UpdatedAt := now\<rparr>)"

locale job_store =
  fixes view :: "'s \<Rightarrow> job_map"
    and inv :: "'s \<Rightarrow> bool"
    and ord_ok :: "'o \<Rightarrow> 's \<Rightarrow> bool"
    and dequeue :: "('e, 'o, 's) dequeue_op"
    and complete :: "('e, 's) complete_op"
    and resched :: "('e, 's) resched_op"
  assumes dequeue_none:
      "inv s \<Longrightarrow> ord_ok ord s \<Longrightarrow> dequeue now ord w kinds s = Inr (s', None) \<Longrightarrow>
       s' = s \<and> (\<forall>j \<in> ran (view s). \<not> eligible now kinds (view s) j)"
    and dequeue_some:
      "inv s \<Longrightarrow> ord_ok ord s \<Longrightarrow> dequeue now ord w kinds s = Inr (s', Some j) \<Longrightarrow>
       \<exists>j0. view s (job_ID j) = Some j0 \<and> eligible now kinds (view s) j0 \<and> j = claim_job now w j0 \<and>
         view s' = (view s)(job_ID j \<mapsto> j) \<and> inv s'"
    and complete_locked:
      "inv s \<Longrightarrow> view s i = Some j \<Longrightarrow> job_Status j = StatusRunning \<Longrightarrow> job_LockedBy j = w \<Longrightarrow>
       \<exists>s'. complete now w i s = Inr s' \<and> inv s' \<and> view s' = (view s)(i \<mapsto> succeeded_job now j)"
    and resched_locked:
      "inv s \<Longrightarrow> view s i = Some j \<Longrightarrow> job_Status j = StatusRunning \<Longrightarrow> job_LockedBy j = w \<Longrightarrow>
       \<exists>s'. resched now w i t msg s = Inr s' \<and> inv s' \<and> view s' = (view s)(i \<mapsto> rescheduled_job now t msg j)"
begin

lemma handle_locked:
  assumes "inv s" "view s (job_ID j) = Some j" "job_Status j = StatusRunning" "job_LockedBy j = w"
  shows "inv (Pool_handle complete resched nd disp now w j s) \<and>
    view (Pool_handle complete resched nd disp now w j s) = (view s)(job_ID j \<mapsto>
      (case handler_err (disp j) of
         None \<Rightarrow> succeeded_job now j
       | Some msg \<Rightarrow> rescheduled_job now (now + nd (job_Attempts j)) msg j))"
proof (cases "handler_err (disp j)")
  case None
  with complete_locked [OF assms, of now] show ?thesis by (auto simp: Pool_handle_def)
next
  case (Some msg)
  with resched_locked [OF assms, of now "now + nd (job_Attempts j)" msg] show ?thesis
    by (auto simp: Pool_handle_def)
qed

lemma round_claimed:
  assumes "inv s" "ord_ok ord s"
    and "Pool_run_round dequeue complete resched nd disp False now1 now2 ord w kinds s = (Again, s')"
  shows "inv s' \<and> (\<exists>i j0. view s i = Some j0 \<and> eligible now1 kinds (view s) j0 \<and>
    view s' = (view s)(i \<mapsto>
      (let j = claim_job now1 w j0 in
       case handler_err (disp j) of
         None \<Rightarrow> succeeded_job now2 j
       | Some msg \<Rightarrow> rescheduled_job now2 (now2 + nd (job_Attempts j)) msg j)))"
proof -
  obtain s1 j where deq: "dequeue now1 ord w kinds s = Inr (s1, Some j)"
    and s': "s' = Pool_handle complete resched nd disp now2 w j s1"
    using assms(3) by (auto simp: Pool_run_round_def split: sum.splits option.splits)
  from dequeue_some [OF assms(1,2) deq] obtain j0 where
    j0: "view s (job_ID j) = Some j0" "eligible now1 kinds (view s) j0" "j = claim_job now1 w j0"
      "view s1 = (view s)(job_ID j \<mapsto> j)" "inv s1" by blast
  have "view s1 (job_ID j) = Some j" "job_Status j = StatusRunning" "job_LockedBy j = w"
    using j0 by (simp_all add: claim_job_def)
  from handle_locked [OF j0(5) this, of nd disp now2] j0 show ?thesis
    by (auto simp: s' Let_def intro!: exI [of _ "job_ID j"])
qed

end

subsection \<open>The in-memory store keeps the contract\<close>

definition JobMem_dequeue_op :: "(jq_error, string list \<times> string list, job_map) dequeue_op" where
  "JobMem_dequeue_op now ord w kinds m = Inr (JobMem_Dequeue now ord w kinds m)"

interpretation jm: job_store "\<lambda>m. m" jq_inv
  "\<lambda>ord m. iter_order (fst ord) m \<and> iter_order (snd ord) m"
  JobMem_dequeue_op JobMem_Complete JobMem_Reschedule
proof (unfold_locales, goal_cases)
  case (1 s ord now w kinds s')
  then have "iter_order (fst ord) s" "iter_order (snd ord) s" by auto
  then show ?case
    by (cases rule: Dequeue_cases [where now = now and w = w and kinds = kinds])
      (use 1 in \<open>auto simp: JobMem_dequeue_op_def\<close>)
next
  case (2 s ord now w kinds s' j)
  then have "iter_order (fst ord) s" "iter_order (snd ord) s" by auto
  then show ?case
  proof (cases rule: Dequeue_cases [where now = now and w = w and kinds = kinds])
    case none
    with 2 show ?thesis by (simp add: JobMem_dequeue_op_def)
  next
    case (claim k)
    with 2 jq_inv_claim [OF 2(1) claim(1,2)] show ?thesis
      by (auto simp: JobMem_dequeue_op_def claim_job_def)
  qed
next
  case (3 s i j w now)
  then have "JobMem_Complete now w i s = Inr (s(i \<mapsto> succeeded_job now j))"
    by (simp add: JobMem_Complete_def succeeded_job_def)
  with jq_inv_complete [OF 3(1)] show ?case by blast
next
  case (4 s i j w now t msg)
  then have "JobMem_Reschedule now w i t msg s = Inr (s(i \<mapsto> rescheduled_job now t msg j))"
    by (simp add: JobMem_Reschedule_def rescheduled_job_def)
  with jq_inv_reschedule [OF 4(1)] show ?case by blast
qed

text \<open>
  A worker round that claims a job runs its handler once and settles it: the job is
  succeeded when the handler returned nil; otherwise (an error, a panic or a missing handler)
  it is failed for good once its attempts have reached the cap, and pending again at the
  backoff time before that.  No other job changes, and the queue invariant is kept.
\<close>

theorem Pool_round_settles:
  assumes "jq_inv m" "iter_order (fst ord) m" "iter_order (snd ord) m"
    and "Pool_run_round JobMem_dequeue_op JobMem_Complete JobMem_Reschedule nextDelay
      (Dispatch quote r) False now1 now2 ord w kinds m = (Again, m')"
  shows "jq_inv m' \<and> (\<exists>i j j'. m i = Some j \<and> eligible now1 kinds m j \<and> m' = m(i \<mapsto> j') \<and>
    job_Attempts j' = job_Attempts j + 1 \<and> job_LockedBy j' = [] \<and>
    (case handler_err (Dispatch quote r (claim_job now1 w j)) of
       None \<Rightarrow> job_Status j' = StatusSucceeded
     | Some msg \<Rightarrow> job_LastError j' = msg \<and>
         (if job_Attempts j + 1 \<ge> job_MaxAttempts j then job_Status j' = StatusFailed
          else job_Status j' = StatusPending \<and> job_RunAt j' = now2 + nextDelay (job_Attempts j + 1))))"
proof -
  from jm.round_claimed [of m ord, OF assms(1) _ assms(4)] assms(2,3) obtain i j where
    "jq_inv m'" "m i = Some j" "eligible now1 kinds m j"
    "m' = m(i \<mapsto> (let j = claim_job now1 w j in
       case handler_err (Dispatch quote r j) of
         None \<Rightarrow> succeeded_job now2 j
       | Some msg \<Rightarrow> rescheduled_job now2 (now2 + nextDelay (job_Attempts j)) msg j))" by auto
  moreover define j' where "j' = (let j = claim_job now1 w j in
       case handler_err (Dispatch quote r j) of
         None \<Rightarrow> succeeded_job now2 j
       | Some msg \<Rightarrow> rescheduled_job now2 (now2 + nextDelay (job_Attempts j)) msg j)"
  moreover have "job_Attempts j' = job_Attempts j + 1 \<and> job_LockedBy j' = [] \<and>
    (case handler_err (Dispatch quote r (claim_job now1 w j)) of
       None \<Rightarrow> job_Status j' = StatusSucceeded
     | Some msg \<Rightarrow> job_LastError j' = msg \<and>
         (if job_Attempts j + 1 \<ge> job_MaxAttempts j then job_Status j' = StatusFailed
          else job_Status j' = StatusPending \<and> job_RunAt j' = now2 + nextDelay (job_Attempts j + 1)))"
    by (cases "handler_err (Dispatch quote r (claim_job now1 w j))")
      (simp_all add: j'_def Let_def claim_job_def succeeded_job_def rescheduled_job_def)
  ultimately show ?thesis by blast
qed

lemma Pool_round_settles_witness:
  "\<exists>m'. Pool_run_round JobMem_dequeue_op JobMem_Complete JobMem_Reschedule (\<lambda>_. 5)
      (Dispatch id NewRegistry) False 20 30 ([''a''], [''a'']) ''w'' [''run''] demo_queue = (Again, m') \<and>
    jq_inv m'"
proof -
  obtain m' where "Pool_run_round JobMem_dequeue_op JobMem_Complete JobMem_Reschedule (\<lambda>_. 5)
      (Dispatch id NewRegistry) False 20 30 ([''a''], [''a'']) ''w'' [''run''] demo_queue = (Again, m')"
    by (simp add: Pool_run_round_def JobMem_dequeue_op_def demo_claim)
  with Pool_round_settles [OF demo_inv _ _ this] show ?thesis by (simp add: demo_order)
qed

end
