(* ===== verification/LogStore.thy ===== *)
theory LogStore
  imports Prelude "HOL-Library.Sublist"
begin

text \<open>
  The replayable stage logs: the bounded in-memory store of \<open>backend/internal/logstore\<close>
  (\<open>memory.go\<close>, \<open>logstore.go\<close>) and the writer of \<open>backend/internal/service/logbroadcast.go\<close>
  that cuts a byte stream into numbered lines.  The writer knows the store through its
  interface; the locale \<open>log_store\<close> states it and is interpreted on the in-memory store.
  A byte is a \<open>char\<close>.
\<close>

record Entry =
  Entry_Seq :: int
  Entry_TS :: time
  Entry_Line :: string

subsection \<open>The in-memory store\<close>

record stream =
  str_entries :: "Entry list"
  str_bytes :: int

text \<open>
  The LRU list holds pointers to streams; a stream is known by its key, so the list is a
  list of keys, least recently appended first.
\<close>

record LogMem =
  lm_maxBytes :: int
  lm_maxStreams :: int
  lm_streams :: "string \<rightharpoonup> stream"
  lm_lru :: "string list"

definition LogMem_New :: "int \<Rightarrow> int \<Rightarrow> LogMem" where
  "LogMem_New maxBytes maxStreams =
     \<lparr>lm_maxBytes = (if maxBytes < 1 then 1 else maxBytes),
      lm_maxStreams = (if maxStreams < 1 then 1 else maxStreams),
      lm_streams = Map.empty, lm_lru = []\<rparr>"

abbreviation NUL :: char where "NUL \<equiv> CHR 0x00"

definition streamKey :: "string \<Rightarrow> string \<Rightarrow> string" where
  "streamKey runID stageID = runID @ [NUL] @ stageID"

fun drop_oldest :: "int \<Rightarrow> Entry list \<Rightarrow> int \<Rightarrow> Entry list \<times> int" where
  "drop_oldest cap [] b = ([], b)"
| "drop_oldest cap (e # es) b =
     (if b > cap \<and> length (e # es) > 1 then drop_oldest cap es (b - int (length (Entry_Line e)))
      else (e # es, b))"

fun evict_streams :: "int \<Rightarrow> (string \<rightharpoonup> stream) \<Rightarrow> string list \<Rightarrow> (string \<rightharpoonup> stream) \<times> string list" where
  "evict_streams cap ss [] = (ss, [])"
| "evict_streams cap ss (k # lru) =
     (if int (card (dom ss)) > cap then evict_streams cap (ss(k := None)) lru else (ss, k # lru))"

definition LogMem_Append :: "string \<Rightarrow> string \<Rightarrow> Entry \<Rightarrow> LogMem \<Rightarrow> LogMem" where
  "LogMem_Append runID stageID e m =
     (let key = streamKey runID stageID;
          (s, lru) = (case lm_streams m key of
             None \<Rightarrow> (\<lparr>str_entries = [], str_bytes = 0\<rparr>, lm_lru m @ [key])
           | Some s \<Rightarrow> (s, removeAll key (lm_lru m) @ [key]));
          (es, b) = drop_oldest (lm_maxBytes m) (str_entries s @ [e])
                      (str_bytes s + int (length (Entry_Line e)));
          (ss, lru') = evict_streams (lm_maxStreams m)
                         ((lm_streams m)(key \<mapsto> \<lparr>str_entries = es, str_bytes = b\<rparr>)) lru
      in m\<lparr>lm_streams := ss, lm_lru := lru'\<rparr>)"

text \<open>A nil slice and an empty one read the same.\<close>

definition LogMem_Read :: "string \<Rightarrow> string \<Rightarrow> int \<Rightarrow> LogMem \<Rightarrow> Entry list" where
  "LogMem_Read runID stageID since m =
     (case lm_streams m (streamKey runID stageID) of
        None \<Rightarrow> []
      | Some s \<Rightarrow> filter (\<lambda>e. Entry_Seq e > since) (str_entries s))"

text \<open>\<open>envInt\<close>: \<open>atoi\<close> is \<open>strconv.Atoi\<close>, \<open>None\<close> for an error.\<close>

definition envInt :: "(string \<Rightarrow> int option) \<Rightarrow> string \<Rightarrow> int \<Rightarrow> int" where
  "envInt atoi v def =
     (if v = [] then def else case atoi v of None \<Rightarrow> def | Some n \<Rightarrow> if n < 1 then def else n)"

definition log_bytes :: "Entry list \<Rightarrow> int" where
  "log_bytes es = (\<Sum>e\<leftarrow>es. int (length (Entry_Line e)))"

text \<open>
  The caps hold, with one exception the code makes on purpose: a single line may be larger
  than the byte cap.  The byte count is exact and the LRU list orders the live streams.
\<close>

definition logmem_inv :: "LogMem \<Rightarrow> bool" where
  "logmem_inv m \<longleftrightarrow> 1 \<le> lm_maxStreams m \<and> distinct (lm_lru m) \<and> set (lm_lru m) = dom (lm_streams m) \<and>
     int (card (dom (lm_streams m))) \<le> lm_maxStreams m \<and>
     (\<forall>s \<in> ran (lm_streams m). str_entries s \<noteq> [] \<and> str_bytes s = log_bytes (str_entries s) \<and>
        (str_bytes s \<le> lm_maxBytes m \<or> length (str_entries s) = 1))"

lemma drop_oldest_suffix:
  "es \<noteq> [] \<Longrightarrow> drop_oldest cap es b = (es', b') \<Longrightarrow> suffix es' es \<and> es' \<noteq> [] \<and>
   b' - log_bytes es' = b - log_bytes es \<and> (b' \<le> cap \<or> length es' = 1)"
proof (induction cap es b rule: drop_oldest.induct)
  case (2 cap e es b)
  show ?case
  proof (cases "b > cap \<and> length (e # es) > 1")
    case True
    with 2 have "suffix es' es \<and> es' \<noteq> [] \<and>
        b' - log_bytes es' = b - int (length (Entry_Line e)) - log_bytes es \<and> (b' \<le> cap \<or> length es' = 1)"
      by auto
    then show ?thesis by (auto simp: log_bytes_def suffix_ConsI)
  next
    case False
    with 2(3) have "es' = e # es" "b' = b" by (simp_all only: drop_oldest.simps if_False prod.inject)
    with False show ?thesis by (cases es) auto
  qed
qed simp

lemma evict_streams_spec:
  assumes "distinct lru" "set lru = dom ss" "1 \<le> cap" "evict_streams cap ss lru = (ss', lru')"
  shows "distinct lru' \<and> set lru' = dom ss' \<and> int (card (dom ss')) \<le> cap \<and> suffix lru' lru \<and>
    ss' = ss |` set lru' \<and> (lru \<noteq> [] \<longrightarrow> lru' \<noteq> [])"
  using assms
proof (induction cap ss lru rule: evict_streams.induct)
  case (1 cap ss)
  then have "dom ss = {}" by simp
  then have "ss = Map.empty" by simp
  with 1 have "ss' = Map.empty" "lru' = []" "ss = ss'" by auto
  with 1(3) show ?case by simp
next
  case (2 cap ss k lru)
  show ?case
  proof (cases "int (card (dom ss)) > cap")
    case True
    then have ih: "distinct lru' \<and> set lru' = dom ss' \<and> int (card (dom ss')) \<le> cap \<and> suffix lru' lru \<and>
        ss' = (ss(k := None)) |` set lru' \<and> (lru \<noteq> [] \<longrightarrow> lru' \<noteq> [])"
    proof (intro "2.IH")
      show "set lru = dom (ss(k := None))" using 2(2,3) by (simp flip: "2"(3))
      show "evict_streams cap (ss(k := None)) lru = (ss', lru')" using 2(5) True by simp
    qed (use True 2(2,4) in auto)
    moreover from this have "k \<notin> set lru'" using 2(2) set_mono_suffix by fastforce
    moreover have "lru \<noteq> []"
    proof
      assume "lru = []"
      then have "dom ss = {k}" using 2(3) by simp
      with True 2(4) show False by simp
    qed
    moreover from \<open>k \<notin> set lru'\<close> have "(ss(k := None)) |` set lru' = ss |` set lru'" by simp
    ultimately show ?thesis using suffix_ConsI by metis
  next
    case False
    then have "ss' = ss" "lru' = k # lru" using 2(5) by auto
    moreover have "ss = ss |` dom ss" by (auto simp: restrict_map_def fun_eq_iff dom_def)
    ultimately show ?thesis using False 2(2,3) by auto
  qed
qed

text \<open>The stream just appended to is last in the LRU list, so it survives the eviction.\<close>

lemma Append_result:
  assumes inv: "logmem_inv m"
  obtains es b keep where
    "lm_streams (LogMem_Append r st e m) =
       ((lm_streams m)(streamKey r st \<mapsto> \<lparr>str_entries = es, str_bytes = b\<rparr>)) |` keep"
    "streamKey r st \<in> keep" "logmem_inv (LogMem_Append r st e m)"
    "suffix es ((case lm_streams m (streamKey r st) of None \<Rightarrow> [] | Some s \<Rightarrow> str_entries s) @ [e])"
    "es \<noteq> []"
proof -
  let ?key = "streamKey r st"
  define s where "s = (case lm_streams m ?key of
    None \<Rightarrow> \<lparr>str_entries = [], str_bytes = 0\<rparr> | Some s \<Rightarrow> s)"
  define lru where "lru = removeAll ?key (lm_lru m) @ [?key]"
  have lru_eq: "(case lm_streams m ?key of
             None \<Rightarrow> (\<lparr>str_entries = [], str_bytes = 0\<rparr>, lm_lru m @ [?key])
           | Some s \<Rightarrow> (s, removeAll ?key (lm_lru m) @ [?key])) = (s, lru)"
  proof (cases "lm_streams m ?key")
    case None
    then have "?key \<notin> set (lm_lru m)" using inv by (auto simp: logmem_inv_def)
    then show ?thesis using None by (simp add: s_def lru_def)
  next
    case (Some t)
    then show ?thesis by (simp add: s_def lru_def)
  qed
  obtain es b where drop: "drop_oldest (lm_maxBytes m) (str_entries s @ [e])
      (str_bytes s + int (length (Entry_Line e))) = (es, b)" by fastforce
  let ?ss = "(lm_streams m)(?key \<mapsto> \<lparr>str_entries = es, str_bytes = b\<rparr>)"
  obtain ss lru' where ev: "evict_streams (lm_maxStreams m) ?ss lru = (ss, lru')" by fastforce
  have res: "LogMem_Append r st e m = m\<lparr>lm_streams := ss, lm_lru := lru'\<rparr>"
    unfolding LogMem_Append_def Let_def lru_eq prod.case drop ev ..
  have sok: "str_bytes s = log_bytes (str_entries s)"
    using inv by (cases "lm_streams m ?key") (auto simp: s_def logmem_inv_def ran_def log_bytes_def)
  have es: "suffix es (str_entries s @ [e])" "es \<noteq> []" "b = log_bytes es"
    "b \<le> lm_maxBytes m \<or> length es = 1"
    using drop_oldest_suffix [OF _ drop] sok by (auto simp: log_bytes_def)
  have "distinct lru" "set lru = dom ?ss" "1 \<le> lm_maxStreams m"
    using inv by (auto simp: lru_def logmem_inv_def distinct_removeAll)
  from evict_streams_spec [OF this ev]
  have lru': "distinct lru'" "set lru' = dom ss" "int (card (dom ss)) \<le> lm_maxStreams m"
    "suffix lru' lru" "ss = ?ss |` set lru'" "lru \<noteq> [] \<longrightarrow> lru' \<noteq> []" by blast+
  then have "lru' \<noteq> []" by (simp only: lru_def) blast
  then have key: "?key \<in> set lru'"
    using lru'(4) by (metis last_in_set last_snoc lru_def suffix_def last_appendR)
  show thesis
  proof (rule that)
    show "lm_streams (LogMem_Append r st e m) = ?ss |` set lru'" using res lru'(5) by simp
    show "?key \<in> set lru'" by (rule key)
    show "suffix es ((case lm_streams m ?key of None \<Rightarrow> [] | Some s \<Rightarrow> str_entries s) @ [e])"
      using es(1) by (cases "lm_streams m ?key") (simp_all add: s_def)
    show "es \<noteq> []" by (rule es(2))
    have sub: "ran ss \<subseteq> insert \<lparr>str_entries = es, str_bytes = b\<rparr> (ran (lm_streams m))"
      unfolding lru'(5) by (auto simp: ran_def restrict_map_def split: if_splits)
    show "logmem_inv (LogMem_Append r st e m)"
      unfolding logmem_inv_def
    proof (intro conjI ballI)
      fix x assume "x \<in> ran (lm_streams (LogMem_Append r st e m))"
      moreover have "lm_streams (LogMem_Append r st e m) = ss"
        and cap: "lm_maxBytes (LogMem_Append r st e m) = lm_maxBytes m" by (simp_all add: res)
      ultimately have "x = \<lparr>str_entries = es, str_bytes = b\<rparr> \<or> x \<in> ran (lm_streams m)"
        using sub by (metis insertE subsetD)
      then have "str_entries x \<noteq> [] \<and> str_bytes x = log_bytes (str_entries x) \<and>
          (str_bytes x \<le> lm_maxBytes m \<or> length (str_entries x) = 1)"
      proof
        assume "x = \<lparr>str_entries = es, str_bytes = b\<rparr>"
        with es(2-4) show ?thesis by simp
      next
        assume "x \<in> ran (lm_streams m)"
        with inv show ?thesis unfolding logmem_inv_def by blast
      qed
      then show "str_entries x \<noteq> []" "str_bytes x = log_bytes (str_entries x)"
        "str_bytes x \<le> lm_maxBytes (LogMem_Append r st e m) \<or> length (str_entries x) = 1"
        unfolding cap by blast+
    qed (use inv lru'(1-3) in \<open>simp_all add: res logmem_inv_def\<close>)
  qed
qed

lemma logmem_inv_New: "logmem_inv (LogMem_New mb ms)"
  by (simp add: logmem_inv_def LogMem_New_def)

text \<open>Distinct streams have distinct keys as long as one of the ids of each is free of NUL.\<close>

lemma streamKey_inj:
  assumes "streamKey r st = streamKey r' st'" "NUL \<notin> set r" "NUL \<notin> set r'"
  shows "r = r' \<and> st = st'"
  using assms unfolding streamKey_def
proof (induction r arbitrary: r')
  case Nil
  then show ?case by (cases r') auto
next
  case (Cons c r)
  then show ?case by (cases r') auto
qed

text \<open>
  The two halves of a stream key are not unambiguous for every content: two different
  streams whose ids contain a NUL byte share one key, so a line appended to the one is read
  back from the other.
\<close>

theorem streamKey_collision:
  "streamKey [CHR ''a'', NUL] ''b'' = streamKey ''a'' [NUL, CHR ''b''] \<and>
   LogMem_Read ''a'' [NUL, CHR ''b''] 0
     (LogMem_Append [CHR ''a'', NUL] ''b'' \<lparr>Entry_Seq = 1, Entry_TS = 5, Entry_Line = ''x''\<rparr> (LogMem_New 10 2))
   = [\<lparr>Entry_Seq = 1, Entry_TS = 5, Entry_Line = ''x''\<rparr>]"
  by (simp add: streamKey_def LogMem_Read_def LogMem_Append_def LogMem_New_def Let_def)

subsection \<open>The store interface\<close>

text \<open>
  What the readers and the writer rely on: a read is the tail of what is retained after the
  cursor, an append adds the entry at the end and may drop a prefix of its own stream, and of
  another stream it drops nothing or everything.
\<close>

locale log_store =
  fixes inv :: "'s \<Rightarrow> bool"
    and id_ok :: "string \<Rightarrow> string \<Rightarrow> bool"
    and append :: "string \<Rightarrow> string \<Rightarrow> Entry \<Rightarrow> 's \<Rightarrow> 's"
    and read :: "string \<Rightarrow> string \<Rightarrow> int \<Rightarrow> 's \<Rightarrow> Entry list"
    and retained :: "string \<Rightarrow> string \<Rightarrow> 's \<Rightarrow> Entry list"
  assumes append_inv: "inv s \<Longrightarrow> inv (append r st e s)"
    and read_tail: "read r st since s = filter (\<lambda>e. Entry_Seq e > since) (retained r st s)"
    and append_same: "inv s \<Longrightarrow> suffix (retained r st (append r st e s)) (retained r st s @ [e]) \<and>
      retained r st (append r st e s) \<noteq> []"
    and append_other: "inv s \<Longrightarrow> id_ok r st \<Longrightarrow> id_ok r' st' \<Longrightarrow> (r, st) \<noteq> (r', st') \<Longrightarrow>
      retained r' st' (append r st e s) \<in> {retained r' st' s, []}"
begin

lemma appends_inv: "inv s \<Longrightarrow> inv (fold (append r st) es s)"
  by (induction es arbitrary: s) (auto intro: append_inv)

text \<open>Appending one by one retains a suffix, and the last entry is part of it.\<close>

lemma appends_suffix:
  "inv s \<Longrightarrow> suffix (retained r st (fold (append r st) es s)) (retained r st s @ es)"
proof (induction es arbitrary: s)
  case (Cons e es)
  have "suffix (retained r st (fold (append r st) es (append r st e s)))
      (retained r st (append r st e s) @ es)"
    using Cons append_inv by blast
  also have "suffix \<dots> (retained r st s @ e # es)"
    using append_same [OF Cons.prems, of r st e] by (auto simp: suffix_def)
  finally show ?case by simp
qed simp

lemma appends_last:
  assumes "inv s" "es \<noteq> []"
  shows "last es \<in> set (retained r st (fold (append r st) es s))"
proof -
  obtain es' e where es: "es = es' @ [e]" using assms(2) by (cases es rule: rev_cases) auto
  let ?s = "fold (append r st) es' s"
  have "inv ?s" using assms(1) by (rule appends_inv)
  from append_same [OF this, of r st e] show ?thesis by (auto simp: es suffix_snoc)
qed

end

definition log_retained :: "string \<Rightarrow> string \<Rightarrow> LogMem \<Rightarrow> Entry list" where
  "log_retained r st m =
     (case lm_streams m (streamKey r st) of None \<Rightarrow> [] | Some s \<Rightarrow> str_entries s)"

interpretation lm: log_store logmem_inv "\<lambda>r st. NUL \<notin> set r" LogMem_Append LogMem_Read log_retained
proof
  fix s r st e
  assume inv: "logmem_inv s"
  from Append_result [OF inv, of r st e] obtain es b keep where
    res: "lm_streams (LogMem_Append r st e s) =
       ((lm_streams s)(streamKey r st \<mapsto> \<lparr>str_entries = es, str_bytes = b\<rparr>)) |` keep"
    "streamKey r st \<in> keep" "logmem_inv (LogMem_Append r st e s)"
    "suffix es (log_retained r st s @ [e])" "es \<noteq> []"
    unfolding log_retained_def by blast
  show "logmem_inv (LogMem_Append r st e s)" by (rule res(3))
  show "suffix (log_retained r st (LogMem_Append r st e s)) (log_retained r st s @ [e]) \<and>
      log_retained r st (LogMem_Append r st e s) \<noteq> []"
    using res by (simp add: log_retained_def)
  fix r' st'
  assume "NUL \<notin> set r" "NUL \<notin> set r'" "(r, st) \<noteq> (r', st')"
  then have "streamKey r' st' \<noteq> streamKey r st" using streamKey_inj by blast
  then show "log_retained r' st' (LogMem_Append r st e s) \<in> {log_retained r' st' s, []}"
    unfolding log_retained_def res(1) by (simp add: restrict_map_def)
next
  fix r st since s
  show "LogMem_Read r st since s = filter (\<lambda>e. Entry_Seq e > since) (log_retained r st s)"
    by (simp add: LogMem_Read_def log_retained_def split: option.split)
qed

end
