(* ===== verification/LineWriter.thy ===== *)
theory LineWriter
  imports LogStore
begin

text \<open>
  The line writer of \<open>backend/internal/service/logbroadcast.go\<close>: it cuts the bytes a build
  tool writes, in chunks of any size, into lines, numbers them, appends them to the log store
  and broadcasts them.  The store and the wire encoding (\<open>json.Marshal\<close> behind
  \<open>logstore.EncodeFrame\<close>) are arguments; the clock reading of the line numbered \<open>n\<close> is
  \<open>ts n\<close>.
\<close>

abbreviation NL :: char where "NL \<equiv> CHR 0x0A"

definition RunStatusChannel :: "string \<Rightarrow> string" where
  "RunStatusChannel runID = ''pipeline-run:'' @ runID"

definition StageLogChannel :: "string \<Rightarrow> string \<Rightarrow> string" where
  "StageLogChannel runID stageID = ''stage-logs:'' @ runID @ '':'' @ stageID"

record lineWriter =
  lw_broadcast :: bool
  lw_store :: bool
  lw_runID :: string
  lw_stageID :: string
  lw_channel :: string
  lw_seq :: int
  lw_partial :: string

definition newLineWriter :: "bool \<Rightarrow> bool \<Rightarrow> string \<Rightarrow> string \<Rightarrow> lineWriter" where
  "newLineWriter broadcast store runID stageID =
     \<lparr>lw_broadcast = broadcast, lw_store = store, lw_runID = runID, lw_stageID = stageID,
      lw_channel = StageLogChannel runID stageID, lw_seq = 0, lw_partial = []\<rparr>"

text \<open>The state around the writer: the store and the frames sent so far, with their channel.\<close>

type_synonym 's log_world = "'s \<times> (string \<times> string) list"
type_synonym 's append_op = "string \<Rightarrow> string \<Rightarrow> Entry \<Rightarrow> 's \<Rightarrow> 's"
type_synonym encode_op = "string \<Rightarrow> string \<Rightarrow> Entry \<Rightarrow> string option"

definition lw_emit ::
  "'s append_op \<Rightarrow> encode_op \<Rightarrow> (int \<Rightarrow> time) \<Rightarrow> string \<Rightarrow> lineWriter \<times> 's log_world
    \<Rightarrow> lineWriter \<times> 's log_world" where
  "lw_emit app encode ts line st =
     (case st of (w, s, out) \<Rightarrow>
       (let n = lw_seq w + 1;
            e = \<lparr>Entry_Seq = n, Entry_TS = ts n, Entry_Line = line\<rparr>;
            s' = (if lw_store w then app (lw_runID w) (lw_stageID w) e s else s);
            out' = (if lw_broadcast w
                    then (case encode (lw_runID w) (lw_stageID w) e of
                            None \<Rightarrow> out
                          | Some frame \<Rightarrow> out @ [(lw_channel w, frame)])
                    else out)
        in (w\<lparr>lw_seq := n\<rparr>, s', out')))"

text \<open>The loop of \<open>Write\<close>: cut at the first newline until none is left.\<close>

function lw_write_loop ::
  "'s append_op \<Rightarrow> encode_op \<Rightarrow> (int \<Rightarrow> time) \<Rightarrow> string \<Rightarrow> lineWriter \<times> 's log_world
    \<Rightarrow> lineWriter \<times> 's log_world" where
  "lw_write_loop app encode ts combined st =
     (if NL \<notin> set combined then
        (if combined \<noteq> [] then (case st of (w, wl) \<Rightarrow> (w\<lparr>lw_partial := combined\<rparr>, wl)) else st)
      else
        lw_write_loop app encode ts (tl (dropWhile (\<lambda>c. c \<noteq> NL) combined))
          (lw_emit app encode ts (takeWhile (\<lambda>c. c \<noteq> NL) combined) st))"
  by pat_completeness auto
termination
proof (relation "measure (\<lambda>(app, encode, ts, combined, st). length combined)")
  fix app :: "'s append_op" and encode ts combined and st :: "lineWriter \<times> 's log_world"
  assume "\<not> NL \<notin> set combined"
  then have "dropWhile (\<lambda>c. c \<noteq> NL) combined \<noteq> []" by (auto simp: dropWhile_eq_Nil_conv)
  then have "length (tl (dropWhile (\<lambda>c. c \<noteq> NL) combined)) < length (dropWhile (\<lambda>c. c \<noteq> NL) combined)"
    by (cases "dropWhile (\<lambda>c. c \<noteq> NL) combined") auto
  also have "\<dots> \<le> length combined" by (rule length_dropWhile_le)
  finally show "((app, encode, ts, tl (dropWhile (\<lambda>c. c \<noteq> NL) combined),
      lw_emit app encode ts (takeWhile (\<lambda>c. c \<noteq> NL) combined) st), app, encode, ts, combined, st)
      \<in> measure (\<lambda>(app, encode, ts, combined, st). length combined)" by simp
qed simp

declare lw_write_loop.simps [simp del]

text \<open>The count returned is always \<open>len(p)\<close>.\<close>

definition lw_Write ::
  "'s append_op \<Rightarrow> encode_op \<Rightarrow> (int \<Rightarrow> time) \<Rightarrow> string \<Rightarrow> lineWriter \<times> 's log_world
    \<Rightarrow> nat \<times> lineWriter \<times> 's log_world" where
  "lw_Write app encode ts p st =
     (case st of (w, wl) \<Rightarrow>
       if \<not> lw_broadcast w \<and> \<not> lw_store w then (length p, st)
       else if p = [] then (0, st)
       else
         (let (combined, w') = (if lw_partial w \<noteq> [] then (lw_partial w @ p, w\<lparr>lw_partial := []\<rparr>)
                                else (p, w))
          in (length p, lw_write_loop app encode ts combined (w', wl))))"

definition lw_flush ::
  "'s append_op \<Rightarrow> encode_op \<Rightarrow> (int \<Rightarrow> time) \<Rightarrow> lineWriter \<times> 's log_world \<Rightarrow> lineWriter \<times> 's log_world" where
  "lw_flush app encode ts st =
     (case st of (w, wl) \<Rightarrow>
       if (\<not> lw_broadcast w \<and> \<not> lw_store w) \<or> lw_partial w = [] then st
       else (case lw_emit app encode ts (lw_partial w) st of (w', wl') \<Rightarrow> (w'\<lparr>lw_partial := []\<rparr>, wl')))"

fun lw_writes ::
  "'s append_op \<Rightarrow> encode_op \<Rightarrow> (int \<Rightarrow> time) \<Rightarrow> string list \<Rightarrow> lineWriter \<times> 's log_world
    \<Rightarrow> lineWriter \<times> 's log_world" where
  "lw_writes app encode ts [] st = st"
| "lw_writes app encode ts (p # ps) st =
     lw_writes app encode ts ps (snd (lw_Write app encode ts p st))"

subsection \<open>The reference: the lines of a text\<close>

fun complete_lines :: "string \<Rightarrow> string \<Rightarrow> string list" where
  "complete_lines acc [] = []"
| "complete_lines acc (c # cs) =
     (if c = NL then acc # complete_lines [] cs else complete_lines (acc @ [c]) cs)"

fun last_partial :: "string \<Rightarrow> string \<Rightarrow> string" where
  "last_partial acc [] = acc"
| "last_partial acc (c # cs) = (if c = NL then last_partial [] cs else last_partial (acc @ [c]) cs)"

lemma lines_append:
  "complete_lines acc (xs @ ys) = complete_lines acc xs @ complete_lines (last_partial acc xs) ys"
  "last_partial acc (xs @ ys) = last_partial (last_partial acc xs) ys"
  by (induction xs arbitrary: acc) auto

lemma lines_no_NL:
  "NL \<notin> set xs \<Longrightarrow> complete_lines acc xs = [] \<and> last_partial acc xs = acc @ xs"
  by (induction xs arbitrary: acc) auto

lemma lines_cut:
  assumes "NL \<in> set xs"
  shows "complete_lines [] xs =
      takeWhile (\<lambda>c. c \<noteq> NL) xs # complete_lines [] (tl (dropWhile (\<lambda>c. c \<noteq> NL) xs))"
    "last_partial [] xs = last_partial [] (tl (dropWhile (\<lambda>c. c \<noteq> NL) xs))"
proof -
  obtain ys where ys: "dropWhile (\<lambda>c. c \<noteq> NL) xs = NL # ys"
    using assms
  proof (induction xs)
    case (Cons x xs)
    then show ?case by (cases "x = NL") auto
  qed simp
  define tw where "tw = takeWhile (\<lambda>c. c \<noteq> NL) xs"
  have xs: "xs = tw @ NL # ys" using ys by (metis takeWhile_dropWhile_id tw_def)
  have "NL \<notin> set tw" by (auto simp: tw_def dest: set_takeWhileD)
  from lines_no_NL [OF this]
  have "complete_lines [] (tw @ NL # ys) = tw # complete_lines [] ys"
    "last_partial [] (tw @ NL # ys) = last_partial [] ys" by (simp_all add: lines_append)
  then show "complete_lines [] xs =
      takeWhile (\<lambda>c. c \<noteq> NL) xs # complete_lines [] (tl (dropWhile (\<lambda>c. c \<noteq> NL) xs))"
    "last_partial [] xs = last_partial [] (tl (dropWhile (\<lambda>c. c \<noteq> NL) xs))"
    unfolding ys list.sel tw_def [symmetric] xs [symmetric] .
qed

lemma complete_lines_no_NL: "NL \<notin> set acc \<Longrightarrow> l \<in> set (complete_lines acc xs) \<Longrightarrow> NL \<notin> set l"
proof (induction xs arbitrary: acc)
  case (Cons c xs)
  then show ?case using Cons.IH [of "[]"] Cons.IH [of "acc @ [c]"] by (auto split: if_splits)
qed simp

text \<open>The text is recovered from its lines.\<close>

lemma lines_text: "concat (map (\<lambda>l. l @ [NL]) (complete_lines acc xs)) @ last_partial acc xs = acc @ xs"
  by (induction xs arbitrary: acc) auto

subsection \<open>What the writer does\<close>

text \<open>The entries for lines numbered from \<open>n + 1\<close> on.\<close>

fun stamp :: "(int \<Rightarrow> time) \<Rightarrow> int \<Rightarrow> string list \<Rightarrow> Entry list" where
  "stamp ts n [] = []"
| "stamp ts n (l # ls) = \<lparr>Entry_Seq = n + 1, Entry_TS = ts (n + 1), Entry_Line = l\<rparr> # stamp ts (n + 1) ls"

definition frames :: "encode_op \<Rightarrow> lineWriter \<Rightarrow> Entry list \<Rightarrow> (string \<times> string) list" where
  "frames encode w es =
     map (Pair (lw_channel w)) (List.map_filter (encode (lw_runID w) (lw_stageID w)) es)"

text \<open>The effect of emitting a list of lines in order.\<close>

definition emitted ::
  "'s append_op \<Rightarrow> encode_op \<Rightarrow> (int \<Rightarrow> time) \<Rightarrow> string list \<Rightarrow> lineWriter \<times> 's log_world
    \<Rightarrow> lineWriter \<times> 's log_world" where
  "emitted app encode ts ls st =
     (case st of (w, s, out) \<Rightarrow>
       (w\<lparr>lw_seq := lw_seq w + int (length ls)\<rparr>,
        if lw_store w then fold (app (lw_runID w) (lw_stageID w)) (stamp ts (lw_seq w) ls) s else s,
        if lw_broadcast w then out @ frames encode w (stamp ts (lw_seq w) ls) else out))"

lemma emitted_Nil [simp]: "emitted app encode ts [] st = st"
  by (auto simp: emitted_def frames_def List.map_filter_simps split: prod.split)

lemma emitted_Cons:
  "emitted app encode ts (l # ls) st = emitted app encode ts ls (lw_emit app encode ts l st)"
  by (auto simp: emitted_def lw_emit_def frames_def Let_def List.map_filter_simps add.assoc
      split: prod.split option.split)

lemma emitted_append:
  "emitted app encode ts (ls @ ms) st = emitted app encode ts ms (emitted app encode ts ls st)"
  by (induction ls arbitrary: st) (simp_all add: emitted_Cons)

definition with_partial :: "string \<Rightarrow> lineWriter \<times> 's log_world \<Rightarrow> lineWriter \<times> 's log_world" where
  "with_partial p st = (case st of (w, wl) \<Rightarrow> (w\<lparr>lw_partial := p\<rparr>, wl))"

lemma emitted_with_partial:
  "emitted app encode ts ls (with_partial p st) = with_partial p (emitted app encode ts ls st)"
  by (auto simp: emitted_def with_partial_def frames_def split: prod.split)

lemma with_partial_twice [simp]: "with_partial p (with_partial q st) = with_partial p st"
  by (simp add: with_partial_def split: prod.split)

lemma with_partial_same: "lw_partial (fst st) = p \<Longrightarrow> with_partial p st = st"
  by (auto simp: with_partial_def split: prod.split)

lemma emit_partial [simp]: "lw_partial (fst (lw_emit app encode ts l st)) = lw_partial (fst st)"
  by (auto simp: lw_emit_def Let_def split: prod.split)

lemma write_loop_lines:
  "lw_partial (fst st) = [] \<Longrightarrow> lw_write_loop app encode ts xs st =
   with_partial (last_partial [] xs) (emitted app encode ts (complete_lines [] xs) st)"
proof (induction app encode ts xs st rule: lw_write_loop.induct)
  case (1 app encode ts xs st)
  show ?case
  proof (cases "NL \<in> set xs")
    case False
    then show ?thesis using 1(2)
      by (subst lw_write_loop.simps)
        (auto simp: lines_no_NL with_partial_same with_partial_def split: prod.split)
  next
    case True
    then show ?thesis using 1
      by (subst lw_write_loop.simps) (simp add: lines_cut [OF True] emitted_Cons)
  qed
qed

definition active :: "lineWriter \<Rightarrow> bool" where
  "active w \<longleftrightarrow> lw_broadcast w \<or> lw_store w"

lemma Write_lines:
  assumes "active (fst st)" and no_NL: "NL \<notin> set (lw_partial (fst st))"
  shows "snd (lw_Write app encode ts p st) =
    with_partial (last_partial (lw_partial (fst st)) p)
      (emitted app encode ts (complete_lines (lw_partial (fst st)) p) st)"
proof -
  obtain w wl where st: "st = (w, wl)" by (cases st)
  have part: "(w\<lparr>lw_partial := []\<rparr>, wl) = with_partial [] st" by (simp add: st with_partial_def)
  show ?thesis
  proof (cases "p = []")
    case True
    then show ?thesis using assms by (simp add: lw_Write_def st active_def with_partial_same)
  next
    case False
    show ?thesis
    proof (cases "lw_partial w = []")
      case True
      then have "snd (lw_Write app encode ts p st) = lw_write_loop app encode ts p st"
        using False assms by (auto simp: lw_Write_def st active_def)
      with True show ?thesis by (simp add: write_loop_lines st)
    next
      case part_ne: False
      have "snd (lw_Write app encode ts p st) =
          lw_write_loop app encode ts (lw_partial w @ p) (with_partial [] st)"
        using False part_ne assms by (auto simp: lw_Write_def st active_def with_partial_def)
      also have "\<dots> = with_partial (last_partial [] (lw_partial w @ p))
          (emitted app encode ts (complete_lines [] (lw_partial w @ p)) st)"
        by (subst write_loop_lines)
          (simp_all add: emitted_with_partial, simp add: with_partial_def split: prod.split)
      finally show ?thesis
        using lines_append [of "[]" "lw_partial w" p] lines_no_NL [of "lw_partial w" "[]"] no_NL
        by (simp add: st)
    qed
  qed
qed

lemma last_partial_no_NL: "NL \<notin> set acc \<Longrightarrow> NL \<notin> set (last_partial acc xs)"
  by (induction xs arbitrary: acc) auto

lemma emitted_fst [simp]:
  "active (fst (emitted app encode ts ls st)) = active (fst st)"
  "lw_partial (fst (emitted app encode ts ls st)) = lw_partial (fst st)"
  "active (fst (with_partial p st)) = active (fst st)"
  "lw_partial (fst (with_partial p st)) = p"
  by (auto simp: emitted_def active_def with_partial_def split: prod.split)

lemma writes_lines:
  "active (fst st) \<Longrightarrow> NL \<notin> set (lw_partial (fst st)) \<Longrightarrow> lw_writes app encode ts ps st =
   with_partial (last_partial (lw_partial (fst st)) (concat ps))
     (emitted app encode ts (complete_lines (lw_partial (fst st)) (concat ps)) st)"
proof (induction ps arbitrary: st)
  case Nil
  show ?case by (simp add: with_partial_same)
next
  case (Cons p ps)
  let ?st = "snd (lw_Write app encode ts p st)"
  note w = Write_lines [OF Cons.prems, of app encode ts p]
  have "active (fst ?st)" "NL \<notin> set (lw_partial (fst ?st))"
    using Cons.prems by (simp_all add: w last_partial_no_NL)
  from Cons.IH [OF this] show ?case
    by (simp add: w emitted_with_partial emitted_append lines_append)
qed

lemma flush_lines:
  "active (fst st) \<Longrightarrow> lw_flush app encode ts st =
   with_partial [] (emitted app encode ts (if lw_partial (fst st) = [] then [] else [lw_partial (fst st)]) st)"
  by (auto simp: lw_flush_def active_def emitted_Cons with_partial_def split: prod.split)

text \<open>All lines of a text, the last one also when no newline ends it.\<close>

definition text_lines :: "string \<Rightarrow> string list" where
  "text_lines xs = complete_lines [] xs @ (if last_partial [] xs = [] then [] else [last_partial [] xs])"

lemma writes_flush:
  assumes "broadcast \<or> store"
  shows "lw_flush app encode ts (lw_writes app encode ts ps (newLineWriter broadcast store r st, s, []))
    = emitted app encode ts (text_lines (concat ps)) (newLineWriter broadcast store r st, s, [])"
proof -
  let ?st = "(newLineWriter broadcast store r st, s, [])"
  have act: "active (fst ?st)" "lw_partial (fst ?st) = []"
    using assms by (auto simp: active_def newLineWriter_def)
  note w = writes_lines [of ?st app encode ts ps, unfolded act(2), OF act(1)]
  have same: "with_partial [] (emitted app encode ts ls ?st) = emitted app encode ts ls ?st" for ls
    by (rule with_partial_same) (simp only: emitted_fst act(2))
  show ?thesis
    using act(1) same
    by (simp add: w flush_lines emitted_with_partial text_lines_def flip: emitted_append)
qed

text \<open>
  What a stage log holds does not depend on how the build tool chunks its output.  After
  any sequence of writes and the final flush, the frames broadcast are those of the lines of
  the whole text, numbered 1, 2, 3 and so on; no line contains a newline, and the lines with
  their newlines, and the last partial line, are the text that was written.
\<close>

theorem lineWriter_chunks:
  "snd (snd (lw_flush app encode ts
       (lw_writes app encode ts ps (newLineWriter True store r st, s, [])))) =
     map (Pair (StageLogChannel r st))
       (List.map_filter (encode r st) (stamp ts 0 (text_lines (concat ps)))) \<and>
   map Entry_Seq (stamp ts 0 (text_lines (concat ps))) = [1..int (length (text_lines (concat ps)))] \<and>
   map Entry_Line (stamp ts 0 (text_lines (concat ps))) = text_lines (concat ps) \<and>
   NL \<notin> \<Union> (set ` set (text_lines (concat ps))) \<and>
   concat (map (\<lambda>l. l @ [NL]) (complete_lines [] (concat ps))) @ last_partial [] (concat ps) = concat ps"
proof (intro conjI)
  show "snd (snd (lw_flush app encode ts
       (lw_writes app encode ts ps (newLineWriter True store r st, s, [])))) =
     map (Pair (StageLogChannel r st))
       (List.map_filter (encode r st) (stamp ts 0 (text_lines (concat ps))))"
    by (subst writes_flush) (simp_all add: emitted_def frames_def newLineWriter_def)
  have "map Entry_Seq (stamp ts n ls) = [n + 1..n + int (length ls)]" for n ls
    by (induction ls arbitrary: n) (simp_all add: upto_rec1 [of "n + 1" for n] add.assoc)
  from this [of 0] show "map Entry_Seq (stamp ts 0 (text_lines (concat ps)))
      = [1..int (length (text_lines (concat ps)))]" by simp
  have "map Entry_Line (stamp ts n ls) = ls" for n ls
    by (induction ls arbitrary: n) simp_all
  then show "map Entry_Line (stamp ts 0 (text_lines (concat ps))) = text_lines (concat ps)" .
  show "NL \<notin> \<Union> (set ` set (text_lines (concat ps)))"
    using complete_lines_no_NL [of "[]" _ "concat ps"] last_partial_no_NL [of "[]" "concat ps"]
    by (auto simp: text_lines_def)
  show "concat (map (\<lambda>l. l @ [NL]) (complete_lines [] (concat ps))) @ last_partial [] (concat ps) = concat ps"
    using lines_text [of "[]"] by simp
qed

subsection \<open>What a reader finds\<close>

context log_store begin

lemma writer_retained:
  fixes ts :: "int \<Rightarrow> time" and ps :: "string list"
  assumes "inv s" "retained r st s = []" "es = stamp ts 0 (text_lines (concat ps))"
  shows "inv (fold (append r st) es s) \<and> suffix (retained r st (fold (append r st) es s)) es \<and>
    (es \<noteq> [] \<longrightarrow> last es \<in> set (retained r st (fold (append r st) es s)))"
  using appends_inv [OF assms(1)] appends_suffix [OF assms(1), of r st es]
    appends_last [OF assms(1), of es r st] assms(2) by simp

end



end
