(* ===== verification/Idempotency.thy ===== *)
theory Idempotency
  imports Prelude
begin

text \<open>
  The cache of \<open>backend/internal/idempotency/idempotency.go\<close>, which replays the answer of an
  earlier request with the same key.  A loop over the entries visits them in an order \<open>vis m\<close>
  that may depend on the map; \<open>vis\<close> is an argument of the operations.
\<close>

record Entry =
  Entry_Status :: int
  Entry_Body :: string

record memEntry =
  me_e :: Entry
  me_expires :: time

record IdemMem =
  im_entries :: "string \<rightharpoonup> memEntry"
  im_maxBytes :: int
  im_bytes :: int

type_synonym visit = "(string \<rightharpoonup> memEntry) \<Rightarrow> string list"

definition visit_ok :: "visit \<Rightarrow> bool" where
  "visit_ok vis \<longleftrightarrow> (\<forall>m. finite (dom m) \<longrightarrow> iter_order (vis m) m)"

definition IdemMem_New :: "int \<Rightarrow> IdemMem" where
  "IdemMem_New maxBytes = \<lparr>im_entries = Map.empty, im_maxBytes = maxBytes, im_bytes = 0\<rparr>"

definition IdemMem_Get :: "time \<Rightarrow> string \<Rightarrow> IdemMem \<Rightarrow> Entry option" where
  "IdemMem_Get now key m =
     (case im_entries m key of
        None \<Rightarrow> None
      | Some e \<Rightarrow> if now < me_expires e then Some (me_e e) else None)"

definition entry_size :: "string \<Rightarrow> memEntry \<Rightarrow> int" where
  "entry_size k e = int (length k) + int (length (Entry_Body (me_e e)))"

text \<open>The search for the oldest entry: the empty string stands for "none yet".\<close>

fun find_oldest :: "(string \<rightharpoonup> memEntry) \<Rightarrow> string list \<Rightarrow> string \<Rightarrow> time \<Rightarrow> string" where
  "find_oldest m [] oldestKey oldestExp = oldestKey"
| "find_oldest m (k # ks) oldestKey oldestExp =
     (case m k of
        None \<Rightarrow> find_oldest m ks oldestKey oldestExp
      | Some v \<Rightarrow>
          if oldestKey = [] \<or> me_expires v < oldestExp then find_oldest m ks k (me_expires v)
          else find_oldest m ks oldestKey oldestExp)"

text \<open>
  Each round deletes one entry, so one unit of fuel per entry is enough (\<open>evict_post\<close> below
  shows that the loop has then reached its exit condition).
\<close>

fun evict_loop :: "nat \<Rightarrow> visit \<Rightarrow> int \<Rightarrow> IdemMem \<Rightarrow> IdemMem" where
  "evict_loop 0 vis target m = m"
| "evict_loop (Suc fuel) vis target m =
     (if im_bytes m > target \<and> im_entries m \<noteq> Map.empty then
        (let k = find_oldest (im_entries m) (vis (im_entries m)) [] 0 in
         case im_entries m k of
           None \<Rightarrow> m
         | Some e \<Rightarrow> evict_loop fuel vis target
             (m\<lparr>im_bytes := im_bytes m - entry_size k e, im_entries := (im_entries m)(k := None)\<rparr>))
      else m)"

definition evictUntilLocked :: "visit \<Rightarrow> int \<Rightarrow> IdemMem \<Rightarrow> IdemMem" where
  "evictUntilLocked vis target m = evict_loop (length (vis (im_entries m))) vis target m"

definition IdemMem_Set :: "visit \<Rightarrow> time \<Rightarrow> string \<Rightarrow> Entry \<Rightarrow> int \<Rightarrow> IdemMem \<Rightarrow> IdemMem" where
  "IdemMem_Set vis now key e ttl m =
     (let newSize = int (length key) + int (length (Entry_Body e));
          m1 = (case im_entries m key of
                  None \<Rightarrow> m
                | Some old \<Rightarrow> m\<lparr>im_bytes := im_bytes m - entry_size key old\<rparr>);
          m2 = (if im_maxBytes m1 > 0 \<and> im_bytes m1 + newSize > im_maxBytes m1
                then evictUntilLocked vis (im_maxBytes m1 - newSize) m1 else m1)
      in m2\<lparr>im_entries := (im_entries m2)(key \<mapsto> \<lparr>me_e = e, me_expires = now + ttl\<rparr>),
            im_bytes := im_bytes m2 + newSize\<rparr>)"

text \<open>One tick of the sweeper.\<close>

fun gc_tick :: "time \<Rightarrow> string list \<Rightarrow> IdemMem \<Rightarrow> IdemMem" where
  "gc_tick now [] m = m"
| "gc_tick now (k # ks) m =
     (case im_entries m k of
        None \<Rightarrow> gc_tick now ks m
      | Some e \<Rightarrow>
          if now > me_expires e
          then gc_tick now ks (m\<lparr>im_bytes := im_bytes m - entry_size k e,
                                 im_entries := (im_entries m)(k := None)\<rparr>)
          else gc_tick now ks m)"

subsection \<open>The resident bytes\<close>

definition resident :: "(string \<rightharpoonup> memEntry) \<Rightarrow> int" where
  "resident m = (\<Sum>k \<in> dom m. entry_size k (the (m k)))"

definition accounted :: "IdemMem \<Rightarrow> bool" where
  "accounted m \<longleftrightarrow> finite (dom (im_entries m)) \<and> im_bytes m = resident (im_entries m)"

lemma entry_size_nonneg: "0 \<le> entry_size k e"
  by (simp add: entry_size_def)

lemma resident_nonneg: "0 \<le> resident m"
  by (simp add: resident_def sum_nonneg entry_size_nonneg)

lemma resident_insert:
  "finite (dom m) \<Longrightarrow> m k = None \<Longrightarrow> resident (m(k \<mapsto> e)) = resident m + entry_size k e"
proof -
  assume fin: "finite (dom m)" and k: "m k = None"
  then have "k \<notin> dom m" by auto
  moreover have "(\<Sum>x \<in> dom m. entry_size x (the ((m(k \<mapsto> e)) x))) = resident m"
    unfolding resident_def using k by (intro sum.cong) auto
  ultimately show ?thesis using fin by (simp add: resident_def)
qed

lemma resident_delete:
  "finite (dom m) \<Longrightarrow> m k = Some e \<Longrightarrow> resident (m(k := None)) = resident m - entry_size k e"
proof -
  assume fin: "finite (dom m)" and k: "m k = Some e"
  let ?m = "m(k := None)"
  have "m = ?m(k \<mapsto> e)" using k by auto
  moreover have "resident (?m(k \<mapsto> e)) = resident ?m + entry_size k e"
    using fin by (intro resident_insert) auto
  ultimately show ?thesis by simp
qed

lemma find_oldest_dom:
  "set ks \<subseteq> dom m \<Longrightarrow> b = [] \<or> b \<in> dom m \<Longrightarrow> ks \<noteq> [] \<or> b \<in> dom m \<Longrightarrow>
   find_oldest m ks b t \<in> dom m"
proof (induction ks arbitrary: b t)
  case (Cons k ks)
  then obtain v where v: "m k = Some v" by auto
  have sub: "set ks \<subseteq> dom m" and k: "k \<in> dom m" using Cons.prems(1) by auto
  show ?case
  proof (cases "b = [] \<or> me_expires v < t")
    case True
    with v Cons.IH [OF sub, of k "me_expires v"] k show ?thesis by simp
  next
    case False
    with v Cons.IH [OF sub, of b t] Cons.prems(2) show ?thesis by auto
  qed
qed simp

text \<open>The exit condition of the eviction holds at its end: the fuel is enough.\<close>

lemma evict_post:
  assumes "visit_ok vis" "finite (dom (im_entries m))" "card (dom (im_entries m)) \<le> fuel"
  shows "let m' = evict_loop fuel vis target m in
    (im_bytes m' \<le> target \<or> im_entries m' = Map.empty) \<and> im_maxBytes m' = im_maxBytes m \<and>
    finite (dom (im_entries m')) \<and> im_entries m' \<subseteq>\<^sub>m im_entries m \<and>
    im_bytes m' - resident (im_entries m') = im_bytes m - resident (im_entries m)"
  using assms(2,3)
proof (induction fuel arbitrary: m)
  case 0
  then have "dom (im_entries m) = {}" by simp
  then show ?case using 0 by simp
next
  case (Suc fuel)
  show ?case
  proof (cases "im_bytes m > target \<and> im_entries m \<noteq> Map.empty")
    case False
    then show ?thesis using Suc.prems by (auto simp: Let_def)
  next
    case True
    let ?k = "find_oldest (im_entries m) (vis (im_entries m)) [] 0"
    have "iter_order (vis (im_entries m)) (im_entries m)"
      using assms(1) Suc.prems(1) by (simp add: visit_ok_def)
    then have ks: "set (vis (im_entries m)) = dom (im_entries m)" by auto
    moreover have "vis (im_entries m) \<noteq> []"
      using ks True by (metis dom_eq_empty_conv list.set(1))
    ultimately have "?k \<in> dom (im_entries m)" by (intro find_oldest_dom) auto
    then obtain e where e: "im_entries m ?k = Some e" by auto
    let ?m = "m\<lparr>im_bytes := im_bytes m - entry_size ?k e, im_entries := (im_entries m)(?k := None)\<rparr>"
    have step: "evict_loop (Suc fuel) vis target m = evict_loop fuel vis target ?m"
      using True e by (simp add: Let_def)
    have "card (dom (im_entries ?m)) \<le> fuel"
      using Suc.prems e by (simp add: card_Diff_singleton domI)
    moreover have "finite (dom (im_entries ?m))" using Suc.prems(1) by simp
    ultimately have ih: "let m' = evict_loop fuel vis target ?m in
      (im_bytes m' \<le> target \<or> im_entries m' = Map.empty) \<and> im_maxBytes m' = im_maxBytes ?m \<and>
      finite (dom (im_entries m')) \<and> im_entries m' \<subseteq>\<^sub>m im_entries ?m \<and>
      im_bytes m' - resident (im_entries m') = im_bytes ?m - resident (im_entries ?m)"
      by (intro Suc.IH)
    have sub: "im_entries ?m \<subseteq>\<^sub>m im_entries m" by (simp add: map_le_def)
    have "im_bytes ?m - resident (im_entries ?m) = im_bytes m - resident (im_entries m)"
      using resident_delete [of "im_entries m", OF Suc.prems(1) e] by simp
    then show ?thesis
      using ih map_le_trans [OF _ sub, of "im_entries (evict_loop fuel vis target ?m)"]
      unfolding step Let_def by simp
  qed
qed

lemma evictUntilLocked_post:
  assumes "visit_ok vis" "finite (dom (im_entries m))"
  shows "let m' = evictUntilLocked vis target m in
    (im_bytes m' \<le> target \<or> im_entries m' = Map.empty) \<and> im_maxBytes m' = im_maxBytes m \<and>
    finite (dom (im_entries m')) \<and> im_entries m' \<subseteq>\<^sub>m im_entries m \<and>
    im_bytes m' - resident (im_entries m') = im_bytes m - resident (im_entries m)"
proof -
  have "iter_order (vis (im_entries m)) (im_entries m)" using assms by (simp add: visit_ok_def)
  then have "card (dom (im_entries m)) \<le> length (vis (im_entries m))"
    by (simp add: iter_order_card)
  then show ?thesis unfolding evictUntilLocked_def by (rule evict_post [OF assms])
qed

lemma gc_tick_accounted:
  "accounted m \<Longrightarrow> accounted (gc_tick now ks m) \<and> im_maxBytes (gc_tick now ks m) = im_maxBytes m \<and>
   im_entries (gc_tick now ks m) \<subseteq>\<^sub>m im_entries m \<and>
   (\<forall>k e. im_entries m k = Some e \<and> now \<le> me_expires e \<longrightarrow> im_entries (gc_tick now ks m) k = Some e)"
proof (induction now ks m rule: gc_tick.induct)
  case (2 now k ks m)
  show ?case
  proof (cases "\<exists>e. im_entries m k = Some e \<and> now > me_expires e")
    case True
    then obtain e where e: "im_entries m k = Some e" "now > me_expires e" by blast
    let ?m = "m\<lparr>im_bytes := im_bytes m - entry_size k e, im_entries := (im_entries m)(k := None)\<rparr>"
    have "accounted ?m" using 2(4) e(1) resident_delete [of "im_entries m" k e] by (simp add: accounted_def)
    note ih = "2.IH"(2) [OF e this]
    have step: "gc_tick now (k # ks) m = gc_tick now ks ?m" using e by simp
    have "im_entries ?m \<subseteq>\<^sub>m im_entries m" by (simp add: map_le_def)
    moreover have "im_entries ?m k' = Some e'"
      if "im_entries m k' = Some e'" "now \<le> me_expires e'" for k' e'
      using that e by auto
    ultimately show ?thesis
      using ih map_le_trans [of "im_entries (gc_tick now ks ?m)" "im_entries ?m" "im_entries m"]
      unfolding step by (simp del: fun_upd_apply)
  next
    case False
    then have "gc_tick now (k # ks) m = gc_tick now ks m" by (auto split: option.split)
    with 2 False show ?thesis by (cases "im_entries m k") auto
  qed
qed simp

text \<open>
  Storing under a key that is not cached keeps the byte count exact and the cap: afterwards
  the counter equals the bytes that are resident, these are within \<open>maxBytes\<close> unless the new
  entry alone is larger, the new entry is there, and of the others none has changed (an entry
  may be evicted).
\<close>

theorem Set_fresh_key:
  assumes "visit_ok vis" "accounted m" "im_entries m key = None"
  shows "let m' = IdemMem_Set vis now key e ttl m;
           size = int (length key) + int (length (Entry_Body e)) in
    accounted m' \<and> (0 < im_maxBytes m \<longrightarrow> resident (im_entries m') \<le> max (im_maxBytes m) size) \<and>
    im_entries m' key = Some \<lparr>me_e = e, me_expires = now + ttl\<rparr> \<and>
    (\<forall>k. k \<noteq> key \<longrightarrow> im_entries m' k \<in> {None, im_entries m k})"
proof -
  let ?size = "int (length key) + int (length (Entry_Body e))"
  let ?new = "\<lparr>me_e = e, me_expires = now + ttl\<rparr>"
  define m2 where "m2 = (if im_maxBytes m > 0 \<and> im_bytes m + ?size > im_maxBytes m
                then evictUntilLocked vis (im_maxBytes m - ?size) m else m)"
  have set: "IdemMem_Set vis now key e ttl m =
      m2\<lparr>im_entries := (im_entries m2)(key \<mapsto> ?new), im_bytes := im_bytes m2 + ?size\<rparr>"
    using assms(3) by (simp add: IdemMem_Set_def Let_def m2_def)
  have fin: "finite (dom (im_entries m))" using assms(2) by (simp add: accounted_def)
  have m2: "im_entries m2 \<subseteq>\<^sub>m im_entries m" "accounted m2"
    "0 < im_maxBytes m \<Longrightarrow> im_bytes m2 + ?size \<le> im_maxBytes m \<or> im_entries m2 = Map.empty"
    using evictUntilLocked_post [OF assms(1) fin, of "im_maxBytes m - ?size"] assms(2)
    by (auto simp: m2_def Let_def accounted_def)
  have key: "im_entries m2 key = None" using m2(1) assms(3) by (metis domIff map_le_def)
  have res: "resident ((im_entries m2)(key \<mapsto> ?new)) = resident (im_entries m2) + ?size"
    using resident_insert [of "im_entries m2" key ?new] m2(2) key by (simp add: accounted_def entry_size_def)
  have "resident (im_entries m2) + ?size \<le> max (im_maxBytes m) ?size" if "0 < im_maxBytes m"
    using m2(2) m2(3) [OF that] by (auto simp: accounted_def resident_def)
  moreover have "im_entries m2 k \<in> {None, im_entries m k}" for k
    using m2(1) by (cases "im_entries m2 k") (auto simp: map_le_def dom_def)
  ultimately show ?thesis
    using m2(2) res by (simp add: set Let_def accounted_def)
qed

lemma gc_tick_entry:
  "im_entries m k = Some e \<Longrightarrow> im_entries (gc_tick now ks m) k = Some e \<or>
     (me_expires e < now \<and> im_entries (gc_tick now ks m) k = None)"
  "im_entries m k = None \<Longrightarrow> im_entries (gc_tick now ks m) k = None"
proof -
  have eq: "im_entries (gc_tick now ks m) k =
      (case im_entries m k of None \<Rightarrow> None
       | Some e \<Rightarrow> if k \<in> set ks \<and> now > me_expires e then None else Some e)"
  proof (induction ks arbitrary: m)
    case Nil
    show ?case by (cases "im_entries m k") auto
  next
    case (Cons x ks)
    show ?case
    proof (cases "im_entries m x")
      case None
      with Cons show ?thesis by (cases "x = k"; cases "im_entries m k") auto
    next
      case (Some v)
      with Cons show ?thesis by (cases "x = k"; cases "im_entries m k") auto
    qed
  qed
  show "im_entries m k = Some e \<Longrightarrow> im_entries (gc_tick now ks m) k = Some e \<or>
     (me_expires e < now \<and> im_entries (gc_tick now ks m) k = None)"
    "im_entries m k = None \<Longrightarrow> im_entries (gc_tick now ks m) k = None"
    unfolding eq by simp_all
qed

definition ticks :: "(time \<times> string list) list \<Rightarrow> IdemMem \<Rightarrow> IdemMem" where
  "ticks ts m = fold (\<lambda>(t, ks). gc_tick t ks) ts m"

lemma ticks_None: "im_entries m k = None \<Longrightarrow> im_entries (ticks ts m) k = None"
  by (induction ts arbitrary: m) (auto simp: ticks_def gc_tick_entry(2))

lemma ticks_entry:
  "im_entries m k = Some e \<Longrightarrow> \<forall>(t, ks) \<in> set ts. t \<le> later \<Longrightarrow>
   im_entries (ticks ts m) k = Some e \<or> (me_expires e < later \<and> im_entries (ticks ts m) k = None)"
proof (induction ts arbitrary: m)
  case (Cons tk ts)
  obtain t ks where tk: "tk = (t, ks)" by (cases tk)
  have step: "ticks (tk # ts) m = ticks ts (gc_tick t ks m)" by (simp add: ticks_def tk)
  from gc_tick_entry(1) [OF Cons.prems(1), of t ks] show ?case
  proof
    assume "im_entries (gc_tick t ks m) k = Some e"
    with Cons.IH [of "gc_tick t ks m"] Cons.prems(2) show ?thesis unfolding step by simp
  next
    assume "me_expires e < t \<and> im_entries (gc_tick t ks m) k = None"
    with ticks_None [of "gc_tick t ks m" k ts] Cons.prems(2) show ?thesis
      unfolding step by (simp add: tk)
  qed
qed (simp add: ticks_def)

text \<open>
  A stored answer is replayed until it expires, and not longer: after the store, and after
  any ticks of the sweeper up to the time of the lookup, a lookup returns exactly the stored
  entry while the clock is before its expiry and nothing from then on, whether or not the key
  was cached before and whatever was evicted.
\<close>

theorem Set_then_Get:
  assumes "\<forall>(t, ks) \<in> set ts. t \<le> later"
  shows "IdemMem_Get later key (ticks ts (IdemMem_Set vis now key e ttl m))
    = (if later < now + ttl then Some e else None)"
proof -
  have "im_entries (IdemMem_Set vis now key e ttl m) key = Some \<lparr>me_e = e, me_expires = now + ttl\<rparr>"
    by (simp add: IdemMem_Set_def Let_def)
  from ticks_entry [OF this assms] show ?thesis by (auto simp: IdemMem_Get_def)
qed

lemma Set_then_Get_witness:
  "IdemMem_Get 20 ''a'' (ticks [(10, [''a''])] (IdemMem_Set (\<lambda>m. []) 1 ''a''
     \<lparr>Entry_Status = 200, Entry_Body = ''x''\<rparr> 100 (IdemMem_New 0)))
   = Some \<lparr>Entry_Status = 200, Entry_Body = ''x''\<rparr>"
  by (subst Set_then_Get) simp_all

subsection \<open>Overwriting a key at the cap\<close>

text \<open>
  \<open>Set\<close> takes the size of the old entry off the counter but leaves the entry in the map.  If
  the eviction then picks that very entry, its size is taken off a second time.
\<close>

definition sorted_visit :: visit where
  "sorted_visit m = (if m ''a'' \<noteq> None then [''a''] else []) @ (if m ''b'' \<noteq> None then [''b''] else [])"

abbreviation body :: "string \<Rightarrow> Entry" where
  "body s \<equiv> \<lparr>Entry_Status = 200, Entry_Body = s\<rparr>"

definition overwritten :: IdemMem where
  "overwritten =
     IdemMem_Set sorted_visit 3 ''a'' (body ''yyyyyy'') 100
       (IdemMem_Set sorted_visit 2 ''b'' (body ''zzz'') 100
         (IdemMem_Set sorted_visit 1 ''a'' (body ''xxxxx'') 100 (IdemMem_New 10)))"

text \<open>
  Overwriting a key can break the accounting and the cap.  With a cap of 10 bytes, storing
  6 bytes under \<open>a\<close>, 4 under \<open>b\<close> and then 7 under \<open>a\<close> again leaves 11 bytes resident while
  the counter says 5: no later store evicts until it has been exceeded by another 6 bytes.
\<close>

theorem Set_overwrite_miscounts:
  "im_bytes overwritten = 5 \<and> resident (im_entries overwritten) = 11 \<and> im_maxBytes overwritten = 10"
proof -
  have e: "im_entries overwritten =
      [''b'' \<mapsto> \<lparr>me_e = body ''zzz'', me_expires = 102\<rparr>, ''a'' \<mapsto> \<lparr>me_e = body ''yyyyyy'', me_expires = 103\<rparr>]"
    and b: "im_bytes overwritten = 5" "im_maxBytes overwritten = 10"
    by (auto simp: overwritten_def IdemMem_Set_def IdemMem_New_def evictUntilLocked_def sorted_visit_def
        entry_size_def Let_def eval_nat_numeral fun_eq_iff)
  have "resident (im_entries overwritten) = 11"
    unfolding e by (simp add: resident_def entry_size_def)
  with b show ?thesis by simp
qed

lemma Set_fresh_key_witness:
  "let m' = IdemMem_Set (\<lambda>m. SOME ks. iter_order ks m) 1 ''a'' (body ''xxxxx'') 100 (IdemMem_New 10) in
   accounted m' \<and> resident (im_entries m') \<le> 10"
proof -
  have v: "visit_ok (\<lambda>m. SOME ks. iter_order ks m)"
    unfolding visit_ok_def by (metis iter_order_exists someI_ex)
  have "accounted (IdemMem_New 10)" by (simp add: accounted_def resident_def IdemMem_New_def)
  from Set_fresh_key [OF v this, of "''a''" 1 "body ''xxxxx''" 100] show ?thesis
    by (simp add: Let_def IdemMem_New_def)
qed

end
