(* ===== verification/Auth.thy ===== *)
theory Auth
  imports Prelude
begin

text \<open>
  Access control: the role checks of \<open>backend/internal/auth/rbac.go\<close>, the permission matrix of
  \<open>backend/internal/auth/permission.go\<close> and the license entitlements of
  \<open>backend/internal/entitlements/entitlements.go\<close>.  Roles, resources and actions are Go
  strings that come from tokens and routes, so they are strings here and the theorems cover
  unknown ones.  A Gin middleware is the decision it takes: go on, or abort with a status.
\<close>

subsection \<open>Roles\<close>

abbreviation RoleAdmin :: string where "RoleAdmin \<equiv> ''admin''"
abbreviation RoleOperator :: string where "RoleOperator \<equiv> ''operator''"
abbreviation RoleApprover :: string where "RoleApprover \<equiv> ''approver''"
abbreviation RoleViewer :: string where "RoleViewer \<equiv> ''viewer''"

record Claims =
  Claims_Subject :: string
  Claims_Email :: string
  Claims_Name :: string
  Claims_Groups :: "string list"
  Claims_Roles :: "string list"
  Claims_ACR :: string
  Claims_AMR :: "string list"

datatype gate = GateNext | GateAbort nat

definition RequireRole :: "string list \<Rightarrow> Claims option \<Rightarrow> gate" where
  "RequireRole roles user =
     (case user of
        None \<Rightarrow> GateAbort 401
      | Some claims \<Rightarrow>
          if \<exists>required \<in> set roles. \<exists>userRole \<in> set (Claims_Roles claims). userRole = required
          then GateNext else GateAbort 403)"

definition RequireMFA :: "string list \<Rightarrow> Claims option \<Rightarrow> gate" where
  "RequireMFA acrValues user =
     (if acrValues = [] then GateNext
      else
        (let allowed = set (filter (\<lambda>v. v \<noteq> []) acrValues) in
         case user of
           None \<Rightarrow> GateAbort 401
         | Some claims \<Rightarrow>
             if Claims_ACR claims \<in> allowed then GateNext
             else if \<exists>m \<in> set (Claims_AMR claims). m \<in> allowed then GateNext
             else GateAbort 403))"

definition CanApprovePromotion :: "Claims option \<Rightarrow> bool" where
  "CanApprovePromotion user =
     (case user of
        None \<Rightarrow> False
      | Some claims \<Rightarrow> \<exists>role \<in> set (Claims_Roles claims). role = RoleAdmin \<or> role = RoleApprover)"

definition CanRevealSecret :: "Claims option \<Rightarrow> bool" where
  "CanRevealSecret user =
     (case user of
        None \<Rightarrow> False
      | Some claims \<Rightarrow> \<exists>role \<in> set (Claims_Roles claims). role = RoleAdmin)"

definition DefaultGroupRoleMap :: "string \<rightharpoonup> string" where
  "DefaultGroupRoleMap = [''cooker-admins'' \<mapsto> RoleAdmin, ''cooker-operators'' \<mapsto> RoleOperator,
     ''cooker-approvers'' \<mapsto> RoleApprover, ''cooker-viewers'' \<mapsto> RoleViewer]"

fun map_groups_loop :: "(string \<rightharpoonup> string) \<Rightarrow> string list \<Rightarrow> string list \<Rightarrow> string list" where
  "map_groups_loop roleMap [] roles = roles"
| "map_groups_loop roleMap (g # gs) roles =
     (case roleMap g of
        Some role \<Rightarrow> map_groups_loop roleMap gs (if role \<in> set roles then roles else roles @ [role])
      | None \<Rightarrow> map_groups_loop roleMap gs roles)"

text \<open>A nil map is the empty one.\<close>

definition MapGroupsToRolesWith :: "string list \<Rightarrow> (string \<rightharpoonup> string) \<Rightarrow> string list" where
  "MapGroupsToRolesWith gs roleMap =
     (let roles = map_groups_loop (if roleMap = Map.empty then DefaultGroupRoleMap else roleMap) gs []
      in if roles = [] then [RoleViewer] else roles)"

definition MapGroupsToRoles :: "string list \<Rightarrow> string list" where
  "MapGroupsToRoles gs = MapGroupsToRolesWith gs Map.empty"

lemma map_groups_loop_spec:
  "distinct roles \<Longrightarrow> distinct (map_groups_loop rm gs roles) \<and>
   set (map_groups_loop rm gs roles) = set roles \<union> {r. \<exists>g \<in> set gs. rm g = Some r}"
  by (induction gs arbitrary: roles) (auto split: option.split)

text \<open>
  A login always gets at least one role and never one twice; the roles are exactly those
  its groups are mapped to, and plain viewer when none is, so an unknown group grants nothing.
\<close>

theorem MapGroups_roles:
  "distinct (MapGroupsToRolesWith gs rm) \<and>
   set (MapGroupsToRolesWith gs rm) =
     (let known = {r. \<exists>g \<in> set gs. (if rm = Map.empty then DefaultGroupRoleMap else rm) g = Some r}
      in if known = {} then {RoleViewer} else known)"
proof -
  let ?rm = "if rm = Map.empty then DefaultGroupRoleMap else rm"
  let ?roles = "map_groups_loop ?rm gs []"
  have r: "distinct ?roles" "set ?roles = {r. \<exists>g \<in> set gs. ?rm g = Some r}"
    using map_groups_loop_spec [of "[]" ?rm gs] by simp_all
  have "?roles = [] \<longleftrightarrow> {r. \<exists>g \<in> set gs. ?rm g = Some r} = {}"
    unfolding r(2) [symmetric] by simp
  with r show ?thesis unfolding MapGroupsToRolesWith_def Let_def by (simp del: set_empty)
qed

subsection \<open>The permission matrix\<close>

abbreviation ResourcePipeline :: string where "ResourcePipeline \<equiv> ''pipeline''"
abbreviation ResourceRun :: string where "ResourceRun \<equiv> ''run''"
abbreviation ResourceApp :: string where "ResourceApp \<equiv> ''app''"
abbreviation ResourceEnvironment :: string where "ResourceEnvironment \<equiv> ''environment''"
abbreviation ResourceSecret :: string where "ResourceSecret \<equiv> ''secret''"
abbreviation ResourceHost :: string where "ResourceHost \<equiv> ''host''"
abbreviation ResourceRegistry :: string where "ResourceRegistry \<equiv> ''registry''"
abbreviation ResourceCluster :: string where "ResourceCluster \<equiv> ''cluster''"
abbreviation ResourceDocker :: string where "ResourceDocker \<equiv> ''docker''"
abbreviation ResourceKubernetes :: string where "ResourceKubernetes \<equiv> ''kubernetes''"
abbreviation ResourcePromotion :: string where "ResourcePromotion \<equiv> ''promotion''"
abbreviation ResourceWebhook :: string where "ResourceWebhook \<equiv> ''webhook''"
abbreviation ActionRead :: string where "ActionRead \<equiv> ''read''"
abbreviation ActionCreate :: string where "ActionCreate \<equiv> ''create''"
abbreviation ActionUpdate :: string where "ActionUpdate \<equiv> ''update''"
abbreviation ActionDelete :: string where "ActionDelete \<equiv> ''delete''"
abbreviation ActionReveal :: string where "ActionReveal \<equiv> ''reveal''"
abbreviation ActionApprove :: string where "ActionApprove \<equiv> ''approve''"
abbreviation ActionInvoke :: string where "ActionInvoke \<equiv> ''invoke''"

type_synonym policyEntry = "string \<times> string \<times> string list"

definition defaultPolicy :: "policyEntry list" where
  "defaultPolicy =
     [(ResourcePipeline, ActionRead, [RoleAdmin, RoleOperator, RoleApprover, RoleViewer]),
      (ResourceRun, ActionRead, [RoleAdmin, RoleOperator, RoleApprover, RoleViewer]),
      (ResourceApp, ActionRead, [RoleAdmin, RoleOperator, RoleApprover, RoleViewer]),
      (ResourceEnvironment, ActionRead, [RoleAdmin, RoleOperator, RoleApprover, RoleViewer]),
      (ResourceHost, ActionRead, [RoleAdmin, RoleOperator, RoleApprover, RoleViewer]),
      (ResourceRegistry, ActionRead, [RoleAdmin, RoleOperator, RoleApprover, RoleViewer]),
      (ResourceCluster, ActionRead, [RoleAdmin, RoleOperator, RoleApprover, RoleViewer]),
      (ResourceDocker, ActionRead, [RoleAdmin, RoleOperator, RoleApprover, RoleViewer]),
      (ResourceKubernetes, ActionRead, [RoleAdmin, RoleOperator, RoleApprover, RoleViewer]),
      (ResourcePipeline, ActionCreate, [RoleAdmin, RoleOperator]),
      (ResourcePipeline, ActionUpdate, [RoleAdmin, RoleOperator]),
      (ResourcePipeline, ActionInvoke, [RoleAdmin, RoleOperator]),
      (ResourceRun, ActionUpdate, [RoleAdmin, RoleOperator]),
      (ResourceApp, ActionCreate, [RoleAdmin, RoleOperator]),
      (ResourceApp, ActionUpdate, [RoleAdmin, RoleOperator]),
      (ResourceApp, ActionInvoke, [RoleAdmin, RoleOperator]),
      (ResourceEnvironment, ActionCreate, [RoleAdmin, RoleOperator]),
      (ResourceEnvironment, ActionUpdate, [RoleAdmin, RoleOperator]),
      (ResourceHost, ActionCreate, [RoleAdmin, RoleOperator]),
      (ResourceHost, ActionUpdate, [RoleAdmin, RoleOperator]),
      (ResourcePipeline, ActionDelete, [RoleAdmin]),
      (ResourceApp, ActionDelete, [RoleAdmin]),
      (ResourceEnvironment, ActionDelete, [RoleAdmin]),
      (ResourceHost, ActionDelete, [RoleAdmin]),
      (ResourceRegistry, ActionCreate, [RoleAdmin]),
      (ResourceRegistry, ActionDelete, [RoleAdmin]),
      (ResourceCluster, ActionCreate, [RoleAdmin]),
      (ResourceCluster, ActionDelete, [RoleAdmin]),
      (ResourceSecret, ActionReveal, [RoleAdmin]),
      (ResourceSecret, ActionUpdate, [RoleAdmin]),
      (ResourceSecret, ActionDelete, [RoleAdmin]),
      (ResourcePromotion, ActionApprove, [RoleAdmin, RoleApprover]),
      (ResourcePromotion, ActionInvoke, [RoleAdmin, RoleOperator]),
      (ResourceWebhook, ActionUpdate, [RoleAdmin])]"

text \<open>The lookup table: a later row for the same pair replaces an earlier one.\<close>

definition policyMatrix :: "string \<times> string \<rightharpoonup> string list" where
  "policyMatrix = map_of (rev (map (\<lambda>(resource, action, roles). ((resource, action), roles)) defaultPolicy))"

definition Permission :: "Claims option \<Rightarrow> string \<Rightarrow> string \<Rightarrow> bool" where
  "Permission user resource action =
     (case user of
        None \<Rightarrow> False
      | Some claims \<Rightarrow>
          (case policyMatrix (resource, action) of
             None \<Rightarrow> False
           | Some allowed \<Rightarrow> \<exists>role \<in> set (Claims_Roles claims). role \<in> set allowed))"

definition RequirePermission :: "string \<Rightarrow> string \<Rightarrow> Claims option \<Rightarrow> gate" where
  "RequirePermission resource action user =
     (case user of
        None \<Rightarrow> GateAbort 401
      | Some claims \<Rightarrow> if \<not> Permission user resource action then GateAbort 403 else GateNext)"

text \<open>No pair is declared twice, so the table holds every declared row.\<close>

lemma policy_distinct: "distinct (map (\<lambda>(r, a, roles). (r, a)) defaultPolicy)"
  by code_simp

lemma policyMatrix_row:
  "policyMatrix (r, a) = Some roles \<longleftrightarrow> (r, a, roles) \<in> set defaultPolicy"
proof -
  let ?l = "map (\<lambda>(resource, action, roles). ((resource, action), roles)) defaultPolicy"
  have "map fst (rev ?l) = rev (map (\<lambda>(r, a, roles). (r, a)) defaultPolicy)"
    by (simp add: split_def comp_def rev_map)
  then have "distinct (map fst (rev ?l))" by (simp only: distinct_rev policy_distinct)
  then have "policyMatrix (r, a) = Some roles \<longleftrightarrow> ((r, a), roles) \<in> set (rev ?l)"
    unfolding policyMatrix_def by (rule map_of_eq_Some_iff)
  then show ?thesis by force
qed

lemma Permission_row:
  "Permission user r a \<longleftrightarrow>
   (\<exists>claims roles role. user = Some claims \<and> (r, a, roles) \<in> set defaultPolicy \<and>
      role \<in> set roles \<and> role \<in> set (Claims_Roles claims))"
proof -
  have "Permission user r a \<longleftrightarrow> (\<exists>claims roles. user = Some claims \<and>
      policyMatrix (r, a) = Some roles \<and> (\<exists>role \<in> set (Claims_Roles claims). role \<in> set roles))"
    by (auto simp: Permission_def split: option.split)
  then show ?thesis unfolding policyMatrix_row by blast
qed

text \<open>Facts about every row of the policy, by evaluation of the table.\<close>

lemma policy_rows:
  "list_all (\<lambda>(r, a, roles).
     RoleAdmin \<in> set roles \<and>
     (RoleViewer \<in> set roles \<longrightarrow> a = ''read'') \<and>
     (a \<in> {''delete'', ''reveal''} \<or> r \<in> {''secret'', ''webhook''} \<longrightarrow> roles = [RoleAdmin]) \<and>
     (a = ''approve'' \<longrightarrow> set roles = {RoleAdmin, RoleApprover}) \<and>
     (RoleApprover \<in> set roles \<longrightarrow> a \<in> {''read'', ''approve''}) \<and>
     set roles \<subseteq> {RoleAdmin, RoleOperator, RoleApprover, RoleViewer}) defaultPolicy"
  by code_simp

lemma policy_viewers:
  "list_all (\<lambda>(r, a, roles). RoleViewer \<in> set roles \<longrightarrow>
     {RoleAdmin, RoleOperator, RoleApprover, RoleViewer} \<subseteq> set roles) defaultPolicy"
  by code_simp

lemma policy_viewer:
  assumes "(r, a, roles) \<in> set defaultPolicy" "RoleViewer \<in> set roles"
  shows "{RoleAdmin, RoleOperator, RoleApprover, RoleViewer} \<subseteq> set roles"
  using policy_viewers [unfolded list_all_iff, THEN bspec, OF assms(1)] assms(2) by simp

lemma policy_row:
  assumes "(r, a, roles) \<in> set defaultPolicy"
  shows "RoleAdmin \<in> set roles" "RoleViewer \<in> set roles \<Longrightarrow> a = ''read''"
    "a \<in> {''delete'', ''reveal''} \<or> r \<in> {''secret'', ''webhook''} \<Longrightarrow> roles = [RoleAdmin]"
    "a = ''approve'' \<Longrightarrow> set roles = {RoleAdmin, RoleApprover}"
    "RoleApprover \<in> set roles \<Longrightarrow> a \<in> {''read'', ''approve''}"
    "set roles \<subseteq> {RoleAdmin, RoleOperator, RoleApprover, RoleViewer}"
proof -
  note row = policy_rows [unfolded list_all_iff, THEN bspec, OF assms, unfolded prod.case]
  note r2 = conjunct2 [OF row] and r3 = conjunct2 [OF conjunct2 [OF row]]
  note r4 = conjunct2 [OF r3] and r5 = conjunct2 [OF conjunct2 [OF r3]]
  show "RoleAdmin \<in> set roles" by (rule conjunct1 [OF row])
  show "a = ''read''" if "RoleViewer \<in> set roles" by (rule mp [OF conjunct1 [OF r2] that])
  show "roles = [RoleAdmin]" if "a \<in> {''delete'', ''reveal''} \<or> r \<in> {''secret'', ''webhook''}"
    by (rule mp [OF conjunct1 [OF r3] that])
  show "set roles = {RoleAdmin, RoleApprover}" if "a = ''approve''"
    by (rule mp [OF conjunct1 [OF r4] that])
  show "a \<in> {''read'', ''approve''}" if "RoleApprover \<in> set roles"
    by (rule mp [OF conjunct1 [OF r5] that])
  show "set roles \<subseteq> {RoleAdmin, RoleOperator, RoleApprover, RoleViewer}"
    by (rule conjunct2 [OF r5])
qed

text \<open>
  What the permission matrix guarantees for every token, resource and action: without a
  token nothing is allowed; only an admin may delete, reveal a secret or touch a webhook; whoever
  may write holds a role beyond viewer, and beyond approver unless the write is an approval; a
  permission needs one of the four known roles; and an admin may do whatever anybody may.
\<close>

theorem Permission_least_privilege:
  "\<not> Permission None r a \<and>
   (Permission (Some c) r a \<longrightarrow>
      (a \<in> {''delete'', ''reveal''} \<or> r \<in> {''secret'', ''webhook''} \<longrightarrow> RoleAdmin \<in> set (Claims_Roles c)) \<and>
      (a \<noteq> ''read'' \<longrightarrow> set (Claims_Roles c) \<inter> {RoleAdmin, RoleOperator, RoleApprover} \<noteq> {}) \<and>
      (a \<noteq> ''read'' \<and> a \<noteq> ''approve'' \<longrightarrow> set (Claims_Roles c) \<inter> {RoleAdmin, RoleOperator} \<noteq> {}) \<and>
      (a = ''approve'' \<longrightarrow> CanApprovePromotion (Some c)) \<and>
      set (Claims_Roles c) \<inter> {RoleAdmin, RoleOperator, RoleApprover, RoleViewer} \<noteq> {} \<and>
      (RoleAdmin \<in> set (Claims_Roles c') \<longrightarrow> Permission (Some c') r a))"
proof (intro conjI impI)
  show "\<not> Permission None r a" by (simp add: Permission_def)
next
  assume "Permission (Some c) r a"
  then obtain roles role where row: "(r, a, roles) \<in> set defaultPolicy"
    and role: "role \<in> set roles" "role \<in> set (Claims_Roles c)"
    unfolding Permission_row by auto
  note p = policy_row [OF row]
  have known: "role \<in> {RoleAdmin, RoleOperator, RoleApprover, RoleViewer}" using p(6) role(1) by blast
  show "RoleAdmin \<in> set (Claims_Roles c)" if "a \<in> {''delete'', ''reveal''} \<or> r \<in> {''secret'', ''webhook''}"
    using p(3) [OF that] role by simp
  show "set (Claims_Roles c) \<inter> {RoleAdmin, RoleOperator, RoleApprover} \<noteq> {}" if "a \<noteq> ''read''"
    using p(2) that role known by blast
  show "set (Claims_Roles c) \<inter> {RoleAdmin, RoleOperator} \<noteq> {}" if "a \<noteq> ''read'' \<and> a \<noteq> ''approve''"
    using p(2,5) that role known by blast
  show "CanApprovePromotion (Some c)" if "a = ''approve''"
    using p(4) [OF that] role by (auto simp: CanApprovePromotion_def)
  show "set (Claims_Roles c) \<inter> {RoleAdmin, RoleOperator, RoleApprover, RoleViewer} \<noteq> {}"
    using known role by blast
  show "Permission (Some c') r a" if "RoleAdmin \<in> set (Claims_Roles c')"
    unfolding Permission_row using p(1) row that by blast
qed

definition demo_operator :: Claims where
  "demo_operator = \<lparr>Claims_Subject = ''u'', Claims_Email = [], Claims_Name = [], Claims_Groups = [],
     Claims_Roles = [RoleOperator], Claims_ACR = [], Claims_AMR = []\<rparr>"

lemma Permission_least_privilege_witness:
  "Permission (Some demo_operator) ''pipeline'' ''create'' \<and>
   set (Claims_Roles demo_operator) \<inter> {RoleAdmin, RoleOperator} \<noteq> {}"
proof -
  have "Permission (Some demo_operator) ''pipeline'' ''create''" by code_simp
  with Permission_least_privilege [of "''pipeline''" "''create''" demo_operator demo_operator]
  show ?thesis by auto
qed

subsection \<open>Entitlements\<close>

record License =
  License_ID :: string
  License_RawToken :: string
  License_Plan :: string
  License_Seats :: int
  License_Features :: "string list"
  License_Customer :: string
  License_IssuedAt :: time
  License_ExpiresAt :: "time option"
  License_InstalledAt :: time
  License_InstalledBySub :: string
  License_InstalledByEmail :: string

definition License_IsExpired :: "time \<Rightarrow> License \<Rightarrow> bool" where
  "License_IsExpired now l = (case License_ExpiresAt l of None \<Rightarrow> False | Some t \<Rightarrow> \<not> t > now)"

definition License_IsActive :: "time \<Rightarrow> License option \<Rightarrow> bool" where
  "License_IsActive now lo = (case lo of None \<Rightarrow> False | Some l \<Rightarrow> \<not> License_IsExpired now l)"

record Entitlements =
  Ent_Plan :: string
  Ent_Seats :: int
  Ent_Features :: "string set"

definition planFeatures :: "string \<Rightarrow> string list" where
  "planFeatures plan =
     (if plan = ''crew'' then [''multi_replica'', ''oidc_mfa'', ''managed_secrets'', ''audit_otlp'']
      else if plan = ''constellation'' then
        [''multi_replica'', ''oidc_mfa'', ''managed_secrets'', ''audit_otlp'', ''sso_group_map'', ''air_gapped'']
      else [])"

definition featureSet :: "string \<Rightarrow> string list \<Rightarrow> string set" where
  "featureSet plan extra = set (planFeatures plan) \<union> set (filter (\<lambda>f. f \<noteq> []) extra)"

definition Free :: Entitlements where
  "Free = \<lparr>Ent_Plan = ''free'', Ent_Seats = 1, Ent_Features = featureSet ''free'' []\<rparr>"

definition FromLicense :: "License option \<Rightarrow> time \<Rightarrow> Entitlements" where
  "FromLicense lo now =
     (if \<not> License_IsActive now lo then Free
      else case lo of
        None \<Rightarrow> Free
      | Some l \<Rightarrow>
          (let plan = (if License_Plan l = [] then ''free'' else License_Plan l)
           in \<lparr>Ent_Plan = plan, Ent_Seats = License_Seats l,
               Ent_Features = featureSet plan (License_Features l)\<rparr>))"

definition Ent_Has :: "Entitlements \<Rightarrow> string \<Rightarrow> bool" where
  "Ent_Has e feature = (feature \<in> Ent_Features e)"

text \<open>
  A license never locks anything below the free plan and stops granting at its expiry: the
  result is the free plan, which unlocks no feature, when there is no license or it has
  expired; an active license unlocks the features of its plan and its own grants and nothing
  else; and each tier unlocks what the one below it does.
\<close>

theorem FromLicense_features:
  "FromLicense None now = Free \<and> \<not> Ent_Has Free f \<and>
   (case License_ExpiresAt l of
      Some t \<Rightarrow> (if t \<le> now then FromLicense (Some l) now = Free
                 else Ent_Has (FromLicense (Some l) now) f
                   = (f \<in> set (planFeatures (License_Plan l)) \<or> f \<noteq> [] \<and> f \<in> set (License_Features l)))
    | None \<Rightarrow> Ent_Has (FromLicense (Some l) now) f
                   = (f \<in> set (planFeatures (License_Plan l)) \<or> f \<noteq> [] \<and> f \<in> set (License_Features l))) \<and>
   set (planFeatures ''free'') \<subseteq> set (planFeatures ''crew'') \<and>
   set (planFeatures ''crew'') \<subset> set (planFeatures ''constellation'')"
proof (intro conjI)
  have none: "planFeatures [] = []" "planFeatures ''free'' = []" by (simp_all add: planFeatures_def)
  show "FromLicense None now = Free" by (simp add: FromLicense_def License_IsActive_def)
  show "\<not> Ent_Has Free f" by (simp add: Ent_Has_def Free_def featureSet_def none)
  show "set (planFeatures ''free'') \<subseteq> set (planFeatures ''crew'')" by (simp add: none)
  show "set (planFeatures ''crew'') \<subset> set (planFeatures ''constellation'')"
    by code_simp
  have active: "Ent_Has (FromLicense (Some l) now) f
      = (f \<in> set (planFeatures (License_Plan l)) \<or> f \<noteq> [] \<and> f \<in> set (License_Features l))"
    if "\<not> License_IsExpired now l"
    using that none
    by (cases "License_Plan l = []")
      (auto simp: FromLicense_def License_IsActive_def Ent_Has_def featureSet_def Let_def)
  show "case License_ExpiresAt l of
      Some t \<Rightarrow> (if t \<le> now then FromLicense (Some l) now = Free
                 else Ent_Has (FromLicense (Some l) now) f
                   = (f \<in> set (planFeatures (License_Plan l)) \<or> f \<noteq> [] \<and> f \<in> set (License_Features l)))
    | None \<Rightarrow> Ent_Has (FromLicense (Some l) now) f
                   = (f \<in> set (planFeatures (License_Plan l)) \<or> f \<noteq> [] \<and> f \<in> set (License_Features l))"
    using active
    by (cases "License_ExpiresAt l")
      (simp_all add: License_IsExpired_def FromLicense_def License_IsActive_def)
qed

text \<open>
  An active license with a plan name that is no known plan keeps that name and its own seat
  count, so it does not degrade to the free plan (whose name is \<open>free\<close> and which has one seat).
\<close>

theorem FromLicense_unknown_plan:
  assumes "License_IsActive now (Some l)" "License_Plan l \<noteq> []"
  shows "Ent_Plan (FromLicense (Some l) now) = License_Plan l \<and>
    Ent_Seats (FromLicense (Some l) now) = License_Seats l"
  using assms by (simp add: FromLicense_def Let_def)

definition demo_license :: License where
  "demo_license = \<lparr>License_ID = ''active'', License_RawToken = ''t'', License_Plan = ''galaxy'',
     License_Seats = 50, License_Features = [], License_Customer = ''c'', License_IssuedAt = 1,
     License_ExpiresAt = None, License_InstalledAt = 2, License_InstalledBySub = ''u'',
     License_InstalledByEmail = ''e''\<rparr>"

lemma FromLicense_unknown_plan_witness: "FromLicense (Some demo_license) 7 \<noteq> Free"
  using FromLicense_unknown_plan [of 7 demo_license]
  by (auto simp: demo_license_def License_IsActive_def License_IsExpired_def Free_def)

end
