(* ===== verification/Interpolate.thy ===== *)
theory Interpolate
  imports Prelude
begin

text \<open>
  Edge conditions and inter-stage references: \<open>backend/internal/build/buildplan\<close>
  (\<open>edges.go\<close>, \<open>interpolate.go\<close>).  The expression
  \<open>\$\{stages\.([A-Za-z0-9_-]+)\.([A-Za-z0-9_]+)\}\<close> is matched by \<open>match_ref\<close>: both groups are
  maximal, and the character that must follow each lies outside its class, so the leftmost
  match at a position is unique.
\<close>

subsection \<open>Edge conditions\<close>

record Edge =
  Edge_ID :: string
  Edge_Source :: string
  Edge_Target :: string
  Edge_Condition :: string

definition EdgeAllows :: "string \<Rightarrow> string \<Rightarrow> bool" where
  "EdgeAllows upstream condition =
     (if condition = [] \<or> condition = ''success'' then upstream = ''success''
      else if condition = ''failure'' then upstream = ''failed''
      else if condition = ''always'' then
        upstream = ''success'' \<or> upstream = ''failed'' \<or> upstream = ''skipped''
      else False)"

fun StageShouldRun :: "string \<Rightarrow> Edge list \<Rightarrow> (string \<Rightarrow> string) \<Rightarrow> bool" where
  "StageShouldRun stageID [] statusOf = True"
| "StageShouldRun stageID (e # incoming) statusOf =
     (if Edge_Target e \<noteq> stageID then StageShouldRun stageID incoming statusOf
      else if \<not> EdgeAllows (statusOf (Edge_Source e)) (Edge_Condition e) then False
      else StageShouldRun stageID incoming statusOf)"

lemma StageShouldRun_iff:
  "StageShouldRun i es st \<longleftrightarrow>
   (\<forall>e \<in> set es. Edge_Target e = i \<longrightarrow> EdgeAllows (st (Edge_Source e)) (Edge_Condition e))"
  by (induction es) auto

subsection \<open>References\<close>

definition letters_digits :: string where
  "letters_digits = ''ABCDEFGHIJKLMNOPQRSTUVWXYZabcdefghijklmnopqrstuvwxyz0123456789''"

definition key_char :: "char \<Rightarrow> bool" where
  "key_char c = (c \<in> set letters_digits \<or> c = CHR ''_'')"

definition id_char :: "char \<Rightarrow> bool" where
  "id_char c = (key_char c \<or> c = CHR ''-'')"

definition ref_open :: string where
  "ref_open = ''${stages.''"

definition match_ref :: "string \<Rightarrow> (string \<times> string \<times> string) option" where
  "match_ref s =
     (if take (length ref_open) s \<noteq> ref_open then None
      else
        (let s1 = drop (length ref_open) s;
             i = takeWhile id_char s1;
             s2 = dropWhile id_char s1;
             k = takeWhile key_char (drop 1 s2);
             s3 = dropWhile key_char (drop 1 s2)
         in if i \<noteq> [] \<and> take 1 s2 = ''.'' \<and> k \<noteq> [] \<and> take 1 s3 = ''}''
            then Some (i, k, drop 1 s3) else None))"

definition render_ref :: "string \<Rightarrow> string \<Rightarrow> string" where
  "render_ref i k = ref_open @ i @ ''.'' @ k @ ''}''"

lemma match_ref_Some:
  assumes "match_ref s = Some (i, k, rest)"
  shows "s = render_ref i k @ rest" "i \<noteq> []" "k \<noteq> []" "list_all id_char i" "list_all key_char k"
proof -
  define s1 where "s1 = drop (length ref_open) s"
  define s2 where "s2 = dropWhile id_char s1"
  define s3 where "s3 = dropWhile key_char (drop 1 s2)"
  have m: "take (length ref_open) s = ref_open" "i = takeWhile id_char s1" "i \<noteq> []" "take 1 s2 = ''.''"
    "k = takeWhile key_char (drop 1 s2)" "k \<noteq> []" "take 1 s3 = ''}''" "rest = drop 1 s3"
    using assms by (auto simp: match_ref_def Let_def s1_def s2_def s3_def split: if_splits)
  have "s = ref_open @ s1" using m(1) append_take_drop_id [of "length ref_open" s] by (simp add: s1_def)
  moreover have "s1 = i @ s2" by (simp add: m(2) s2_def)
  moreover have "s2 = ''.'' @ drop 1 s2" using m(4) append_take_drop_id [of 1 s2] by simp
  moreover have "drop 1 s2 = k @ s3" by (simp add: m(5) s3_def)
  moreover have "s3 = ''}'' @ rest" using m(7,8) append_take_drop_id [of 1 s3] by simp
  ultimately have "s = ref_open @ i @ ''.'' @ k @ ''}'' @ rest" by metis
  then show "s = render_ref i k @ rest" by (simp add: render_ref_def)
  show "i \<noteq> []" "k \<noteq> []" using m by blast+
  show "list_all id_char i" unfolding m(2) by (auto simp: list_all_iff dest: set_takeWhileD)
  show "list_all key_char k" unfolding m(5) by (auto simp: list_all_iff dest: set_takeWhileD)
qed

lemma takeWhile_stop: "list_all P xs \<Longrightarrow> \<not> P c \<Longrightarrow>
    takeWhile P (xs @ c # ys) = xs \<and> dropWhile P (xs @ c # ys) = c # ys"
  by (induction xs) auto

lemma match_ref_render:
  assumes "i \<noteq> []" "k \<noteq> []" "list_all id_char i" "list_all key_char k"
  shows "match_ref (render_ref i k @ rest) = Some (i, k, rest)"
proof -
  have dot: "\<not> id_char (CHR ''.'')" and close: "\<not> key_char (CHR ''}'')" by code_simp+
  show ?thesis
    using assms takeWhile_stop [OF assms(3) dot, of "k @ ''}'' @ rest"]
      takeWhile_stop [OF assms(4) close, of rest]
    by (simp add: match_ref_def render_ref_def Let_def)
qed

text \<open>
  Both \<open>ReplaceAllStringFunc\<close> and \<open>FindAllStringSubmatch\<close> walk the leftmost, non-overlapping
  matches; the walk cuts the text into literal characters and references.
\<close>

datatype token = Lit char | Ref string string

function tokens :: "string \<Rightarrow> token list" where
  "tokens s =
     (case match_ref s of
        Some (i, k, rest) \<Rightarrow> Ref i k # tokens rest
      | None \<Rightarrow> (case s of [] \<Rightarrow> [] | c # cs \<Rightarrow> Lit c # tokens cs))"
  by pat_completeness auto
termination
  by (relation "measure length") (auto dest!: match_ref_Some(1) simp: render_ref_def ref_open_def)

declare tokens.simps [simp del]

type_synonym outputs = "string \<rightharpoonup> (string \<rightharpoonup> string)"

datatype interp_error = UnknownStage string string | NoOutput string string

definition resolve :: "outputs \<Rightarrow> string \<Rightarrow> string \<Rightarrow> interp_error + string" where
  "resolve r stageID key =
     (case r stageID of
        None \<Rightarrow> Inl (UnknownStage stageID key)
      | Some outs \<Rightarrow> (case outs key of None \<Rightarrow> Inl (NoOutput stageID key) | Some v \<Rightarrow> Inr v))"

text \<open>The replacement callback with its captured \<open>firstErr\<close>: after an error it copies.\<close>

fun replace_loop :: "outputs \<Rightarrow> token list \<Rightarrow> interp_error option \<times> string \<Rightarrow> interp_error option \<times> string" where
  "replace_loop r [] st = st"
| "replace_loop r (Lit c # ts) (firstErr, out) = replace_loop r ts (firstErr, out @ [c])"
| "replace_loop r (Ref i k # ts) (firstErr, out) =
     (if firstErr \<noteq> None then replace_loop r ts (firstErr, out @ render_ref i k)
      else case resolve r i k of
        Inl e \<Rightarrow> replace_loop r ts (Some e, out @ render_ref i k)
      | Inr v \<Rightarrow> replace_loop r ts (None, out @ v))"

definition Interpolate :: "string \<Rightarrow> outputs \<Rightarrow> interp_error + string" where
  "Interpolate s r =
     (case replace_loop r (tokens s) (None, []) of
        (Some e, out) \<Rightarrow> Inl e
      | (None, out) \<Rightarrow> Inr out)"

text \<open>A nil slice or map is empty here; a map is visited in the order \<open>ks\<close>.\<close>

fun InterpolateSlice :: "string list \<Rightarrow> outputs \<Rightarrow> interp_error + string list" where
  "InterpolateSlice [] r = Inr []"
| "InterpolateSlice (v # vs) r =
     (case Interpolate v r of
        Inl e \<Rightarrow> Inl e
      | Inr iv \<Rightarrow> (case InterpolateSlice vs r of Inl e \<Rightarrow> Inl e | Inr ivs \<Rightarrow> Inr (iv # ivs)))"

fun InterpolateMap ::
  "string list \<Rightarrow> (string \<rightharpoonup> string) \<Rightarrow> outputs \<Rightarrow> (string \<rightharpoonup> string) \<Rightarrow> interp_error + (string \<rightharpoonup> string)" where
  "InterpolateMap [] m r out = Inr out"
| "InterpolateMap (k # ks) m r out =
     (case m k of
        None \<Rightarrow> InterpolateMap ks m r out
      | Some v \<Rightarrow>
          (case Interpolate v r of Inl e \<Rightarrow> Inl e | Inr iv \<Rightarrow> InterpolateMap ks m r (out(k \<mapsto> iv))))"

fun collect_ids :: "token list \<Rightarrow> string list \<Rightarrow> string list" where
  "collect_ids [] ids = ids"
| "collect_ids (Lit c # ts) ids = collect_ids ts ids"
| "collect_ids (Ref i k # ts) ids = collect_ids ts (if i \<in> set ids then ids else ids @ [i])"

definition References :: "string \<Rightarrow> string list" where
  "References s = collect_ids (tokens s) []"

subsection \<open>What interpolation does\<close>

fun token_text :: "token \<Rightarrow> string" where
  "token_text (Lit c) = [c]"
| "token_text (Ref i k) = render_ref i k"

lemma tokens_text: "concat (map token_text (tokens s)) = s"
proof (induction s rule: tokens.induct)
  case (1 s)
  show ?case
  proof (cases "match_ref s")
    case None
    show ?thesis
    proof (cases s)
      case Nil
      with None show ?thesis by (subst tokens.simps) simp
    next
      case (Cons c cs)
      with None 1(1) have "concat (map token_text (tokens cs)) = cs" by blast
      with None Cons show ?thesis by (subst tokens.simps) simp
    qed
  next
    case (Some m)
    obtain i k rest where m: "m = (i, k, rest)" by (cases m)
    have ih: "concat (map token_text (tokens rest)) = rest" using 1(2) [OF Some] m by simp
    have "s = render_ref i k @ rest" using match_ref_Some(1) Some m by simp
    then show ?thesis using ih Some m by (subst tokens.simps) simp
  qed
qed

fun refs_of :: "token list \<Rightarrow> (string \<times> string) list" where
  "refs_of [] = []"
| "refs_of (Lit c # ts) = refs_of ts"
| "refs_of (Ref i k # ts) = (i, k) # refs_of ts"

fun subst :: "outputs \<Rightarrow> token \<Rightarrow> string" where
  "subst r (Lit c) = [c]"
| "subst r (Ref i k) = (case resolve r i k of Inl e \<Rightarrow> [] | Inr v \<Rightarrow> v)"

lemma replace_loop_err: "fst (replace_loop r ts (Some e, out)) = Some e"
  by (induction r ts "(Some e, out)" arbitrary: out rule: replace_loop.induct) auto

lemma replace_loop_spec:
  "replace_loop r ts (None, out) =
     (if \<forall>(i, k) \<in> set (refs_of ts). \<exists>v. resolve r i k = Inr v
      then (None, out @ concat (map (subst r) ts))
      else replace_loop r ts (None, out)) \<and>
   (\<not> (\<forall>(i, k) \<in> set (refs_of ts). \<exists>v. resolve r i k = Inr v) \<longrightarrow>
      (\<exists>i k e. (i, k) \<in> set (refs_of ts) \<and> resolve r i k = Inl e \<and>
         fst (replace_loop r ts (None, out)) = Some e))"
proof (induction ts arbitrary: out)
  case (Cons t ts)
  show ?case
  proof (cases t)
    case (Lit c)
    with Cons [of "out @ [c]"] show ?thesis by auto
  next
    case (Ref i k)
    show ?thesis
    proof (cases "resolve r i k")
      case (Inl e)
      with Ref show ?thesis by (auto simp: replace_loop_err)
    next
      case (Inr v)
      with Ref Cons [of "out @ v"] show ?thesis by auto
    qed
  qed
qed simp

lemma collect_ids_set: "set (collect_ids ts ids) = set ids \<union> fst ` set (refs_of ts)"
  by (induction ts ids rule: collect_ids.induct) auto

lemma collect_ids_distinct: "distinct ids \<Longrightarrow> distinct (collect_ids ts ids)"
  by (induction ts ids rule: collect_ids.induct) auto

text \<open>
  Interpolation cuts the text, without loss, into literal characters and references and
  replaces each reference by its upstream value in one pass (values are not scanned again);
  it succeeds exactly when every reference resolves, and otherwise fails with the error of an
  unresolved one.  \<open>References\<close> lists exactly the stages the text refers to, each once, so a
  text without references is returned as it is.
\<close>

theorem Interpolate_spec:
  "concat (map token_text (tokens s)) = s \<and>
   (if \<forall>(i, k) \<in> set (refs_of (tokens s)). \<exists>v. resolve r i k = Inr v
    then Interpolate s r = Inr (concat (map (subst r) (tokens s)))
    else \<exists>i k e. (i, k) \<in> set (refs_of (tokens s)) \<and> resolve r i k = Inl e \<and> Interpolate s r = Inl e) \<and>
   distinct (References s) \<and> set (References s) = fst ` set (refs_of (tokens s)) \<and>
   (References s = [] \<longrightarrow> Interpolate s r = Inr s)"
proof -
  let ?ok = "\<forall>(i, k) \<in> set (refs_of (tokens s)). \<exists>v. resolve r i k = Inr v"
  note loop = replace_loop_spec [of r "tokens s" "[]"]
  have yes: "Interpolate s r = Inr (concat (map (subst r) (tokens s)))" if ?ok
    using loop that unfolding Interpolate_def by (simp only: if_True append_Nil) simp
  have no: "\<exists>i k e. (i, k) \<in> set (refs_of (tokens s)) \<and> resolve r i k = Inl e \<and> Interpolate s r = Inl e"
    if "\<not> ?ok"
  proof -
    from loop that obtain i k e where e: "(i, k) \<in> set (refs_of (tokens s))" "resolve r i k = Inl e"
      "fst (replace_loop r (tokens s) (None, [])) = Some e" by blast
    then have "Interpolate s r = Inl e" by (auto simp: Interpolate_def split: prod.split option.split)
    with e show ?thesis by blast
  qed
  have refs: "distinct (References s)" "set (References s) = fst ` set (refs_of (tokens s))"
    by (simp_all add: References_def collect_ids_set collect_ids_distinct)
  have plain: "map (subst r) ts = map token_text ts" if "refs_of ts = []" for ts
    using that by (induction ts rule: refs_of.induct) auto
  have "Interpolate s r = Inr s" if "References s = []"
  proof -
    have "refs_of (tokens s) = []" using refs(2) that by simp
    with yes plain [OF this] tokens_text [of s] show ?thesis by simp
  qed
  with yes no refs tokens_text [of s] show ?thesis by presburger
qed

lemma Interpolate_spec_witness:
  "Interpolate ''img:${stages.b.tag}'' [''b'' \<mapsto> [''tag'' \<mapsto> ''v1'']] = Inr ''img:v1'' \<and>
   References ''a ${IMAGE} b'' = [] \<and> Interpolate ''a ${IMAGE} b'' Map.empty = Inr ''a ${IMAGE} b''"
proof -
  have "tokens ''img:${stages.b.tag}'' =
      [Lit (CHR ''i''), Lit (CHR ''m''), Lit (CHR ''g''), Lit (CHR '':''), Ref ''b'' ''tag'']"
    by code_simp
  then have "Interpolate ''img:${stages.b.tag}'' [''b'' \<mapsto> [''tag'' \<mapsto> ''v1'']] = Inr ''img:v1''"
    using Interpolate_spec [of "''img:${stages.b.tag}''" "[''b'' \<mapsto> [''tag'' \<mapsto> ''v1'']]"]
    by (simp add: resolve_def)
  moreover have "References ''a ${IMAGE} b'' = []" by code_simp
  ultimately show ?thesis using Interpolate_spec [of "''a ${IMAGE} b''" Map.empty] by simp
qed

end
