(* ===== verification/Validate.thy ===== *)
theory Validate
  imports Prelude
begin

text \<open>
  The input validation of \<open>backend/internal/validate/validate.go\<close>.  The regular expressions of
  the source are terms of a small type \<open>rx\<close>, matched by derivatives; the matcher is proved
  equal to the usual inductive reading, from which the guarantees about accepted inputs
  follow.  The results of \<open>time.ParseDuration\<close> and \<open>url.Parse\<close> are arguments.
\<close>

subsection \<open>Regular expressions\<close>

datatype rx =
    RNone
  | REps
  | RCls "char \<Rightarrow> bool"
  | RSeq rx rx
  | RAlt rx rx
  | RStar rx
  | RUpTo nat rx

fun nullable :: "rx \<Rightarrow> bool" where
  "nullable RNone = False"
| "nullable REps = True"
| "nullable (RCls p) = False"
| "nullable (RSeq a b) = (nullable a \<and> nullable b)"
| "nullable (RAlt a b) = (nullable a \<or> nullable b)"
| "nullable (RStar a) = True"
| "nullable (RUpTo n a) = True"

fun deriv :: "char \<Rightarrow> rx \<Rightarrow> rx" where
  "deriv c RNone = RNone"
| "deriv c REps = RNone"
| "deriv c (RCls p) = (if p c then REps else RNone)"
| "deriv c (RSeq a b) = (if nullable a then RAlt (RSeq (deriv c a) b) (deriv c b) else RSeq (deriv c a) b)"
| "deriv c (RAlt a b) = RAlt (deriv c a) (deriv c b)"
| "deriv c (RStar a) = RSeq (deriv c a) (RStar a)"
| "deriv c (RUpTo n a) = (case n of 0 \<Rightarrow> RNone | Suc m \<Rightarrow> RSeq (deriv c a) (RUpTo m a))"

definition MatchString :: "rx \<Rightarrow> string \<Rightarrow> bool" where
  "MatchString r s = nullable (fold deriv s r)"

inductive rx_match :: "rx \<Rightarrow> string \<Rightarrow> bool" where
  m_eps: "rx_match REps []"
| m_cls: "p c \<Longrightarrow> rx_match (RCls p) [c]"
| m_seq: "rx_match a s \<Longrightarrow> rx_match b t \<Longrightarrow> rx_match (RSeq a b) (s @ t)"
| m_altl: "rx_match a s \<Longrightarrow> rx_match (RAlt a b) s"
| m_altr: "rx_match b s \<Longrightarrow> rx_match (RAlt a b) s"
| m_star0: "rx_match (RStar a) []"
| m_star: "rx_match a s \<Longrightarrow> rx_match (RStar a) t \<Longrightarrow> rx_match (RStar a) (s @ t)"
| m_upto0: "rx_match (RUpTo n a) []"
| m_upto: "rx_match a s \<Longrightarrow> rx_match (RUpTo n a) t \<Longrightarrow> rx_match (RUpTo (Suc n) a) (s @ t)"

inductive_cases RNoneE: "rx_match RNone s"
inductive_cases REpsE: "rx_match REps s"
inductive_cases RClsE: "rx_match (RCls p) s"
inductive_cases RSeqE: "rx_match (RSeq a b) s"
inductive_cases RAltE: "rx_match (RAlt a b) s"
inductive_cases RUpToE: "rx_match (RUpTo n a) s"

lemma nullable_match: "nullable r \<longleftrightarrow> rx_match r []"
proof (induction r)
  case (RSeq a b)
  then show ?case using m_seq [of a "[]" b "[]"] by (auto elim: RSeqE)
next
  case (RAlt a b)
  then show ?case by (auto elim: RAltE intro: rx_match.intros)
qed (auto elim: RNoneE RClsE intro: rx_match.intros)

lemma deriv_sound: "rx_match (deriv c r) s \<Longrightarrow> rx_match r (c # s)"
proof (induction r arbitrary: s)
  case (RCls p)
  then show ?case by (auto split: if_splits elim: RNoneE REpsE intro: m_cls)
next
  case (RSeq a b)
  have step: "rx_match (RSeq a b) (c # s)" if "rx_match (RSeq (deriv c a) b) s" for s
  proof -
    from that obtain s1 s2 where s: "s = s1 @ s2" "rx_match (deriv c a) s1" "rx_match b s2"
      by (auto elim: RSeqE)
    from m_seq [OF RSeq.IH(1) [OF s(2)] s(3)] s(1) show ?thesis by simp
  qed
  show ?case
  proof (cases "nullable a")
    case True
    then have a: "rx_match a []" by (simp add: nullable_match)
    from True RSeq.prems have "rx_match (RSeq (deriv c a) b) s \<or> rx_match (deriv c b) s"
      by (auto elim: RAltE)
    with step RSeq.IH(2) m_seq [OF a] show ?thesis by fastforce
  next
    case False
    with step RSeq.prems show ?thesis by simp
  qed
next
  case (RAlt a b)
  then show ?case by (auto elim!: RAltE intro: rx_match.intros)
next
  case (RStar a)
  then obtain s1 s2 where s: "s = s1 @ s2" "rx_match (deriv c a) s1" "rx_match (RStar a) s2"
    by (auto elim: RSeqE)
  from m_star [OF RStar.IH [OF s(2)] s(3)] s(1) show ?case by simp
next
  case (RUpTo n a)
  then obtain m s1 s2 where s: "n = Suc m" "s = s1 @ s2" "rx_match (deriv c a) s1" "rx_match (RUpTo m a) s2"
    by (auto elim: RSeqE RNoneE split: nat.splits)
  from m_upto [OF RUpTo.IH [OF s(3)] s(4)] s(1,2) show ?case by simp
qed (auto elim: RNoneE)

lemma deriv_complete: "rx_match r w \<Longrightarrow> w = c # s \<Longrightarrow> rx_match (deriv c r) s"
proof (induction r w arbitrary: s rule: rx_match.induct)
  case (m_seq a s1 b t)
  show ?case
  proof (cases s1)
    case Nil
    then have "nullable a" using m_seq(1) by (simp add: nullable_match)
    moreover have "rx_match (deriv c b) s" using m_seq Nil by simp
    ultimately show ?thesis by (simp add: m_altr)
  next
    case (Cons x s1')
    then have "rx_match (RSeq (deriv c a) b) s" using m_seq rx_match.m_seq by fastforce
    then show ?thesis by (simp add: m_altl)
  qed
next
  case (m_star a s1 t)
  then show ?case using rx_match.m_seq by (cases s1) fastforce+
next
  case (m_upto a s1 n t)
  show ?case
  proof (cases s1)
    case Nil
    then have n: "rx_match (deriv c (RUpTo n a)) s" using m_upto by simp
    show ?thesis
    proof (cases n)
      case 0
      with n show ?thesis by (auto elim: RNoneE)
    next
      case (Suc m)
      with n obtain u v where uv: "s = u @ v" "rx_match (deriv c a) u" "rx_match (RUpTo m a) v"
        by (auto elim: RSeqE)
      have more: "rx_match (RUpTo k a) v \<Longrightarrow> rx_match (RUpTo (Suc k) a) v" for k v
      proof (induction "RUpTo k a" v arbitrary: k rule: rx_match.induct)
        case (m_upto0 k)
        show ?case by (rule rx_match.m_upto0)
      next
        case (m_upto s k t)
        then show ?case by (intro rx_match.m_upto)
      qed
      from rx_match.m_seq [OF uv(2) more [OF uv(3)]] uv(1) Suc show ?thesis by simp
    qed
  next
    case (Cons x s1')
    then show ?thesis using m_upto rx_match.m_seq by fastforce
  qed
qed (auto intro: rx_match.intros)

lemma MatchString_iff: "MatchString r s \<longleftrightarrow> rx_match r s"
proof (induction s arbitrary: r)
  case Nil
  show ?case by (simp add: MatchString_def nullable_match)
next
  case (Cons c s)
  then show ?case
    using deriv_sound [of c r s] deriv_complete [of r "c # s" c s] by (auto simp: MatchString_def)
qed

text \<open>The characters and the length of a match.\<close>

fun rx_chars :: "(char \<Rightarrow> bool) \<Rightarrow> rx \<Rightarrow> bool" where
  "rx_chars P (RCls p) = (\<forall>c. p c \<longrightarrow> P c)"
| "rx_chars P (RSeq a b) = (rx_chars P a \<and> rx_chars P b)"
| "rx_chars P (RAlt a b) = (rx_chars P a \<and> rx_chars P b)"
| "rx_chars P (RStar a) = rx_chars P a"
| "rx_chars P (RUpTo n a) = rx_chars P a"
| "rx_chars P _ = True"

lemma match_chars: "rx_match r s \<Longrightarrow> rx_chars P r \<Longrightarrow> \<forall>c \<in> set s. P c"
  by (induction rule: rx_match.induct) auto

lemma match_upto_length: "rx_match (RUpTo n (RCls p)) s \<Longrightarrow> length s \<le> n"
  by (induction "RUpTo n (RCls p)" s arbitrary: n rule: rx_match.induct) (auto elim!: RClsE)

subsection \<open>The expressions of the source\<close>

definition is_lower :: "char \<Rightarrow> bool" where
  "is_lower c = (c \<in> set ''abcdefghijklmnopqrstuvwxyz'')"

definition is_upper :: "char \<Rightarrow> bool" where
  "is_upper c = (c \<in> set ''ABCDEFGHIJKLMNOPQRSTUVWXYZ'')"

definition is_digit :: "char \<Rightarrow> bool" where
  "is_digit c = (c \<in> set ''0123456789'')"

definition is_alnum :: "char \<Rightarrow> bool" where
  "is_alnum c = (is_lower c \<or> is_upper c \<or> is_digit c)"

abbreviation RLit :: "char \<Rightarrow> rx" where
  "RLit x \<equiv> RCls (\<lambda>c. c = x)"

abbreviation ROpt :: "rx \<Rightarrow> rx" where
  "ROpt r \<equiv> RUpTo 1 r"

abbreviation RPlus :: "rx \<Rightarrow> rx" where
  "RPlus r \<equiv> RSeq r (RStar r)"

definition githubRepoRe :: rx where
  "githubRepoRe =
     RSeq (RCls is_alnum) (RSeq (RUpTo 38 (RCls (\<lambda>c. is_alnum c \<or> c = CHR ''-'')))
       (RSeq (RLit (CHR ''/''))
         (RSeq (RCls (\<lambda>c. is_alnum c \<or> c \<in> set ''._-''))
           (RUpTo 99 (RCls (\<lambda>c. is_alnum c \<or> c \<in> set ''._-''))))))"

definition dockerTagRe :: rx where
  "dockerTagRe = RSeq (RCls (\<lambda>c. is_alnum c \<or> c = CHR ''_''))
     (RUpTo 127 (RCls (\<lambda>c. is_alnum c \<or> c \<in> set ''._-'')))"

definition gitRefRe :: rx where
  "gitRefRe = RSeq (RCls is_alnum) (RStar (RCls (\<lambda>c. is_alnum c \<or> c \<in> set ''._/-'')))"

definition cacheSegRe :: rx where
  "cacheSegRe = RSeq (RCls (\<lambda>c. is_lower c \<or> is_digit c))
     (ROpt (RSeq (RStar (RCls (\<lambda>c. is_lower c \<or> is_digit c \<or> c \<in> set ''._-'')))
                 (RCls (\<lambda>c. is_lower c \<or> is_digit c))))"

definition cacheRefRe :: rx where
  "cacheRefRe =
     RSeq cacheSegRe
       (RSeq (ROpt (RSeq (RLit (CHR '':'')) (RPlus (RCls is_digit))))
         (RSeq (RPlus (RSeq (RLit (CHR ''/'')) cacheSegRe))
           (ROpt (RSeq (RLit (CHR '':''))
             (RSeq (RCls (\<lambda>c. is_alnum c \<or> c = CHR ''_''))
               (RUpTo 127 (RCls (\<lambda>c. is_alnum c \<or> c \<in> set ''._-''))))))))"

subsection \<open>The validators\<close>

datatype verr =
    IsRequired string
  | Exceeds string nat
  | NotADuration string
  | OutsideRange string
  | Below string string
  | NotValid string
  | Unknown string
  | InvalidSequence string
  | AtIndex nat verr

text \<open>\<open>None\<close> accepts.\<close>

definition Name :: "string \<Rightarrow> string \<Rightarrow> verr option" where
  "Name field s =
     (if s = [] then Some (IsRequired field)
      else if length s > 255 then Some (Exceeds field 255) else None)"

definition Description :: "string \<Rightarrow> string \<Rightarrow> verr option" where
  "Description field s = (if length s > 2000 then Some (Exceeds field 2000) else None)"

definition RunDeadline :: "(string \<Rightarrow> int option) \<Rightarrow> string \<Rightarrow> verr option" where
  "RunDeadline parse s =
     (if s = [] then None
      else case parse s of
        None \<Rightarrow> Some (NotADuration s)
      | Some d \<Rightarrow> if d < 10 * Second \<or> d > 24 * Hour then Some (OutsideRange s) else None)"

record RetryPolicy =
  RetryPolicy_MaxAttempts :: int
  RetryPolicy_InitialMS :: int
  RetryPolicy_MaxMS :: int
  RetryPolicy_Exponential :: "bool option"

definition RetryPolicy_validate :: "RetryPolicy option \<Rightarrow> verr option" where
  "RetryPolicy_validate ro =
     (case ro of
        None \<Rightarrow> None
      | Some r \<Rightarrow>
          if RetryPolicy_MaxAttempts r < 0 \<or> RetryPolicy_MaxAttempts r > 10
          then Some (OutsideRange ''retry.maxAttempts'')
          else if RetryPolicy_InitialMS r < 0 \<or> RetryPolicy_InitialMS r > 60000
          then Some (OutsideRange ''retry.initialMs'')
          else if RetryPolicy_MaxMS r < 0 \<or> RetryPolicy_MaxMS r > 300000
          then Some (OutsideRange ''retry.maxMs'')
          else if RetryPolicy_MaxMS r > 0 \<and> RetryPolicy_InitialMS r > 0 \<and>
                  RetryPolicy_MaxMS r < RetryPolicy_InitialMS r
          then Some (Below ''retry.maxMs'' ''retry.initialMs'')
          else None)"

record CacheSpec =
  CacheSpec_Mode :: string
  CacheSpec_Ref :: string
  CacheSpec_Inline :: bool

definition CacheSpec_validate :: "CacheSpec option \<Rightarrow> verr option" where
  "CacheSpec_validate co =
     (case co of
        None \<Rightarrow> None
      | Some c \<Rightarrow>
          if CacheSpec_Mode c = [] \<or> CacheSpec_Mode c = ''disabled'' then None
          else if CacheSpec_Mode c = ''registry'' \<or> CacheSpec_Mode c = ''oci'' then
            (if CacheSpec_Ref c = [] then Some (IsRequired ''cache.ref'')
             else if length (CacheSpec_Ref c) > 255 then Some (Exceeds ''cache.ref'' 255)
             else if \<not> MatchString cacheRefRe (CacheSpec_Ref c) then Some (NotValid ''cache.ref'')
             else None)
          else Some (Unknown ''cache.mode''))"

definition StageType_validate :: "string \<Rightarrow> verr option" where
  "StageType_validate t =
     (if t \<in> set [''build'', ''test'', ''deploy'', ''push'', ''approval'', ''custom'', ''gitops-commit'']
      then None else Some (Unknown t))"

definition HostKind :: "string \<Rightarrow> verr option" where
  "HostKind k = (if k \<in> set [''docker'', ''kubernetes'', ''ssh-docker''] then None else Some (Unknown k))"

definition HostReachability :: "string \<Rightarrow> verr option" where
  "HostReachability r = (if r \<in> set [''direct'', ''tailnet''] then None else Some (Unknown r))"

definition EnvironmentTargetType :: "string \<Rightarrow> verr option" where
  "EnvironmentTargetType t = (if t \<in> set [[], ''cluster'', ''namespace''] then None else Some (Unknown t))"

definition GitHubRepo :: "string \<Rightarrow> verr option" where
  "GitHubRepo s = (if \<not> MatchString githubRepoRe s then Some (NotValid s) else None)"

text \<open>\<open>strings.Contains(s, "..")\<close> and \<open>strings.HasSuffix(s, "/")\<close>.\<close>

fun has_dotdot :: "string \<Rightarrow> bool" where
  "has_dotdot (a # b # s) = (a = CHR ''.'' \<and> b = CHR ''.'' \<or> has_dotdot (b # s))"
| "has_dotdot _ = False"

definition GitRefName :: "string \<Rightarrow> string \<Rightarrow> verr option" where
  "GitRefName field s =
     (if s = [] then None
      else if has_dotdot s \<or> last s = CHR ''/'' then Some (InvalidSequence field)
      else if \<not> MatchString gitRefRe s then Some (NotValid field) else None)"

definition DockerTag :: "string \<Rightarrow> verr option" where
  "DockerTag s = (if \<not> MatchString dockerTagRe s then Some (NotValid s) else None)"

text \<open>The part after the last colon, the whole string when there is none.\<close>

definition tag_part :: "string \<Rightarrow> string" where
  "tag_part t = rev (takeWhile (\<lambda>c. c \<noteq> CHR '':'') (rev t))"

fun docker_tags_from :: "nat \<Rightarrow> string list \<Rightarrow> verr option" where
  "docker_tags_from i [] = None"
| "docker_tags_from i (t # tags) =
     (case DockerTag (tag_part t) of
        Some e \<Rightarrow> Some (AtIndex i e)
      | None \<Rightarrow> docker_tags_from (Suc i) tags)"

definition DockerTags :: "string list \<Rightarrow> verr option" where
  "DockerTags tags = docker_tags_from 0 tags"

record URL =
  URL_Scheme :: string
  URL_Host :: string

definition HTTPSURL :: "(string \<Rightarrow> URL option) \<Rightarrow> string \<Rightarrow> string \<Rightarrow> bool \<Rightarrow> verr option" where
  "HTTPSURL parse field s requireHTTPS =
     (if s = [] then Some (IsRequired field)
      else case parse s of
        None \<Rightarrow> Some (NotValid field)
      | Some u \<Rightarrow>
          if URL_Scheme u = [] \<or> URL_Host u = [] then Some (IsRequired field)
          else if requireHTTPS \<and> URL_Scheme u \<noteq> ''https'' then Some (NotValid field)
          else None)"

subsection \<open>What is accepted\<close>

definition ref_char :: "char \<Rightarrow> bool" where
  "ref_char c \<longleftrightarrow> is_alnum c \<or> c \<in> set ''._/:-''"

lemmas class_defs = ref_char_def is_alnum_def

lemma cacheRef_chars: "rx_match cacheRefRe s \<Longrightarrow> \<forall>c \<in> set s. ref_char c"
  by (rule match_chars) (auto simp: cacheRefRe_def cacheSegRe_def class_defs)

lemma dockerTag_accept:
  assumes "rx_match dockerTagRe s"
  shows "s \<noteq> [] \<and> length s \<le> 128 \<and> (\<forall>c \<in> set s. ref_char c \<or> c = CHR ''_'') \<and> hd s \<noteq> CHR ''-''"
proof -
  from assms obtain c t where s: "s = c # t" "is_alnum c \<or> c = CHR ''_''"
    "rx_match (RUpTo 127 (RCls (\<lambda>c. is_alnum c \<or> c \<in> set ''._-''))) t"
    unfolding dockerTagRe_def by (auto elim!: RSeqE RClsE)
  have "\<not> is_alnum (CHR ''-'')" by code_simp
  moreover have "\<forall>c \<in> set t. ref_char c \<or> c = CHR ''_''"
    by (rule match_chars [OF s(3)]) (auto simp: class_defs)
  ultimately show ?thesis using s match_upto_length [OF s(3)] by (auto simp: ref_char_def)
qed

lemma gitRef_accept:
  assumes "rx_match gitRefRe s"
  shows "s \<noteq> [] \<and> is_alnum (hd s) \<and> (\<forall>c \<in> set s. ref_char c \<or> c = CHR ''_'')"
proof -
  from assms obtain c t where s: "s = c # t" "is_alnum c"
    "rx_match (RStar (RCls (\<lambda>c. is_alnum c \<or> c \<in> set ''._/-''))) t"
    unfolding gitRefRe_def by (auto elim!: RSeqE RClsE)
  have "\<forall>c \<in> set t. ref_char c \<or> c = CHR ''_''"
    by (rule match_chars [OF s(3)]) (auto simp: class_defs)
  with s show ?thesis by (auto simp: ref_char_def)
qed

lemma docker_tags_None: "docker_tags_from i tags = None \<longleftrightarrow> (\<forall>t \<in> set tags. DockerTag (tag_part t) = None)"
  by (induction tags arbitrary: i) (auto split: option.split)

text \<open>
  What reaches a builder command line is harmless: a cache ref that passes the validation
  (in a mode that uses it) is non-empty, at most 255 bytes long, and made of letters, digits
  and \<open>. _ / : -\<close> only; a validated image tag has 1 to 128 bytes of that kind and does not
  start with a dash; a validated non-empty git ref starts with a letter or a digit, has no
  \<open>..\<close> and does not end in a slash.
\<close>

theorem validated_inputs_safe:
  "(CacheSpec_validate (Some c) = None \<and> CacheSpec_Mode c \<noteq> [] \<and> CacheSpec_Mode c \<noteq> ''disabled'' \<longrightarrow>
      CacheSpec_Ref c \<noteq> [] \<and> length (CacheSpec_Ref c) \<le> 255 \<and>
      (\<forall>x \<in> set (CacheSpec_Ref c). is_alnum x \<or> x \<in> set ''._/:-'')) \<and>
   (DockerTags tags = None \<and> t \<in> set tags \<longrightarrow>
      1 \<le> length (tag_part t) \<and> length (tag_part t) \<le> 128 \<and> hd (tag_part t) \<noteq> CHR ''-'' \<and>
      (\<forall>x \<in> set (tag_part t). is_alnum x \<or> x \<in> set ''._/:-'')) \<and>
   (GitRefName field s = None \<and> s \<noteq> [] \<longrightarrow>
      is_alnum (hd s) \<and> \<not> has_dotdot s \<and> last s \<noteq> CHR ''/'' \<and>
      (\<forall>x \<in> set s. is_alnum x \<or> x \<in> set ''._/:-''))"
proof (intro conjI impI)
  have u: "ref_char x \<or> x = CHR ''_'' \<longleftrightarrow> is_alnum x \<or> x \<in> set ''._/:-''" for x
    by (auto simp: ref_char_def)
  {
    assume "CacheSpec_validate (Some c) = None \<and> CacheSpec_Mode c \<noteq> [] \<and> CacheSpec_Mode c \<noteq> ''disabled''"
    then have "CacheSpec_Ref c \<noteq> []" "length (CacheSpec_Ref c) \<le> 255" "rx_match cacheRefRe (CacheSpec_Ref c)"
      by (auto simp: CacheSpec_validate_def MatchString_iff split: if_splits)
    with cacheRef_chars [OF this(3)] u
    show "CacheSpec_Ref c \<noteq> []" "length (CacheSpec_Ref c) \<le> 255"
      "\<forall>x \<in> set (CacheSpec_Ref c). is_alnum x \<or> x \<in> set ''._/:-''" by blast+
  next
    assume "DockerTags tags = None \<and> t \<in> set tags"
    then have "rx_match dockerTagRe (tag_part t)"
      by (auto simp: DockerTags_def docker_tags_None DockerTag_def MatchString_iff split: if_splits)
    from dockerTag_accept [OF this] u
    show "1 \<le> length (tag_part t)" "length (tag_part t) \<le> 128" "hd (tag_part t) \<noteq> CHR ''-''"
      "\<forall>x \<in> set (tag_part t). is_alnum x \<or> x \<in> set ''._/:-''"
      by (simp_all add: Suc_le_eq)
  next
    assume "GitRefName field s = None \<and> s \<noteq> []"
    then have "\<not> has_dotdot s" "last s \<noteq> CHR ''/''" "rx_match gitRefRe s"
      by (auto simp: GitRefName_def MatchString_iff split: if_splits)
    with gitRef_accept [OF this(3)] u
    show "is_alnum (hd s)" "\<not> has_dotdot s" "last s \<noteq> CHR ''/''"
      "\<forall>x \<in> set s. is_alnum x \<or> x \<in> set ''._/:-''" by blast+
  }
qed

lemma validated_inputs_safe_witness:
  "GitRefName ''branch'' ''main'' = None \<and> is_alnum (hd ''main'') \<and>
   DockerTags [''app:v1''] = None \<and> hd (tag_part ''app:v1'') \<noteq> CHR ''-''"
proof -
  have "GitRefName ''branch'' ''main'' = None" "DockerTags [''app:v1''] = None" by code_simp+
  with validated_inputs_safe [where field = "''branch''" and s = "''main''" and tags = "[''app:v1'']"
      and t = "''app:v1''"]
  show ?thesis by simp
qed

text \<open>
  The comment on the repository expression says that owners are made of letters, digits,
  underscores and hyphens; an underscore in the owner is refused.
\<close>

lemma GitHubRepo_owner_underscore:
  "GitHubRepo ''my_org/app'' = Some (NotValid ''my_org/app'') \<and> GitHubRepo ''my-org/app'' = None"
  by code_simp

end
