(* ===== verification/Pipeline.thy ===== *)
theory Pipeline
  imports Dag Interpolate Validate
begin

text \<open>
  The pipeline definition (\<open>backend/internal/model/pipeline.go\<close>) and its validation
  (\<open>backend/internal/service/pipeline.go\<close>): duplicate stages, dangling edges, unknown
  conditions, references to stages that are no ancestors, and cycles.  Left out of the records
  are the fields the modelled code only carries along (\<open>HelmValues\<close>, \<open>SecretRefs\<close>, the
  position on the canvas).  A nil map or slice is an empty one.
\<close>

record ResourceLimits =
  RL_Memory :: string
  RL_CPUs :: string

record ContainerHealthCheck =
  HC_Command :: "string list"
  HC_Interval :: int
  HC_Timeout :: int
  HC_Retries :: int
  HC_StartPeriod :: int

record StageConfig =
  sc_Dockerfile :: string
  sc_Context :: string
  sc_BuildArgs :: "string \<rightharpoonup> string"
  sc_BuildTarget :: string
  sc_Tags :: "string list"
  sc_Platforms :: "string list"
  sc_Cache :: "CacheSpec option"
  sc_Image :: string
  sc_Command :: "string list"
  sc_Registry :: string
  sc_Repository :: string
  sc_Namespace :: string
  sc_ManifestPath :: string
  sc_HelmChart :: string
  sc_DeployRuntime :: string
  sc_RuntimeName :: string
  sc_ComposeProject :: string
  sc_ReviewOnly :: bool
  sc_ComposeServiceName :: string
  sc_ComposePorts :: "string list"
  sc_Resources :: "ResourceLimits option"
  sc_Script :: string
  sc_Timeout :: string
  sc_RequiredApprovers :: int
  sc_Retries :: int
  sc_Retry :: "RetryPolicy option"
  sc_Env :: "string \<rightharpoonup> string"
  sc_ProxyHost :: string
  sc_GitOpsRepo :: string
  sc_GitOpsBranch :: string
  sc_GitOpsPath :: string
  sc_GitOpsMessage :: string
  sc_GitOpsContent :: string
  sc_HealthCheck :: "ContainerHealthCheck option"
  sc_ComposeBuildContext :: string
  sc_ComposeDockerfile :: string

record Stage =
  Stage_ID :: string
  Stage_Name :: string
  Stage_Type :: string
  Stage_Config :: StageConfig
  Stage_EnvironmentID :: string
  Stage_Group :: string

record Pipeline =
  Pipeline_ID :: string
  Pipeline_Stages :: "Stage list"
  Pipeline_Edges :: "Edge list"
  Pipeline_RunDeadline :: string

subsection \<open>Ancestors\<close>

text \<open>\<open>deps[target]\<close> as the loops over the edges fill it.\<close>

definition edge_deps :: "Edge list \<Rightarrow> string \<Rightarrow> string list" where
  "edge_deps es t = map Edge_Source (filter (\<lambda>e. Edge_Target e = t) es)"

text \<open>
  The breadth-first walk.  Every round takes one element off the queue, and a stage is expanded
  once, so the fuel given below is enough (\<open>ancestorsOf_spec\<close>); without fuel the result is
  \<open>None\<close>.
\<close>

fun ancestors_loop :: "nat \<Rightarrow> (string \<Rightarrow> string list) \<Rightarrow> string list \<Rightarrow> string list \<Rightarrow> string list option" where
  "ancestors_loop fuel deps ancestors [] = Some ancestors"
| "ancestors_loop 0 deps ancestors (cur # queue) = None"
| "ancestors_loop (Suc fuel) deps ancestors (cur # queue) =
     (if cur \<in> set ancestors then ancestors_loop fuel deps ancestors queue
      else ancestors_loop fuel deps (cur # ancestors) (queue @ deps cur))"

definition ancestorsOf :: "string \<Rightarrow> Edge list \<Rightarrow> string list option" where
  "ancestorsOf target es = ancestors_loop (2 * length es) (edge_deps es) [] (edge_deps es target)"

definition edge_rel :: "Edge list \<Rightarrow> (string \<times> string) set" where
  "edge_rel es = {(Edge_Source e, Edge_Target e) | e. e \<in> set es}"

lemma edge_deps_rel: "x \<in> set (edge_deps es t) \<longleftrightarrow> (x, t) \<in> edge_rel es"
  by (auto simp: edge_deps_def edge_rel_def)

text \<open>What the walk has left to do: the queue and the sources of the stages not yet expanded.\<close>

definition walk_work :: "Edge list \<Rightarrow> string list \<Rightarrow> string list \<Rightarrow> nat" where
  "walk_work es ancestors queue =
     length queue + length (filter (\<lambda>e. Edge_Target e \<notin> set ancestors) es)"

lemma walk_expand:
  assumes "cur \<notin> set anc"
  shows "length (filter (\<lambda>e. Edge_Target e \<notin> set (cur # anc)) es) + length (edge_deps es cur)
    = length (filter (\<lambda>e. Edge_Target e \<notin> set anc) es)"
  using assms by (induction es) (auto simp: edge_deps_def)

lemma ancestors_loop_spec:
  assumes "walk_work es anc queue \<le> fuel"
    and "\<forall>x \<in> set anc \<union> set queue. (x, t) \<in> (edge_rel es)\<^sup>+"
    and "\<forall>y \<in> insert t (set anc). set (edge_deps es y) \<subseteq> set anc \<union> set queue"
  shows "\<exists>res. ancestors_loop fuel (edge_deps es) anc queue = Some res \<and>
    set res = {x. (x, t) \<in> (edge_rel es)\<^sup>+}"
  using assms
proof (induction fuel "edge_deps es" anc queue rule: ancestors_loop.induct)
  case (1 fuel anc)
  have "x \<in> set anc" if "(x, t) \<in> (edge_rel es)\<^sup>+" for x
    using that
  proof (induction rule: converse_trancl_induct)
    case (base y)
    then show ?case using 1(3) by (auto simp: edge_deps_rel [symmetric])
  next
    case (step y z)
    then show ?case using 1(3) by (auto simp: edge_deps_rel [symmetric])
  qed
  with 1(2) show ?case by auto
next
  case (2 anc cur queue)
  then show ?case by (simp add: walk_work_def)
next
  case (3 fuel anc cur queue)
  show ?case
  proof (cases "cur \<in> set anc")
    case True
    have "walk_work es anc queue \<le> fuel" using 3(3) by (simp add: walk_work_def)
    moreover have "set anc \<union> set (cur # queue) = set anc \<union> set queue" using True by auto
    ultimately show ?thesis using 3(1) [OF True] 3(4,5) True by simp
  next
    case False
    have "walk_work es (cur # anc) (queue @ edge_deps es cur) \<le> fuel"
      using 3(3) walk_expand [OF False, of es] by (simp add: walk_work_def)
    moreover have "\<forall>x \<in> set (cur # anc) \<union> set (queue @ edge_deps es cur). (x, t) \<in> (edge_rel es)\<^sup>+"
      using 3(4) by (auto simp: edge_deps_rel intro: trancl_into_trancl2)
    moreover have "\<forall>y \<in> insert t (set (cur # anc)).
        set (edge_deps es y) \<subseteq> set (cur # anc) \<union> set (queue @ edge_deps es cur)"
      using 3(5) by auto
    ultimately show ?thesis using 3(2) [OF False] False by simp
  qed
qed

lemma ancestorsOf_some:
  "\<exists>res. ancestorsOf t es = Some res \<and> set res = {x. (x, t) \<in> (edge_rel es)\<^sup>+}"
  unfolding ancestorsOf_def
proof (rule ancestors_loop_spec)
  have "length (edge_deps es t) \<le> length es" by (simp add: edge_deps_def)
  then show "walk_work es [] (edge_deps es t) \<le> 2 * length es" by (simp add: walk_work_def)
qed (auto simp: edge_deps_rel)

text \<open>
  The walk ends on every graph, cyclic ones included, and returns exactly the stages with a
  non-empty path of edges to the target.
\<close>

theorem ancestorsOf_spec:
  "\<exists>res. ancestorsOf t es = Some res \<and> set res = {x. (x, t) \<in> (edge_rel es)\<^sup>+}"
  by (rule ancestorsOf_some)

text \<open>
  The comment on \<open>ancestorsOf\<close> says that the target is not included; on a cycle it is.
\<close>

lemma ancestorsOf_cycle_includes_target:
  "\<exists>res. ancestorsOf ''a'' [\<lparr>Edge_ID = ''e'', Edge_Source = ''a'', Edge_Target = ''a'', Edge_Condition = []\<rparr>]
     = Some res \<and> ''a'' \<in> set res"
  by (simp add: ancestorsOf_def edge_deps_def eval_nat_numeral)

subsection \<open>The validation\<close>

datatype pipe_err =
    DuplicateStageID string
  | UnknownSource string
  | UnknownTarget string
  | BadCondition string string string
  | RefUnknownStage string string
  | RefOwnOutputs string string
  | RefNotAncestor string string
  | DagError validate_msg

fun duplicate_errs :: "Stage list \<Rightarrow> string set \<Rightarrow> pipe_err list" where
  "duplicate_errs [] seen = []"
| "duplicate_errs (s # ss) seen =
     (if Stage_ID s \<in> seen then [DuplicateStageID (Stage_ID s)] else []) @
     duplicate_errs ss (insert (Stage_ID s) seen)"

definition edge_errs :: "string set \<Rightarrow> Edge \<Rightarrow> pipe_err list" where
  "edge_errs stageIDs e =
     (if Edge_Source e \<notin> stageIDs then [UnknownSource (Edge_Source e)] else []) @
     (if Edge_Target e \<notin> stageIDs then [UnknownTarget (Edge_Target e)] else []) @
     (if Edge_Condition e \<in> set [[], ''success'', ''failure'', ''always''] then []
      else [BadCondition (Edge_Source e) (Edge_Target e) (Edge_Condition e)])"

text \<open>\<open>bo\<close> and \<open>eo\<close> are the orders of the two loops over maps.\<close>

definition stageInterpolatableStrings :: "(Stage \<Rightarrow> string list) \<Rightarrow> (Stage \<Rightarrow> string list) \<Rightarrow> Stage \<Rightarrow> string list" where
  "stageInterpolatableStrings bo eo s =
     (let c = Stage_Config s in
      [sc_Registry c, sc_Repository c, sc_Image c, sc_Context c, sc_Dockerfile c, sc_ManifestPath c,
       sc_HelmChart c, sc_Namespace c, sc_GitOpsRepo c, sc_GitOpsBranch c, sc_GitOpsPath c,
       sc_GitOpsMessage c, sc_GitOpsContent c] @
      sc_Tags c @ sc_Command c @ sc_Platforms c @
      map_values (bo s) (sc_BuildArgs c) @ map_values (eo s) (sc_Env c))"

definition map_orders :: "(Stage \<Rightarrow> string list) \<Rightarrow> (Stage \<Rightarrow> string list) \<Rightarrow> Pipeline \<Rightarrow> bool" where
  "map_orders bo eo p \<longleftrightarrow> (\<forall>s \<in> set (Pipeline_Stages p).
     iter_order (bo s) (sc_BuildArgs (Stage_Config s)) \<and> iter_order (eo s) (sc_Env (Stage_Config s)))"

fun distinct_ids :: "string list \<Rightarrow> string list \<Rightarrow> string list" where
  "distinct_ids [] refs = refs"
| "distinct_ids (i # is) refs = distinct_ids is (if i \<in> set refs then refs else refs @ [i])"

definition stage_refs :: "(Stage \<Rightarrow> string list) \<Rightarrow> (Stage \<Rightarrow> string list) \<Rightarrow> Stage \<Rightarrow> string list" where
  "stage_refs bo eo s = distinct_ids (concat (map References (stageInterpolatableStrings bo eo s))) []"

definition ref_errs :: "string set \<Rightarrow> string list \<Rightarrow> string \<Rightarrow> string \<Rightarrow> pipe_err list" where
  "ref_errs stageIDs ancestors sid i =
     (if i \<notin> stageIDs then [RefUnknownStage sid i]
      else if i = sid then [RefOwnOutputs sid i]
      else if i \<notin> set ancestors then [RefNotAncestor sid i]
      else [])"

fun refs_errs ::
  "(Stage \<Rightarrow> string list) \<Rightarrow> (Stage \<Rightarrow> string list) \<Rightarrow> string set \<Rightarrow> Edge list \<Rightarrow> Stage list
    \<Rightarrow> pipe_err list option" where
  "refs_errs bo eo stageIDs es [] = Some []"
| "refs_errs bo eo stageIDs es (s # ss) =
     (case refs_errs bo eo stageIDs es ss of
        None \<Rightarrow> None
      | Some errs \<Rightarrow>
          if stage_refs bo eo s = [] then Some errs
          else (case ancestorsOf (Stage_ID s) es of
                  None \<Rightarrow> None
                | Some anc \<Rightarrow> Some (concat (map (ref_errs stageIDs anc (Stage_ID s)) (stage_refs bo eo s)) @ errs)))"

definition pipeline_dag :: "Pipeline \<Rightarrow> DAG" where
  "pipeline_dag p =
     foldl (\<lambda>d s. AddNode d (Stage_ID s) (edge_deps (Pipeline_Edges p) (Stage_ID s))) NewDAG (Pipeline_Stages p)"

text \<open>\<open>ks0\<close>, \<open>ks1\<close>, \<open>ks2\<close> are the orders of the loops inside \<open>DAG.Validate\<close>.\<close>

definition ValidatePipelineDAG ::
  "(Stage \<Rightarrow> string list) \<Rightarrow> (Stage \<Rightarrow> string list) \<Rightarrow> string list \<Rightarrow> string list \<Rightarrow> string list
    \<Rightarrow> Pipeline \<Rightarrow> pipe_err list option" where
  "ValidatePipelineDAG bo eo ks0 ks1 ks2 p =
     (let stageIDs = set (map Stage_ID (Pipeline_Stages p));
          errs = duplicate_errs (Pipeline_Stages p) {} @ concat (map (edge_errs stageIDs) (Pipeline_Edges p))
      in case refs_errs bo eo stageIDs (Pipeline_Edges p) (Pipeline_Stages p) of
           None \<Rightarrow> None
         | Some rerrs \<Rightarrow>
             if errs @ rerrs \<noteq> [] then Some (errs @ rerrs)
             else map_option (map DagError) (DAG_Validate ks0 ks1 ks2 (pipeline_dag p)))"

text \<open>\<open>Inl\<close> carries the errors of the validation.\<close>

definition BuildDAGFromPipeline ::
  "(Stage \<Rightarrow> string list) \<Rightarrow> (Stage \<Rightarrow> string list) \<Rightarrow> string list \<Rightarrow> string list \<Rightarrow> string list
    \<Rightarrow> Pipeline \<Rightarrow> (pipe_err list + DAG) option" where
  "BuildDAGFromPipeline bo eo ks0 ks1 ks2 p =
     (case ValidatePipelineDAG bo eo ks0 ks1 ks2 p of
        None \<Rightarrow> None
      | Some errs \<Rightarrow> Some (if errs \<noteq> [] then Inl errs else Inr (pipeline_dag p)))"

subsection \<open>What a valid pipeline is\<close>

lemma duplicate_errs_Nil:
  "duplicate_errs ss seen = [] \<longleftrightarrow> distinct (map Stage_ID ss) \<and> set (map Stage_ID ss) \<inter> seen = {}"
  by (induction ss arbitrary: seen) auto

lemma edge_errs_Nil:
  "edge_errs ids e = [] \<longleftrightarrow> Edge_Source e \<in> ids \<and> Edge_Target e \<in> ids \<and>
     Edge_Condition e \<in> {[], ''success'', ''failure'', ''always''}"
  by (simp add: edge_errs_def)

lemma distinct_ids_set: "set (distinct_ids is refs) = set is \<union> set refs"
  by (induction "is" refs rule: distinct_ids.induct) auto

lemma stage_refs_set:
  "set (stage_refs bo eo s) = (\<Union>f \<in> set (stageInterpolatableStrings bo eo s). set (References f))"
  by (simp add: stage_refs_def distinct_ids_set)

definition refs_ok :: "(Stage \<Rightarrow> string list) \<Rightarrow> (Stage \<Rightarrow> string list) \<Rightarrow> Pipeline \<Rightarrow> bool" where
  "refs_ok bo eo p \<longleftrightarrow> (\<forall>s \<in> set (Pipeline_Stages p). \<forall>i \<in> set (stage_refs bo eo s).
     i \<in> Stage_ID ` set (Pipeline_Stages p) \<and> i \<noteq> Stage_ID s \<and> (i, Stage_ID s) \<in> (edge_rel (Pipeline_Edges p))\<^sup>+)"

lemma ref_errs_Nil:
  "ref_errs ids anc sid i = [] \<longleftrightarrow> i \<in> ids \<and> i \<noteq> sid \<and> i \<in> set anc"
  by (simp add: ref_errs_def)

lemma refs_errs_spec:
  "\<exists>errs. refs_errs bo eo ids es ss = Some errs \<and>
     (errs = [] \<longleftrightarrow> (\<forall>s \<in> set ss. \<forall>i \<in> set (stage_refs bo eo s).
        i \<in> ids \<and> i \<noteq> Stage_ID s \<and> (i, Stage_ID s) \<in> (edge_rel es)\<^sup>+))"
proof (induction ss)
  case (Cons s ss)
  then obtain errs where errs: "refs_errs bo eo ids es ss = Some errs"
    "errs = [] \<longleftrightarrow> (\<forall>s \<in> set ss. \<forall>i \<in> set (stage_refs bo eo s).
        i \<in> ids \<and> i \<noteq> Stage_ID s \<and> (i, Stage_ID s) \<in> (edge_rel es)\<^sup>+)" by blast
  obtain anc where anc: "ancestorsOf (Stage_ID s) es = Some anc"
    "set anc = {x. (x, Stage_ID s) \<in> (edge_rel es)\<^sup>+}" using ancestorsOf_some by blast
  have "concat (map (ref_errs ids anc (Stage_ID s)) (stage_refs bo eo s)) = [] \<longleftrightarrow>
      (\<forall>i \<in> set (stage_refs bo eo s). i \<in> ids \<and> i \<noteq> Stage_ID s \<and> (i, Stage_ID s) \<in> (edge_rel es)\<^sup>+)"
    unfolding concat_eq_Nil_conv set_map ball_simps ref_errs_Nil anc(2) mem_Collect_eq ..
  with errs anc(1) show ?case by (cases "stage_refs bo eo s = []") auto
qed simp

lemma pipeline_dag_nodes:
  "DAG_Nodes (pipeline_dag p) i =
   (if i \<in> Stage_ID ` set (Pipeline_Stages p)
    then Some \<lparr>Node_ID = i, Node_Deps = edge_deps (Pipeline_Edges p) i\<rparr> else None)"
proof -
  have "DAG_Nodes (foldl (\<lambda>d s. AddNode d (Stage_ID s) (edge_deps es (Stage_ID s))) d ss) i =
      (if i \<in> Stage_ID ` set ss then Some \<lparr>Node_ID = i, Node_Deps = edge_deps es i\<rparr> else DAG_Nodes d i)"
    for es ss and d :: DAG
    by (induction ss arbitrary: d) (auto simp: AddNode_def)
  from this [of "Pipeline_Edges p" NewDAG "Pipeline_Stages p"] show ?thesis
    unfolding pipeline_dag_def by (simp add: NewDAG_def)
qed

lemma pipeline_dag_deps:
  "i \<in> Stage_ID ` set (Pipeline_Stages p) \<Longrightarrow> deps_of (pipeline_dag p) i = edge_deps (Pipeline_Edges p) i"
  by (simp add: deps_of_def pipeline_dag_nodes)

lemma pipeline_dag_dom: "dom (DAG_Nodes (pipeline_dag p)) = Stage_ID ` set (Pipeline_Stages p)"
  by (auto simp: pipeline_dag_nodes split: if_splits)

definition dag_orders :: "DAG \<Rightarrow> string list \<Rightarrow> string list \<Rightarrow> string list \<Rightarrow> bool" where
  "dag_orders d ks0 ks1 ks2 \<longleftrightarrow>
     iter_order ks0 (DAG_Nodes d) \<and> iter_order ks1 (DAG_Nodes d) \<and> iter_order ks2 (DAG_Nodes d)"

definition well_formed :: "(Stage \<Rightarrow> string list) \<Rightarrow> (Stage \<Rightarrow> string list) \<Rightarrow> Pipeline \<Rightarrow> bool" where
  "well_formed bo eo p \<longleftrightarrow> distinct (map Stage_ID (Pipeline_Stages p)) \<and>
     (\<forall>e \<in> set (Pipeline_Edges p).
        Edge_Source e \<in> Stage_ID ` set (Pipeline_Stages p) \<and>
        Edge_Target e \<in> Stage_ID ` set (Pipeline_Stages p) \<and>
        Edge_Condition e \<in> {[], ''success'', ''failure'', ''always''}) \<and>
     refs_ok bo eo p \<and> acyclic (edge_rel (Pipeline_Edges p))"

lemma dep_rel_edges:
  assumes "\<forall>e \<in> set (Pipeline_Edges p). Edge_Target e \<in> Stage_ID ` set (Pipeline_Stages p)"
  shows "dep_rel (pipeline_dag p) = edge_rel (Pipeline_Edges p)"
proof -
  have "x \<in> set (deps_of (pipeline_dag p) i) \<longleftrightarrow> (x, i) \<in> edge_rel (Pipeline_Edges p)" for x i
  proof (cases "i \<in> Stage_ID ` set (Pipeline_Stages p)")
    case True
    then show ?thesis by (simp add: pipeline_dag_deps edge_deps_rel)
  next
    case False
    then have "(x, i) \<notin> edge_rel (Pipeline_Edges p)" using assms by (auto simp: edge_rel_def)
    with False show ?thesis by (simp add: deps_of_def pipeline_dag_nodes)
  qed
  then show ?thesis by (auto simp: dep_rel_def)
qed

lemma Validate_iff:
  assumes ord: "dag_orders (pipeline_dag p) ks0 ks1 ks2"
  shows "\<exists>errs. ValidatePipelineDAG bo eo ks0 ks1 ks2 p = Some errs \<and> (errs = [] \<longleftrightarrow> well_formed bo eo p)"
proof -
  let ?ids = "set (map Stage_ID (Pipeline_Stages p))"
  define errs where "errs = duplicate_errs (Pipeline_Stages p) {} @
    concat (map (edge_errs ?ids) (Pipeline_Edges p))"
  obtain rerrs where r: "refs_errs bo eo ?ids (Pipeline_Edges p) (Pipeline_Stages p) = Some rerrs"
    "rerrs = [] \<longleftrightarrow> refs_ok bo eo p"
    using refs_errs_spec [of bo eo ?ids "Pipeline_Edges p" "Pipeline_Stages p"]
    unfolding refs_ok_def set_map by blast
  have errs: "errs = [] \<longleftrightarrow> distinct (map Stage_ID (Pipeline_Stages p)) \<and>
      (\<forall>e \<in> set (Pipeline_Edges p). Edge_Source e \<in> ?ids \<and> Edge_Target e \<in> ?ids \<and>
        Edge_Condition e \<in> {[], ''success'', ''failure'', ''always''})"
    unfolding errs_def append_is_Nil_conv duplicate_errs_Nil concat_eq_Nil_conv set_map ball_simps
      edge_errs_Nil by simp
  have val: "ValidatePipelineDAG bo eo ks0 ks1 ks2 p = (if errs @ rerrs \<noteq> [] then Some (errs @ rerrs)
      else map_option (map DagError) (DAG_Validate ks0 ks1 ks2 (pipeline_dag p)))"
    unfolding ValidatePipelineDAG_def Let_def r(1) option.case errs_def [symmetric] ..
  show ?thesis
  proof (cases "errs @ rerrs = []")
    case False
    then have "\<not> well_formed bo eo p" using errs r(2) by (auto simp: well_formed_def)
    with False val show ?thesis by auto
  next
    case True
    have edges: "\<forall>e \<in> set (Pipeline_Edges p). Edge_Source e \<in> ?ids \<and> Edge_Target e \<in> ?ids"
      using True errs by auto
    have deps: "\<forall>i \<in> dom (DAG_Nodes (pipeline_dag p)).
        set (deps_of (pipeline_dag p) i) \<subseteq> dom (DAG_Nodes (pipeline_dag p))"
      using edges by (auto simp: pipeline_dag_dom pipeline_dag_deps edge_deps_def)
    from DAG_Validate_Nil ord obtain msgs where
      m: "DAG_Validate ks0 ks1 ks2 (pipeline_dag p) = Some msgs"
        "msgs = [] \<longleftrightarrow> acyclic (dep_rel (pipeline_dag p))"
      unfolding dag_orders_def using deps by blast
    have "dep_rel (pipeline_dag p) = edge_rel (Pipeline_Edges p)"
      using edges by (intro dep_rel_edges) auto
    with True errs r(2) m val show ?thesis by (auto simp: well_formed_def)
  qed
qed

text \<open>
  C7: \<open>ValidatePipelineDAG\<close> always returns, and it reports nothing exactly when the stage ids are
  distinct, every edge joins two stages under a known condition, every reference of a stage
  names another stage from which a path of edges leads to it, and the edges have no cycle.
\<close>

theorem ValidatePipelineDAG_iff:
  assumes "dag_orders (pipeline_dag p) ks0 ks1 ks2"
  shows "\<exists>errs. ValidatePipelineDAG bo eo ks0 ks1 ks2 p = Some errs \<and>
    (errs = [] \<longleftrightarrow>
       distinct (map Stage_ID (Pipeline_Stages p)) \<and>
       (\<forall>e \<in> set (Pipeline_Edges p).
          Edge_Source e \<in> Stage_ID ` set (Pipeline_Stages p) \<and>
          Edge_Target e \<in> Stage_ID ` set (Pipeline_Stages p) \<and>
          Edge_Condition e \<in> {[], ''success'', ''failure'', ''always''}) \<and>
       (\<forall>s \<in> set (Pipeline_Stages p). \<forall>i \<in> set (stage_refs bo eo s).
          i \<in> Stage_ID ` set (Pipeline_Stages p) \<and> i \<noteq> Stage_ID s \<and>
          (i, Stage_ID s) \<in> (edge_rel (Pipeline_Edges p))\<^sup>+) \<and>
       acyclic (edge_rel (Pipeline_Edges p)))"
  using Validate_iff [OF assms, of bo eo] unfolding well_formed_def refs_ok_def .

lemma levels_trancl:
  assumes lev: "\<forall>k < length L. \<forall>i \<in> set (L ! k). \<forall>dep \<in> set (deps_of d i). \<exists>j < k. dep \<in> set (L ! j)"
    and path: "(x, y) \<in> (dep_rel d)\<^sup>+" and y: "k < length L" "y \<in> set (L ! k)"
  shows "\<exists>j < k. x \<in> set (L ! j)"
  using path y
proof (induction arbitrary: k rule: trancl_induct)
  case (base y)
  then show ?case using lev by (auto simp: dep_rel_def)
next
  case (step y z)
  have "y \<in> set (deps_of d z)" using step.hyps(2) by (simp add: dep_rel_def)
  with lev [rule_format, of k z y] step.prems obtain j where j: "j < k" "y \<in> set (L ! j)" by blast
  with step.prems have "j < length L" by simp
  with step.IH [OF this j(2)] obtain i where "i < j" "x \<in> set (L ! i)" by blast
  with j(1) show ?case using less_trans by blast
qed

lemma valid_pipeline_levels:
  assumes "dag_orders (pipeline_dag p) ks0 ks1 ks2"
    and "ValidatePipelineDAG bo eo ks0 ks1 ks2 p = Some []"
  shows "BuildDAGFromPipeline bo eo ks0 ks1 ks2 p = Some (Inr (pipeline_dag p)) \<and>
    (\<exists>levels. TopologicalSort ks1 ks2 (pipeline_dag p) = Some (Inr levels) \<and>
      distinct (concat levels) \<and> set (concat levels) = Stage_ID ` set (Pipeline_Stages p) \<and>
      (\<forall>k < length levels. \<forall>e \<in> set (Pipeline_Edges p). Edge_Target e \<in> set (levels ! k) \<longrightarrow>
         (\<exists>j < k. Edge_Source e \<in> set (levels ! j))) \<and>
      (\<forall>k < length levels. \<forall>s \<in> set (Pipeline_Stages p). Stage_ID s \<in> set (levels ! k) \<longrightarrow>
         (\<forall>i \<in> set (stage_refs bo eo s). \<exists>j < k. i \<in> set (levels ! j))))"
proof -
  let ?d = "pipeline_dag p"
  have wf: "well_formed bo eo p" using Validate_iff [OF assms(1), of bo eo] assms(2) by auto
  have ord: "iter_order ks1 (DAG_Nodes ?d)" "iter_order ks2 (DAG_Nodes ?d)"
    using assms(1) by (simp_all add: dag_orders_def)
  have edges: "\<forall>e \<in> set (Pipeline_Edges p). Edge_Source e \<in> Stage_ID ` set (Pipeline_Stages p) \<and>
      Edge_Target e \<in> Stage_ID ` set (Pipeline_Stages p)"
    using wf by (simp add: well_formed_def)
  have rel: "dep_rel ?d = edge_rel (Pipeline_Edges p)" using edges by (intro dep_rel_edges) simp
  have "\<forall>i \<in> dom (DAG_Nodes ?d). set (deps_of ?d i) \<subseteq> dom (DAG_Nodes ?d)"
    using edges by (auto simp: pipeline_dag_dom pipeline_dag_deps edge_deps_def)
  moreover have "acyclic (dep_rel ?d)" using wf rel by (simp add: well_formed_def)
  ultimately obtain L where L: "TopologicalSort ks1 ks2 ?d = Some (Inr L)"
    using TopologicalSort_outcome [OF ord] by auto
  note sound = TopologicalSort_sound [OF ord L]
  have lev: "\<forall>k < length L. \<forall>i \<in> set (L ! k). \<forall>dep \<in> set (deps_of ?d i). \<exists>j < k. dep \<in> set (L ! j)"
    using sound by blast
  have path: "\<exists>j < k. x \<in> set (L ! j)"
    if "(x, y) \<in> (edge_rel (Pipeline_Edges p))\<^sup>+" "k < length L" "y \<in> set (L ! k)" for x y k
    using levels_trancl [OF lev] that rel by metis
  have edge: "(Edge_Source e, Edge_Target e) \<in> (edge_rel (Pipeline_Edges p))\<^sup>+"
    if "e \<in> set (Pipeline_Edges p)" for e
    using that by (auto simp: edge_rel_def)
  have refs: "(i, Stage_ID s) \<in> (edge_rel (Pipeline_Edges p))\<^sup>+"
    if "s \<in> set (Pipeline_Stages p)" "i \<in> set (stage_refs bo eo s)" for s i
    using wf that by (auto simp: well_formed_def refs_ok_def)
  have "BuildDAGFromPipeline bo eo ks0 ks1 ks2 p = Some (Inr ?d)"
    using assms(2) by (simp add: BuildDAGFromPipeline_def)
  moreover have "distinct (concat L)" "set (concat L) = Stage_ID ` set (Pipeline_Stages p)"
    using sound pipeline_dag_dom [of p] by metis+
  moreover have "\<forall>k < length L. \<forall>e \<in> set (Pipeline_Edges p). Edge_Target e \<in> set (L ! k) \<longrightarrow>
      (\<exists>j < k. Edge_Source e \<in> set (L ! j))"
    using path [OF edge] by simp
  moreover have "\<forall>k < length L. \<forall>s \<in> set (Pipeline_Stages p). Stage_ID s \<in> set (L ! k) \<longrightarrow>
      (\<forall>i \<in> set (stage_refs bo eo s). \<exists>j < k. i \<in> set (L ! j))"
    using path [OF refs] by simp
  ultimately show ?thesis using L by (intro conjI exI [of _ L])
qed

text \<open>
  A pipeline that passes the validation runs in order.  Its graph is built and sorted
  without an error; every stage is in exactly one level; the source of an edge is in an earlier
  level than its target; and a stage that a field of another stage refers to by
  \<open>${stages.<id>.<key>}\<close> is in an earlier level than the stage that refers to it, so its outputs
  are there when they are interpolated.
\<close>

theorem valid_pipeline_order:
  assumes "dag_orders (pipeline_dag p) ks0 ks1 ks2"
    and "ValidatePipelineDAG bo eo ks0 ks1 ks2 p = Some []"
  shows "BuildDAGFromPipeline bo eo ks0 ks1 ks2 p = Some (Inr (pipeline_dag p)) \<and>
    (\<exists>levels. TopologicalSort ks1 ks2 (pipeline_dag p) = Some (Inr levels) \<and>
      distinct (concat levels) \<and> set (concat levels) = Stage_ID ` set (Pipeline_Stages p) \<and>
      (\<forall>k < length levels. \<forall>e \<in> set (Pipeline_Edges p). Edge_Target e \<in> set (levels ! k) \<longrightarrow>
         (\<exists>j < k. Edge_Source e \<in> set (levels ! j))) \<and>
      (\<forall>k < length levels. \<forall>s \<in> set (Pipeline_Stages p). Stage_ID s \<in> set (levels ! k) \<longrightarrow>
         (\<forall>i \<in> set (stage_refs bo eo s). \<exists>j < k. i \<in> set (levels ! j))))"
  using assms by (rule valid_pipeline_levels)

subsection \<open>A concrete pipeline\<close>

definition empty_config :: StageConfig where
  "empty_config = \<lparr>sc_Dockerfile = [], sc_Context = [], sc_BuildArgs = Map.empty, sc_BuildTarget = [],
     sc_Tags = [], sc_Platforms = [], sc_Cache = None, sc_Image = [], sc_Command = [], sc_Registry = [],
     sc_Repository = [], sc_Namespace = [], sc_ManifestPath = [], sc_HelmChart = [], sc_DeployRuntime = [],
     sc_RuntimeName = [], sc_ComposeProject = [], sc_ReviewOnly = False, sc_ComposeServiceName = [],
     sc_ComposePorts = [], sc_Resources = None, sc_Script = [], sc_Timeout = [], sc_RequiredApprovers = 0,
     sc_Retries = 0, sc_Retry = None, sc_Env = Map.empty, sc_ProxyHost = [], sc_GitOpsRepo = [],
     sc_GitOpsBranch = [], sc_GitOpsPath = [], sc_GitOpsMessage = [], sc_GitOpsContent = [], sc_HealthCheck = None,
     sc_ComposeBuildContext = [], sc_ComposeDockerfile = []\<rparr>"

definition demo_pipeline :: Pipeline where
  "demo_pipeline = \<lparr>Pipeline_ID = ''p'',
     Pipeline_Stages =
       [\<lparr>Stage_ID = ''a'', Stage_Name = ''build'', Stage_Type = ''build'', Stage_Config = empty_config,
          Stage_EnvironmentID = [], Stage_Group = []\<rparr>,
        \<lparr>Stage_ID = ''b'', Stage_Name = ''push'', Stage_Type = ''push'',
         Stage_Config = empty_config\<lparr>sc_Image := ''${stages.a.image}''\<rparr>,
         Stage_EnvironmentID = [], Stage_Group = []\<rparr>],
     Pipeline_Edges = [\<lparr>Edge_ID = ''e'', Edge_Source = ''a'', Edge_Target = ''b'', Edge_Condition = []\<rparr>],
     Pipeline_RunDeadline = []\<rparr>"

lemma demo_orders: "dag_orders (pipeline_dag demo_pipeline) [''a'', ''b''] [''a'', ''b''] [''b'', ''a'']"
  by (auto simp: dag_orders_def iter_order_def pipeline_dag_dom demo_pipeline_def)

lemma demo_valid:
  "ValidatePipelineDAG (\<lambda>_. []) (\<lambda>_. []) [''a'', ''b''] [''a'', ''b''] [''b'', ''a''] demo_pipeline = Some []"
  by code_simp

lemma demo_refs: "''a'' \<in> set (stage_refs (\<lambda>_. []) (\<lambda>_. []) (Pipeline_Stages demo_pipeline ! 1))"
  by code_simp

theorem ValidatePipelineDAG_iff_witness:
  "acyclic (edge_rel (Pipeline_Edges demo_pipeline)) \<and>
   (''a'', ''b'') \<in> (edge_rel (Pipeline_Edges demo_pipeline))\<^sup>+"
proof -
  let ?e = "\<lambda>_::Stage. []"
  have s: "Pipeline_Stages demo_pipeline ! 1 \<in> set (Pipeline_Stages demo_pipeline)"
    "Stage_ID (Pipeline_Stages demo_pipeline ! 1) = ''b''"
    by (simp_all add: demo_pipeline_def)
  from ValidatePipelineDAG_iff [OF demo_orders, of ?e ?e] demo_valid s demo_refs show ?thesis by fastforce
qed

theorem valid_pipeline_order_witness:
  "\<exists>levels. TopologicalSort [''a'', ''b''] [''b'', ''a''] (pipeline_dag demo_pipeline) = Some (Inr levels) \<and>
     distinct (concat levels) \<and> set (concat levels) = {''a'', ''b''}"
proof -
  have "Stage_ID ` set (Pipeline_Stages demo_pipeline) = {''a'', ''b''}" by (auto simp: demo_pipeline_def)
  with valid_pipeline_order [OF demo_orders demo_valid] show ?thesis by metis
qed

end
