(* ===== verification/Strings.thy ===== *)
theory Strings
  imports Prelude "HOL-Library.Char_ord" "HOL-Library.List_Lexorder"
begin

text \<open>
  What the components share of Go's strings: the byte order of \<open><\<close>, the runes of
  \<open>for _, r := range s\<close> (UTF-8, an invalid byte being \<open>U+FFFD\<close> of width 1), decimal numbers as
  \<open>fmt\<close> and \<open>strconv\<close> print them, and the name cleaner \<open>sanitize\<close> of
  \<open>backend/internal/service/app_deployer.go\<close>.
\<close>

subsection \<open>Runes\<close>

definition is_cont :: "nat \<Rightarrow> bool" where
  "is_cont b \<longleftrightarrow> 128 \<le> b \<and> b \<le> 191"

text \<open>The multi-byte forms; \<open>None\<close> when the bytes are no such form.\<close>

fun rune2 :: "nat \<Rightarrow> nat list \<Rightarrow> (nat \<times> nat) option" where
  "rune2 b0 (b1 # r) =
     (if 194 \<le> b0 \<and> is_cont b1 then Some ((b0 - 192) * 64 + (b1 - 128), 2) else None)"
| "rune2 b0 _ = None"

fun rune3 :: "nat \<Rightarrow> nat list \<Rightarrow> (nat \<times> nat) option" where
  "rune3 b0 (b1 # b2 # r) =
     (if (if b0 = 224 then 160 else 128) \<le> b1 \<and> b1 \<le> (if b0 = 237 then 159 else 191) \<and> is_cont b2
      then Some ((b0 - 224) * 4096 + (b1 - 128) * 64 + (b2 - 128), 3) else None)"
| "rune3 b0 _ = None"

fun rune4 :: "nat \<Rightarrow> nat list \<Rightarrow> (nat \<times> nat) option" where
  "rune4 b0 (b1 # b2 # b3 # r) =
     (if b0 \<le> 244 \<and> (if b0 = 240 then 144 else 128) \<le> b1 \<and> b1 \<le> (if b0 = 244 then 143 else 191) \<and>
         is_cont b2 \<and> is_cont b3
      then Some ((b0 - 240) * 262144 + (b1 - 128) * 4096 + (b2 - 128) * 64 + (b3 - 128), 4) else None)"
| "rune4 b0 _ = None"

definition multi_rune :: "nat \<Rightarrow> nat list \<Rightarrow> (nat \<times> nat) option" where
  "multi_rune b0 r = (if b0 \<le> 223 then rune2 b0 r else if b0 \<le> 239 then rune3 b0 r else rune4 b0 r)"

text \<open>The rune at the front of a byte sequence and its width.\<close>

definition decode_rune :: "nat list \<Rightarrow> nat \<times> nat" where
  "decode_rune bs =
     (case bs of
        [] \<Rightarrow> (65533, 0)
      | b0 # r \<Rightarrow>
          if b0 < 128 then (b0, 1)
          else (case multi_rune b0 r of None \<Rightarrow> (65533, 1) | Some rw \<Rightarrow> rw))"

lemma rune2_Some:
  assumes "rune2 b r = Some (x, w)"
  shows "w = 2 \<and> 1 \<le> length r \<and> (\<forall>c \<in> set (take 1 r). is_cont c)"
  using assms by (cases "(b, r)" rule: rune2.cases) (auto split: if_splits)

lemma rune3_Some:
  assumes "rune3 b r = Some (x, w)"
  shows "w = 3 \<and> 2 \<le> length r \<and> (\<forall>c \<in> set (take 2 r). is_cont c)"
  using assms
  by (cases "(b, r)" rule: rune3.cases) (auto simp: is_cont_def numeral_2_eq_2 split: if_splits)

lemma rune4_Some:
  assumes "rune4 b r = Some (x, w)"
  shows "w = 4 \<and> 3 \<le> length r \<and> (\<forall>c \<in> set (take 3 r). is_cont c)"
  using assms
  by (cases "(b, r)" rule: rune4.cases) (auto simp: is_cont_def numeral_3_eq_3 split: if_splits)

lemma multi_rune_Some:
  assumes "multi_rune b r = Some (x, w)"
  shows "1 < w \<and> w - 1 \<le> length r \<and> (\<forall>c \<in> set (take (w - 1) r). is_cont c)"
  using assms rune2_Some [of b r x w] rune3_Some [of b r x w] rune4_Some [of b r x w]
  unfolding multi_rune_def by (auto split: if_splits)

lemma decode_rune_width_le: "snd (decode_rune bs) \<le> length bs"
  using multi_rune_Some by (cases bs) (fastforce simp: decode_rune_def split: option.split)+

lemma decode_width: "bs \<noteq> [] \<Longrightarrow> 0 < snd (decode_rune bs)"
  by (cases bs) (auto simp: decode_rune_def dest: multi_rune_Some split: option.splits)

subsection \<open>White space\<close>

text \<open>\<open>unicode.IsSpace\<close> of a rune.\<close>

definition is_space :: "nat \<Rightarrow> bool" where
  "is_space r \<longleftrightarrow> (9 \<le> r \<and> r \<le> 13) \<or> (8192 \<le> r \<and> r \<le> 8202) \<or>
     r \<in> set [32, 133, 160, 5760, 8232, 8233, 8239, 8287, 12288]"

text \<open>A string as its runes with their bytes, and \<open>strings.TrimSpace\<close>.\<close>

function runes_of :: "string \<Rightarrow> (nat \<times> string) list" where
  "runes_of s =
     (if s = [] then []
      else (let (r, w) = decode_rune (map of_char s) in (r, take w s) # runes_of (drop w s)))"
  by pat_completeness auto
termination
proof (relation "measure length")
  fix s :: string and x r w
  assume a: "s \<noteq> []" "x = decode_rune (map of_char s)" "(r, w) = x"
  then have "w = snd (decode_rune (map of_char s))" by (metis snd_conv)
  with a(1) show "(drop w s, s) \<in> measure length" using decode_width [of "map of_char s"] by simp
qed simp

declare runes_of.simps [simp del]

definition TrimSpace :: "string \<Rightarrow> string" where
  "TrimSpace s =
     concat (map snd (rev (dropWhile (\<lambda>x. is_space (fst x)) (rev (dropWhile (\<lambda>x. is_space (fst x)) (runes_of s))))))"

text \<open>ASCII text: every byte is a rune, so trimming takes spaces off both ends.\<close>

definition ascii :: "string \<Rightarrow> bool" where
  "ascii s \<longleftrightarrow> (\<forall>c \<in> set s. of_char c < (128 :: nat))"

definition ascii_spaces :: "string \<Rightarrow> bool" where
  "ascii_spaces s \<longleftrightarrow> (\<forall>c \<in> set s. of_char c < (128 :: nat) \<and> is_space (of_char c))"

lemma runes_of_ascii: "ascii s \<Longrightarrow> runes_of s = map (\<lambda>c. (of_char c, [c])) s"
proof (induction s)
  case Nil
  show ?case by (simp add: runes_of.simps)
next
  case (Cons c s)
  then have c: "(of_char c :: nat) < 128" and "ascii s" by (simp_all add: ascii_def)
  with Cons.IH show ?case by (subst runes_of.simps) (simp add: decode_rune_def)
qed

lemma TrimSpace_ascii:
  assumes "ascii s"
  shows "TrimSpace s =
    rev (dropWhile (\<lambda>c. is_space (of_char c)) (rev (dropWhile (\<lambda>c. is_space (of_char c)) s)))"
proof -
  have c: "concat (map snd (map (\<lambda>c. (of_char c :: nat, [c])) xs)) = xs" for xs :: string
    by (induction xs) simp_all
  show ?thesis
    unfolding TrimSpace_def runes_of_ascii [OF assms] dropWhile_map rev_map comp_def fst_conv c ..
qed

lemma TrimSpace_between:
  assumes "ascii_spaces a" "ascii_spaces b" "ascii s" "s \<noteq> []"
    and "\<not> is_space (of_char (hd s))" "\<not> is_space (of_char (last s))"
  shows "TrimSpace (a @ s @ b) = s"
proof -
  let ?sp = "\<lambda>c. is_space (of_char c)"
  have "dropWhile ?sp (a @ s @ b) = s @ b"
    using assms(1,4,5) by (cases s) (simp_all add: dropWhile_append ascii_spaces_def)
  moreover have "dropWhile ?sp (rev b @ rev s) = rev s"
    using assms(2,4,6) by (cases s rule: rev_cases) (simp_all add: dropWhile_append ascii_spaces_def)
  moreover have "ascii (a @ s @ b)" using assms(1-3) by (auto simp: ascii_def ascii_spaces_def)
  ultimately show ?thesis by (simp add: TrimSpace_ascii)
qed

text \<open>
  Trimming twice is trimming once: a text cut at the borders of its runes has the runes that are
  left.
\<close>

lemma rune2_prefix:
  "rune2 b (r @ c) = None \<Longrightarrow> rune2 b r = None"
  "1 \<le> length r \<Longrightarrow> rune2 b (r @ c) = rune2 b r"
  by (cases r; auto)+

lemma rune3_prefix:
  "rune3 b (r @ c) = None \<Longrightarrow> rune3 b r = None"
  "2 \<le> length r \<Longrightarrow> rune3 b (r @ c) = rune3 b r"
  by (cases "(b, r)" rule: rune3.cases; auto split: if_splits)+

lemma rune4_prefix:
  "rune4 b (r @ c) = None \<Longrightarrow> rune4 b r = None"
  "3 \<le> length r \<Longrightarrow> rune4 b (r @ c) = rune4 b r"
  by (cases "(b, r)" rule: rune4.cases; auto split: if_splits)+

lemma multi_rune_prefix:
  "multi_rune b (r @ c) = None \<Longrightarrow> multi_rune b r = None"
  "multi_rune b (r @ c) = Some (x, w) \<Longrightarrow> w - 1 \<le> length r \<Longrightarrow> multi_rune b r = Some (x, w)"
proof -
  show "multi_rune b (r @ c) = None \<Longrightarrow> multi_rune b r = None"
    unfolding multi_rune_def using rune2_prefix(1) rune3_prefix(1) rune4_prefix(1) by (simp split: if_splits)
  assume a: "multi_rune b (r @ c) = Some (x, w)" "w - 1 \<le> length r"
  consider "b \<le> 223" | "\<not> b \<le> 223" "b \<le> 239" | "\<not> b \<le> 223" "\<not> b \<le> 239" by blast
  then show "multi_rune b r = Some (x, w)"
  proof cases
    case 1
    with a have "rune2 b (r @ c) = Some (x, w)" by (simp add: multi_rune_def)
    with rune2_Some [OF this] a(2) 1 rune2_prefix(2) [of r b c] show ?thesis by (simp add: multi_rune_def)
  next
    case 2
    with a have "rune3 b (r @ c) = Some (x, w)" by (simp add: multi_rune_def)
    with rune3_Some [OF this] a(2) 2 rune3_prefix(2) [of r b c] show ?thesis by (simp add: multi_rune_def)
  next
    case 3
    with a have "rune4 b (r @ c) = Some (x, w)" by (simp add: multi_rune_def)
    with rune4_Some [OF this] a(2) 3 rune4_prefix(2) [of r b c] show ?thesis by (simp add: multi_rune_def)
  qed
qed

lemma decode_rune_prefix:
  assumes "bs \<noteq> []" "snd (decode_rune (bs @ cs)) \<le> length bs"
  shows "decode_rune bs = decode_rune (bs @ cs)"
proof -
  obtain b r where bs: "bs = b # r" using assms(1) by (cases bs) auto
  show ?thesis
  proof (cases "multi_rune b (r @ cs)")
    case None
    then show ?thesis using multi_rune_prefix(1) [OF None] by (simp add: bs decode_rune_def)
  next
    case (Some xw)
    obtain x w where xw: "xw = (x, w)" by (cases xw)
    show ?thesis
    proof (cases "b < 128")
      case False
      then have "w - 1 \<le> length r" using assms(2) Some xw by (simp add: bs decode_rune_def)
      from multi_rune_prefix(2) [OF Some [unfolded xw] this] Some xw show ?thesis
        by (simp add: bs decode_rune_def)
    qed (simp add: bs decode_rune_def)
  qed
qed

lemma runes_of_Cons:
  assumes "s \<noteq> []" "decode_rune (map of_char s) = (r, w)"
  shows "runes_of s = (r, take w s) # runes_of (drop w s)"
  using assms by (subst runes_of.simps) simp

lemma concat_runes_of: "concat (map snd (runes_of s)) = s"
proof (induction s rule: runes_of.induct)
  case (1 s)
  show ?case
  proof (cases "s = []")
    case False
    obtain r w where rw: "decode_rune (map of_char s) = (r, w)" by (cases "decode_rune (map of_char s)")
    from 1 [OF False, of "(r, w)" r w] rw show ?thesis by (simp add: runes_of_Cons [OF False rw])
  qed (simp add: runes_of.simps)
qed

lemma runes_of_drop: "runes_of (concat (map snd (drop n (runes_of s)))) = drop n (runes_of s)"
proof (induction s arbitrary: n rule: runes_of.induct)
  case (1 s)
  show ?case
  proof (cases "s = [] \<or> n = 0")
    case False
    obtain r w where rw: "decode_rune (map of_char s) = (r, w)" by (cases "decode_rune (map of_char s)")
    from False obtain m where "n = Suc m" "s \<noteq> []" by (cases n) auto
    with 1 [of "(r, w)" r w m] rw show ?thesis by (simp add: runes_of_Cons [OF _ rw])
  qed (auto simp: runes_of.simps [of "[]"] concat_runes_of)
qed

lemma runes_of_take: "runes_of (concat (map snd (take n (runes_of s)))) = take n (runes_of s)"
proof (induction s arbitrary: n rule: runes_of.induct)
  case (1 s)
  show ?case
  proof (cases "s = [] \<or> n = 0")
    case False
    obtain r w where rw: "decode_rune (map of_char s) = (r, w)" by (cases "decode_rune (map of_char s)")
    from False obtain m where n: "n = Suc m" and s: "s \<noteq> []" by (cases n) auto
    let ?rest = "concat (map snd (take m (runes_of (drop w s))))"
    let ?cut = "concat (map snd (drop m (runes_of (drop w s))))"
    have "drop w s = ?rest @ ?cut"
      by (metis append_take_drop_id concat_append concat_runes_of map_append)
    then have split: "s = (take w s @ ?rest) @ ?cut" by (metis append.assoc append_take_drop_id)
    have w: "0 < w" "w \<le> length s"
      using rw s decode_width [of "map of_char s"] decode_rune_width_le [of "map of_char s"] by auto
    have "decode_rune (map of_char (take w s @ ?rest)) = decode_rune (map of_char (take w s @ ?rest) @ map of_char ?cut)"
      using w s rw split by (intro decode_rune_prefix) (auto simp flip: map_append)
    then have d: "decode_rune (map of_char (take w s @ ?rest)) = (r, w)"
      using rw split by (simp only: map_append [symmetric])
    have "take w s @ ?rest \<noteq> []" using w s by auto
    from runes_of_Cons [OF this d] w(2) 1 [OF s, of "(r, w)" r w m] rw
    show ?thesis by (simp add: n runes_of_Cons [OF s rw])
  qed (auto simp: runes_of.simps [of "[]"])
qed

lemma TrimSpace_idem [simp]: "TrimSpace (TrimSpace s) = TrimSpace s"
proof -
  let ?P = "\<lambda>x :: nat \<times> string. is_space (fst x)"
  let ?strip = "\<lambda>xs. rev (dropWhile ?P (rev (dropWhile ?P xs)))"
  define k where "k = length (takeWhile ?P (runes_of s))"
  define xs where "xs = drop k (runes_of s)"
  define m where "m = length xs - length (takeWhile ?P (rev xs))"
  have "dropWhile ?P (runes_of s) = xs" by (simp only: k_def xs_def dropWhile_eq_drop)
  moreover have "rev (dropWhile ?P (rev xs)) = take m xs"
    by (simp only: dropWhile_eq_drop [of ?P "rev xs"] rev_drop length_rev rev_rev_ident m_def)
  ultimately have "?strip (runes_of s) = take m xs" by simp
  then have t: "TrimSpace s = concat (map snd (take m xs))" "take m xs = ?strip (runes_of s)"
    by (simp_all add: TrimSpace_def)
  have "runes_of (concat (map snd xs)) = xs" unfolding xs_def by (rule runes_of_drop)
  then have "runes_of (TrimSpace s) = take m xs" unfolding t(1) using runes_of_take [of m "concat (map snd xs)"] by simp
  then have r: "runes_of (TrimSpace s) = ?strip (runes_of s)" unfolding t(2) .
  have idem: "?strip (?strip ys) = ?strip ys" for ys
  proof -
    define zs where "zs = dropWhile ?P ys"
    define us where "us = rev (dropWhile ?P (rev zs))"
    have z: "zs = us @ rev (takeWhile ?P (rev zs))"
      unfolding us_def rev_append [symmetric] takeWhile_dropWhile_id by simp
    have "dropWhile ?P us = us"
    proof (cases us)
      case (Cons y vs)
      with z have zs: "zs = y # vs @ rev (takeWhile ?P (rev zs))" by simp
      have "zs \<noteq> []" by (subst zs) simp
      then have "\<not> ?P (hd zs)" unfolding zs_def by (rule hd_dropWhile)
      moreover have "hd zs = y" by (subst zs) simp
      ultimately show ?thesis by (simp add: Cons)
    qed simp
    moreover have "rev (dropWhile ?P (rev us)) = us" by (simp add: us_def)
    ultimately show ?thesis by (simp only: us_def [symmetric] zs_def [symmetric])
  qed
  show ?thesis unfolding TrimSpace_def [of "TrimSpace s"] r idem unfolding TrimSpace_def ..
qed

text \<open>\<open>strings.Split\<close> at a single byte.\<close>

fun split_at :: "char \<Rightarrow> string \<Rightarrow> string list" where
  "split_at c [] = [[]]"
| "split_at c (x # xs) =
     (if x = c then [] # split_at c xs
      else (case split_at c xs of [] \<Rightarrow> [[x]] | w # ws \<Rightarrow> (x # w) # ws))"

lemma split_at_notin: "c \<notin> set s \<Longrightarrow> split_at c s = [s]"
  by (induction s) auto

lemma split_at_append: "c \<notin> set a \<Longrightarrow> split_at c (a @ c # b) = a # split_at c b"
  by (induction a) auto

lemma split_at_nonempty [simp]: "split_at c s \<noteq> []"
  by (cases s) (auto split: list.splits)

lemma split_at_two:
  assumes "split_at c s = [a, b]"
  shows "s = a @ c # b \<and> c \<notin> set a \<and> c \<notin> set b"
proof -
  have one: "split_at c t = [u] \<Longrightarrow> t = u \<and> c \<notin> set u" for t u
    by (induction t arbitrary: u) (auto split: if_splits list.splits)
  show ?thesis using assms
    by (induction s arbitrary: a) (auto split: if_splits list.splits dest: one)
qed

subsection \<open>Names and numbers\<close>

text \<open>One byte for each rune: a multi-byte or invalid rune becomes a dash.\<close>

function sanitize_loop :: "nat list \<Rightarrow> string" where
  "sanitize_loop bs =
     (if bs = [] then []
      else
        (let (r, w) = decode_rune bs;
             c = (if (97 \<le> r \<and> r \<le> 122) \<or> (48 \<le> r \<and> r \<le> 57) \<or> r = 45 then char_of r
                  else if 65 \<le> r \<and> r \<le> 90 then char_of (r + 32)
                  else CHR ''-'')
         in c # sanitize_loop (drop w bs)))"
  by pat_completeness auto
termination
proof (relation "measure length")
  fix bs :: "nat list" and x r w c
  assume a: "bs \<noteq> []" "x = decode_rune bs" "(r, w) = x"
  then have "w = snd (decode_rune bs)" by (metis snd_conv)
  with a(1) show "(drop w bs, bs) \<in> measure length" using decode_width [of bs] by simp
qed simp

declare sanitize_loop.simps [simp del]

definition sanitize :: "string \<Rightarrow> string" where
  "sanitize s = (let out = sanitize_loop (map of_char s) in if out = [] then ''app'' else out)"

function show_decimal :: "nat \<Rightarrow> string" where
  "show_decimal n =
     (if n < 10 then [char_of (48 + n)] else show_decimal (n div 10) @ [char_of (48 + n mod 10)])"
  by pat_completeness auto
termination by (relation "measure id") auto

declare show_decimal.simps [simp del]

definition show_int :: "int \<Rightarrow> string" where
  "show_int n = (if n < 0 then CHR ''-'' # show_decimal (nat (- n)) else show_decimal (nat n))"

text \<open>The clean name is never empty.\<close>

lemma sanitize_nonempty: "sanitize s \<noteq> []"
  by (simp add: sanitize_def Let_def)

end
