(* ===== verification/Outputs.thy ===== *)
theory Outputs
  imports Pipeline Strings
begin

text \<open>
  The outputs of a stage (\<open>backend/internal/service/outputs.go\<close>) over the run records of
  \<open>backend/internal/model/run.go\<close>: what an adapter reports is cleaned, capped and stored, read
  back over the ancestors of a later stage, and put into the fields of that stage.  A nil map
  is an empty one.  A string is its bytes; \<open>for _, r := range v\<close> decodes them as UTF-8, an
  invalid byte being the rune \<open>U+FFFD\<close> of width 1.
\<close>

record Artifact =
  Artifact_Type :: string
  Artifact_Ref :: string
  Artifact_Digest :: string

record StageRun =
  SR_StageID :: string
  SR_Status :: string
  SR_StartedAt :: "time option"
  SR_FinishedAt :: "time option"
  SR_Logs :: string
  SR_Error :: string
  SR_Artifacts :: "Artifact list"
  SR_Outputs :: "string \<rightharpoonup> string"

abbreviation outputKeyMax :: nat where "outputKeyMax \<equiv> 4096"
abbreviation outputStageMax :: nat where "outputStageMax \<equiv> 32768"

fun strings_Join :: "string list \<Rightarrow> string \<Rightarrow> string" where
  "strings_Join [] sep = []"
| "strings_Join [x] sep = x"
| "strings_Join (x # y # xs) sep = x @ sep @ strings_Join (y # xs) sep"

text \<open>The results of the adapters, as far as this file reads them.\<close>

record builder_Result =
  BR_ImageID :: string
  BR_Tags :: "string list"
  BR_Outputs :: "string \<rightharpoonup> string"

record pusher_Result =
  PR_Digest :: string
  PR_Outputs :: "string \<rightharpoonup> string"

record deployer_Result =
  DR_AppliedResources :: "string list"
  DR_Outputs :: "string \<rightharpoonup> string"

definition deriveBuildOutputs :: "builder_Result \<Rightarrow> (string \<rightharpoonup> string)" where
  "deriveBuildOutputs res =
     (let out = (if BR_ImageID res \<noteq> [] then Map.empty(''digest'' \<mapsto> BR_ImageID res) else Map.empty)
      in if BR_Tags res \<noteq> []
         then out(''tags'' \<mapsto> strings_Join (BR_Tags res) '','', ''tag'' \<mapsto> hd (BR_Tags res))
         else out)"

definition derivePushOutputs :: "pusher_Result \<Rightarrow> string \<Rightarrow> (string \<rightharpoonup> string)" where
  "derivePushOutputs res target =
     (let out = (if PR_Digest res \<noteq> [] then Map.empty(''digest'' \<mapsto> PR_Digest res) else Map.empty)
      in if target \<noteq> [] then out(''ref'' \<mapsto> target) else out)"

definition deriveDeployOutputs :: "deployer_Result \<Rightarrow> (string \<rightharpoonup> string)" where
  "deriveDeployOutputs res =
     (if DR_AppliedResources res \<noteq> []
      then Map.empty(''resources'' \<mapsto> strings_Join (DR_AppliedResources res) '','') else Map.empty)"

subsection \<open>Control characters\<close>

definition bad_rune :: "nat \<Rightarrow> bool" where
  "bad_rune r \<longleftrightarrow> r \<noteq> 9 \<and> (r < 32 \<or> r = 127 \<or> (128 \<le> r \<and> r \<le> 159) \<or> r = 8232 \<or> r = 8233)"

function control_loop :: "nat list \<Rightarrow> bool" where
  "control_loop bs =
     (if bs = [] then False
      else bad_rune (fst (decode_rune bs)) \<or> control_loop (drop (snd (decode_rune bs)) bs))"
  by pat_completeness auto
termination
  by (relation "measure length") (use decode_width in auto)

declare control_loop.simps [simp del]

definition hasDisallowedControl :: "string \<Rightarrow> bool" where
  "hasDisallowedControl v = control_loop (map of_char v)"

subsection \<open>Storing the outputs\<close>

abbreviation truncMarker :: string where "truncMarker \<equiv> ''...[truncated]''"

text \<open>\<open>tot\<close> counts the bytes stored, \<open>out\<close> is \<open>sr.Outputs\<close>.\<close>

fun apply_loop :: "(string \<rightharpoonup> string) \<Rightarrow> string list \<Rightarrow> nat \<Rightarrow> (string \<rightharpoonup> string) \<Rightarrow> (string \<rightharpoonup> string)" where
  "apply_loop merged [] tot out = out"
| "apply_loop merged (k # ks) tot out =
     (let v = (case merged k of None \<Rightarrow> [] | Some v \<Rightarrow> v) in
      if hasDisallowedControl v then apply_loop merged ks tot (out(''_invalid'' \<mapsto> ''true''))
      else
        (let v' = (if outputKeyMax < length v then take outputKeyMax v @ truncMarker else v);
             out' = (if outputKeyMax < length v then out(''_truncated'' \<mapsto> ''true'') else out)
         in if outputStageMax < tot + length k + length v' then out'(''_truncated'' \<mapsto> ''true'')
            else apply_loop merged ks (tot + (length k + length v')) (out'(k \<mapsto> v'))))"

text \<open>\<open>ks\<close> is the order in which the keys of the merged map are collected; they are sorted.\<close>

definition applyStageOutputs ::
  "string list \<Rightarrow> StageRun \<Rightarrow> (string \<rightharpoonup> string) \<Rightarrow> (string \<rightharpoonup> string) \<Rightarrow> StageRun" where
  "applyStageOutputs ks sr derived adapter =
     (if ks = [] then sr
      else sr\<lparr>SR_Outputs := apply_loop (derived ++ adapter) (sort ks) 0 (SR_Outputs sr)\<rparr>)"

definition collectStageOutputs :: "(string \<rightharpoonup> StageRun) \<Rightarrow> string list \<Rightarrow> outputs" where
  "collectStageOutputs m allowed id' =
     (if id' \<in> set allowed then
        (case m id' of
           None \<Rightarrow> None
         | Some sr \<Rightarrow>
             if SR_Status sr \<noteq> ''success'' \<or> SR_Outputs sr = Map.empty then None else Some (SR_Outputs sr))
      else None)"


subsection \<open>Interpolating the configuration\<close>

datatype config_error = InterpolateErr string interp_error

definition ebind :: "'e + 'a \<Rightarrow> ('a \<Rightarrow> 'e + 'b) \<Rightarrow> 'e + 'b" where
  "ebind x f = (case x of Inl e \<Rightarrow> Inl e | Inr v \<Rightarrow> f v)"

definition named :: "string \<Rightarrow> interp_error + 'a \<Rightarrow> config_error + 'a" where
  "named f x = (case x of Inl e \<Rightarrow> Inl (InterpolateErr f e) | Inr v \<Rightarrow> Inr v)"

text \<open>
  The fields one after the other; \<open>bo\<close> and \<open>eo\<close> are the orders in which \<open>InterpolateMap\<close> visits
  the two maps.  The stage that comes in is a value, so it stays as it is.
\<close>

definition interpolateStageConfig ::
  "string list \<Rightarrow> string list \<Rightarrow> Stage \<Rightarrow> outputs \<Rightarrow> config_error + Stage" where
  "interpolateStageConfig bo eo s r =
     (let c = Stage_Config s; fld = (\<lambda>n v. named n (Interpolate v r)); sl = (\<lambda>n v. named n (InterpolateSlice v r)) in
      ebind (fld ''registry'' (sc_Registry c)) (\<lambda>v1.
      ebind (fld ''repository'' (sc_Repository c)) (\<lambda>v2.
      ebind (fld ''image'' (sc_Image c)) (\<lambda>v3.
      ebind (fld ''context'' (sc_Context c)) (\<lambda>v4.
      ebind (fld ''dockerfile'' (sc_Dockerfile c)) (\<lambda>v5.
      ebind (fld ''manifestPath'' (sc_ManifestPath c)) (\<lambda>v6.
      ebind (fld ''helmChart'' (sc_HelmChart c)) (\<lambda>v7.
      ebind (fld ''namespace'' (sc_Namespace c)) (\<lambda>v8.
      ebind (fld ''gitopsRepo'' (sc_GitOpsRepo c)) (\<lambda>v9.
      ebind (fld ''gitopsBranch'' (sc_GitOpsBranch c)) (\<lambda>v10.
      ebind (fld ''gitopsPath'' (sc_GitOpsPath c)) (\<lambda>v11.
      ebind (fld ''gitopsMessage'' (sc_GitOpsMessage c)) (\<lambda>v12.
      ebind (fld ''gitopsContent'' (sc_GitOpsContent c)) (\<lambda>v13.
      ebind (sl ''tags'' (sc_Tags c)) (\<lambda>tags.
      ebind (sl ''command'' (sc_Command c)) (\<lambda>command.
      ebind (sl ''platforms'' (sc_Platforms c)) (\<lambda>platforms.
      ebind (named ''buildArgs'' (InterpolateMap bo (sc_BuildArgs c) r Map.empty)) (\<lambda>args.
      ebind (named ''env'' (InterpolateMap eo (sc_Env c) r Map.empty)) (\<lambda>env.
        Inr (s\<lparr>Stage_Config := c\<lparr>
          sc_Registry := v1, sc_Repository := v2, sc_Image := v3, sc_Context := v4,
          sc_Dockerfile := v5, sc_ManifestPath := v6, sc_HelmChart := v7, sc_Namespace := v8,
          sc_GitOpsRepo := v9, sc_GitOpsBranch := v10, sc_GitOpsPath := v11, sc_GitOpsMessage := v12,
          sc_GitOpsContent := v13, sc_Tags := tags, sc_Command := command, sc_Platforms := platforms,
          sc_BuildArgs := args, sc_Env := env\<rparr>\<rparr>))))))))))))))))))))"

text \<open>
  Every field the interpolation reads, in the order it reads them: the same list the validator
  of the pipeline checks for references (\<open>stageInterpolatableStrings\<close>).
\<close>

definition resolvable :: "outputs \<Rightarrow> string \<Rightarrow> bool" where
  "resolvable r v \<longleftrightarrow> (\<forall>(i, k) \<in> set (refs_of (tokens v)). \<exists>w. resolve r i k = Inr w)"

definition interp_text :: "outputs \<Rightarrow> string \<Rightarrow> string" where
  "interp_text r v = concat (map (subst r) (tokens v))"


subsection \<open>Truncation and control characters\<close>

lemma control_loop_Cons:
  "control_loop (b # bs) \<longleftrightarrow>
     bad_rune (fst (decode_rune (b # bs))) \<or> control_loop (drop (snd (decode_rune (b # bs))) (b # bs))"
  by (subst control_loop.simps) simp

lemma control_loop_Nil [simp]: "control_loop [] = False"
  by (simp add: control_loop.simps)

lemma control_loop_ascii:
  "b < 128 \<Longrightarrow> control_loop (b # bs) \<longleftrightarrow> bad_rune b \<or> control_loop bs"
  by (simp add: control_loop_Cons decode_rune_def)

lemma control_loop_invalid:
  "128 \<le> b \<Longrightarrow> multi_rune b bs = None \<Longrightarrow> control_loop (b # bs) \<longleftrightarrow> control_loop bs"
  by (simp add: control_loop_Cons decode_rune_def bad_rune_def)

lemma control_loop_valid:
  "128 \<le> b \<Longrightarrow> multi_rune b bs = Some (x, w) \<Longrightarrow>
   control_loop (b # bs) \<longleftrightarrow> bad_rune x \<or> control_loop (drop (w - 1) bs)"
  using multi_rune_Some [of b bs x w]
  by (subst control_loop_Cons, cases w) (simp_all add: decode_rune_def)

lemma multi_rune_cont: "is_cont b \<Longrightarrow> multi_rune b r = None"
  by (cases r) (simp_all add: multi_rune_def is_cont_def)

lemma control_loop_conts:
  assumes "\<forall>c \<in> set cs. is_cont c"
  shows "control_loop (cs @ bs) \<longleftrightarrow> control_loop bs"
  using assms
proof (induction cs)
  case (Cons c cs)
  then have "is_cont c" by simp
  with Cons show ?case
    using control_loop_invalid [of c "cs @ bs"] multi_rune_cont by (simp add: is_cont_def)
qed simp

text \<open>Cutting a byte sequence and putting ASCII bytes behind it makes no new valid rune.\<close>

lemma cut_rune2:
  assumes "\<forall>c \<in> set mk. c < 128"
  shows "rune2 b (take n r @ mk) = (if 1 \<le> n then rune2 b r else None)"
  using assms
  by (cases r; cases n; cases mk) (auto simp: is_cont_def)

lemma cut_rune3:
  assumes "\<forall>c \<in> set mk. c < 128"
  shows "rune3 b (take n r @ mk) = (if 2 \<le> n then rune3 b r else None)"
proof -
  have low: "rune3 b (xs @ mk) = None" if "length xs < 2" for xs
    using that assms by (cases xs; cases mk; cases "tl mk") (auto simp: is_cont_def)
  show ?thesis
  proof (cases "2 \<le> n \<and> 2 \<le> length r")
    case True
    then obtain m where "n = 2 + m" using le_Suc_ex by blast
    moreover have "Suc (Suc 0) \<le> length r" using True by simp
    then obtain b1 b2 r' where "r = b1 # b2 # r'" by (auto simp: Suc_le_length_iff)
    ultimately show ?thesis by (simp add: numeral_2_eq_2)
  next
    case False
    then have "length (take n r) < 2" by auto
    moreover have "rune3 b r = None" if "length r < 2"
      using that by (cases r; cases "tl r") auto
    ultimately show ?thesis using low False by auto
  qed
qed

lemma cut_rune4:
  assumes "\<forall>c \<in> set mk. c < 128"
  shows "rune4 b (take n r @ mk) = (if 3 \<le> n then rune4 b r else None)"
proof -
  have low: "rune4 b (xs @ mk) = None" if "length xs < 3" for xs
    using that assms
    by (cases xs; cases "tl xs"; cases mk; cases "tl mk"; cases "tl (tl mk)") (auto simp: is_cont_def)
  show ?thesis
  proof (cases "3 \<le> n \<and> 3 \<le> length r")
    case True
    then obtain m where "n = 3 + m" using le_Suc_ex by blast
    moreover have "Suc (Suc (Suc 0)) \<le> length r" using True by simp
    then obtain b1 b2 b3 r' where "r = b1 # b2 # b3 # r'" by (auto simp: Suc_le_length_iff)
    ultimately show ?thesis by (simp add: numeral_3_eq_3)
  next
    case False
    then have "length (take n r) < 3" by auto
    moreover have "rune4 b r = None" if "length r < 3"
      using that by (cases r; cases "tl r") auto
    ultimately show ?thesis using low False by auto
  qed
qed

lemma cut_multi:
  assumes "\<forall>c \<in> set mk. c < 128"
  shows "multi_rune b (take n r @ mk) =
    (case multi_rune b r of None \<Rightarrow> None | Some (x, w) \<Rightarrow> if w - 1 \<le> n then Some (x, w) else None)"
  unfolding multi_rune_def cut_rune2 [OF assms] cut_rune3 [OF assms] cut_rune4 [OF assms]
  using rune2_Some [of b r] rune3_Some [of b r] rune4_Some [of b r]
  by (auto split: option.splits)

lemma control_loop_cut:
  assumes "\<not> control_loop bs" and "\<forall>c \<in> set mk. c < 128" and "\<not> control_loop mk"
  shows "\<not> control_loop (take n bs @ mk)"
  using assms(1)
proof (induction bs arbitrary: n rule: control_loop.induct)
  case (1 bs)
  show ?case
  proof (cases "bs = [] \<or> n = 0")
    case True
    with assms(3) show ?thesis by auto
  next
    case False
    then obtain b r m where bs: "bs = b # r" and n: "n = Suc m" by (cases bs; cases n) auto
    note ih = 1(1) [unfolded bs, simplified, of _ ]
    show ?thesis
    proof (cases "b < 128")
      case True
      then have "\<not> bad_rune b" "\<not> control_loop r" using 1(2) bs control_loop_ascii by auto
      moreover have "\<not> control_loop (take m r @ mk)"
        using 1(1) [of m] 1(2) bs True calculation by (simp add: decode_rune_def)
      ultimately show ?thesis using bs n True control_loop_ascii by simp
    next
      case False
      then have big: "128 \<le> b" by simp
      show ?thesis
      proof (cases "multi_rune b r")
        case None
        then have nr: "\<not> control_loop r" using 1(2) bs big control_loop_invalid by auto
        then have "\<not> control_loop (take m r @ mk)"
          using 1(1) [of m] bs None False by (simp add: decode_rune_def bad_rune_def)
        with bs n big None show ?thesis
          using control_loop_invalid [of b "take m r @ mk"] cut_multi [OF assms(2), of b m r] by simp
      next
        case (Some xw)
        obtain x w where xw: "xw = (x, w)" by (cases xw)
        note w = multi_rune_Some [OF Some [unfolded xw]]
        have nb: "\<not> bad_rune x" "\<not> control_loop (drop (w - 1) r)"
          using 1(2) bs big Some xw control_loop_valid by auto
        show ?thesis
        proof (cases "w - 1 \<le> m")
          case True
          have dr: "drop (snd (decode_rune bs)) bs = drop (w - 1) r"
            using bs False Some xw w by (cases w) (auto simp: decode_rune_def)
          have "\<not> control_loop (take (m - (w - 1)) (drop (w - 1) r) @ mk)"
            using 1(1) [of "m - (w - 1)"] dr nb bs False Some xw by (simp add: decode_rune_def)
          moreover have "drop (w - 1) (take m r @ mk) = take (m - (w - 1)) (drop (w - 1) r) @ mk"
          proof -
            have "w - 1 - length (take m r) = 0" using True w by (auto simp: min_def)
            then show ?thesis unfolding drop_append drop_take by simp
          qed
          ultimately show ?thesis
            using control_loop_valid [of b "take m r @ mk" x w] cut_multi [OF assms(2), of b m r]
              bs n big Some xw True nb by simp
        next
          case no: False
          have "\<forall>c \<in> set (take m r). is_cont c"
            using w no by (meson nat_le_linear set_take_subset_set_take subsetD)
          then have "\<not> control_loop (take m r @ mk)" using control_loop_conts assms(3) by blast
          with bs n big Some xw no show ?thesis
            using control_loop_invalid [of b "take m r @ mk"] cut_multi [OF assms(2), of b m r] by simp
        qed
      qed
    qed
  qed
qed

lemma truncated_clean:
  assumes "\<not> hasDisallowedControl v"
  shows "\<not> hasDisallowedControl (take n v @ truncMarker)"
proof -
  have "\<not> control_loop (map of_char truncMarker)" by code_simp
  moreover have "\<forall>c \<in> set (map of_char truncMarker). c < (128 :: nat)" by simp
  ultimately show ?thesis
    using control_loop_cut [of "map of_char v" "map of_char truncMarker" n] assms
    by (simp add: hasDisallowedControl_def take_map)
qed

text \<open>No byte of an accepted value is an ASCII control character other than a tab.\<close>

lemma clean_bytes:
  assumes "\<not> control_loop bs" "c \<in> set bs"
  shows "c = 9 \<or> 32 \<le> c \<and> c \<noteq> 127"
  using assms
proof (induction bs rule: control_loop.induct)
  case (1 bs)
  then obtain b r where bs: "bs = b # r" by (cases bs) auto
  show ?case
  proof (cases "multi_rune b r")
    case None
    then show ?thesis
      using 1 bs control_loop_ascii [of b r] control_loop_invalid [of b r]
      by (cases "b < 128") (auto simp: decode_rune_def bad_rune_def)
  next
    case (Some xw)
    obtain x w where xw: "xw = (x, w)" by (cases xw)
    note w = multi_rune_Some [OF Some [unfolded xw]]
    show ?thesis
    proof (cases "b < 128")
      case True
      then show ?thesis
        using 1 bs control_loop_ascii [of b r] by (auto simp: decode_rune_def bad_rune_def)
    next
      case False
      have dr: "drop (snd (decode_rune bs)) bs = drop (w - 1) r"
        using bs False Some xw w by (cases w) (auto simp: decode_rune_def)
      have "c = b \<or> c \<in> set (take (w - 1) r) \<or> c \<in> set (drop (w - 1) r)"
        using 1(3) bs by (metis append_take_drop_id set_append Un_iff set_ConsD)
      then show ?thesis
        using 1(1) 1(2) dr bs False Some xw w control_loop_valid [of b r x w]
        by (auto simp: is_cont_def)
    qed
  qed
qed


subsection \<open>What is stored\<close>

abbreviation markers :: "string set" where "markers \<equiv> {''_invalid'', ''_truncated''}"

definition capped :: "string \<Rightarrow> string" where
  "capped v = (if outputKeyMax < length v then take outputKeyMax v @ truncMarker else v)"

definition safe_value :: "string \<Rightarrow> bool" where
  "safe_value v \<longleftrightarrow> length v \<le> outputKeyMax + length truncMarker \<and> \<not> hasDisallowedControl v"

definition stored_bytes :: "(string \<rightharpoonup> string) \<Rightarrow> nat" where
  "stored_bytes m = (\<Sum>k \<in> dom m - markers. length k + length (the (m k)))"

lemma capped_safe: "\<not> hasDisallowedControl v \<Longrightarrow> safe_value (capped v)"
  using truncated_clean [of v outputKeyMax] by (auto simp: safe_value_def capped_def)

lemma marker_safe: "safe_value ''true''"
  unfolding safe_value_def by code_simp

definition entry :: "(string \<rightharpoonup> string) \<Rightarrow> string \<Rightarrow> string" where
  "entry m k = (case m k of None \<Rightarrow> [] | Some v \<Rightarrow> v)"

definition with_mark :: "string \<Rightarrow> (string \<rightharpoonup> string) \<Rightarrow> (string \<rightharpoonup> string)" where
  "with_mark v m = (if outputKeyMax < length v then m(''_truncated'' \<mapsto> ''true'') else m)"

text \<open>One round of the loop.\<close>

lemma apply_loop_Cons:
  "apply_loop merged (k # ks) tot out =
    (if hasDisallowedControl (entry merged k) then apply_loop merged ks tot (out(''_invalid'' \<mapsto> ''true''))
     else if outputStageMax < tot + length k + length (capped (entry merged k))
     then (with_mark (entry merged k) out)(''_truncated'' \<mapsto> ''true'')
     else apply_loop merged ks (tot + (length k + length (capped (entry merged k))))
       ((with_mark (entry merged k) out)(k \<mapsto> capped (entry merged k))))"
  by (simp add: Let_def capped_def with_mark_def entry_def)

declare apply_loop.simps(2) [simp del]

lemma apply_loop_safe:
  assumes "\<forall>v \<in> ran out. safe_value v"
  shows "\<forall>v \<in> ran (apply_loop merged ks tot out). safe_value v"
proof -
  have upd: "\<forall>v \<in> ran (m(k \<mapsto> w)). safe_value v" if "\<forall>v \<in> ran m. safe_value v" "safe_value w" for m k w
    using that by (auto simp: ran_def)
  show ?thesis
    using assms
  proof (induction ks arbitrary: tot out)
    case (Cons k ks)
    have mark: "\<forall>v \<in> ran (with_mark (entry merged k) out). safe_value v"
      unfolding with_mark_def using upd [OF Cons.prems marker_safe, of "''_truncated''"] Cons.prems
      by (cases "outputKeyMax < length (entry merged k)") (simp_all only: if_True if_False)
    show ?case
    proof (cases "hasDisallowedControl (entry merged k)")
      case True
      then show ?thesis
        unfolding apply_loop_Cons using Cons.IH [OF upd [OF Cons.prems marker_safe]] by (simp only: if_True)
    next
      case False
      note n = Cons.IH [OF upd [OF mark capped_safe [OF False]]] and t = upd [OF mark marker_safe]
      show ?thesis
        unfolding apply_loop_Cons using False n t
        by (cases "outputStageMax < tot + length k + length (capped (entry merged k))")
          (simp_all only: if_True if_False)
    qed
  qed simp
qed

lemma stored_bytes_marker: "k \<in> markers \<Longrightarrow> stored_bytes (m(k \<mapsto> v)) = stored_bytes m"
  unfolding stored_bytes_def by (rule sum.cong) auto

lemma stored_bytes_new:
  assumes "finite (dom m)" "m k = None \<or> k \<in> markers"
  shows "stored_bytes (m(k \<mapsto> v)) \<le> stored_bytes m + (length k + length v)"
proof (cases "k \<in> markers")
  case True
  then show ?thesis using stored_bytes_marker [of k m v] by simp
next
  case False
  then have d: "dom (m(k \<mapsto> v)) - markers = insert k (dom m - markers)" "k \<notin> dom m - markers"
    using assms(2) by auto
  have "(\<Sum>j \<in> dom m - markers. length j + length (the ((m(k \<mapsto> v)) j)))
      = (\<Sum>j \<in> dom m - markers. length j + length (the (m j)))"
    using d(2) by (intro sum.cong) auto
  then show ?thesis unfolding stored_bytes_def d(1) using assms(1) d(2) by simp
qed

lemma apply_loop_bytes:
  assumes "distinct ks" "set ks \<inter> dom out \<subseteq> markers" "finite (dom out)"
    and "stored_bytes out \<le> tot" "tot \<le> outputStageMax"
  shows "stored_bytes (apply_loop merged ks tot out) \<le> outputStageMax"
  using assms
proof (induction ks arbitrary: tot out)
  case (Cons k ks)
  let ?v = "entry merged k" and ?out = "with_mark (entry merged k) out"
  have o': "stored_bytes ?out = stored_bytes out" "finite (dom ?out)" "dom ?out \<subseteq> dom out \<union> markers"
    using Cons.prems(3) stored_bytes_marker by (auto simp: with_mark_def)
  have n: "stored_bytes (?out(k \<mapsto> capped ?v)) \<le> tot + (length k + length (capped ?v))"
    using stored_bytes_new [of ?out k "capped ?v"] o' Cons.prems(2,4) by fastforce
  have t: "stored_bytes (?out(''_truncated'' \<mapsto> ''true'')) \<le> outputStageMax"
    using stored_bytes_marker [of "''_truncated''" ?out] o' Cons.prems(4,5) by simp
  have i: "stored_bytes (apply_loop merged ks tot (out(''_invalid'' \<mapsto> ''true''))) \<le> outputStageMax"
  proof (rule Cons.IH)
    show "distinct ks" "tot \<le> outputStageMax" using Cons.prems by simp_all
    show "set ks \<inter> dom (out(''_invalid'' \<mapsto> ''true'')) \<subseteq> markers" using Cons.prems(2) by auto
    show "finite (dom (out(''_invalid'' \<mapsto> ''true'')))" using Cons.prems(3) by (simp only: dom_fun_upd) simp
    show "stored_bytes (out(''_invalid'' \<mapsto> ''true'')) \<le> tot"
      using stored_bytes_marker [of "''_invalid''" out "''true''"] Cons.prems(4) by simp
  qed
  have c: "stored_bytes (apply_loop merged ks (tot + (length k + length (capped ?v))) (?out(k \<mapsto> capped ?v)))
      \<le> outputStageMax"
    if "tot + length k + length (capped ?v) \<le> outputStageMax"
  proof (rule Cons.IH)
    show "distinct ks" "stored_bytes (?out(k \<mapsto> capped ?v)) \<le> tot + (length k + length (capped ?v))"
      "tot + (length k + length (capped ?v)) \<le> outputStageMax"
      using Cons.prems n that by simp_all
    show "finite (dom (?out(k \<mapsto> capped ?v)))" using o'(2) by (simp only: dom_fun_upd) simp
    show "set ks \<inter> dom (?out(k \<mapsto> capped ?v)) \<subseteq> markers"
    proof
      fix x assume "x \<in> set ks \<inter> dom (?out(k \<mapsto> capped ?v))"
      then have "x \<in> set ks" "x \<in> dom ?out" using Cons.prems(1) by (auto split: if_splits)
      then have "x \<in> set (k # ks)" "x \<in> dom out \<or> x \<in> markers" using o'(3) by auto
      then show "x \<in> markers" using Cons.prems(2) by blast
    qed
  qed
  show ?case unfolding apply_loop_Cons using t i c by (simp add: not_less)
qed simp

lemma apply_loop_source:
  assumes "apply_loop merged ks tot out k = Some v" "k \<notin> markers" "set ks \<subseteq> dom merged"
  shows "out k = Some v \<or> (\<exists>w. merged k = Some w \<and> \<not> hasDisallowedControl w \<and> v = capped w)"
  using assms
proof (induction ks arbitrary: tot out)
  case (Cons j ks)
  then obtain w where w: "merged j = Some w" "entry merged j = w" by (auto simp: entry_def)
  have sub: "set ks \<subseteq> dom merged" using Cons.prems(3) by simp
  note step = Cons.prems(1) [unfolded apply_loop_Cons w(2)]
  have *: "with_mark w out k = out k" using Cons.prems(2) by (simp add: with_mark_def)
  show ?case
  proof (cases "hasDisallowedControl w")
    case True
    with step have "apply_loop merged ks tot (out(''_invalid'' \<mapsto> ''true'')) k = Some v" by simp
    from Cons.IH [OF this Cons.prems(2) sub] Cons.prems(2) show ?thesis by simp
  next
    case ok: False
    show ?thesis
    proof (cases "outputStageMax < tot + length j + length (capped w)")
      case True
      with ok step have "((with_mark w out)(''_truncated'' \<mapsto> ''true'')) k = Some v" by simp
      then show ?thesis using * Cons.prems(2) by simp
    next
      case False
      with ok step have "apply_loop merged ks (tot + (length j + length (capped w)))
          ((with_mark w out)(j \<mapsto> capped w)) k = Some v" by simp
      from Cons.IH [OF this Cons.prems(2) sub] show ?thesis
        using * ok w(1) by (cases "k = j") auto
    qed
  qed
qed simp

lemma apply_loop_all:
  assumes "\<forall>k \<in> set ks. \<exists>v. merged k = Some v \<and> \<not> hasDisallowedControl v \<and> length v \<le> outputKeyMax"
    and "tot + (\<Sum>k\<leftarrow>ks. length k + length (the (merged k))) \<le> outputStageMax"
  shows "apply_loop merged ks tot out = out ++ (merged |` set ks)"
  using assms
proof (induction ks arbitrary: tot out)
  case (Cons k ks)
  then obtain v where v: "merged k = Some v" "\<not> hasDisallowedControl v" "length v \<le> outputKeyMax" by auto
  then have "apply_loop merged (k # ks) tot out = apply_loop merged ks (tot + (length k + length v)) (out(k \<mapsto> v))"
    using Cons.prems(2) by (simp add: apply_loop_Cons entry_def with_mark_def capped_def)
  also have "\<dots> = out(k \<mapsto> v) ++ (merged |` set ks)"
    using Cons.prems v by (intro Cons.IH) auto
  also have "\<dots> = out ++ (merged |` set (k # ks))"
    using v(1) by (auto simp: fun_eq_iff map_add_def restrict_map_def split: option.splits)
  finally show ?case .
qed (simp add: restrict_map_def)

lemma sum_list_sort: "sum_list (map f (sort xs)) = sum_list (map f xs)" for f :: "'a::linorder \<Rightarrow> nat"
  by (simp flip: sum_mset_sum_list)

lemma safe_value_chars:
  assumes "safe_value v" "c \<in> set v"
  shows "c = CHR 0x09 \<or> 32 \<le> (of_char c :: nat) \<and> of_char c \<noteq> (127 :: nat)"
proof -
  have "of_char c = (of_char (CHR 0x09) :: nat) \<Longrightarrow> c = CHR 0x09" by (simp only: of_char_eq_iff)
  moreover have "of_char (CHR 0x09) = (9 :: nat)" by code_simp
  ultimately have "of_char c = (9 :: nat) \<Longrightarrow> c = CHR 0x09" by (simp only:)
  then show ?thesis
    using clean_bytes [of "map of_char v" "of_char c"] assms
    by (auto simp: safe_value_def hasDisallowedControl_def)
qed

text \<open>Within the limits everything is stored as it is.\<close>

lemma apply_loop_everything:
  assumes "distinct ks" "set ks = dom m"
    and "\<forall>k v. m k = Some v \<longrightarrow> \<not> hasDisallowedControl v \<and> length v \<le> 4096"
    and "(\<Sum>k\<leftarrow>ks. length k + length (the (m k))) \<le> 32768"
  shows "apply_loop m (sort ks) 0 Map.empty = m"
proof -
  have "(\<Sum>k\<leftarrow>sort ks. length k + length (the (m k))) = (\<Sum>k\<leftarrow>ks. length k + length (the (m k)))"
    by (rule sum_list_sort)
  with assms(4) have "(\<Sum>k\<leftarrow>sort ks. length k + length (the (m k))) \<le> 32768" by simp
  moreover have "\<exists>v. m k = Some v \<and> \<not> hasDisallowedControl v \<and> length v \<le> outputKeyMax"
    if "k \<in> set (sort ks)" for k
  proof -
    from that assms(2) obtain v where "m k = Some v" by (metis domD set_sort)
    with assms(3) show ?thesis by metis
  qed
  ultimately have "apply_loop m (sort ks) 0 Map.empty = Map.empty ++ (m |` set (sort ks))"
    by (intro apply_loop_all ballI) (simp_all only: add_0)
  then show ?thesis using assms(2) by (auto simp: fun_eq_iff restrict_map_def map_add_def split: option.splits)
qed

lemma safe_value_text:
  assumes "safe_value v"
  shows "length v \<le> 4096 + 14" and "\<not> hasDisallowedControl v"
    and "c \<in> set v \<Longrightarrow> c = CHR 0x09 \<or> 32 \<le> (of_char c :: nat) \<and> of_char c \<noteq> (127 :: nat)"
proof -
  have "length truncMarker = 14" by simp
  then show "length v \<le> 4096 + 14" "\<not> hasDisallowedControl v" using assms unfolding safe_value_def by simp_all
  show "c \<in> set v \<Longrightarrow> c = CHR 0x09 \<or> 32 \<le> (of_char c :: nat) \<and> of_char c \<noteq> (127 :: nat)"
    using safe_value_chars [OF assms] by metis
qed

text \<open>
  C22: what \<open>applyStageOutputs\<close> leaves on a stage run that had no outputs is safe whatever the
  adapter reported: no value is longer than 4096 bytes and the marker, none holds an ASCII or
  C1 control character or a Unicode line separator (tabs apart), also when truncating cut a
  multi-byte character; every stored value is the cut value of the merged map, where the adapter
  wins over the derived value; the keys and values, the two markers apart, are at most 32 KiB;
  and outputs that are within the limits are stored unchanged.
\<close>

theorem applyStageOutputs_safe:
  assumes "iter_order ks (derived ++ adapter)" and "SR_Outputs sr = Map.empty"
  shows "(\<forall>k v. SR_Outputs (applyStageOutputs ks sr derived adapter) k = Some v \<longrightarrow>
      length v \<le> 4096 + 14 \<and> \<not> hasDisallowedControl v \<and>
      (\<forall>c \<in> set v. c = CHR 0x09 \<or> 32 \<le> (of_char c :: nat) \<and> of_char c \<noteq> (127 :: nat)) \<and>
      (k \<notin> {''_invalid'', ''_truncated''} \<longrightarrow>
        (\<exists>w. (case adapter k of Some a \<Rightarrow> Some a | None \<Rightarrow> derived k) = Some w \<and> v = capped w))) \<and>
    stored_bytes (SR_Outputs (applyStageOutputs ks sr derived adapter)) \<le> 32768 \<and>
    ((\<forall>k v. (derived ++ adapter) k = Some v \<longrightarrow> \<not> hasDisallowedControl v \<and> length v \<le> 4096) \<and>
      (\<Sum>k\<leftarrow>ks. length k + length (the ((derived ++ adapter) k))) \<le> 32768 \<longrightarrow>
      SR_Outputs (applyStageOutputs ks sr derived adapter) = derived ++ adapter)"
proof -
  let ?m = "derived ++ adapter" and ?o = "SR_Outputs (applyStageOutputs ks sr derived adapter)"
  have ks: "distinct ks" "set ks = dom ?m" using assms(1) by (simp_all only: iter_order_def)
  have o: "?o = apply_loop ?m (sort ks) 0 Map.empty"
    using assms(2) by (cases "ks = []") (simp_all add: applyStageOutputs_def)
  have safe: "safe_value v" if "?o k = Some v" for k v
    using apply_loop_safe [of Map.empty ?m "sort ks" 0] that unfolding o by (auto simp: ran_def)
  have src: "\<exists>w. (case adapter k of Some a \<Rightarrow> Some a | None \<Rightarrow> derived k) = Some w \<and> v = capped w"
    if "?o k = Some v" "k \<notin> markers" for k v
    using apply_loop_source [of ?m "sort ks" 0 Map.empty k v] that ks
    unfolding o by (auto simp: map_add_def split: option.splits)
  have bytes: "stored_bytes ?o \<le> 32768"
    unfolding o using ks by (intro apply_loop_bytes) (auto simp: stored_bytes_def)
  show ?thesis
  proof (intro conjI allI impI ballI)
    fix k v assume v: "?o k = Some v"
    show "length v \<le> 4096 + 14" "\<not> hasDisallowedControl v" using safe_value_text(1,2) [OF safe [OF v]] .
    show "c = CHR 0x09 \<or> 32 \<le> (of_char c :: nat) \<and> of_char c \<noteq> (127 :: nat)" if "c \<in> set v" for c
      using safe_value_text(3) [OF safe [OF v] that] .
    show "\<exists>w. (case adapter k of Some a \<Rightarrow> Some a | None \<Rightarrow> derived k) = Some w \<and> v = capped w"
      if "k \<notin> {''_invalid'', ''_truncated''}" using src [OF v that] .
  next
    show "stored_bytes ?o \<le> 32768" by (rule bytes)
  next
    assume "(\<forall>k v. ?m k = Some v \<longrightarrow> \<not> hasDisallowedControl v \<and> length v \<le> 4096) \<and>
      (\<Sum>k\<leftarrow>ks. length k + length (the (?m k))) \<le> 32768"
    then show "?o = ?m" unfolding o using apply_loop_everything [OF ks] by simp
  qed
qed


text \<open>
  The two marker keys are ordinary keys for an adapter, and they sort between the upper-case and
  the lower-case ones, so an adapter can overwrite the marker of a rejected value.
\<close>

lemma invalid_marker_overwritten:
  "SR_Outputs (applyStageOutputs [''A'', ''_invalid''] sr Map.empty
     [''A'' \<mapsto> [CHR 0x0A], ''_invalid'' \<mapsto> ''no'']) ''_invalid'' = Some ''no''"
proof -
  have "sort [''A'', ''_invalid''] = [''A'', ''_invalid'']" by code_simp
  moreover have "hasDisallowedControl [CHR 0x0A]" "\<not> hasDisallowedControl ''no''" by code_simp+
  ultimately show ?thesis
    by (simp add: applyStageOutputs_def apply_loop_Cons entry_def with_mark_def capped_def)
qed

theorem applyStageOutputs_safe_witness:
  "stored_bytes (SR_Outputs (applyStageOutputs [''digest'', ''log'']
     \<lparr>SR_StageID = ''b'', SR_Status = ''running'', SR_StartedAt = None, SR_FinishedAt = None, SR_Logs = [],
      SR_Error = [], SR_Artifacts = [], SR_Outputs = Map.empty\<rparr>
     [''digest'' \<mapsto> ''sha256''] [''log'' \<mapsto> ''x'' @ [CHR 0x0A]])) \<le> 32768"
  using applyStageOutputs_safe [of "[''digest'', ''log'']" "[''digest'' \<mapsto> ''sha256'']" "[''log'' \<mapsto> ''x'' @ [CHR 0x0A]]"
      "\<lparr>SR_StageID = ''b'', SR_Status = ''running'', SR_StartedAt = None, SR_FinishedAt = None, SR_Logs = [],
      SR_Error = [], SR_Artifacts = [], SR_Outputs = Map.empty\<rparr>"]
  by (auto simp: iter_order_def)

subsection \<open>What the interpolation of a stage does\<close>

lemma Interpolate_ok:
  assumes "resolvable r v"
  shows "Interpolate v r = Inr (interp_text r v)"
proof -
  have all: "\<forall>(i, k) \<in> set (refs_of (tokens v)). \<exists>w. resolve r i k = Inr w"
    using assms unfolding resolvable_def .
  have "replace_loop r (tokens v) (None, []) = (None, interp_text r v)"
    unfolding interp_text_def
    using replace_loop_spec [of r "tokens v" "[]", THEN conjunct1, unfolded if_P [OF all]]
    by (simp only: append_Nil)
  then show ?thesis by (simp add: Interpolate_def)
qed

lemma Interpolate_fails:
  assumes "\<not> resolvable r v"
  obtains e where "Interpolate v r = Inl e"
proof -
  have "\<not> (\<forall>(i, k) \<in> set (refs_of (tokens v)). \<exists>w. resolve r i k = Inr w)"
    using assms unfolding resolvable_def .
  with replace_loop_spec [of r "tokens v" "[]"]
  obtain e where "fst (replace_loop r (tokens v) (None, [])) = Some e" by blast
  then have "Interpolate v r = Inl e"
    by (cases "replace_loop r (tokens v) (None, [])") (simp add: Interpolate_def)
  then show thesis by (rule that)
qed

lemma Interpolate_eq: "Interpolate v r = Inr w \<longleftrightarrow> resolvable r v \<and> w = interp_text r v"
  by (cases "resolvable r v") (auto simp: Interpolate_ok elim: Interpolate_fails [of r v])

lemma InterpolateSlice_eq:
  "InterpolateSlice vs r = Inr ws \<longleftrightarrow> (\<forall>v \<in> set vs. resolvable r v) \<and> ws = map (interp_text r) vs"
proof (induction vs arbitrary: ws)
  case (Cons v vs)
  show ?case
  proof (cases "resolvable r v")
    case True
    with Cons show ?thesis
      by (cases "InterpolateSlice vs r") (auto simp: Interpolate_ok)
  next
    case False
    then show ?thesis by (auto elim: Interpolate_fails [of r v])
  qed
qed auto

abbreviation interp_map :: "outputs \<Rightarrow> string list \<Rightarrow> (string \<rightharpoonup> string) \<Rightarrow> (string \<rightharpoonup> string)" where
  "interp_map r ks m \<equiv> (\<lambda>k. if k \<in> set ks then map_option (interp_text r) (m k) else None)"

lemma InterpolateMap_eq:
  "InterpolateMap ks m r out = Inr ws \<longleftrightarrow>
     (\<forall>v \<in> set (map_values ks m). resolvable r v) \<and> ws = out ++ interp_map r ks m"
proof (induction ks arbitrary: out)
  case Nil
  then show ?case by (auto simp: map_values_def List.map_filter_def map_add_def)
next
  case (Cons k ks)
  show ?case
  proof (cases "m k")
    case None
    then have "interp_map r (k # ks) m = interp_map r ks m" by auto
    moreover have "map_values (k # ks) m = map_values ks m" using None by (simp add: map_values_def List.map_filter_def)
    ultimately show ?thesis using None Cons [of out] by (simp only: InterpolateMap.simps option.case)
  next
    case (Some v)
    have e: "out(k \<mapsto> interp_text r v) ++ interp_map r ks m = out ++ interp_map r (k # ks) m"
      using Some by (auto simp: map_add_def fun_eq_iff split: option.splits)
    have mv: "map_values (k # ks) m = v # map_values ks m" using Some by (simp add: map_values_def List.map_filter_def)
    show ?thesis
    proof (cases "resolvable r v")
      case True
      then have "InterpolateMap (k # ks) m r out = InterpolateMap ks m r (out(k \<mapsto> interp_text r v))"
        using Some by (simp add: Interpolate_ok)
      with Cons [of "out(k \<mapsto> interp_text r v)"] e mv True show ?thesis
        by (simp only: list.set ball_simps) simp
    next
      case False
      then obtain err where "Interpolate v r = Inl err" by (rule Interpolate_fails)
      with Some False show ?thesis unfolding mv by simp
    qed
  qed
qed


lemma ebind_Inr: "ebind x f = Inr w \<longleftrightarrow> (\<exists>v. x = Inr v \<and> f v = Inr w)"
  by (cases x) (auto simp: ebind_def)

lemma named_Inr: "named n x = Inr w \<longleftrightarrow> x = Inr w"
  by (cases x) (auto simp: named_def)

lemma map_values_interp: "map_values ks (interp_map r ks m) = map (interp_text r) (map_values ks m)"
proof -
  have "List.map_filter (\<lambda>k. if k \<in> K then map_option f (m k) else None) ks' = map f (List.map_filter m ks')"
    if "set ks' \<subseteq> K" for f :: "string \<Rightarrow> string" and ks' K
    using that by (induction ks') (auto simp: List.map_filter_def)
  from this [of ks "set ks"] show ?thesis unfolding map_values_def by simp
qed

text \<open>
  The interpolation of a stage succeeds exactly when every reference in the fields the
  pipeline validation looks at (\<open>stageInterpolatableStrings\<close>) resolves.  Each of these fields is
  then its text with the references replaced, and everything else of the stage, its script
  above all, is as it was.
\<close>

theorem interpolateStageConfig_spec:
  "(\<forall>s'. interpolateStageConfig bo eo s r = Inr s' \<longrightarrow>
      stageInterpolatableStrings (\<lambda>_. bo) (\<lambda>_. eo) s' =
        map (interp_text r) (stageInterpolatableStrings (\<lambda>_. bo) (\<lambda>_. eo) s) \<and>
      Stage_ID s' = Stage_ID s \<and> Stage_Name s' = Stage_Name s \<and> Stage_Type s' = Stage_Type s \<and>
      sc_Script (Stage_Config s') = sc_Script (Stage_Config s) \<and>
      sc_Timeout (Stage_Config s') = sc_Timeout (Stage_Config s) \<and>
      sc_RequiredApprovers (Stage_Config s') = sc_RequiredApprovers (Stage_Config s) \<and>
      sc_ReviewOnly (Stage_Config s') = sc_ReviewOnly (Stage_Config s)) \<and>
   ((\<exists>s'. interpolateStageConfig bo eo s r = Inr s') \<longleftrightarrow>
      list_all (resolvable r) (stageInterpolatableStrings (\<lambda>_. bo) (\<lambda>_. eo) s))"
proof -
  note eqs = interpolateStageConfig_def Let_def ebind_Inr named_Inr Interpolate_eq InterpolateSlice_eq
    InterpolateMap_eq
  show ?thesis
    unfolding eqs
    by (auto simp: stageInterpolatableStrings_def map_values_interp list_all_iff Let_def simp del: set_map_values)
qed

theorem interpolateStageConfig_spec_witness:
  "list_all (resolvable [''a'' \<mapsto> [''image'' \<mapsto> ''img:1'']])
     (stageInterpolatableStrings (\<lambda>_. []) (\<lambda>_. []) (Pipeline_Stages demo_pipeline ! 1)) \<and>
   (case interpolateStageConfig [] [] (Pipeline_Stages demo_pipeline ! 1) [''a'' \<mapsto> [''image'' \<mapsto> ''img:1'']] of
      Inl e \<Rightarrow> False | Inr s' \<Rightarrow> Stage_ID s' = ''b'' \<and> sc_Image (Stage_Config s') = ''img:1'')"
proof -
  let ?i = "interpolateStageConfig [] [] (Pipeline_Stages demo_pipeline ! 1) [''a'' \<mapsto> [''image'' \<mapsto> ''img:1'']]"
  have c: "case ?i of Inl e \<Rightarrow> False | Inr s' \<Rightarrow> Stage_ID s' = ''b'' \<and> sc_Image (Stage_Config s') = ''img:1''"
    by code_simp
  then obtain s' where "?i = Inr s'" by (cases ?i) simp_all
  with c interpolateStageConfig_spec [of "[]" "[]" "Pipeline_Stages demo_pipeline ! 1" "[''a'' \<mapsto> [''image'' \<mapsto> ''img:1'']]"]
  show ?thesis by blast
qed

end
