(* ===== verification/Stages.thy ===== *)
theory Stages
  imports Outputs Retry LineWriter
begin

text \<open>
  The stage bodies of \<open>backend/internal/service/stages.go\<close>: the retry policy of a stage, the
  capped log buffer, and one operation per stage type.  The adapters (builder, pusher,
  deployers, container runner, GitOps writer) and the cloud targets are fields of the
  executor: each takes its request and the outside world, and gives the chunks it wrote to
  the log writer, its result and the new world.
\<close>

subsection \<open>The retry policy of a stage\<close>

definition policyFromStage :: "('e \<Rightarrow> bool) \<Rightarrow> Stage \<Rightarrow> 'e Policy" where
  "policyFromStage is_ctx stage =
     (let c = Stage_Config stage;
          r = sc_Retry c;
          attempts = (case r of None \<Rightarrow> wrap64 (1 + sc_Retries c)
                      | Some r \<Rightarrow> if RetryPolicy_MaxAttempts r > 0 then RetryPolicy_MaxAttempts r
                                  else wrap64 (1 + sc_Retries c));
          init = (case r of None \<Rightarrow> 1 * Second
                  | Some r \<Rightarrow> if RetryPolicy_InitialMS r > 0 then wrap64 (RetryPolicy_InitialMS r * Millisecond)
                              else 1 * Second);
          mx = (case r of None \<Rightarrow> 15 * Second
                | Some r \<Rightarrow> if RetryPolicy_MaxMS r > 0 then wrap64 (RetryPolicy_MaxMS r * Millisecond)
                            else 15 * Second);
          attempts = (if attempts < 1 then 1 else attempts);
          attempts = (if attempts > 10 then 10 else attempts);
          init = (if init < 100 * Millisecond then 100 * Millisecond else init);
          init = (if init > Minute then Minute else init);
          mx = (if mx < init then init else mx);
          mx = (if mx > 5 * Minute then 5 * Minute else mx);
          mx = (case r of None \<Rightarrow> mx | Some r \<Rightarrow> if RetryPolicy_Exponential r = Some False then init else mx);
          attempts = (if Stage_Type stage \<in> set [''approval'', ''custom'', ''test''] then 1 else attempts)
      in \<lparr>Policy_MaxAttempts = attempts, Policy_Initial = init, Policy_Max = mx,
          Policy_IsTransient = Some (\<lambda>e. \<not> is_ctx e)\<rparr>)"

text \<open>The type \<open>builder.CacheSpec\<close> mirrors the one of the model; a nil spec is the zero value.\<close>

definition builderCacheSpec :: "CacheSpec option \<Rightarrow> CacheSpec" where
  "builderCacheSpec c =
     (case c of None \<Rightarrow> \<lparr>CacheSpec_Mode = [], CacheSpec_Ref = [], CacheSpec_Inline = False\<rparr>
      | Some c \<Rightarrow> \<lparr>CacheSpec_Mode = CacheSpec_Mode c, CacheSpec_Ref = CacheSpec_Ref c,
                   CacheSpec_Inline = CacheSpec_Inline c\<rparr>)"

subsection \<open>The capped log buffer\<close>

record cappedBuffer =
  cb_buf :: string
  cb_cap :: nat
  cb_truncated :: bool

definition newCappedBuffer :: "nat \<Rightarrow> cappedBuffer" where
  "newCappedBuffer cap = \<lparr>cb_buf = [], cb_cap = cap, cb_truncated = False\<rparr>"

definition log_marker :: string where
  "log_marker = [NL] @ ''... [log truncated at 1 MiB] ...'' @ [NL]"

definition cb_Write :: "cappedBuffer \<Rightarrow> string \<Rightarrow> nat \<times> cappedBuffer" where
  "cb_Write c p =
     (if cb_cap c \<le> length (cb_buf c) then
        (length p,
         if \<not> cb_truncated c then c\<lparr>cb_buf := cb_buf c @ log_marker, cb_truncated := True\<rparr> else c)
      else
        (let remaining = cb_cap c - length (cb_buf c) in
         if length p \<le> remaining then (length p, c\<lparr>cb_buf := cb_buf c @ p\<rparr>)
         else (length p, c\<lparr>cb_buf := (cb_buf c @ take remaining p) @ log_marker, cb_truncated := True\<rparr>)))"

fun cb_writes :: "cappedBuffer \<Rightarrow> string list \<Rightarrow> cappedBuffer" where
  "cb_writes c [] = c"
| "cb_writes c (p # ps) = cb_writes (snd (cb_Write c p)) ps"

abbreviation stageLogCap :: nat where "stageLogCap \<equiv> 1048576"

definition cb_inv :: "nat \<Rightarrow> string \<Rightarrow> cappedBuffer \<Rightarrow> bool" where
  "cb_inv cap inp c \<longleftrightarrow> cb_cap c = cap \<and>
     cb_buf c = take cap inp @ (if cb_truncated c then log_marker else []) \<and>
     (cb_truncated c \<longrightarrow> cap \<le> length inp) \<and> (cap < length inp \<longrightarrow> cb_truncated c)"

lemma cb_Write_inv:
  assumes "cb_inv cap inp c"
  shows "cb_inv cap (inp @ p) (snd (cb_Write c p)) \<and> fst (cb_Write c p) = length p"
proof (cases "cb_truncated c")
  case True
  with assms have "cb_cap c \<le> length (cb_buf c)" by (auto simp: cb_inv_def)
  with assms True show ?thesis by (auto simp: cb_inv_def cb_Write_def)
next
  case False
  with assms have b: "cb_buf c = inp" "length inp \<le> cap" "cb_cap c = cap" by (auto simp: cb_inv_def)
  show ?thesis
  proof (cases "cap \<le> length inp")
    case True
    with False b show ?thesis by (auto simp: cb_inv_def cb_Write_def)
  next
    case less: False
    with False b show ?thesis by (auto simp: cb_inv_def cb_Write_def Let_def)
  qed
qed

lemma cb_writes_inv:
  "cb_inv cap inp c \<Longrightarrow> cb_inv cap (inp @ concat ps) (cb_writes c ps)"
proof (induction ps arbitrary: inp c)
  case (Cons p ps)
  have "cb_inv cap ((inp @ p) @ concat ps) (cb_writes (snd (cb_Write c p)) ps)"
    using Cons.IH cb_Write_inv [OF Cons.prems] by blast
  then show ?case by simp
qed simp

text \<open>
  Whatever an adapter writes, in whatever pieces, the stage log is its first 1 MiB, followed
  by the truncation marker exactly when something came after the cap; so it is never longer
  than the cap and the marker, and a \<open>Write\<close> always reports the whole piece as written.
\<close>

theorem cappedBuffer_head:
  "(let c = cb_writes (newCappedBuffer cap) ps in
      cb_buf c = take cap (concat ps) @ (if cb_truncated c then log_marker else []) \<and>
      (cb_truncated c \<or> length (concat ps) \<le> cap) \<and>
      (cb_buf c = concat ps \<or> cap \<le> length (concat ps)) \<and>
      length (cb_buf c) \<le> cap + length log_marker) \<and>
   fst (cb_Write c p) = length p"
proof -
  have "cb_inv cap [] (newCappedBuffer cap)" by (simp add: cb_inv_def newCappedBuffer_def)
  from cb_writes_inv [OF this, of ps] show ?thesis
    by (auto simp: cb_inv_def Let_def cb_Write_def)
qed

lemma policy_bounds:
  "let p = policyFromStage is_ctx stage in
     1 \<le> Policy_MaxAttempts p \<and> Policy_MaxAttempts p \<le> 10 \<and>
     100 * Millisecond \<le> Policy_Initial p \<and> Policy_Initial p \<le> Minute \<and>
     Policy_Initial p \<le> Policy_Max p \<and> Policy_Max p \<le> 5 * Minute"
  unfolding policyFromStage_def Let_def by (simp split: option.split)

text \<open>
  For every stage, also one with wrapped-around or negative numbers, the policy is within
  its bounds: 1 to 10 attempts, an initial delay of 100 ms to 1 minute, a maximal delay from
  the initial one to 5 minutes.  Without exponential growth both delays are the same, and
  approval, custom and test stages get one attempt.
\<close>

theorem policyFromStage_bounds:
  "let p = policyFromStage is_ctx stage in
     1 \<le> Policy_MaxAttempts p \<and> Policy_MaxAttempts p \<le> 10 \<and>
     100 * Millisecond \<le> Policy_Initial p \<and> Policy_Initial p \<le> Minute \<and>
     Policy_Initial p \<le> Policy_Max p \<and> Policy_Max p \<le> 5 * Minute \<and>
     (map_option RetryPolicy_Exponential (sc_Retry (Stage_Config stage)) = Some (Some False) \<longrightarrow>
        Policy_Max p = Policy_Initial p) \<and>
     (Stage_Type stage \<in> {''approval'', ''custom'', ''test''} \<longrightarrow> Policy_MaxAttempts p = 1)"
  using policy_bounds [of is_ctx stage]
  unfolding policyFromStage_def Let_def by (simp split: option.split)


theorem policyFromStage_bounds_witness:
  "Policy_MaxAttempts (policyFromStage (\<lambda>_::unit. False)
     (hd (Pipeline_Stages demo_pipeline)\<lparr>Stage_Type := ''approval''\<rparr>)) = 1"
  using policyFromStage_bounds [of "\<lambda>_::unit. False" "hd (Pipeline_Stages demo_pipeline)\<lparr>Stage_Type := ''approval''\<rparr>"]
  by (simp add: Let_def)

subsection \<open>The executor and its adapters\<close>

record builder_Request =
  BQ_ContextDir :: string
  BQ_Dockerfile :: string
  BQ_Tags :: "string list"
  BQ_BuildArgs :: "string \<rightharpoonup> string"
  BQ_Target :: string
  BQ_Platforms :: "string list"
  BQ_Cache :: CacheSpec

record pusher_Request =
  PQ_Source :: string
  PQ_Target :: string

record deployer_Request =
  DQ_Kind :: string
  DQ_Namespace :: string
  DQ_Manifest :: string
  DQ_HelmChart :: string
  DQ_ReleaseName :: string
  DQ_Image :: string
  DQ_Name :: string
  DQ_Ports :: "string list"
  DQ_Env :: "string \<rightharpoonup> string"
  DQ_Resources :: "ResourceLimits option"
  DQ_Labels :: "string \<rightharpoonup> string"
  DQ_Network :: string
  DQ_ComposeFile :: string
  DQ_ComposeService :: string

record stagerunner_Request =
  SQ_Image :: string
  SQ_Command :: "string list"
  SQ_Script :: string
  SQ_Env :: "string \<rightharpoonup> string"

record gitops_Request =
  GQ_Repo :: string
  GQ_Branch :: string
  GQ_Path :: string
  GQ_Content :: string
  GQ_Message :: string

text \<open>An adapter: the chunks it logs, its result, the world after it.\<close>

type_synonym ('q, 'r, 'e, 'w) adapter = "'q \<Rightarrow> 'w \<Rightarrow> string list \<times> ('e + 'r) \<times> 'w"

text \<open>What a poll of an approval gate sees: the context is done, a failed read, or a status.\<close>

datatype 'e gate_poll = PollDone 'e | PollError | PollStatus string string

text \<open>
  \<open>ex_await run stage n\<close> is \<open>StageApprovalService.Await\<close> (required approvers, status and resolver
  of the gate), \<open>ex_poll\<close> one round of the \<open>select\<close>; \<open>None\<close> stands for the unset service.
  \<open>ex_outputs\<close> is \<open>outputsEnabled()\<close>, \<open>ex_order\<close> the order in which a map is visited.
\<close>

record ('e, 'w, 's) Executor =
  ex_builder :: "(builder_Request, builder_Result, 'e, 'w) adapter"
  ex_pusher :: "(pusher_Request, pusher_Result, 'e, 'w) adapter"
  ex_deployer :: "(deployer_Request, deployer_Result, 'e, 'w) adapter"
  ex_dockerDeployer :: "(deployer_Request, deployer_Result, 'e, 'w) adapter option"
  ex_composeDeployer :: "(deployer_Request, deployer_Result, 'e, 'w) adapter option"
  ex_cloudDeploy :: "(Stage, unit, 'e, 'w) adapter"
  ex_stageRunner :: "(stagerunner_Request, int, 'e, 'w) adapter"
  ex_gitops :: "gitops_Request \<Rightarrow> 'w \<Rightarrow> ('e + string) \<times> 'w"
  ex_await :: "(string \<Rightarrow> string \<Rightarrow> int \<Rightarrow> 'w \<Rightarrow> ('e + int \<times> string \<times> string) \<times> 'w) option"
  ex_poll :: "string \<Rightarrow> string \<Rightarrow> 'w \<Rightarrow> 'e gate_poll \<times> 'w"
  ex_govHook :: "(string \<Rightarrow> Stage \<Rightarrow> 'w \<Rightarrow> 'e option \<times> 'w) option"
  ex_proxyNetwork :: string
  ex_outputs :: bool
  ex_order :: "(string \<rightharpoonup> string) \<Rightarrow> string list"
  ex_logBroadcast :: bool
  ex_logStore :: bool
  ex_append :: "'s append_op"
  ex_encode :: encode_op
  ex_ts :: "int \<Rightarrow> time"
  ex_statusBroadcast :: bool

text \<open>
  What a stage body works on: its \<open>StageRun\<close>, the log store with the frames sent, the status
  frames sent on the channel of the run, and the outside world.
\<close>

record ('w, 's) stage_env =
  se_sr :: StageRun
  se_log :: "'s log_world"
  se_status :: "(string \<times> string) list"
  se_world :: 'w

datatype 'e stage_error =
    UseAppDeploy
  | ImageRequired string
  | ScriptRequired string
  | ManifestRequired string
  | UnsupportedRuntime string
  | CommandExited string string int
  | AdapterErr string 'e
  | GateNotConfigured string
  | GateRejected string string
  | GateCtx string 'e
  | GitOpsRequired string string
  | GovernanceDenied 'e
  | UnknownStageType string
  | InterpolationErr config_error
  | CtxFailed 'e

definition newStageLineWriter :: "('e, 'w, 's) Executor \<Rightarrow> string \<Rightarrow> Stage \<Rightarrow> lineWriter option" where
  "newStageLineWriter ex runID stage =
     (if \<not> ex_logBroadcast ex \<and> \<not> ex_logStore ex then None
      else if runID = [] \<or> Stage_ID stage = [] then None
      else Some (newLineWriter (ex_logBroadcast ex) (ex_logStore ex) runID (Stage_ID stage)))"

text \<open>
  The tee of an adapter's log: every chunk goes to the capped buffer and, when there is one, to
  the line writer, which is flushed at the end.
\<close>

definition tee_log ::
  "('e, 'w, 's) Executor \<Rightarrow> string \<Rightarrow> Stage \<Rightarrow> string list \<Rightarrow> ('w, 's) stage_env \<Rightarrow> ('w, 's) stage_env" where
  "tee_log ex runID stage chunks st =
     st\<lparr>se_sr := (se_sr st)\<lparr>SR_Logs := cb_buf (cb_writes (newCappedBuffer stageLogCap) chunks)\<rparr>,
        se_log := (case newStageLineWriter ex runID stage of
           None \<Rightarrow> se_log st
         | Some lw \<Rightarrow> snd (lw_flush (ex_append ex) (ex_encode ex) (ex_ts ex)
                        (lw_writes (ex_append ex) (ex_encode ex) (ex_ts ex) chunks (lw, se_log st))))\<rparr>"

definition add_artifacts :: "Artifact list \<Rightarrow> ('w, 's) stage_env \<Rightarrow> ('w, 's) stage_env" where
  "add_artifacts as st = st\<lparr>se_sr := (se_sr st)\<lparr>SR_Artifacts := SR_Artifacts (se_sr st) @ as\<rparr>\<rparr>"

definition add_outputs ::
  "('e, 'w, 's) Executor \<Rightarrow> (string \<rightharpoonup> string) \<Rightarrow> (string \<rightharpoonup> string) \<Rightarrow> ('w, 's) stage_env
    \<Rightarrow> ('w, 's) stage_env" where
  "add_outputs ex derived adapter st =
     (if ex_outputs ex
      then st\<lparr>se_sr := applyStageOutputs (ex_order ex (derived ++ adapter)) (se_sr st) derived adapter\<rparr>
      else st)"

type_synonym ('e, 'w, 's) stage_op = "('w, 's) stage_env \<Rightarrow> 'e stage_error option \<times> ('w, 's) stage_env"

definition executeBuild :: "('e, 'w, 's) Executor \<Rightarrow> string \<Rightarrow> Stage \<Rightarrow> ('e, 'w, 's) stage_op" where
  "executeBuild ex runID stage st =
     (let c = Stage_Config stage in
      if sc_ReviewOnly c then (Some UseAppDeploy, st)
      else
        (let req = \<lparr>BQ_ContextDir = sc_Context c, BQ_Dockerfile = sc_Dockerfile c, BQ_Tags = sc_Tags c,
               BQ_BuildArgs = sc_BuildArgs c, BQ_Target = sc_BuildTarget c, BQ_Platforms = sc_Platforms c,
               BQ_Cache = builderCacheSpec (sc_Cache c)\<rparr>;
             (chunks, res, w) = ex_builder ex req (se_world st);
             st' = tee_log ex runID stage chunks (st\<lparr>se_world := w\<rparr>)
         in case res of
              Inl e \<Rightarrow> (Some (AdapterErr ''build'' e), st')
            | Inr r \<Rightarrow>
                (None, add_outputs ex (deriveBuildOutputs r) (BR_Outputs r)
                   (add_artifacts (map (\<lambda>tag. \<lparr>Artifact_Type = ''oci-image'', Artifact_Ref = tag,
                      Artifact_Digest = BR_ImageID r\<rparr>) (BR_Tags r)) st'))))"

definition runStageContainer ::
  "('e, 'w, 's) Executor \<Rightarrow> string \<Rightarrow> Stage \<Rightarrow> stagerunner_Request \<Rightarrow> ('e, 'w, 's) stage_op" where
  "runStageContainer ex runID stage req st =
     (let (chunks, res, w) = ex_stageRunner ex req (se_world st);
          st' = tee_log ex runID stage chunks (st\<lparr>se_world := w\<rparr>)
      in case res of
           Inl e \<Rightarrow> (Some (AdapterErr (Stage_Type stage) e), st')
         | Inr exitCode \<Rightarrow>
             if exitCode \<noteq> 0 then (Some (CommandExited (Stage_Type stage) (Stage_Name stage) exitCode), st')
             else (None, st'))"

definition executeTest :: "('e, 'w, 's) Executor \<Rightarrow> string \<Rightarrow> Stage \<Rightarrow> ('e, 'w, 's) stage_op" where
  "executeTest ex runID stage st =
     (let c = Stage_Config stage in
      if sc_Image c = [] then (Some (ImageRequired (Stage_Name stage)), st)
      else runStageContainer ex runID stage
             \<lparr>SQ_Image = sc_Image c, SQ_Command = sc_Command c, SQ_Script = [], SQ_Env = sc_Env c\<rparr> st)"

definition executeCustom :: "('e, 'w, 's) Executor \<Rightarrow> string \<Rightarrow> Stage \<Rightarrow> ('e, 'w, 's) stage_op" where
  "executeCustom ex runID stage st =
     (let c = Stage_Config stage in
      if sc_Script c = [] \<and> sc_Command c = [] then (Some (ScriptRequired (Stage_Name stage)), st)
      else if sc_Image c = [] then (Some (ImageRequired (Stage_Name stage)), st)
      else runStageContainer ex runID stage
             \<lparr>SQ_Image = sc_Image c, SQ_Command = sc_Command c, SQ_Script = sc_Script c, SQ_Env = sc_Env c\<rparr> st)"


subsection \<open>Push and deploy\<close>

definition hasRegistryHost :: "string \<Rightarrow> bool" where
  "hasRegistryHost ref =
     (CHR ''/'' \<in> set ref \<and>
      (let head = takeWhile (\<lambda>c. c \<noteq> CHR ''/'') ref in CHR ''.'' \<in> set head \<or> CHR '':'' \<in> set head))"

definition executePush :: "('e, 'w, 's) Executor \<Rightarrow> string \<Rightarrow> Stage \<Rightarrow> ('e, 'w, 's) stage_op" where
  "executePush ex runID stage st =
     (let c = Stage_Config stage;
          target = (if sc_Registry c \<noteq> [] \<and> \<not> hasRegistryHost (sc_Repository c)
                    then sc_Registry c @ ''/'' @ sc_Repository c else sc_Repository c);
          (chunks, res, w) = ex_pusher ex \<lparr>PQ_Source = sc_Image c, PQ_Target = target\<rparr> (se_world st);
          st' = tee_log ex runID stage chunks (st\<lparr>se_world := w\<rparr>)
      in case res of
           Inl e \<Rightarrow> (Some (AdapterErr ''push'' e), st')
         | Inr r \<Rightarrow>
             (None, add_outputs ex (derivePushOutputs r target) (PR_Outputs r)
                (add_artifacts [\<lparr>Artifact_Type = ''oci-image'', Artifact_Ref = target,
                   Artifact_Digest = PR_Digest r\<rparr>] st')))"

text \<open>
  \<open>strconv.Atoi\<close> of a trimmed text, as far as a port needs it: an optional sign and digits.
\<close>

function skip_spaces :: "nat list \<Rightarrow> nat list" where
  "skip_spaces bs =
     (if bs \<noteq> [] \<and> is_space (fst (decode_rune bs)) then skip_spaces (drop (snd (decode_rune bs)) bs) else bs)"
  by pat_completeness auto
termination
  by (relation "measure length") (use decode_width in auto)

declare skip_spaces.simps [simp del]

definition is_digit_byte :: "nat \<Rightarrow> bool" where
  "is_digit_byte b \<longleftrightarrow> 48 \<le> b \<and> b \<le> 57"

definition parse_port :: "string \<Rightarrow> nat option" where
  "parse_port spec =
     (let bs = skip_spaces (map of_char spec);
          digits = (case bs of b # r \<Rightarrow> if b = 43 then r else bs | [] \<Rightarrow> []);
          ds = takeWhile is_digit_byte digits;
          n = foldl (\<lambda>n b. 10 * n + (b - 48)) 0 ds
      in if ds \<noteq> [] \<and> skip_spaces (dropWhile is_digit_byte digits) = [] \<and> 0 < n \<and> n \<le> 65535
         then Some n else None)"

definition after_last_colon :: "string \<Rightarrow> string" where
  "after_last_colon p = rev (takeWhile (\<lambda>c. c \<noteq> CHR '':'') (rev p))"

fun firstContainerPort :: "string list \<Rightarrow> nat" where
  "firstContainerPort [] = 80"
| "firstContainerPort (p # ps) =
     (case parse_port (takeWhile (\<lambda>c. c \<noteq> CHR ''/'') (after_last_colon p)) of
        Some n \<Rightarrow> n
      | None \<Rightarrow> firstContainerPort ps)"

definition traefikLabels :: "string \<Rightarrow> string \<Rightarrow> nat \<Rightarrow> (string \<rightharpoonup> string)" where
  "traefikLabels router host port =
     [''traefik.enable'' \<mapsto> ''true'',
      ''traefik.http.routers.'' @ router @ ''.rule'' \<mapsto> ''Host('' @ [CHR 0x60] @ host @ [CHR 0x60] @ '')'',
      ''traefik.http.services.'' @ router @ ''.loadbalancer.server.port'' \<mapsto> show_decimal port]"

definition composePortsToPublish :: "StageConfig \<Rightarrow> string list" where
  "composePortsToPublish cfg = sc_ComposePorts cfg"

abbreviation KindManifest :: string where "KindManifest \<equiv> ''manifest''"
abbreviation KindHelm :: string where "KindHelm \<equiv> ''helm''"
abbreviation KindCompose :: string where "KindCompose \<equiv> ''compose''"
abbreviation KindDockerRun :: string where "KindDockerRun \<equiv> ''docker-run''"

text \<open>The choice of the deployer and the kind of the request.\<close>

definition select_deployer ::
  "('e, 'w, 's) Executor \<Rightarrow> Stage
    \<Rightarrow> 'e stage_error + ((deployer_Request, deployer_Result, 'e, 'w) adapter \<times> string)" where
  "select_deployer ex stage =
     (let c = Stage_Config stage; rt = sc_DeployRuntime c in
      if rt = ''docker'' then
        Inr (case ex_dockerDeployer ex of Some d \<Rightarrow> d | None \<Rightarrow> ex_deployer ex, KindDockerRun)
      else if rt = ''compose'' then
        Inr (case ex_composeDeployer ex of Some d \<Rightarrow> d | None \<Rightarrow> ex_deployer ex, KindCompose)
      else if rt = [] \<or> rt = ''kubernetes'' then
        (if sc_HelmChart c \<noteq> [] then Inr (ex_deployer ex, KindHelm)
         else if sc_ManifestPath c \<noteq> [] then Inr (ex_deployer ex, KindManifest)
         else Inl (ManifestRequired (Stage_Name stage)))
      else Inl (UnsupportedRuntime rt))"

definition deploy_request :: "('e, 'w, 's) Executor \<Rightarrow> Stage \<Rightarrow> string \<Rightarrow> deployer_Request" where
  "deploy_request ex stage kind =
     (let c = Stage_Config stage;
          req = \<lparr>DQ_Kind = kind, DQ_Namespace = sc_Namespace c, DQ_Manifest = [], DQ_HelmChart = sc_HelmChart c,
            DQ_ReleaseName = Stage_Name stage, DQ_Image = sc_Image c, DQ_Name = [], DQ_Ports = [],
            DQ_Env = Map.empty, DQ_Resources = None, DQ_Labels = Map.empty, DQ_Network = [],
            DQ_ComposeFile = [], DQ_ComposeService = []\<rparr>
      in if kind = KindManifest then req\<lparr>DQ_Manifest := sc_ManifestPath c\<rparr>
         else if kind = KindDockerRun then
           (let name = (if sc_RuntimeName c = [] then sc_ComposeServiceName c else sc_RuntimeName c);
                req = req\<lparr>DQ_Name := name, DQ_Ports := composePortsToPublish c, DQ_Env := sc_Env c,
                          DQ_Resources := sc_Resources c\<rparr>
            in if sc_ProxyHost c \<noteq> [] then
                 (let router = sanitize name;
                      router = (if router = [] then sanitize (Stage_Name stage) else router)
                  in req\<lparr>DQ_Labels := traefikLabels router (sc_ProxyHost c) (firstContainerPort (sc_ComposePorts c)),
                         DQ_Network := (if ex_proxyNetwork ex \<noteq> [] then ex_proxyNetwork ex else DQ_Network req)\<rparr>)
               else req)
         else if kind = KindCompose then
           (let req = req\<lparr>DQ_Name := sc_ComposeServiceName c, DQ_ComposeFile := sc_ManifestPath c\<rparr>
            in if sc_ComposeProject c \<noteq> []
               then req\<lparr>DQ_Name := sc_ComposeProject c, DQ_ComposeService := sc_ComposeServiceName c\<rparr>
               else req)
         else req)"

definition executeDeploy :: "('e, 'w, 's) Executor \<Rightarrow> string \<Rightarrow> Stage \<Rightarrow> ('e, 'w, 's) stage_op" where
  "executeDeploy ex runID stage st =
     (let c = Stage_Config stage in
      if sc_ReviewOnly c then (Some UseAppDeploy, st)
      else if sc_DeployRuntime c = ''ecs'' \<or> sc_DeployRuntime c = ''cloud-run'' then
        (let (chunks, res, w) = ex_cloudDeploy ex stage (se_world st);
             st' = tee_log ex runID stage chunks (st\<lparr>se_world := w\<rparr>)
         in case res of
              Inl e \<Rightarrow> (Some (AdapterErr [] e), st')
            | Inr _ \<Rightarrow> (None, add_artifacts [\<lparr>Artifact_Type = ''cloud-service'',
                Artifact_Ref = sc_DeployRuntime c @ ''/'' @ sc_RuntimeName c, Artifact_Digest = []\<rparr>] st'))
      else
        (case select_deployer ex stage of
           Inl e \<Rightarrow> (Some e, st)
         | Inr (dep, kind) \<Rightarrow>
             (let (chunks, res, w) = dep (deploy_request ex stage kind) (se_world st);
                  st' = tee_log ex runID stage chunks (st\<lparr>se_world := w\<rparr>)
              in case res of
                   Inl e \<Rightarrow> (Some (AdapterErr ''deploy'' e), st')
                 | Inr r \<Rightarrow>
                     (let resType = (if kind = KindDockerRun \<or> kind = KindCompose then ''container''
                                     else ''k8s-resource'')
                      in (None, add_outputs ex (deriveDeployOutputs r) (DR_Outputs r)
                            (add_artifacts (map (\<lambda>a. \<lparr>Artifact_Type = resType, Artifact_Ref = a,
                               Artifact_Digest = []\<rparr>) (DR_AppliedResources r)) st'))))))"

definition executeGitOpsCommit :: "('e, 'w, 's) Executor \<Rightarrow> Stage \<Rightarrow> ('e, 'w, 's) stage_op" where
  "executeGitOpsCommit ex stage st =
     (let c = Stage_Config stage in
      if sc_GitOpsRepo c = [] then (Some (GitOpsRequired (Stage_Name stage) ''gitopsRepo''), st)
      else if sc_GitOpsPath c = [] then (Some (GitOpsRequired (Stage_Name stage) ''gitopsPath''), st)
      else
        (let req = \<lparr>GQ_Repo = sc_GitOpsRepo c, GQ_Branch = sc_GitOpsBranch c, GQ_Path = sc_GitOpsPath c,
               GQ_Content = sc_GitOpsContent c, GQ_Message = sc_GitOpsMessage c\<rparr>;
             (res, w) = ex_gitops ex req (se_world st);
             st' = st\<lparr>se_world := w\<rparr>
         in case res of
              Inl e \<Rightarrow> (Some (AdapterErr ''gitops'' e), st')
            | Inr commitSHA \<Rightarrow>
                (let ref = sc_GitOpsRepo c @ ''@'' @ sc_GitOpsBranch c;
                     derived = (if commitSHA \<noteq> [] then Map.empty(''commit'' \<mapsto> commitSHA) else Map.empty)(''ref'' \<mapsto> ref)
                 in (None, add_outputs ex derived Map.empty
                       (add_artifacts [\<lparr>Artifact_Type = ''gitops-commit'', Artifact_Ref = ref,
                          Artifact_Digest = commitSHA\<rparr>] st')))))"


subsection \<open>The approval gate\<close>

text \<open>The loop over the ticker and the context; it may run forever, and is \<open>None\<close> then.\<close>

partial_function (option) approval_loop ::
  "('w \<Rightarrow> 'e gate_poll \<times> 'w) \<Rightarrow> string \<Rightarrow> 'w \<Rightarrow> ('e stage_error option \<times> 'w) option" where
  "approval_loop poll name w =
     (case poll w of
        (PollDone e, w') \<Rightarrow> Some (Some (GateCtx name e), w')
      | (PollError, w') \<Rightarrow> approval_loop poll name w'
      | (PollStatus status by', w') \<Rightarrow>
          if status = ''approved'' then Some (None, w')
          else if status = ''rejected'' then Some (Some (GateRejected name by'), w')
          else approval_loop poll name w')"

definition broadcastStatus :: "('e, 'w, 's) Executor \<Rightarrow> string \<Rightarrow> string \<Rightarrow> string \<Rightarrow> ('w, 's) stage_env \<Rightarrow> ('w, 's) stage_env" where
  "broadcastStatus ex runID stageID status st =
     (if \<not> ex_statusBroadcast ex \<or> runID = [] \<or> stageID = [] then st
      else st\<lparr>se_status := se_status st @ [(stageID, status)]\<rparr>)"

definition awaiting_line :: "int \<Rightarrow> string" where
  "awaiting_line required = ''awaiting approval: '' @ show_int required @ '' distinct approver(s) required'' @ [NL]"

definition executeApproval ::
  "('e, 'w, 's) Executor \<Rightarrow> string \<Rightarrow> Stage \<Rightarrow> ('w, 's) stage_env
    \<Rightarrow> ('e stage_error option \<times> ('w, 's) stage_env) option" where
  "executeApproval ex runID stage st =
     (case ex_await ex of
        None \<Rightarrow> Some (Some (GateNotConfigured (Stage_Name stage)), st)
      | Some await \<Rightarrow>
          (case await runID (Stage_ID stage) (sc_RequiredApprovers (Stage_Config stage)) (se_world st) of
             (Inl e, w) \<Rightarrow> Some (Some (AdapterErr ''open gate'' e), st\<lparr>se_world := w\<rparr>)
           | (Inr (required, status, resolvedBy), w) \<Rightarrow>
               (let line = awaiting_line required;
                    st1 = st\<lparr>se_world := w,
                      se_sr := (se_sr st)\<lparr>SR_Logs := line\<rparr>,
                      se_log := (case newStageLineWriter ex runID stage of
                         None \<Rightarrow> se_log st
                       | Some lw \<Rightarrow> snd (lw_flush (ex_append ex) (ex_encode ex) (ex_ts ex)
                           (snd (lw_Write (ex_append ex) (ex_encode ex) (ex_ts ex) line (lw, se_log st)))))\<rparr>
                in if status = ''approved'' then Some (None, st1)
                   else if status = ''rejected'' then Some (Some (GateRejected (Stage_Name stage) resolvedBy), st1)
                   else
                     (let st2 = broadcastStatus ex runID (Stage_ID stage) ''awaiting'' st1
                      in case approval_loop (ex_poll ex runID (Stage_ID stage)) (Stage_Name stage) (se_world st2) of
                           None \<Rightarrow> None
                         | Some (r, w') \<Rightarrow> Some (r, st2\<lparr>se_world := w'\<rparr>)))))"

text \<open>The polls an approval stage makes, one after the other.\<close>

fun poll_at :: "('w \<Rightarrow> 'e gate_poll \<times> 'w) \<Rightarrow> 'w \<Rightarrow> nat \<Rightarrow> 'e gate_poll" where
  "poll_at poll w 0 = fst (poll w)"
| "poll_at poll w (Suc n) = poll_at poll (snd (poll w)) n"

definition decisive :: "'e gate_poll \<Rightarrow> bool" where
  "decisive p \<longleftrightarrow> (case p of PollDone e \<Rightarrow> True | PollError \<Rightarrow> False
     | PollStatus s b \<Rightarrow> s = ''approved'' \<or> s = ''rejected'')"

definition poll_result :: "string \<Rightarrow> 'e gate_poll \<Rightarrow> 'e stage_error option" where
  "poll_result name p = (case p of PollDone e \<Rightarrow> Some (GateCtx name e) | PollError \<Rightarrow> None
     | PollStatus s b \<Rightarrow> if s = ''approved'' then None else Some (GateRejected name b))"

lemma approval_loop_decisive:
  assumes "decisive (poll_at poll w n)" "\<forall>k < n. \<not> decisive (poll_at poll w k)"
  shows "\<exists>w'. approval_loop poll name w = Some (poll_result name (poll_at poll w n), w')"
  using assms
proof (induction n arbitrary: w)
  case 0
  then show ?case
    by (subst approval_loop.simps)
      (auto simp: decisive_def poll_result_def split: gate_poll.splits prod.splits)
next
  case (Suc n)
  obtain p w1 where p: "poll w = (p, w1)" by (cases "poll w")
  have "\<not> decisive p" using Suc.prems(2) p by (metis poll_at.simps(1) fst_conv zero_less_Suc)
  then have "approval_loop poll name w = approval_loop poll name w1"
    using p by (subst approval_loop.simps) (auto simp: decisive_def split: gate_poll.splits)
  moreover have "\<forall>k < n. \<not> decisive (poll_at poll w1 k)"
    using Suc.prems(2) p by (metis poll_at.simps(2) snd_conv Suc_less_eq)
  ultimately show ?case using Suc.IH [of w1] Suc.prems(1) p by simp
qed

lemma approval_loop_waits:
  assumes "approval_loop poll name w = Some r"
  shows "\<exists>n. decisive (poll_at poll w n)"
proof (rule approval_loop.raw_induct [where P = "\<lambda>poll name w r. \<exists>n. decisive (poll_at poll w n)", OF _ assms])
  fix loop and poll :: "'w \<Rightarrow> 'e gate_poll \<times> 'w" and name w r
  assume ih: "\<And>poll name w r. loop poll name w = Some r \<Longrightarrow> \<exists>n. decisive (poll_at poll w n)"
    and eq: "(case poll w of
        (PollDone e, w') \<Rightarrow> Some (Some (GateCtx name e), w')
      | (PollError, w') \<Rightarrow> loop poll name w'
      | (PollStatus status by', w') \<Rightarrow>
          if status = ''approved'' then Some (None, w')
          else if status = ''rejected'' then Some (Some (GateRejected name by'), w')
          else loop poll name w') = Some r"
  obtain p w1 where p: "poll w = (p, w1)" by (cases "poll w")
  show "\<exists>n. decisive (poll_at poll w n)"
  proof (cases "decisive p")
    case True
    then show ?thesis using p by (intro exI [of _ 0]) simp
  next
    case False
    then have "loop poll name w1 = Some r"
      using eq p by (auto simp: decisive_def split: gate_poll.splits if_splits)
    from ih [OF this] obtain n where "decisive (poll_at poll w1 n)" by blast
    then show ?thesis using p by (intro exI [of _ "Suc n"]) simp
  qed
qed

text \<open>Where the polling of a stage starts: its gate is open, and its world is the one \<open>Await\<close> left.\<close>

definition gate_opens :: "('e, 'w, 's) Executor \<Rightarrow> string \<Rightarrow> Stage \<Rightarrow> ('w, 's) stage_env \<Rightarrow> 'w \<Rightarrow> bool" where
  "gate_opens ex runID stage st w \<longleftrightarrow>
     (\<exists>await required status by'. ex_await ex = Some await \<and>
        await runID (Stage_ID stage) (sc_RequiredApprovers (Stage_Config stage)) (se_world st)
          = (Inr (required, status, by'), w) \<and> status \<noteq> ''approved'' \<and> status \<noteq> ''rejected'')"



subsection \<open>A concrete executor\<close>

text \<open>
  Adapters that succeed at once; the world counts the polls of the gate, which fail once and
  then find it approved.
\<close>

definition demo_executor :: "(string, nat, unit) Executor" where
  "demo_executor = \<lparr>
     ex_builder = (\<lambda>q w. ([''built''], Inr \<lparr>BR_ImageID = ''sha'', BR_Tags = [''app:1''], BR_Outputs = Map.empty\<rparr>, w)),
     ex_pusher = (\<lambda>q w. ([], Inr \<lparr>PR_Digest = ''sha'', PR_Outputs = Map.empty\<rparr>, w)),
     ex_deployer = (\<lambda>q w. ([], Inr \<lparr>DR_AppliedResources = [], DR_Outputs = Map.empty\<rparr>, w)),
     ex_dockerDeployer = None, ex_composeDeployer = None,
     ex_cloudDeploy = (\<lambda>q w. ([], Inr (), w)),
     ex_stageRunner = (\<lambda>q w. ([], Inr 0, w)),
     ex_gitops = (\<lambda>q w. (Inr ''c0ffee'', w)),
     ex_await = Some (\<lambda>run stage n w. (Inr (1, ''awaiting'', []), w)),
     ex_poll = (\<lambda>run stage w. (if w = 0 then PollError else PollStatus ''approved'' ''ann'', w + 1)),
     ex_govHook = None, ex_proxyNetwork = [], ex_outputs = True,
     ex_order = (\<lambda>m. filter (\<lambda>k. m k \<noteq> None) [''digest'', ''tag'', ''tags'']),
     ex_logBroadcast = False, ex_logStore = False, ex_append = (\<lambda>_ _ _ s. s), ex_encode = (\<lambda>_ _ _. None),
     ex_ts = (\<lambda>_. 0), ex_statusBroadcast = True\<rparr>"

definition demo_stage_run :: StageRun where
  "demo_stage_run = \<lparr>SR_StageID = ''a'', SR_Status = ''pending'', SR_StartedAt = None, SR_FinishedAt = None,
     SR_Logs = [], SR_Error = [], SR_Artifacts = [], SR_Outputs = Map.empty\<rparr>"

definition demo_env :: "(nat, unit) stage_env" where
  "demo_env = \<lparr>se_sr = demo_stage_run, se_log = ((), []), se_status = [], se_world = 0\<rparr>"


text \<open>
  A docker deploy with a proxy host but no name for its container: \<open>sanitize\<close> never returns the
  empty text, so the stage's own name is never used for the router, and all such stages share
  the router \<open>app\<close>.
\<close>

lemma router_ignores_stage_name:
  assumes "sc_ProxyHost (Stage_Config stage) \<noteq> []"
    and "sc_RuntimeName (Stage_Config stage) = []" "sc_ComposeServiceName (Stage_Config stage) = []"
  shows "DQ_Labels (deploy_request ex stage KindDockerRun) =
    traefikLabels ''app'' (sc_ProxyHost (Stage_Config stage))
      (firstContainerPort (sc_ComposePorts (Stage_Config stage)))"
proof -
  have "sanitize [] = ''app''" by code_simp
  with assms show ?thesis by (simp add: deploy_request_def Let_def)
qed

end
