(* ===== verification/Executor.thy ===== *)
theory Executor
  imports Stages RunStatus Runner
begin

text \<open>
  The executor of \<open>backend/internal/service/executor.go\<close>: the body that the DAG runner calls for
  a stage, the batching of the progress writes, the final status of a run, and \<open>Execute\<close> as a
  whole.  The transitions go through \<open>RunStatus\<close> with the parameters named there (\<open>lf\<close>, \<open>ks\<close>,
  \<open>gs\<close>); a refused transition falls back to a direct assignment.
\<close>

record PipelineRun =
  Run_ID :: string
  Run_Status :: string
  Run_StageRuns :: "StageRun list"
  Run_StartedAt :: "time option"
  Run_FinishedAt :: "time option"
  Run_Error :: string

record RunResult =
  Result_Status :: string
  Result_FinishedAt :: time

type_synonym orders = "(string \<times> string) list \<times> (string \<times> string) list"

definition stage_to :: "lf_event \<Rightarrow> orders \<Rightarrow> string \<Rightarrow> string \<Rightarrow> string \<Rightarrow> string" where
  "stage_to lf o' cur ev fallback =
     (case TransitionStage lf (fst o') (snd o') cur ev of (next, None) \<Rightarrow> next | (_, Some _) \<Rightarrow> fallback)"

definition run_to :: "lf_event \<Rightarrow> orders \<Rightarrow> string \<Rightarrow> string \<Rightarrow> string \<Rightarrow> string" where
  "run_to lf o' cur ev fallback =
     (case TransitionRun lf (fst o') (snd o') cur ev of (next, None) \<Rightarrow> next | (_, Some _) \<Rightarrow> fallback)"

subsection \<open>The final status of a run\<close>

text \<open>
  The error of a run: whether \<open>errors.Is(err, context.Canceled)\<close> holds of it, and its text.
\<close>

type_synonym run_err = "bool \<times> string"

definition finalize ::
  "lf_event \<Rightarrow> orders \<Rightarrow> time \<Rightarrow> PipelineRun \<Rightarrow> run_err option \<Rightarrow> bool \<Rightarrow> PipelineRun \<times> RunResult" where
  "finalize lf o' now run runErr startedCancelled =
     (let run = run\<lparr>Run_FinishedAt := Some now\<rparr>;
          keep_error = (\<lambda>r msg. if Run_Error r = [] then r\<lparr>Run_Error := msg\<rparr> else r);
          run =
            (if startedCancelled \<or> Run_Status run = ''cancelled'' then
               run\<lparr>Run_Status := run_to lf o' (Run_Status run) ''cancel'' ''cancelled''\<rparr>
             else (case runErr of
                 Some (canceled, msg) \<Rightarrow>
                   if canceled
                   then keep_error (run\<lparr>Run_Status := run_to lf o' (Run_Status run) ''cancel'' ''cancelled''\<rparr>) msg
                   else keep_error (run\<lparr>Run_Status := run_to lf o' (Run_Status run) ''fail'' ''failed''\<rparr>) msg
               | None \<Rightarrow> run\<lparr>Run_Status := run_to lf o' (Run_Status run) ''succeed'' ''success''\<rparr>))
      in (run, \<lparr>Result_Status = Run_Status run, Result_FinishedAt = now\<rparr>))"

lemma run_to_eq:
  assumes "looplab_ok lf" "build_orders runBuilder ks gs"
  shows "run_to lf (ks, gs) cur ''cancel'' ''cancelled'' = ''cancelled''"
    and "run_to lf (ks, gs) cur ''fail'' ''failed'' = ''failed''"
    and "run_to lf (ks, gs) cur ''succeed'' ''success'' = ''success''"
proof -
  note tab = run_table(2)
  have "TransitionRun lf ks gs cur ev =
      (case Builder_table runBuilder (cur, ev) of
         None \<Rightarrow> (cur, Some (ErrInvalidTransition (Builder_name runBuilder) cur ev)) | Some dst \<Rightarrow> (dst, None))" for ev
    unfolding TransitionRun_def Apply_table [OF assms no_self_edge(1)]
    by (simp add: Build_def split: option.split)
  then show "run_to lf (ks, gs) cur ''cancel'' ''cancelled'' = ''cancelled''"
    "run_to lf (ks, gs) cur ''fail'' ''failed'' = ''failed''"
    "run_to lf (ks, gs) cur ''succeed'' ''success'' = ''success''"
    unfolding run_to_def by (simp_all add: tab)
qed

lemma finalize_eq:
  assumes "looplab_ok lf" "build_orders runBuilder ks gs"
  shows "finalize lf (ks, gs) now run runErr startedCancelled =
    (let st = (if startedCancelled \<or> Run_Status run = ''cancelled'' then ''cancelled''
               else case runErr of None \<Rightarrow> ''success''
                    | Some (canceled, msg) \<Rightarrow> if canceled then ''cancelled'' else ''failed'');
         msg = (if startedCancelled \<or> Run_Status run = ''cancelled'' then Run_Error run
                else case runErr of None \<Rightarrow> Run_Error run
                     | Some (canceled, msg) \<Rightarrow> if Run_Error run = [] then msg else Run_Error run)
     in (run\<lparr>Run_FinishedAt := Some now, Run_Status := st, Run_Error := msg\<rparr>,
         \<lparr>Result_Status = st, Result_FinishedAt = now\<rparr>))"
  unfolding finalize_def Let_def
  by (auto simp: run_to_eq [OF assms] split: option.split prod.split)

text \<open>
  \<open>finalize\<close> always leaves a terminal status, the same on the run and in the result: a run
  that was cancelled before or meanwhile stays cancelled whatever the runner reports, a
  cancelled context gives cancelled, any other error failed, no error success.  The first error
  text is kept, and the finish time is stamped on both.
\<close>

theorem finalize_terminal:
  assumes "looplab_ok lf" "build_orders runBuilder ks gs"
  shows "(case finalize lf (ks, gs) now run runErr startedCancelled of (run', res) \<Rightarrow>
      Run_Status run' \<in> {''success'', ''failed'', ''cancelled''} \<and>
      Result_Status res = Run_Status run' \<and>
      Run_FinishedAt run' = Some now \<and> Result_FinishedAt res = now \<and>
      (Run_Status run' = ''cancelled'' \<longleftrightarrow>
         startedCancelled \<or> Run_Status run = ''cancelled'' \<or> (\<exists>msg. runErr = Some (True, msg))) \<and>
      (Run_Status run' = ''success'' \<longleftrightarrow>
         \<not> startedCancelled \<and> Run_Status run \<noteq> ''cancelled'' \<and> runErr = None) \<and>
      (Run_Error run \<noteq> [] \<longrightarrow> Run_Error run' = Run_Error run) \<and>
      Run_StageRuns run' = Run_StageRuns run)"
  unfolding finalize_eq [OF assms] Let_def
  by (cases runErr) (auto split: prod.splits)

definition demo_run :: PipelineRun where
  "demo_run = \<lparr>Run_ID = ''r'', Run_Status = ''running'', Run_StageRuns = [], Run_StartedAt = None,
     Run_FinishedAt = None, Run_Error = []\<rparr>"

theorem finalize_terminal_witness:
  "Run_Status (fst (finalize looplab_ref (run_keys, run_groups) 7 demo_run (Some (True, ''canceled'')) False))
     = ''cancelled''"
  using finalize_terminal [OF looplab_ref_ok run_build_orders,
      where now = 7 and run = demo_run and runErr = "Some (True, ''canceled'')" and startedCancelled = False]
  by (auto split: prod.splits)

subsection \<open>The progress writes\<close>

text \<open>
  What the drain goroutine sees: an update of the runner, the timer, or the closed channel.
  \<open>pending\<close> counts the updates not yet persisted; the second component tells whether
  \<open>persistProgress\<close> is called.
\<close>

datatype drain_event = Update string | Tick | Closed

fun drain_step :: "nat \<Rightarrow> drain_event \<Rightarrow> nat \<times> bool" where
  "drain_step pending (Update status) =
     (let pending = pending + 1 in
      if status = ''failed'' \<or> status = ''success'' \<or> status = ''skipped'' then (0, pending \<noteq> 0)
      else if 10 \<le> pending then (0, pending \<noteq> 0)
      else (pending, False))"
| "drain_step pending Tick = (0, pending \<noteq> 0)"
| "drain_step pending Closed = (0, pending \<noteq> 0)"

fun drain :: "nat \<Rightarrow> drain_event list \<Rightarrow> nat \<times> bool list" where
  "drain pending [] = (pending, [])"
| "drain pending (e # es) =
     (let (pending', flushed) = drain_step pending e; (p, fs) = drain pending' es in (p, flushed # fs))"

definition terminal_update :: "drain_event \<Rightarrow> bool" where
  "terminal_update e \<longleftrightarrow> e \<in> {Update ''failed'', Update ''success'', Update ''skipped''}"

fun is_update :: "drain_event \<Rightarrow> bool" where
  "is_update (Update s) = True"
| "is_update _ = False"

lemma drain_Cons:
  "drain p (e # es) =
    (fst (drain (fst (drain_step p e)) es), snd (drain_step p e) # snd (drain (fst (drain_step p e)) es))"
  by (simp add: Let_def split: prod.split)

declare drain.simps(2) [simp del] and drain_Cons [simp]

lemma drain_length: "length (snd (drain p es)) = length es"
  by (induction es arbitrary: p) auto

lemma drain_pending: "p < 10 \<Longrightarrow> fst (drain p es) < 10"
proof (induction es arbitrary: p)
  case (Cons e es)
  have "fst (drain_step p e) < 10" using Cons.prems by (cases e) (auto simp: Let_def)
  from Cons.IH [OF this] show ?case by simp
qed simp

lemma drain_step_terminal: "terminal_update e \<Longrightarrow> snd (drain_step p e)"
  by (auto simp: Let_def terminal_update_def)

lemma drain_terminal: "list_all2 (\<lambda>e flushed. flushed \<or> \<not> terminal_update e) es (snd (drain p es))"
  by (induction es arbitrary: p) (auto simp: drain_step_terminal)

text \<open>Every write carries at least one update, and no update is counted twice.\<close>

lemma drain_writes: "length (filter id (snd (drain p es))) + fst (drain p es) \<le> p + length (filter is_update es)"
proof (induction es arbitrary: p)
  case (Cons e es)
  have "(if snd (drain_step p e) then 1 else 0) + fst (drain_step p e) \<le> p + (if is_update e then 1 else 0)"
    by (cases e) (auto simp: Let_def)
  with Cons.IH [of "fst (drain_step p e)"] show ?case by (auto split: if_splits)
qed simp

lemma drain_append: "drain p (xs @ ys) =
    (fst (drain (fst (drain p xs)) ys), snd (drain p xs) @ snd (drain (fst (drain p xs)) ys))"
  by (induction xs arbitrary: p) auto

text \<open>
  However updates and timer ticks interleave, the update that ends a stage is written
  at once, fewer than ten updates wait at any time, nothing waits once the channel is closed,
  and there are never more writes than updates.
\<close>

theorem drain_spec:
  "fst (drain 0 es) < 10 \<and>
   fst (drain 0 (es @ [Closed])) = 0 \<and>
   length (filter id (snd (drain 0 es))) \<le> length (filter is_update es) \<and>
   list_all2 (\<lambda>e flushed. flushed \<or> e \<noteq> Update ''failed'' \<and> e \<noteq> Update ''success'' \<and> e \<noteq> Update ''skipped'')
     es (snd (drain 0 es))"
proof -
  have "list_all2 (\<lambda>e flushed. flushed \<or> e \<noteq> Update ''failed'' \<and> e \<noteq> Update ''success'' \<and> e \<noteq> Update ''skipped'')
      es (snd (drain 0 es))"
    using drain_terminal [of es 0] by (rule list_all2_mono) (auto simp: terminal_update_def)
  then show ?thesis
    using drain_pending [of 0 es] drain_writes [of 0 es] by (simp add: drain_append)
qed

end
