(* ===== verification/Execution.thy ===== *)
theory Execution
  imports Executor
begin

text \<open>
  The body the executor gives to the DAG runner for a stage (\<open>taskFunc\<close>, the closure inside
  \<open>Execute\<close>) and \<open>Execute\<close> itself, which ties the pipeline validation, the DAG runner and
  \<open>finalize\<close> together.  The context of a stage is seen through what the retry loop reads of it
  (\<open>Retry\<close>); \<open>render\<close> is \<open>err.Error()\<close>.
\<close>

subsection \<open>One stage\<close>

record ('w, 's) exec_state =
  es_runs :: "string \<rightharpoonup> StageRun"
  es_log :: "'s log_world"
  es_status :: "(string \<times> string) list"
  es_world :: 'w

record 'e task_params =
  tp_lf :: lf_event
  tp_orders :: orders
  tp_edgeConditions :: bool
  tp_skippedAt :: time
  tp_startTime :: time
  tp_endTime :: time
  tp_isCtx :: "'e stage_error \<Rightarrow> bool"
  tp_ctxErr :: "int \<Rightarrow> 'e stage_error option"
  tp_ctxWait :: "int \<Rightarrow> 'e stage_error option"
  tp_rnd :: "int \<Rightarrow> int"
  tp_render :: "'e stage_error \<Rightarrow> string"

datatype 'e task_outcome = TaskDone | TaskSkipped | TaskFailed "'e stage_error" | StageMissing | StageRunMissing

text \<open>The maps over the stages of the pipeline and of the run: a later entry wins.\<close>

definition stageMap :: "Pipeline \<Rightarrow> string \<rightharpoonup> Stage" where
  "stageMap p = map_of (rev (map (\<lambda>s. (Stage_ID s, s)) (Pipeline_Stages p)))"

definition stageRunMap :: "PipelineRun \<Rightarrow> string \<rightharpoonup> StageRun" where
  "stageRunMap run = map_of (rev (map (\<lambda>sr. (SR_StageID sr, sr)) (Run_StageRuns run)))"

definition stageTimeout :: "(string \<Rightarrow> int option) \<Rightarrow> Stage \<Rightarrow> duration" where
  "stageTimeout parse stage =
     (if sc_Timeout (Stage_Config stage) = [] then 30 * Minute
      else case parse (sc_Timeout (Stage_Config stage)) of
             Some d \<Rightarrow> if d > 0 then d else 30 * Minute
           | None \<Rightarrow> 30 * Minute)"

text \<open>One attempt at a stage.\<close>

definition dispatch ::
  "('e, 'w, 's) Executor \<Rightarrow> string \<Rightarrow> Stage \<Rightarrow> ('w, 's) stage_env
    \<Rightarrow> ('e stage_error option \<times> ('w, 's) stage_env) option" where
  "dispatch ex runID stage st =
     (let t = Stage_Type stage in
      if t = ''build'' then Some (executeBuild ex runID stage st)
      else if t = ''test'' then Some (executeTest ex runID stage st)
      else if t = ''push'' then Some (executePush ex runID stage st)
      else if t = ''deploy'' then
        (case ex_govHook ex of
           None \<Rightarrow> Some (executeDeploy ex runID stage st)
         | Some hook \<Rightarrow>
             (case hook runID stage (se_world st) of
                (Some e, w) \<Rightarrow> Some (Some (GovernanceDenied e), st\<lparr>se_world := w\<rparr>)
              | (None, w) \<Rightarrow> Some (executeDeploy ex runID stage (st\<lparr>se_world := w\<rparr>))))
      else if t = ''approval'' then executeApproval ex runID stage st
      else if t = ''custom'' then Some (executeCustom ex runID stage st)
      else if t = ''gitops-commit'' then Some (executeGitOpsCommit ex stage st)
      else Some (Some (UnknownStageType t), st))"

text \<open>
  The attempts of the retry loop, each on the state the one before left: the result of the
  attempt after \<open>k\<close> earlier ones.
\<close>

fun attempt_at ::
  "(('w, 's) stage_env \<Rightarrow> ('e stage_error option \<times> ('w, 's) stage_env) option) \<Rightarrow> ('w, 's) stage_env \<Rightarrow> nat
    \<Rightarrow> ('e stage_error option \<times> ('w, 's) stage_env) option" where
  "attempt_at f st 0 = f st"
| "attempt_at f st (Suc k) = (case attempt_at f st k of None \<Rightarrow> None | Some (_, st') \<Rightarrow> f st')"

definition retry_stage ::
  "'e task_params \<Rightarrow> 'e stage_error Policy
    \<Rightarrow> (('w, 's) stage_env \<Rightarrow> ('e stage_error option \<times> ('w, 's) stage_env) option) \<Rightarrow> ('w, 's) stage_env
    \<Rightarrow> ('e stage_error option \<times> ('w, 's) stage_env) option" where
  "retry_stage tp policy f st =
     (let op = (\<lambda>k. case attempt_at f st (nat (k - 1)) of None \<Rightarrow> None | Some (r, _) \<Rightarrow> r);
          (r, calls, waits) = Do policy op (tp_ctxErr tp) (tp_ctxWait tp) (tp_rnd tp)
      in if calls = [] then Some (r, st)
         else (case attempt_at f st (length calls - 1) of
                 None \<Rightarrow> None
               | Some (_, st') \<Rightarrow> Some (r, st')))"

definition statusOf :: "(string \<rightharpoonup> StageRun) \<Rightarrow> string \<Rightarrow> string" where
  "statusOf runs i = (case runs i of Some sr \<Rightarrow> SR_Status sr | None \<Rightarrow> ''failed'')"

definition skip_stage ::
  "('e, 'w, 's) Executor \<Rightarrow> 'e task_params \<Rightarrow> string \<Rightarrow> Stage \<Rightarrow> StageRun \<Rightarrow> ('w, 's) stage_env \<Rightarrow> ('w, 's) stage_env" where
  "skip_stage ex tp runID stage sr env =
     (let sr' = sr\<lparr>SR_Status := stage_to (tp_lf tp) (tp_orders tp) (SR_Status sr) ''skip'' ''skipped'',
                   SR_FinishedAt := Some (tp_skippedAt tp)\<rparr>
      in broadcastStatus ex runID (Stage_ID stage) (SR_Status sr') (env\<lparr>se_sr := sr'\<rparr>))"

definition start_stage ::
  "('e, 'w, 's) Executor \<Rightarrow> 'e task_params \<Rightarrow> string \<Rightarrow> Stage \<Rightarrow> StageRun \<Rightarrow> ('w, 's) stage_env \<Rightarrow> ('w, 's) stage_env" where
  "start_stage ex tp runID stage sr env =
     (let sr' = sr\<lparr>SR_StartedAt := Some (tp_startTime tp),
                   SR_Status := stage_to (tp_lf tp) (tp_orders tp) (SR_Status sr) ''start'' ''running''\<rparr>
      in broadcastStatus ex runID (Stage_ID stage) (SR_Status sr') (env\<lparr>se_sr := sr'\<rparr>))"

definition end_stage ::
  "('e, 'w, 's) Executor \<Rightarrow> 'e task_params \<Rightarrow> string \<Rightarrow> Stage \<Rightarrow> 'e stage_error option \<Rightarrow> ('w, 's) stage_env
    \<Rightarrow> ('w, 's) stage_env" where
  "end_stage ex tp runID stage stageErr env =
     (let sr = (se_sr env)\<lparr>SR_FinishedAt := Some (tp_endTime tp)\<rparr>;
          to = stage_to (tp_lf tp) (tp_orders tp) (SR_Status sr);
          sr' = (case stageErr of
                   Some e \<Rightarrow> sr\<lparr>SR_Status := to ''fail'' ''failed'', SR_Error := tp_render tp e\<rparr>
                 | None \<Rightarrow> sr\<lparr>SR_Status := to ''succeed'' ''success''\<rparr>)
      in broadcastStatus ex runID (Stage_ID stage) (SR_Status sr') (env\<lparr>se_sr := sr'\<rparr>))"

text \<open>The stage that is dispatched: interpolated when outputs are on.\<close>

definition exec_stage ::
  "('e, 'w, 's) Executor \<Rightarrow> Pipeline \<Rightarrow> Stage \<Rightarrow> string \<Rightarrow> (string \<rightharpoonup> StageRun) \<Rightarrow> config_error + Stage" where
  "exec_stage ex p stage nodeID runs =
     (if ex_outputs ex
      then interpolateStageConfig (ex_order ex (sc_BuildArgs (Stage_Config stage))) (ex_order ex (sc_Env (Stage_Config stage)))
             stage (collectStageOutputs runs (case ancestorsOf nodeID (Pipeline_Edges p) of None \<Rightarrow> [] | Some anc \<Rightarrow> anc))
      else Inr stage)"

definition taskFunc ::
  "('e, 'w, 's) Executor \<Rightarrow> 'e task_params \<Rightarrow> Pipeline \<Rightarrow> string \<Rightarrow> string \<Rightarrow> ('w, 's) exec_state
    \<Rightarrow> ('e task_outcome \<times> ('w, 's) exec_state) option" where
  "taskFunc ex tp p runID nodeID st =
     (case stageMap p nodeID of
        None \<Rightarrow> Some (StageMissing, st)
      | Some stage \<Rightarrow>
          (case es_runs st nodeID of
             None \<Rightarrow> Some (StageRunMissing, st)
           | Some sr \<Rightarrow>
               (let env = \<lparr>se_sr = sr, se_log = es_log st, se_status = es_status st, se_world = es_world st\<rparr>;
                    put = (\<lambda>env. st\<lparr>es_runs := (es_runs st)(nodeID \<mapsto> se_sr env), es_log := se_log env,
                                    es_status := se_status env, es_world := se_world env\<rparr>)
                in if tp_edgeConditions tp \<and>
                      \<not> StageShouldRun nodeID (filter (\<lambda>e. Edge_Target e = nodeID) (Pipeline_Edges p)) (statusOf (es_runs st))
                   then Some (TaskSkipped, put (skip_stage ex tp runID stage sr env))
                   else
                     (let env1 = start_stage ex tp runID stage sr env;
                          outcome = (case exec_stage ex p stage nodeID (es_runs st) of
                            Inl e \<Rightarrow> Some (Some (InterpolationErr e), env1)
                          | Inr execStage \<Rightarrow>
                              retry_stage tp (policyFromStage (tp_isCtx tp) stage) (dispatch ex runID execStage) env1)
                      in case outcome of
                           None \<Rightarrow> None
                         | Some (stageErr, env2) \<Rightarrow>
                             Some (case stageErr of None \<Rightarrow> TaskDone | Some e \<Rightarrow> TaskFailed e,
                                   put (end_stage ex tp runID stage stageErr env2))))))"


subsection \<open>What a stage body may change\<close>

definition sr_frame :: "StageRun \<Rightarrow> StageRun \<Rightarrow> bool" where
  "sr_frame sr sr' \<longleftrightarrow> SR_StageID sr' = SR_StageID sr \<and> SR_Status sr' = SR_Status sr \<and>
     SR_StartedAt sr' = SR_StartedAt sr \<and> SR_FinishedAt sr' = SR_FinishedAt sr \<and> SR_Error sr' = SR_Error sr"

named_theorems stage_frame \<open>a stage body leaves the life cycle of its run record alone\<close>

lemma sr_frame_refl [stage_frame]: "sr_frame sr sr"
  by (simp add: sr_frame_def)

lemma sr_frame_trans: "sr_frame a b \<Longrightarrow> sr_frame b c \<Longrightarrow> sr_frame a c"
  by (simp add: sr_frame_def)

lemma tee_log_frame [stage_frame]:
  "sr_frame sr (se_sr (tee_log ex runID stage chunks st)) \<longleftrightarrow> sr_frame sr (se_sr st)"
  by (simp add: tee_log_def sr_frame_def)

lemma add_artifacts_frame [stage_frame]:
  "sr_frame sr (se_sr (add_artifacts as st)) \<longleftrightarrow> sr_frame sr (se_sr st)"
  by (simp add: add_artifacts_def sr_frame_def)

lemma add_outputs_frame [stage_frame]:
  "sr_frame sr (se_sr (add_outputs ex derived adapter st)) \<longleftrightarrow> sr_frame sr (se_sr st)"
  by (simp add: add_outputs_def applyStageOutputs_def sr_frame_def)

lemma broadcast_frame [stage_frame]:
  "sr_frame sr (se_sr (broadcastStatus ex runID i s st)) \<longleftrightarrow> sr_frame sr (se_sr st)"
  by (simp add: broadcastStatus_def)

lemma executeBuild_frame [stage_frame]: "sr_frame (se_sr st) (se_sr (snd (executeBuild ex runID stage st)))"
  unfolding executeBuild_def by (auto simp: Let_def stage_frame split: prod.splits sum.splits)

lemma runStageContainer_frame [stage_frame]:
  "sr_frame (se_sr st) (se_sr (snd (runStageContainer ex runID stage req st)))"
  unfolding runStageContainer_def by (auto simp: Let_def stage_frame split: prod.splits sum.splits)

lemma executeTest_frame [stage_frame]: "sr_frame (se_sr st) (se_sr (snd (executeTest ex runID stage st)))"
  unfolding executeTest_def by (simp add: Let_def stage_frame)

lemma executeCustom_frame [stage_frame]: "sr_frame (se_sr st) (se_sr (snd (executeCustom ex runID stage st)))"
  unfolding executeCustom_def by (simp add: Let_def stage_frame)

lemma executePush_frame [stage_frame]: "sr_frame (se_sr st) (se_sr (snd (executePush ex runID stage st)))"
  unfolding executePush_def by (auto simp: Let_def stage_frame split: prod.splits sum.splits)

lemma executeDeploy_frame [stage_frame]: "sr_frame (se_sr st) (se_sr (snd (executeDeploy ex runID stage st)))"
  unfolding executeDeploy_def by (auto simp: Let_def stage_frame split: prod.splits sum.splits)

lemma executeGitOps_frame [stage_frame]: "sr_frame (se_sr st) (se_sr (snd (executeGitOpsCommit ex stage st)))"
  unfolding executeGitOpsCommit_def by (auto simp: Let_def stage_frame split: prod.splits sum.splits)

lemma executeApproval_frame [stage_frame]:
  "executeApproval ex runID stage st = Some x \<Longrightarrow> sr_frame (se_sr st) (se_sr (snd x))"
  unfolding executeApproval_def
  by (auto simp: Let_def sr_frame_def broadcastStatus_def
      split: option.splits prod.splits sum.splits if_splits)

lemma executeDeploy_frame_world [stage_frame]:
  "sr_frame (se_sr st) (se_sr (snd (executeDeploy ex runID stage (st\<lparr>se_world := w\<rparr>))))"
  using executeDeploy_frame [of "st\<lparr>se_world := w\<rparr>" ex runID stage] by simp

lemma dispatch_frame: "dispatch ex runID stage st = Some x \<Longrightarrow> sr_frame (se_sr st) (se_sr (snd x))"
  unfolding dispatch_def Let_def
  by (auto simp: stage_frame dest: executeApproval_frame split: if_splits option.splits prod.splits)

lemma attempt_at_frame:
  assumes "\<And>st x. f st = Some x \<Longrightarrow> sr_frame (se_sr st) (se_sr (snd x))"
  shows "attempt_at f st k = Some x \<Longrightarrow> sr_frame (se_sr st) (se_sr (snd x))"
proof (induction k arbitrary: x)
  case 0
  then show ?case using assms by simp
next
  case (Suc k)
  then obtain r st1 where "attempt_at f st k = Some (r, st1)" "f st1 = Some x"
    by (auto split: option.splits)
  with Suc.IH [of "(r, st1)"] assms [of st1 x] show ?case by (auto intro: sr_frame_trans)
qed

lemma retry_stage_frame:
  assumes "\<And>st x. f st = Some x \<Longrightarrow> sr_frame (se_sr st) (se_sr (snd x))"
    and "retry_stage tp policy f st = Some (r, st')"
  shows "sr_frame (se_sr st) (se_sr st')"
  using assms(2) attempt_at_frame [of f, OF assms(1)]
  unfolding retry_stage_def Let_def
  by (auto simp: sr_frame_refl split: prod.splits if_splits option.splits)

text \<open>A transition with its fallback ends in the fallback's status, whatever the status before.\<close>

lemma stage_to_eq:
  assumes "looplab_ok lf" "build_orders stageBuilder ks gs"
  shows "stage_to lf (ks, gs) cur ''start'' ''running'' = ''running''"
    and "stage_to lf (ks, gs) cur ''skip'' ''skipped'' = ''skipped''"
    and "stage_to lf (ks, gs) cur ''fail'' ''failed'' = ''failed''"
    and "stage_to lf (ks, gs) cur ''succeed'' ''success'' = ''success''"
  by (simp_all add: stage_to_def TransitionStage_table [OF assms])

definition params_ok :: "'e task_params \<Rightarrow> bool" where
  "params_ok tp \<longleftrightarrow> looplab_ok (tp_lf tp) \<and> build_orders stageBuilder (fst (tp_orders tp)) (snd (tp_orders tp))"

lemma params_stage_to:
  assumes "params_ok tp"
  shows "stage_to (tp_lf tp) (tp_orders tp) cur ''start'' ''running'' = ''running''"
    and "stage_to (tp_lf tp) (tp_orders tp) cur ''skip'' ''skipped'' = ''skipped''"
    and "stage_to (tp_lf tp) (tp_orders tp) cur ''fail'' ''failed'' = ''failed''"
    and "stage_to (tp_lf tp) (tp_orders tp) cur ''succeed'' ''success'' = ''success''"
  using assms stage_to_eq [of "tp_lf tp" "fst (tp_orders tp)" "snd (tp_orders tp)"]
  by (simp_all add: params_ok_def)

subsection \<open>What a stage does to the run\<close>

lemma se_sr_broadcast [simp]: "se_sr (broadcastStatus ex runID i s st) = se_sr st"
  by (simp add: broadcastStatus_def)

lemma se_log_broadcast [simp]: "se_log (broadcastStatus ex runID i s st) = se_log st"
  by (simp add: broadcastStatus_def)

lemma se_world_broadcast [simp]: "se_world (broadcastStatus ex runID i s st) = se_world st"
  by (simp add: broadcastStatus_def)

text \<open>When the gate of a stage is closed.\<close>

definition gated :: "'e task_params \<Rightarrow> Pipeline \<Rightarrow> string \<Rightarrow> (string \<rightharpoonup> StageRun) \<Rightarrow> bool" where
  "gated tp p nodeID runs \<longleftrightarrow> tp_edgeConditions tp \<and>
     (\<exists>e \<in> set (Pipeline_Edges p). Edge_Target e = nodeID \<and>
        \<not> EdgeAllows (statusOf runs (Edge_Source e)) (Edge_Condition e))"

lemma gated_iff:
  "gated tp p nodeID runs \<longleftrightarrow> tp_edgeConditions tp \<and>
     \<not> StageShouldRun nodeID (filter (\<lambda>e. Edge_Target e = nodeID) (Pipeline_Edges p)) (statusOf runs)"
  by (auto simp: gated_def StageShouldRun_iff)

text \<open>
  A stage with an incoming edge whose condition its upstream does not meet is skipped: its
  run record becomes \<open>skipped\<close> with a finish time, and nothing else happens: no adapter is
  called (the world and the logs are as before) and no other run record changes.
\<close>

theorem taskFunc_skips:
  assumes "params_ok tp" and "stageMap p i = Some stage" "es_runs st i = Some sr"
    and "gated tp p i (es_runs st)"
  shows "\<exists>st'. taskFunc ex tp p runID i st = Some (TaskSkipped, st') \<and>
    es_runs st' = (es_runs st)(i \<mapsto> sr\<lparr>SR_Status := ''skipped'', SR_FinishedAt := Some (tp_skippedAt tp)\<rparr>) \<and>
    es_world st' = es_world st \<and> es_log st' = es_log st"
  using assms(2,3) assms(4) [unfolded gated_iff]
  by (simp add: taskFunc_def skip_stage_def Let_def params_stage_to [OF assms(1)])



subsection \<open>A whole run\<close>

text \<open>
  What \<open>Execute\<close> reads from outside: the state-machine package and the map orders, whether edge
  conditions are on, \<open>dagMaxParallel()\<close>, the orders of the maps the validation and the sort
  visit, the clock, and for an error of the runner whether it is a cancellation and its text.
\<close>

record execute_params =
  xp_lf :: lf_event
  xp_orders :: orders
  xp_edgeConditions :: bool
  xp_maxParallel :: int
  xp_bo :: "Stage \<Rightarrow> string list"
  xp_eo :: "Stage \<Rightarrow> string list"
  xp_ks0 :: "string list"
  xp_ks1 :: "string list"
  xp_ks2 :: "string list"
  xp_startedAt :: time
  xp_finishTime :: time
  xp_info :: "run_error \<Rightarrow> run_err"
  xp_render :: "pipe_err list \<Rightarrow> string"

definition new_runner :: "execute_params \<Rightarrow> DAG \<Rightarrow> Runner" where
  "new_runner xp dag = (if xp_edgeConditions xp then NewRunnerBoundedContinue dag (xp_maxParallel xp)
                        else NewRunnerBounded dag (xp_maxParallel xp))"

definition build_dag :: "execute_params \<Rightarrow> Pipeline \<Rightarrow> (pipe_err list + DAG) option" where
  "build_dag xp p = BuildDAGFromPipeline (xp_bo xp) (xp_eo xp) (xp_ks0 xp) (xp_ks1 xp) (xp_ks2 xp) p"

abbreviation finish :: "execute_params \<Rightarrow> PipelineRun \<Rightarrow> run_err option \<Rightarrow> bool \<Rightarrow> PipelineRun \<times> RunResult" where
  "finish xp \<equiv> finalize (xp_lf xp) (xp_orders xp) (xp_finishTime xp)"

text \<open>
  \<open>Execute xp p run out err statuses\<close>: a call on \<open>run\<close> can end with the run and the result
  \<open>out\<close> and the error \<open>err\<close>, the runner having left the nodes at \<open>statuses\<close>.  While the stages run, the
  caller may set the status of the run to cancelled (\<open>status\<close>).
\<close>

inductive Execute ::
  "execute_params \<Rightarrow> Pipeline \<Rightarrow> PipelineRun \<Rightarrow> PipelineRun \<times> RunResult \<Rightarrow> run_err option
    \<Rightarrow> (string \<rightharpoonup> string) \<Rightarrow> bool"
  for xp :: execute_params and p :: Pipeline and run :: PipelineRun where
  review_only:
    "\<exists>s \<in> set (Pipeline_Stages p). sc_ReviewOnly (Stage_Config s) \<Longrightarrow>
     err = Some (False, ''use App Deploy to resolve this saved deployment graph'') \<Longrightarrow>
     Execute xp p run (finish xp run err False) err Map.empty"
| bad_graph:
    "\<forall>s \<in> set (Pipeline_Stages p). \<not> sc_ReviewOnly (Stage_Config s) \<Longrightarrow>
     build_dag xp p = Some (Inl errs) \<Longrightarrow>
     err = Some (False, ''building DAG: '' @ xp_render xp errs) \<Longrightarrow>
     Execute xp p run (finish xp run err (Run_Status run = ''cancelled'')) err Map.empty"
| ran:
    "\<forall>s \<in> set (Pipeline_Stages p). \<not> sc_ReviewOnly (Stage_Config s) \<Longrightarrow>
     build_dag xp p = Some (Inr dag) \<Longrightarrow>
     TopologicalSort (xp_ks1 xp) (xp_ks2 xp) dag = Some (Inr L) \<Longrightarrow>
     run_reachable (new_runner xp dag) L s \<Longrightarrow> rs_result s = Some rerr \<Longrightarrow>
     status = run_to (xp_lf xp) (xp_orders xp) (Run_Status run) ''start'' ''running'' \<or> status = ''cancelled'' \<Longrightarrow>
     err = map_option (xp_info xp) rerr \<Longrightarrow>
     Execute xp p run
       (finish xp (run\<lparr>Run_Status := status, Run_StartedAt := Some (xp_startedAt xp)\<rparr>) err (Run_Status run = ''cancelled''))
       err (rs_statuses s)"

definition execute_ok :: "execute_params \<Rightarrow> Pipeline \<Rightarrow> bool" where
  "execute_ok xp p \<longleftrightarrow> looplab_ok (xp_lf xp) \<and>
     build_orders runBuilder (fst (xp_orders xp)) (snd (xp_orders xp)) \<and>
     dag_orders (pipeline_dag p) (xp_ks0 xp) (xp_ks1 xp) (xp_ks2 xp)"

lemma execute_finish:
  assumes "execute_ok xp p"
  shows "Result_Status (snd (finish xp run err started)) =
      (if started \<or> Run_Status run = ''cancelled'' then ''cancelled''
       else case err of None \<Rightarrow> ''success'' | Some (canceled, msg) \<Rightarrow> if canceled then ''cancelled'' else ''failed'')"
    and "Run_Status (fst (finish xp run err started)) = Result_Status (snd (finish xp run err started))"
  using assms finalize_eq [of "xp_lf xp" "fst (xp_orders xp)" "snd (xp_orders xp)"]
  by (simp_all add: execute_ok_def Let_def)

lemma run_to_start_not_cancelled:
  assumes "execute_ok xp p"
  shows "run_to (xp_lf xp) (xp_orders xp) cur ''start'' ''running'' = ''running''"
proof -
  have "TransitionRun (xp_lf xp) (fst (xp_orders xp)) (snd (xp_orders xp)) cur ''start'' =
      (case Builder_table runBuilder (cur, ''start'') of
         None \<Rightarrow> (cur, Some (ErrInvalidTransition (Builder_name runBuilder) cur ''start''))
       | Some dst \<Rightarrow> (dst, None))"
    using assms Apply_table [OF _ _ no_self_edge(1)]
    by (auto simp: execute_ok_def TransitionRun_def Build_def split: option.split)
  then show ?thesis by (simp add: run_to_def run_table(2))
qed

lemma build_dag_Inr:
  assumes "build_dag xp p = Some (Inr dag)"
  shows "dag = pipeline_dag p"
    and "ValidatePipelineDAG (xp_bo xp) (xp_eo xp) (xp_ks0 xp) (xp_ks1 xp) (xp_ks2 xp) p = Some []"
  using assms by (auto simp: build_dag_def BuildDAGFromPipeline_def split: option.splits if_splits)

lemma new_runner_dag [simp]: "Runner_dag (new_runner xp dag) = dag"
  by (simp add: new_runner_def NewRunnerBounded_def NewRunnerBoundedContinue_def)

lemma Execute_success:
  assumes "execute_ok xp p" and "Execute xp p run out err statuses" and "Result_Status (snd out) = ''success''"
  shows "err = None \<and> (\<forall>s \<in> set (Pipeline_Stages p). \<not> sc_ReviewOnly (Stage_Config s)) \<and>
    ValidatePipelineDAG (xp_bo xp) (xp_eo xp) (xp_ks0 xp) (xp_ks1 xp) (xp_ks2 xp) p = Some [] \<and>
    (\<forall>i \<in> Stage_ID ` set (Pipeline_Stages p). statuses i \<in> {Some ''success'', Some ''skipped''})"
  using assms(2)
proof cases
  case review_only
  then show ?thesis using assms(3) by (simp add: execute_finish [OF assms(1)] split: if_splits)
next
  case (bad_graph errs)
  then show ?thesis using assms(3) by (simp add: execute_finish [OF assms(1)] split: if_splits)
next
  case (ran dag L s rerr status)
  note d = build_dag_Inr [OF ran(4)]
  have ord: "iter_order (xp_ks1 xp) (DAG_Nodes (pipeline_dag p))" "iter_order (xp_ks2 xp) (DAG_Nodes (pipeline_dag p))"
    using assms(1) by (simp_all add: execute_ok_def dag_orders_def)
  have err: "err = None \<and> rerr = None"
    using assms(3) ran(1,9) by (cases rerr) (auto simp: execute_finish [OF assms(1)] split: prod.splits if_splits)
  have "\<forall>i \<in> Stage_ID ` set (Pipeline_Stages p). statuses i \<in> {Some ''success'', Some ''skipped''}"
    using run_nil_all [of "xp_ks1 xp" "new_runner xp dag" "xp_ks2 xp" L s] ord ran(2,5,6,7) d(1) err
    by (simp add: pipeline_dag_dom)
  then show ?thesis using ran(3) d(2) err by blast
qed



subsection \<open>Concrete stages and a concrete run\<close>

abbreviation stage_keys :: "(string \<times> string) list" where
  "stage_keys \<equiv> (''pending'', ''skip'') # run_keys"

abbreviation stage_groups :: "(string \<times> string) list" where
  "stage_groups \<equiv> (''skip'', ''skipped'') # run_groups"

definition demo_params :: "bool \<Rightarrow> string task_params" where
  "demo_params edges = \<lparr>tp_lf = looplab_ref, tp_orders = (stage_keys, stage_groups), tp_edgeConditions = edges,
     tp_skippedAt = 5, tp_startTime = 6, tp_endTime = 7, tp_isCtx = (\<lambda>_. False), tp_ctxErr = (\<lambda>_. None),
     tp_ctxWait = (\<lambda>_. None), tp_rnd = (\<lambda>_. 0), tp_render = (\<lambda>_. ''error'')\<rparr>"

lemma demo_params_ok: "params_ok (demo_params b)"
  by (simp add: params_ok_def demo_params_def looplab_ref_ok stage_build_orders)

definition demo_state :: "(nat, unit) exec_state" where
  "demo_state = \<lparr>es_runs = [''a'' \<mapsto> demo_stage_run\<lparr>SR_Status := ''failed''\<rparr>,
     ''b'' \<mapsto> demo_stage_run\<lparr>SR_StageID := ''b''\<rparr>], es_log = ((), []), es_status = [], es_world = 0\<rparr>"

lemma demo_stage_b: "stageMap demo_pipeline ''b'' = Some (Pipeline_Stages demo_pipeline ! 1)"
  by (simp add: stageMap_def demo_pipeline_def)

lemma demo_run_b: "es_runs demo_state ''b'' = Some (demo_stage_run\<lparr>SR_StageID := ''b''\<rparr>)"
  by (simp add: demo_state_def)

theorem taskFunc_skips_witness:
  "\<exists>st'. taskFunc demo_executor (demo_params True) demo_pipeline ''r'' ''b'' demo_state = Some (TaskSkipped, st') \<and>
     es_world st' = 0"
proof -
  have "gated (demo_params True) demo_pipeline ''b'' (es_runs demo_state)"
    by (simp add: gated_def demo_params_def demo_pipeline_def demo_state_def statusOf_def EdgeAllows_def)
  from taskFunc_skips [OF demo_params_ok demo_stage_b demo_run_b this, of demo_executor "''r''"]
  show ?thesis by (auto simp: demo_state_def)
qed


definition demo_xp :: execute_params where
  "demo_xp = \<lparr>xp_lf = looplab_ref, xp_orders = (run_keys, run_groups), xp_edgeConditions = False,
     xp_maxParallel = 1, xp_bo = (\<lambda>_. []), xp_eo = (\<lambda>_. []), xp_ks0 = [''a'', ''b''], xp_ks1 = [''a'', ''b''],
     xp_ks2 = [''a'', ''b''], xp_startedAt = 1, xp_finishTime = 2, xp_info = (\<lambda>_. (False, ''failed'')),
     xp_render = (\<lambda>_. [])\<rparr>"

lemma demo_execute_ok: "execute_ok demo_xp demo_pipeline"
proof -
  have "dag_orders (pipeline_dag demo_pipeline) [''a'', ''b''] [''a'', ''b''] [''a'', ''b'']"
    by (auto simp: dag_orders_def iter_order_def pipeline_dag_dom demo_pipeline_def)
  then show ?thesis by (simp add: execute_ok_def demo_xp_def looplab_ref_ok run_build_orders)
qed

lemma demo_executes_run:
  assumes "Run_Status run \<noteq> ''cancelled''"
  shows "\<exists>out statuses. Execute demo_xp demo_pipeline run out None statuses \<and> Run_Status (fst out) = ''success''"
proof -
  have v: "ValidatePipelineDAG (\<lambda>_. []) (\<lambda>_. []) [''a'', ''b''] [''a'', ''b''] [''a'', ''b''] demo_pipeline = Some []"
    by code_simp
  have nr: "new_runner demo_xp (pipeline_dag demo_pipeline) = two_nodes"
    by (simp add: new_runner_def demo_xp_def two_nodes_def pipeline_dag_def demo_pipeline_def edge_deps_def)
  obtain t where t: "run_reachable two_nodes two_levels t" "rs_result t = Some None"
    by (rule two_nodes_run)
  have "\<forall>s \<in> set (Pipeline_Stages demo_pipeline). \<not> sc_ReviewOnly (Stage_Config s)"
    by (simp add: demo_pipeline_def empty_config_def)
  moreover have "build_dag demo_xp demo_pipeline = Some (Inr (pipeline_dag demo_pipeline))"
    by (simp add: build_dag_def BuildDAGFromPipeline_def demo_xp_def v)
  moreover have "TopologicalSort (xp_ks1 demo_xp) (xp_ks2 demo_xp) (pipeline_dag demo_pipeline) = Some (Inr two_levels)"
    using two_nodes_sort nr new_runner_dag [of demo_xp "pipeline_dag demo_pipeline"] by (simp add: demo_xp_def)
  moreover have run: "run_to (xp_lf demo_xp) (xp_orders demo_xp) (Run_Status run) ''start'' ''running'' = ''running''"
    by (rule run_to_start_not_cancelled [OF demo_execute_ok])
  ultimately have "Execute demo_xp demo_pipeline run
      (finish demo_xp (run\<lparr>Run_Status := ''running'', Run_StartedAt := Some (xp_startedAt demo_xp)\<rparr>) None
        (Run_Status run = ''cancelled'')) None (rs_statuses t)"
    using Execute.ran [where p = demo_pipeline and xp = demo_xp and dag = "pipeline_dag demo_pipeline" and L = two_levels
        and s = t and rerr = None and status = "''running''" and err = None and run = run]
      t nr by simp
  moreover have "Run_Status (fst (finish demo_xp (run\<lparr>Run_Status := ''running'',
      Run_StartedAt := Some (xp_startedAt demo_xp)\<rparr>) None (Run_Status run = ''cancelled''))) = ''success''"
    using assms by (simp add: execute_finish [OF demo_execute_ok])
  ultimately show ?thesis by blast
qed

lemma demo_executes: "\<exists>out statuses. Execute demo_xp demo_pipeline demo_run out None statuses"
  using demo_executes_run [of demo_run] by (auto simp: demo_run_def)



text \<open>
  The comments at the governance hook say that retries do not ask it again and that a denial
  fails the stage at once.  The hook is inside the retried function, and a denial is no context
  error, so a denied deploy stage with one retry asks twice.
\<close>

definition denying_executor :: "(string, nat, unit) Executor" where
  "denying_executor = demo_executor\<lparr>ex_govHook := Some (\<lambda>run stage w. (Some ''denied'', w + 1))\<rparr>"

definition deploy_stage :: Stage where
  "deploy_stage = \<lparr>Stage_ID = ''d'', Stage_Name = ''deploy'', Stage_Type = ''deploy'',
     Stage_Config = empty_config\<lparr>sc_Retries := 1\<rparr>, Stage_EnvironmentID = [], Stage_Group = []\<rparr>"

lemma governance_asked_twice:
  "case retry_stage (demo_params False) (policyFromStage (\<lambda>_. False) deploy_stage)
     (dispatch denying_executor ''r'' deploy_stage) demo_env of
     None \<Rightarrow> False
   | Some (r, st') \<Rightarrow> r = Some (GovernanceDenied ''denied'') \<and> se_world st' = 2"
  by code_simp

end
