(* ===== verification/Gates.thy ===== *)
theory Gates
  imports Prelude
begin

text \<open>
  What the two approval services (pipeline stages and promotions) rely on: a store that records
  at most one vote of a person for a gate and reports how many it holds.  Both in-memory stores
  interpret this contract in their theories.
\<close>

datatype store_err = ErrNotFound | ErrConflict

text \<open>
  \<open>add v s\<close> gives \<open>None\<close> for an error, otherwise whether the vote is new and the number of votes
  of its gate; \<open>subs s i\<close> are the people that voted for gate \<open>i\<close>, in order.
\<close>

locale vote_log =
  fixes add :: "'v \<Rightarrow> 's \<Rightarrow> (bool \<times> nat) option \<times> 's"
    and subs :: "'s \<Rightarrow> string \<Rightarrow> string list"
    and vgate :: "'v \<Rightarrow> string"
    and vsub :: "'v \<Rightarrow> string"
  assumes add_fails: "add v s = (None, s') \<Longrightarrow> s' = s"
    and add_new: "add v s = (Some (added, n), s') \<Longrightarrow> added \<longleftrightarrow> vsub v \<notin> set (subs s (vgate v))"
    and add_subs: "add v s = (Some (added, n), s') \<Longrightarrow>
      subs s' i = (if i = vgate v \<and> added then subs s i @ [vsub v] else subs s i)"
    and add_count: "add v s = (Some (added, n), s') \<Longrightarrow> n = length (subs s' (vgate v))"
begin

lemma vote_distinct:
  assumes "add v s = (r, s')" "distinct (subs s i)"
  shows "distinct (subs s' i)"
proof (cases r)
  case None
  with assms add_fails show ?thesis by metis
next
  case (Some x)
  then obtain added n where "add v s = (Some (added, n), s')" using assms(1) by (cases x) auto
  from add_new [OF this] add_subs [OF this, of i] assms(2) show ?thesis by auto
qed

lemma vote_mono:
  assumes "add v s = (r, s')"
  shows "set (subs s i) \<subseteq> set (subs s' i)" and "length (subs s i) \<le> length (subs s' i)"
proof -
  have "subs s' i = subs s i \<or> subs s' i = subs s i @ [vsub v]"
  proof (cases r)
    case None
    with assms add_fails show ?thesis by metis
  next
    case (Some x)
    then obtain added n where "add v s = (Some (added, n), s')" using assms(1) by (cases x) auto
    from add_subs [OF this, of i] show ?thesis by auto
  qed
  then show "set (subs s i) \<subseteq> set (subs s' i)" "length (subs s i) \<le> length (subs s' i)" by auto
qed

text \<open>The count is the number of different people, the one who just voted among them.\<close>

lemma vote_count:
  assumes "add v s = (Some (added, n), s')" "distinct (subs s (vgate v))"
  shows "n = card (set (subs s' (vgate v)))" and "vsub v \<in> set (subs s' (vgate v))"
proof -
  have "distinct (subs s' (vgate v))" using vote_distinct [OF assms] .
  then show "n = card (set (subs s' (vgate v)))" using add_count [OF assms(1)] distinct_card by metis
  show "vsub v \<in> set (subs s' (vgate v))"
    using add_new [OF assms(1)] add_subs [OF assms(1), of "vgate v"] by (cases added) auto
qed

end

text \<open>
  A non-positive threshold counts as one (\<open>normalizeApprovers\<close>, \<open>requiredApprovers\<close>).
\<close>

definition normalizeApprovers :: "int \<Rightarrow> int" where
  "normalizeApprovers n = (if n < 1 then 1 else n)"

lemma normalizeApprovers_pos: "1 \<le> normalizeApprovers n"
  by (simp add: normalizeApprovers_def)

end
