(* ===== verification/StageApproval.thy ===== *)
theory StageApproval
  imports Gates
begin

text \<open>
  The approval gates of pipeline stages: the model (\<open>backend/internal/model/stageapproval.go\<close>),
  the in-memory store (\<open>backend/internal/store/memory/stageapproval.go\<close>) and the service
  (\<open>backend/internal/service/stageapproval.go\<close>).  The store's map is visited in an order \<open>ks\<close>;
  ids and the clock are arguments.  A call of the service is several store calls, and between
  two of them other callers can act: the service is modelled both as functions (nobody in
  between) and as a step relation over any number of callers.
\<close>

record StageApprovalVote =
  SAV_ID :: string
  SAV_StageApprovalID :: string
  SAV_ApproverSub :: string
  SAV_ApproverEmail :: string
  SAV_Note :: string
  SAV_CreatedAt :: time

record StageApproval =
  SA_ID :: string
  SA_RunID :: string
  SA_StageID :: string
  SA_Status :: string
  SA_RequiredApprovers :: int
  SA_ResolvedBy :: string
  SA_ResolvedAt :: "time option"
  SA_CreatedAt :: time
  SA_UpdatedAt :: time
  SA_Votes :: "StageApprovalVote list"

definition SA_ApprovalCount :: "StageApproval \<Rightarrow> nat" where
  "SA_ApprovalCount a = length (SA_Votes a)"

definition SA_HasApprover :: "StageApproval \<Rightarrow> string \<Rightarrow> bool" where
  "SA_HasApprover a sub = list_ex (\<lambda>v. SAV_ApproverSub v = sub) (SA_Votes a)"

subsection \<open>The store\<close>

record stageApprovals =
  sa_m :: "string \<rightharpoonup> StageApproval"
  sa_votes :: "string \<Rightarrow> StageApprovalVote list"

definition findByRunStage :: "string list \<Rightarrow> stageApprovals \<Rightarrow> string \<Rightarrow> string \<Rightarrow> StageApproval option" where
  "findByRunStage ks s runID stageID =
     find (\<lambda>g. SA_RunID g = runID \<and> SA_StageID g = stageID) (map_values ks (sa_m s))"

definition sa_hydrate :: "stageApprovals \<Rightarrow> StageApproval \<Rightarrow> StageApproval" where
  "sa_hydrate s g = g\<lparr>SA_Votes := sa_votes s (SA_ID g)\<rparr>"

text \<open>The gate comes back with its times, as the caller's pointer sees it.\<close>

definition CreateGate ::
  "string list \<Rightarrow> time \<Rightarrow> StageApproval \<Rightarrow> stageApprovals \<Rightarrow> (store_err + StageApproval) \<times> stageApprovals" where
  "CreateGate ks now g s =
     (if findByRunStage ks s (SA_RunID g) (SA_StageID g) \<noteq> None then (Inl ErrConflict, s)
      else
        (let g = (if SA_CreatedAt g = 0 then g\<lparr>SA_CreatedAt := now\<rparr> else g);
             g = g\<lparr>SA_UpdatedAt := SA_CreatedAt g\<rparr>
         in (Inr g, s\<lparr>sa_m := (sa_m s)(SA_ID g \<mapsto> g\<lparr>SA_Votes := []\<rparr>)\<rparr>)))"

definition GetGate :: "string list \<Rightarrow> string \<Rightarrow> string \<Rightarrow> stageApprovals \<Rightarrow> store_err + StageApproval" where
  "GetGate ks runID stageID s =
     (case findByRunStage ks s runID stageID of None \<Rightarrow> Inl ErrNotFound | Some g \<Rightarrow> Inr (sa_hydrate s g))"

definition ListGates :: "string list \<Rightarrow> string \<Rightarrow> stageApprovals \<Rightarrow> StageApproval list" where
  "ListGates ks runID s =
     sort_key SA_CreatedAt (map (sa_hydrate s) (filter (\<lambda>g. SA_RunID g = runID) (map_values ks (sa_m s))))"

definition UpdateGateStatus ::
  "time \<Rightarrow> string \<Rightarrow> string \<Rightarrow> string \<Rightarrow> time option \<Rightarrow> stageApprovals \<Rightarrow> store_err option \<times> stageApprovals" where
  "UpdateGateStatus now i status resolvedBy resolvedAt s =
     (case sa_m s i of
        None \<Rightarrow> (Some ErrNotFound, s)
      | Some g \<Rightarrow>
          (let g = g\<lparr>SA_Status := status\<rparr>;
               g = (if resolvedBy \<noteq> [] then g\<lparr>SA_ResolvedBy := resolvedBy\<rparr> else g);
               g = (case resolvedAt of None \<Rightarrow> g | Some t \<Rightarrow> g\<lparr>SA_ResolvedAt := Some t\<rparr>)
           in (None, s\<lparr>sa_m := (sa_m s)(i \<mapsto> g\<lparr>SA_UpdatedAt := now\<rparr>)\<rparr>)))"

definition AddVote ::
  "time \<Rightarrow> StageApprovalVote \<Rightarrow> stageApprovals \<Rightarrow> (store_err + bool \<times> nat) \<times> stageApprovals" where
  "AddVote now v s =
     (case sa_m s (SAV_StageApprovalID v) of
        None \<Rightarrow> (Inl ErrNotFound, s)
      | Some _ \<Rightarrow>
          (let existing = sa_votes s (SAV_StageApprovalID v) in
           if list_ex (\<lambda>e. SAV_ApproverSub e = SAV_ApproverSub v) existing then (Inr (False, length existing), s)
           else
             (let v = (if SAV_CreatedAt v = 0 then v\<lparr>SAV_CreatedAt := now\<rparr> else v)
              in (Inr (True, length existing + 1),
                  s\<lparr>sa_votes := (sa_votes s)(SAV_StageApprovalID v := existing @ [v])\<rparr>))))"

definition sa_subs :: "stageApprovals \<Rightarrow> string \<Rightarrow> string list" where
  "sa_subs s i = map SAV_ApproverSub (sa_votes s i)"

definition sa_add :: "time \<Rightarrow> StageApprovalVote \<Rightarrow> stageApprovals \<Rightarrow> (bool \<times> nat) option \<times> stageApprovals" where
  "sa_add now v s = (case AddVote now v s of (Inl e, s') \<Rightarrow> (None, s') | (Inr r, s') \<Rightarrow> (Some r, s'))"

interpretation sav: vote_log "sa_add now" sa_subs SAV_StageApprovalID SAV_ApproverSub
  by unfold_locales
    (auto simp: sa_add_def AddVote_def sa_subs_def Let_def list_ex_iff intro: rev_image_eqI split: option.splits if_splits)

subsection \<open>The service\<close>

datatype gate_err =
    LoadErr store_err
  | PersistErr store_err
  | VoteErr store_err
  | ReloadErr store_err
  | AdvanceErr store_err
  | SettleErr store_err

datatype gate_note = ErrGateResolved | ErrAlreadyApproved

definition new_gate :: "string \<Rightarrow> string \<Rightarrow> string \<Rightarrow> int \<Rightarrow> StageApproval" where
  "new_gate gid runID stageID required =
     \<lparr>SA_ID = gid, SA_RunID = runID, SA_StageID = stageID, SA_Status = ''awaiting'',
      SA_RequiredApprovers = normalizeApprovers required, SA_ResolvedBy = [], SA_ResolvedAt = None,
      SA_CreatedAt = 0, SA_UpdatedAt = 0, SA_Votes = []\<rparr>"

definition Await ::
  "string list \<Rightarrow> time \<Rightarrow> string \<Rightarrow> string \<Rightarrow> string \<Rightarrow> int \<Rightarrow> stageApprovals
    \<Rightarrow> (gate_err + StageApproval) \<times> stageApprovals" where
  "Await ks now gid runID stageID required s =
     (case GetGate ks runID stageID s of
        Inr existing \<Rightarrow> (Inr existing, s)
      | Inl e \<Rightarrow>
          if e \<noteq> ErrNotFound then (Inl (LoadErr e), s)
          else (case CreateGate ks now (new_gate gid runID stageID required) s of
                  (Inr g, s') \<Rightarrow> (Inr g, s')
                | (Inl e, s') \<Rightarrow>
                    (case (if e = ErrConflict then GetGate ks runID stageID s' else Inl e) of
                       Inr existing \<Rightarrow> (Inr existing, s')
                     | Inl _ \<Rightarrow> (Inl (PersistErr e), s'))))"

definition new_vote :: "string \<Rightarrow> string \<Rightarrow> string \<Rightarrow> string \<Rightarrow> string \<Rightarrow> StageApprovalVote" where
  "new_vote vid gid sub email note =
     \<lparr>SAV_ID = vid, SAV_StageApprovalID = gid, SAV_ApproverSub = sub, SAV_ApproverEmail = email,
      SAV_Note = note, SAV_CreatedAt = 0\<rparr>"

definition SA_Approve ::
  "string list \<Rightarrow> time \<Rightarrow> string \<Rightarrow> string \<Rightarrow> string \<Rightarrow> string \<Rightarrow> string \<Rightarrow> string \<Rightarrow> stageApprovals
    \<Rightarrow> (gate_err + StageApproval \<times> gate_note option) \<times> stageApprovals" where
  "SA_Approve ks now vid runID stageID sub email note s =
     (case GetGate ks runID stageID s of
        Inl e \<Rightarrow> (Inl (LoadErr e), s)
      | Inr g \<Rightarrow>
          if SA_Status g \<noteq> ''awaiting'' then (Inr (g, Some ErrGateResolved), s)
          else (case AddVote now (new_vote vid (SA_ID g) sub email note) s of
              (Inl e, s1) \<Rightarrow> (Inl (VoteErr e), s1)
            | (Inr (added, cnt), s1) \<Rightarrow>
                (case GetGate ks runID stageID s1 of
                   Inl e \<Rightarrow> (Inl (ReloadErr e), s1)
                 | Inr g1 \<Rightarrow>
                     (let verdict = (if \<not> added then Some ErrAlreadyApproved else None) in
                      if int cnt \<ge> SA_RequiredApprovers g1 \<and> SA_Status g1 = ''awaiting'' then
                        (case UpdateGateStatus now (SA_ID g1) ''approved'' email (Some now) s1 of
                           (Some e, s2) \<Rightarrow> (Inl (AdvanceErr e), s2)
                         | (None, s2) \<Rightarrow>
                             (Inr (g1\<lparr>SA_Status := ''approved'', SA_ResolvedBy := email, SA_ResolvedAt := Some now\<rparr>,
                                verdict), s2))
                      else (Inr (g1, verdict), s1)))))"

definition SA_Reject ::
  "string list \<Rightarrow> time \<Rightarrow> string \<Rightarrow> string \<Rightarrow> string \<Rightarrow> stageApprovals
    \<Rightarrow> (gate_err + StageApproval \<times> gate_note option) \<times> stageApprovals" where
  "SA_Reject ks now runID stageID email s =
     (case GetGate ks runID stageID s of
        Inl e \<Rightarrow> (Inl (LoadErr e), s)
      | Inr g \<Rightarrow>
          if SA_Status g \<noteq> ''awaiting'' then (Inr (g, Some ErrGateResolved), s)
          else (case UpdateGateStatus now (SA_ID g) ''rejected'' email (Some now) s of
                  (Some e, s1) \<Rightarrow> (Inl (SettleErr e), s1)
                | (None, s1) \<Rightarrow>
                    (Inr (g\<lparr>SA_Status := ''rejected'', SA_ResolvedBy := email, SA_ResolvedAt := Some now\<rparr>, None), s1)))"


subsection \<open>Any number of callers\<close>

text \<open>
  Where a caller of the service is: between two calls of the store inside \<open>Await\<close>, \<open>Approve\<close>
  or \<open>Reject\<close>, or in none of them.
\<close>

datatype sa_pc =
    Idle
  | Opening string string int
  | Voting string string StageApprovalVote
  | Counted string string nat string
  | Advancing string string
  | Rejecting string string

record sa_sys =
  sys_store :: stageApprovals
  sys_pc :: "nat \<Rightarrow> sa_pc"

abbreviation goto :: "nat \<Rightarrow> sa_pc \<Rightarrow> sa_sys \<Rightarrow> sa_sys" where
  "goto c pc x \<equiv> x\<lparr>sys_pc := (sys_pc x)(c := pc)\<rparr>"

inductive sa_step :: "sa_sys \<Rightarrow> sa_sys \<Rightarrow> bool" where
  await_load:
    "sys_pc x c = Idle \<Longrightarrow> iter_order ks (sa_m (sys_store x)) \<Longrightarrow>
     GetGate ks runID stageID (sys_store x) = Inl ErrNotFound \<Longrightarrow>
     sa_step x (goto c (Opening runID stageID required) x)"
| await_create:
    "sys_pc x c = Opening runID stageID required \<Longrightarrow> iter_order ks (sa_m (sys_store x)) \<Longrightarrow>
     sa_m (sys_store x) gid = None \<Longrightarrow>
     CreateGate ks now (new_gate gid runID stageID required) (sys_store x) = (r, s') \<Longrightarrow>
     sa_step x (goto c Idle (x\<lparr>sys_store := s'\<rparr>))"
| approve_load:
    "sys_pc x c = Idle \<Longrightarrow> iter_order ks (sa_m (sys_store x)) \<Longrightarrow>
     GetGate ks runID stageID (sys_store x) = Inr g \<Longrightarrow> SA_Status g = ''awaiting'' \<Longrightarrow>
     sa_step x (goto c (Voting runID stageID (new_vote vid (SA_ID g) sub email note)) x)"
| approve_vote:
    "sys_pc x c = Voting runID stageID v \<Longrightarrow> AddVote now v (sys_store x) = (Inr (added, n), s') \<Longrightarrow>
     sa_step x (goto c (Counted runID stageID n (SAV_ApproverEmail v)) (x\<lparr>sys_store := s'\<rparr>))"
| approve_vote_fails:
    "sys_pc x c = Voting runID stageID v \<Longrightarrow> AddVote now v (sys_store x) = (Inl e, s') \<Longrightarrow>
     sa_step x (goto c Idle (x\<lparr>sys_store := s'\<rparr>))"
| approve_reload:
    "sys_pc x c = Counted runID stageID n email \<Longrightarrow> iter_order ks (sa_m (sys_store x)) \<Longrightarrow>
     GetGate ks runID stageID (sys_store x) = Inr g \<Longrightarrow>
     int n \<ge> SA_RequiredApprovers g \<Longrightarrow> SA_Status g = ''awaiting'' \<Longrightarrow>
     sa_step x (goto c (Advancing (SA_ID g) email) x)"
| approve_done:
    "sys_pc x c = Counted runID stageID n email \<Longrightarrow> iter_order ks (sa_m (sys_store x)) \<Longrightarrow>
     \<forall>g. GetGate ks runID stageID (sys_store x) = Inr g \<longrightarrow>
       int n < SA_RequiredApprovers g \<or> SA_Status g \<noteq> ''awaiting'' \<Longrightarrow>
     sa_step x (goto c Idle x)"
| approve_advance:
    "sys_pc x c = Advancing gid email \<Longrightarrow>
     UpdateGateStatus now gid ''approved'' email (Some now) (sys_store x) = (r, s') \<Longrightarrow>
     sa_step x (goto c Idle (x\<lparr>sys_store := s'\<rparr>))"
| reject_load:
    "sys_pc x c = Idle \<Longrightarrow> iter_order ks (sa_m (sys_store x)) \<Longrightarrow>
     GetGate ks runID stageID (sys_store x) = Inr g \<Longrightarrow> SA_Status g = ''awaiting'' \<Longrightarrow>
     sa_step x (goto c (Rejecting (SA_ID g) email) x)"
| reject_settle:
    "sys_pc x c = Rejecting gid email \<Longrightarrow>
     UpdateGateStatus now gid ''rejected'' email (Some now) (sys_store x) = (r, s') \<Longrightarrow>
     sa_step x (goto c Idle (x\<lparr>sys_store := s'\<rparr>))"

definition sa_init :: sa_sys where
  "sa_init = \<lparr>sys_store = \<lparr>sa_m = Map.empty, sa_votes = (\<lambda>_. [])\<rparr>, sys_pc = (\<lambda>_. Idle)\<rparr>"

inductive sa_reachable :: "sa_sys \<Rightarrow> bool" where
  sa_start: "sa_reachable sa_init"
| sa_next: "sa_reachable x \<Longrightarrow> sa_step x y \<Longrightarrow> sa_reachable y"

subsection \<open>The invariant\<close>

abbreviation votes_of :: "stageApprovals \<Rightarrow> string \<Rightarrow> int" where
  "votes_of s i \<equiv> int (length (sa_votes s i))"

definition gate_ok :: "stageApprovals \<Rightarrow> string \<Rightarrow> StageApproval \<Rightarrow> bool" where
  "gate_ok s i g \<longleftrightarrow> SA_ID g = i \<and> 1 \<le> SA_RequiredApprovers g \<and>
     SA_Status g \<in> {''awaiting'', ''approved'', ''rejected''} \<and>
     (SA_Status g = ''approved'' \<longrightarrow> SA_RequiredApprovers g \<le> votes_of s i)"

definition sa_inv :: "stageApprovals \<Rightarrow> bool" where
  "sa_inv s \<longleftrightarrow> (\<forall>i g. sa_m s i = Some g \<longrightarrow> gate_ok s i g) \<and>
     (\<forall>i j g h. sa_m s i = Some g \<longrightarrow> sa_m s j = Some h \<longrightarrow>
        SA_RunID g = SA_RunID h \<longrightarrow> SA_StageID g = SA_StageID h \<longrightarrow> i = j) \<and>
     (\<forall>i. distinct (sa_subs s i))"

text \<open>What no step takes back.\<close>

definition sa_grows :: "stageApprovals \<Rightarrow> stageApprovals \<Rightarrow> bool" where
  "sa_grows s s' \<longleftrightarrow> (\<forall>i g. sa_m s i = Some g \<longrightarrow> (\<exists>g'. sa_m s' i = Some g' \<and>
     SA_RunID g' = SA_RunID g \<and> SA_StageID g' = SA_StageID g \<and>
     SA_RequiredApprovers g' = SA_RequiredApprovers g \<and> votes_of s i \<le> votes_of s' i))"

fun pc_ok :: "stageApprovals \<Rightarrow> sa_pc \<Rightarrow> bool" where
  "pc_ok s (Voting runID stageID v) =
     (\<exists>g. sa_m s (SAV_StageApprovalID v) = Some g \<and> SA_RunID g = runID \<and> SA_StageID g = stageID)"
| "pc_ok s (Counted runID stageID n email) =
     (\<exists>i g. sa_m s i = Some g \<and> SA_RunID g = runID \<and> SA_StageID g = stageID \<and> int n \<le> votes_of s i)"
| "pc_ok s (Advancing gid email) =
     (\<exists>g. sa_m s gid = Some g \<and> SA_RequiredApprovers g \<le> votes_of s gid)"
| "pc_ok s _ = True"

lemma sa_grows_refl: "sa_grows s s"
  by (simp add: sa_grows_def)

lemma pc_ok_grows: "sa_grows s s' \<Longrightarrow> pc_ok s pc \<Longrightarrow> pc_ok s' pc"
proof (induction s pc rule: pc_ok.induct)
  case (1 s runID stageID v)
  then show ?case unfolding sa_grows_def pc_ok.simps by metis
next
  case (2 s runID stageID n email)
  then show ?case unfolding sa_grows_def pc_ok.simps by (meson order_trans)
next
  case (3 s gid email)
  then show ?case unfolding sa_grows_def pc_ok.simps by (metis order_trans)
qed simp_all

lemma GetGate_Inr:
  assumes "GetGate ks runID stageID s = Inr g" "iter_order ks (sa_m s)"
  obtains i g0 where "sa_m s i = Some g0" "SA_RunID g0 = runID" "SA_StageID g0 = stageID" "g = sa_hydrate s g0"
proof -
  from assms(1) obtain g0 where "findByRunStage ks s runID stageID = Some g0" "g = sa_hydrate s g0"
    by (auto simp: GetGate_def split: option.splits)
  note f = find_member [OF this(1) [unfolded findByRunStage_def]]
  from f(1) obtain i where "sa_m s i = Some g0" by auto
  with f(2) \<open>g = sa_hydrate s g0\<close> show thesis by (intro that [of i g0]) simp_all
qed

lemma findByRunStage_None:
  assumes "findByRunStage ks s runID stageID = None" "iter_order ks (sa_m s)" "sa_m s i = Some g"
  shows "SA_RunID g \<noteq> runID \<or> SA_StageID g \<noteq> stageID"
proof -
  have "g \<in> set (map_values ks (sa_m s))"
    using assms(2,3) by (auto simp: iter_order_def)
  with assms(1) show ?thesis by (auto simp: findByRunStage_def find_None_iff)
qed


text \<open>The four writes of the store keep the invariant and only grow it.\<close>

lemma CreateGate_inv:
  assumes inv: "sa_inv s" and ks: "iter_order ks (sa_m s)" and new: "sa_m s gid = None"
    and create: "CreateGate ks now (new_gate gid runID stageID required) s = (r, s')"
  shows "sa_inv s' \<and> sa_grows s s'"
proof (cases "findByRunStage ks s runID stageID")
  case (Some g)
  then have "s' = s" using create by (simp add: CreateGate_def new_gate_def)
  with inv show ?thesis by (simp add: sa_grows_refl)
next
  case None
  note other = findByRunStage_None [OF None ks]
  obtain g where s': "s' = s\<lparr>sa_m := (sa_m s)(gid \<mapsto> g)\<rparr>" and g: "SA_ID g = gid" "SA_RunID g = runID"
    "SA_StageID g = stageID" "SA_Status g = ''awaiting''" "1 \<le> SA_RequiredApprovers g"
    using create None normalizeApprovers_pos by (auto simp: CreateGate_def new_gate_def Let_def)
  have "sa_grows s s'" using new by (auto simp: sa_grows_def s')
  moreover have "sa_inv s'"
    unfolding sa_inv_def
  proof (intro conjI allI impI)
    fix i h assume "sa_m s' i = Some h"
    then show "gate_ok s' i h" using inv g by (auto simp: sa_inv_def s' gate_ok_def split: if_splits)
  next
    fix i j h k assume a: "sa_m s' i = Some h" "sa_m s' j = Some k" "SA_RunID h = SA_RunID k" "SA_StageID h = SA_StageID k"
    have old: "sa_m s n = Some w" if "sa_m s' n = Some w" "n \<noteq> gid" for n w using that by (simp add: s')
    have new_one: "w = g" if "sa_m s' gid = Some w" for w using that by (simp add: s')
    show "i = j"
    proof (cases "i = gid \<or> j = gid")
      case True
      then show ?thesis using a g other old new_one by metis
    next
      case False
      then show ?thesis using a inv old unfolding sa_inv_def by metis
    qed
  next
    fix i show "distinct (sa_subs s' i)" using inv by (simp add: sa_inv_def s' sa_subs_def)
  qed
  ultimately show ?thesis by blast
qed

lemma AddVote_inv:
  assumes inv: "sa_inv s" and add: "AddVote now v s = (r, s')"
  shows "sa_inv s' \<and> sa_grows s s' \<and>
    (\<forall>added n. r = Inr (added, n) \<longrightarrow> sa_m s (SAV_StageApprovalID v) \<noteq> None \<and>
       int n = votes_of s' (SAV_StageApprovalID v))"
proof -
  have sa: "sa_add now v s = (case r of Inl e \<Rightarrow> None | Inr x \<Rightarrow> Some x, s')"
    using add by (auto simp: sa_add_def split: sum.splits)
  have m: "sa_m s' = sa_m s"
    using add by (auto simp: AddVote_def Let_def split: option.splits if_splits)
  have mono: "votes_of s i \<le> votes_of s' i" for i
    using sav.vote_mono(2) [OF sa, of i] by (simp add: sa_subs_def)
  have "sa_grows s s'" using mono by (simp add: sa_grows_def m)
  moreover have "sa_inv s'"
    unfolding sa_inv_def m
  proof (intro conjI allI impI)
    fix i g assume "sa_m s i = Some g"
    then have "gate_ok s i g" using inv by (simp add: sa_inv_def)
    then show "gate_ok s' i g" unfolding gate_ok_def using mono [of i] order_trans by blast
  next
    fix i j g h assume "sa_m s i = Some g" "sa_m s j = Some h" "SA_RunID g = SA_RunID h" "SA_StageID g = SA_StageID h"
    then show "i = j" using inv unfolding sa_inv_def by blast
  next
    fix i show "distinct (sa_subs s' i)" using inv sav.vote_distinct [OF sa, of i] by (simp add: sa_inv_def)
  qed
  moreover have "sa_m s (SAV_StageApprovalID v) \<noteq> None \<and> int n = votes_of s' (SAV_StageApprovalID v)"
    if "r = Inr (added, n)" for added n
    using sav.add_count [of now v s added n s'] sa that add
    by (auto simp: sa_subs_def AddVote_def split: option.splits)
  ultimately show ?thesis by blast
qed

lemma UpdateGateStatus_inv:
  assumes inv: "sa_inv s" and upd: "UpdateGateStatus now gid status email at' s = (r, s')"
    and st: "status = ''rejected'' \<or> status = ''approved'' \<and>
      (\<exists>g. sa_m s gid = Some g \<and> SA_RequiredApprovers g \<le> votes_of s gid)"
  shows "sa_inv s' \<and> sa_grows s s'"
proof (cases "sa_m s gid")
  case None
  with upd have "s' = s" by (simp add: UpdateGateStatus_def)
  with inv show ?thesis by (simp add: sa_grows_refl)
next
  case (Some g)
  obtain g' where s': "s' = s\<lparr>sa_m := (sa_m s)(gid \<mapsto> g')\<rparr>" and g': "SA_ID g' = SA_ID g" "SA_RunID g' = SA_RunID g"
    "SA_StageID g' = SA_StageID g" "SA_Status g' = status" "SA_RequiredApprovers g' = SA_RequiredApprovers g"
    using upd Some by (auto simp: UpdateGateStatus_def Let_def split: option.splits)
  have "sa_grows s s'" using Some g' by (auto simp: sa_grows_def s')
  moreover have "sa_inv s'"
    unfolding sa_inv_def
  proof (intro conjI allI impI)
    fix i h assume "sa_m s' i = Some h"
    then show "gate_ok s' i h" using inv Some g' st by (auto simp: sa_inv_def s' gate_ok_def split: if_splits)
  next
    fix i j h k assume "sa_m s' i = Some h" "sa_m s' j = Some k" "SA_RunID h = SA_RunID k" "SA_StageID h = SA_StageID k"
    then show "i = j" using inv Some g' unfolding sa_inv_def s' by (auto split: if_splits)
  next
    fix i show "distinct (sa_subs s' i)" using inv by (simp add: sa_inv_def s' sa_subs_def)
  qed
  ultimately show ?thesis by blast
qed

definition sys_inv :: "sa_sys \<Rightarrow> bool" where
  "sys_inv x \<longleftrightarrow> sa_inv (sys_store x) \<and> (\<forall>c. pc_ok (sys_store x) (sys_pc x c))"

text \<open>A step that keeps the store's invariant, grows it and leaves its caller at a proper place.\<close>

lemma sys_inv_goto:
  assumes "sys_inv x" "sa_inv s'" "sa_grows (sys_store x) s'" "pc_ok s' pc"
  shows "sys_inv (goto c pc (x\<lparr>sys_store := s'\<rparr>))"
  using assms pc_ok_grows [OF assms(3)] by (auto simp: sys_inv_def)

lemma sys_inv_stay: "sys_inv x \<Longrightarrow> pc_ok (sys_store x) pc \<Longrightarrow> sys_inv (goto c pc x)"
  by (auto simp: sys_inv_def)

lemma sa_step_inv:
  assumes "sa_step x y" "sys_inv x"
  shows "sys_inv y"
  using assms(1)
proof cases
  case (await_create c runID stageID required ks gid now r s')
  then show ?thesis
    using assms(2) CreateGate_inv [OF _ await_create(3,4,5)] unfolding await_create(1)
    by (intro sys_inv_goto) (auto simp: sys_inv_def)
next
  case (approve_load c ks runID stageID g vid sub email memo)
  from approve_load(4,3) obtain i g0 where "sa_m (sys_store x) i = Some g0" "SA_RunID g0 = runID"
    "SA_StageID g0 = stageID" "g = sa_hydrate (sys_store x) g0" by (rule GetGate_Inr)
  moreover from this assms(2) have "SA_ID g = i" by (auto simp: sys_inv_def sa_inv_def gate_ok_def sa_hydrate_def)
  ultimately show ?thesis
    using assms(2) unfolding approve_load(1) by (intro sys_inv_stay) (auto simp: new_vote_def)
next
  case (approve_vote c runID stageID v now added n s')
  have pc: "pc_ok (sys_store x) (Voting runID stageID v)" using assms(2) approve_vote(2) by (metis sys_inv_def)
  note a = AddVote_inv [OF _ approve_vote(3)]
  have "sa_inv (sys_store x)" using assms(2) by (simp add: sys_inv_def)
  from a [OF this] have s': "sa_inv s'" "sa_grows (sys_store x) s'" "int n = votes_of s' (SAV_StageApprovalID v)"
    by auto
  have "pc_ok s' (Voting runID stageID v)" using pc_ok_grows [OF s'(2) pc] .
  then have "pc_ok s' (Counted runID stageID n (SAV_ApproverEmail v))" using s'(3) by auto
  then show ?thesis unfolding approve_vote(1) using assms(2) s' by (intro sys_inv_goto)
next
  case (approve_vote_fails c runID stageID v now e s')
  then show ?thesis
    using assms(2) AddVote_inv [OF _ approve_vote_fails(3)] unfolding approve_vote_fails(1)
    by (intro sys_inv_goto) (auto simp: sys_inv_def)
next
  case (approve_reload c runID stageID n email ks g)
  have pc: "pc_ok (sys_store x) (Counted runID stageID n email)" using assms(2) approve_reload(2) by (metis sys_inv_def)
  then obtain j h where j: "sa_m (sys_store x) j = Some h" "SA_RunID h = runID" "SA_StageID h = stageID"
    "int n \<le> votes_of (sys_store x) j" by auto
  from approve_reload(4,3) obtain i g0 where i: "sa_m (sys_store x) i = Some g0" "SA_RunID g0 = runID"
    "SA_StageID g0 = stageID" "g = sa_hydrate (sys_store x) g0" by (rule GetGate_Inr)
  have inv: "sa_inv (sys_store x)" using assms(2) by (simp add: sys_inv_def)
  have "i = j" using inv i(1-3) j(1-3) unfolding sa_inv_def by metis
  moreover have "SA_ID g = i" "SA_RequiredApprovers g = SA_RequiredApprovers g0"
    using inv i by (auto simp: sa_inv_def gate_ok_def sa_hydrate_def)
  ultimately have "pc_ok (sys_store x) (Advancing (SA_ID g) email)"
    using i(1) j(4) approve_reload(5) by auto
  then show ?thesis unfolding approve_reload(1) using assms(2) by (intro sys_inv_stay)
next
  case (approve_advance c gid email now r s')
  have "pc_ok (sys_store x) (Advancing gid email)" using assms(2) approve_advance(2) by (metis sys_inv_def)
  then show ?thesis
    using assms(2) UpdateGateStatus_inv [OF _ approve_advance(3)] unfolding approve_advance(1)
    by (intro sys_inv_goto) (auto simp: sys_inv_def)
next
  case (reject_settle c gid email now r s')
  then show ?thesis
    using assms(2) UpdateGateStatus_inv [OF _ reject_settle(3)] unfolding reject_settle(1)
    by (intro sys_inv_goto) (auto simp: sys_inv_def)
qed (use assms(2) in \<open>auto intro: sys_inv_stay\<close>)

lemma sa_reachable_inv: "sa_reachable x \<Longrightarrow> sys_inv x"
proof (induction rule: sa_reachable.induct)
  case sa_start
  show ?case by (simp add: sys_inv_def sa_init_def sa_inv_def sa_subs_def)
next
  case (sa_next x y)
  then show ?case using sa_step_inv by blast
qed


text \<open>
  C16: however the calls of any number of approvers, rejecters and executors interleave, a gate
  that is approved holds votes of at least \<open>RequiredApprovers\<close> different people, and that number
  is positive.
\<close>

theorem gate_needs_approvers:
  assumes "sa_reachable x" "sa_m (sys_store x) i = Some g" "SA_Status g = ''approved''"
  shows "1 \<le> SA_RequiredApprovers g \<and>
    SA_RequiredApprovers g \<le> int (card (SAV_ApproverSub ` set (sa_votes (sys_store x) i))) \<and>
    distinct (map SAV_ApproverSub (sa_votes (sys_store x) i))"
proof -
  have inv: "sa_inv (sys_store x)" using sa_reachable_inv [OF assms(1)] by (simp add: sys_inv_def)
  then have "gate_ok (sys_store x) i g" "distinct (sa_subs (sys_store x) i)"
    using assms(2) by (auto simp: sa_inv_def)
  then show ?thesis
    using assms(3) distinct_card [of "sa_subs (sys_store x) i"] by (simp add: gate_ok_def sa_subs_def)
qed

subsection \<open>The race of an approval and a rejection\<close>

text \<open>
  The status is read before the write, not with it: a gate that somebody rejects between the
  two becomes approved, although \<open>Approve\<close> promises to advance it only from \<open>awaiting\<close>.
\<close>

abbreviation race_vote :: StageApprovalVote where
  "race_vote \<equiv> new_vote ''v'' ''g'' ''ann'' ''ann@x'' []"

definition race_gate :: StageApproval where
  "race_gate = (new_gate ''g'' ''r'' ''s'' 1)\<lparr>SA_CreatedAt := 1, SA_UpdatedAt := 1\<rparr>"

definition race_voted :: stageApprovals where
  "race_voted = \<lparr>sa_m = [''g'' \<mapsto> race_gate],
     sa_votes = (\<lambda>_. [])(''g'' := [race_vote\<lparr>SAV_CreatedAt := 1\<rparr>])\<rparr>"

definition race_at :: "stageApprovals \<Rightarrow> sa_pc \<Rightarrow> sa_pc \<Rightarrow> sa_sys" where
  "race_at s p q = \<lparr>sys_store = s, sys_pc = (\<lambda>_. Idle)(0 := p, 1 := q)\<rparr>"

lemmas race_defs = race_at_def race_gate_def race_voted_def new_gate_def new_vote_def normalizeApprovers_def
  GetGate_def findByRunStage_def sa_hydrate_def CreateGate_def AddVote_def UpdateGateStatus_def Let_def
  map_values_def List.map_filter_def iter_order_def

lemma race_open: "sa_reachable (race_at \<lparr>sa_m = [''g'' \<mapsto> race_gate], sa_votes = (\<lambda>_. [])\<rparr> Idle Idle)"
proof -
  have 1: "sa_step sa_init (goto 0 (Opening ''r'' ''s'' 1) sa_init)"
    by (rule sa_step.await_load [where ks = "[]"]) (simp_all add: sa_init_def race_defs)
  have 2: "sa_step (goto 0 (Opening ''r'' ''s'' 1) sa_init)
      (goto 0 Idle ((goto 0 (Opening ''r'' ''s'' 1) sa_init)\<lparr>sys_store := \<lparr>sa_m = [''g'' \<mapsto> race_gate], sa_votes = (\<lambda>_. [])\<rparr>\<rparr>))"
    by (rule sa_step.await_create [where ks = "[]" and gid = "''g''" and now = 1 and r = "Inr race_gate"
        and runID = "''r''" and stageID = "''s''" and required = 1])
      (simp_all add: sa_init_def race_defs)
  have eq: "goto 0 Idle ((goto 0 (Opening ''r'' ''s'' 1) sa_init)\<lparr>sys_store := st\<rparr>) = race_at st Idle Idle" for st
    by (simp add: race_at_def sa_init_def fun_eq_iff)
  from sa_next [OF sa_next [OF sa_start 1] 2] show ?thesis unfolding eq .
qed

lemma race_advancing: "sa_reachable (race_at race_voted (Advancing ''g'' ''ann@x'') Idle)"
proof -
  let ?s = "\<lparr>sa_m = [''g'' \<mapsto> race_gate], sa_votes = (\<lambda>_. [])\<rparr> :: stageApprovals"
  have step: "sa_reachable (race_at s' q Idle)"
    if "sa_reachable (race_at s p Idle)" "sa_step (race_at s p Idle) (goto 0 q (race_at s' p Idle))" for s s' p q
  proof -
    have "goto 0 q (race_at s' p Idle) = race_at s' q Idle" by (simp add: race_at_def fun_eq_iff)
    with sa_next [OF that] show ?thesis by simp
  qed
  have keep: "(race_at s p Idle)\<lparr>sys_store := s'\<rparr> = race_at s' p Idle" for s s' p by (simp add: race_at_def)
  have "sa_step (race_at ?s Idle Idle) (goto 0 (Voting ''r'' ''s'' race_vote) (race_at ?s Idle Idle))"
    using sa_step.approve_load [of "race_at ?s Idle Idle" 0 "[''g'']" "''r''" "''s''" race_gate "''v''" "''ann''" "''ann@x''" "[]"]
    by (simp add: race_defs)
  from step [OF race_open this] have 1: "sa_reachable (race_at ?s (Voting ''r'' ''s'' race_vote) Idle)" .
  have "sa_step (race_at ?s (Voting ''r'' ''s'' race_vote) Idle)
      (goto 0 (Counted ''r'' ''s'' 1 ''ann@x'') (race_at race_voted (Voting ''r'' ''s'' race_vote) Idle))"
    using sa_step.approve_vote [of "race_at ?s (Voting ''r'' ''s'' race_vote) Idle" 0 "''r''" "''s''" race_vote 1 True 1 race_voted]
    by (simp add: race_defs)
  from step [OF 1 this] have 2: "sa_reachable (race_at race_voted (Counted ''r'' ''s'' 1 ''ann@x'') Idle)" .
  have "sa_step (race_at race_voted (Counted ''r'' ''s'' 1 ''ann@x'') Idle)
      (goto 0 (Advancing ''g'' ''ann@x'') (race_at race_voted (Counted ''r'' ''s'' 1 ''ann@x'') Idle))"
    using sa_step.approve_reload [of "race_at race_voted (Counted ''r'' ''s'' 1 ''ann@x'') Idle" 0 "''r''" "''s''" 1 "''ann@x''"
        "[''g'']" "sa_hydrate race_voted race_gate"]
    by (simp add: race_defs)
  from step [OF 2 this] show ?thesis .
qed

lemma rejection_overwritten:
  "\<exists>x y g h. sa_reachable x \<and> sa_m (sys_store x) ''g'' = Some g \<and> SA_Status g = ''rejected'' \<and>
     sa_step x y \<and> sa_m (sys_store y) ''g'' = Some h \<and> SA_Status h = ''approved''"
proof -
  let ?p = "Advancing ''g'' ''ann@x''"
  have 1: "sa_step (race_at race_voted ?p Idle) (race_at race_voted ?p (Rejecting ''g'' ''bob@x''))"
    using sa_step.reject_load [of "race_at race_voted ?p Idle" 1 "[''g'']" "''r''" "''s''" "sa_hydrate race_voted race_gate" "''bob@x''"]
    by (simp add: race_defs)
  obtain s' where s': "UpdateGateStatus 2 ''g'' ''rejected'' ''bob@x'' (Some 2) race_voted = (None, s')"
    "map_option SA_Status (sa_m s' ''g'') = Some ''rejected''"
    by (simp add: race_defs)
  have 2: "sa_step (race_at race_voted ?p (Rejecting ''g'' ''bob@x'')) (race_at s' ?p Idle)"
    using sa_step.reject_settle [of "race_at race_voted ?p (Rejecting ''g'' ''bob@x'')" 1 "''g''" "''bob@x''" 2 None s'] s'(1)
    by (simp add: race_at_def)
  from s'(2) obtain g where g: "sa_m s' ''g'' = Some g" "SA_Status g = ''rejected''" by auto
  obtain s'' h where s'': "UpdateGateStatus 3 ''g'' ''approved'' ''ann@x'' (Some 3) s' = (None, s'')"
    "sa_m s'' ''g'' = Some h" "SA_Status h = ''approved''"
    using g(1) by (simp add: UpdateGateStatus_def Let_def)
  have 3: "sa_step (race_at s' ?p Idle) (goto 0 Idle ((race_at s' ?p Idle)\<lparr>sys_store := s''\<rparr>))"
    using sa_step.approve_advance [of "race_at s' ?p Idle" 0 "''g''" "''ann@x''" 3 None s''] s''(1)
    by (simp add: race_at_def)
  have "sa_reachable (race_at s' ?p Idle)"
    using sa_next [OF sa_next [OF race_advancing 1] 2] .
  with g 3 s'' show ?thesis by (intro exI [of _ "race_at s' ?p Idle"] exI) (auto simp: race_at_def)
qed


lemma race_approved:
  obtains s' g where "sa_reachable (goto 0 Idle ((race_at race_voted (Advancing ''g'' ''ann@x'') Idle)\<lparr>sys_store := s'\<rparr>))"
    "sa_m s' ''g'' = Some g" "SA_Status g = ''approved''" "SA_RequiredApprovers g = 1"
proof -
  obtain s' g where s': "UpdateGateStatus 3 ''g'' ''approved'' ''ann@x'' (Some 3) race_voted = (None, s')"
    "sa_m s' ''g'' = Some g" "SA_Status g = ''approved''" "SA_RequiredApprovers g = 1"
    by (simp add: race_defs)
  have "sa_step (race_at race_voted (Advancing ''g'' ''ann@x'') Idle)
      (goto 0 Idle ((race_at race_voted (Advancing ''g'' ''ann@x'') Idle)\<lparr>sys_store := s'\<rparr>))"
    using sa_step.approve_advance [of "race_at race_voted (Advancing ''g'' ''ann@x'') Idle" 0 "''g''" "''ann@x''" 3 None s'] s'(1)
    by (simp add: race_at_def)
  with that s' sa_next [OF race_advancing] show thesis by blast
qed

theorem gate_needs_approvers_witness:
  "\<exists>x g. sa_reachable x \<and> sa_m (sys_store x) ''g'' = Some g \<and> SA_Status g = ''approved'' \<and>
     1 \<le> int (card (SAV_ApproverSub ` set (sa_votes (sys_store x) ''g'')))"
proof -
  obtain s' g where r: "sa_reachable (goto 0 Idle ((race_at race_voted (Advancing ''g'' ''ann@x'') Idle)\<lparr>sys_store := s'\<rparr>))"
    "sa_m s' ''g'' = Some g" "SA_Status g = ''approved''" by (rule race_approved)
  from gate_needs_approvers [OF r(1), of "''g''" g] r(2,3) have
    "1 \<le> int (card (SAV_ApproverSub ` set (sa_votes s' ''g'')))" by simp
  with r show ?thesis
    by (intro exI [of _ "goto 0 Idle ((race_at race_voted (Advancing ''g'' ''ann@x'') Idle)\<lparr>sys_store := s'\<rparr>)"] exI [of _ g])
      simp
qed

subsection \<open>What one call promises\<close>

text \<open>
  The abstract gate: who has voted, how many votes it needs, and its status.
\<close>

record abs_gate =
  ag_voters :: "string set"
  ag_required :: int
  ag_status :: string

definition abs_of :: "stageApprovals \<Rightarrow> string \<Rightarrow> abs_gate option" where
  "abs_of s i = map_option (\<lambda>g. \<lparr>ag_voters = set (sa_subs s i), ag_required = SA_RequiredApprovers g,
     ag_status = SA_Status g\<rparr>) (sa_m s i)"

definition abs_approve :: "string \<Rightarrow> abs_gate \<Rightarrow> abs_gate" where
  "abs_approve sub a =
     (if ag_status a \<noteq> ''awaiting'' then a
      else a\<lparr>ag_voters := insert sub (ag_voters a),
             ag_status := (if ag_required a \<le> int (card (insert sub (ag_voters a))) then ''approved'' else ''awaiting'')\<rparr>)"

definition abs_reject :: "abs_gate \<Rightarrow> abs_gate" where
  "abs_reject a = (if ag_status a \<noteq> ''awaiting'' then a else a\<lparr>ag_status := ''rejected''\<rparr>)"

lemma GetGate_eq:
  assumes "sa_inv s" "iter_order ks (sa_m s)" "sa_m s i = Some g"
  shows "GetGate ks (SA_RunID g) (SA_StageID g) s = Inr (sa_hydrate s g)"
proof (cases "findByRunStage ks s (SA_RunID g) (SA_StageID g)")
  case None
  from findByRunStage_None [OF this assms(2,3)] show ?thesis by simp
next
  case (Some h)
  then have "GetGate ks (SA_RunID g) (SA_StageID g) s = Inr (sa_hydrate s h)" by (simp add: GetGate_def)
  from GetGate_Inr [OF this assms(2)] obtain j g0 where j: "sa_m s j = Some g0" "SA_RunID g0 = SA_RunID g"
    "SA_StageID g0 = SA_StageID g" by metis
  note f = find_member [OF Some [unfolded findByRunStage_def]]
  from f(1) obtain k where k: "sa_m s k = Some h" by auto
  with f(2) assms(1,3) have "k = i" unfolding sa_inv_def by metis
  with k assms(3) Some show ?thesis by (simp add: GetGate_def)
qed

text \<open>The vote of an approval, and what it does to the gate.\<close>

lemma vote_recorded:
  assumes "sa_inv s" "sa_m s i = Some g"
  obtains added n s1 where "AddVote now (new_vote vid i sub email memo) s = (Inr (added, n), s1)"
    "added \<longleftrightarrow> sub \<notin> set (sa_subs s i)" "sa_m s1 = sa_m s" "sa_inv s1" "int n = votes_of s1 i"
    "n = card (insert sub (set (sa_subs s i)))" "set (sa_subs s1 i) = insert sub (set (sa_subs s i))"
    "\<And>j. j \<noteq> i \<Longrightarrow> sa_subs s1 j = sa_subs s j"
proof -
  let ?v = "new_vote vid i sub email memo"
  obtain added n s1 where a: "AddVote now ?v s = (Inr (added, n), s1)"
    using assms(2)
    by (cases "list_ex (\<lambda>e. SAV_ApproverSub e = sub) (sa_votes s i)") (auto simp: AddVote_def new_vote_def Let_def)
  then have sa: "sa_add now ?v s = (Some (added, n), s1)" by (simp add: sa_add_def)
  have v: "SAV_StageApprovalID ?v = i" "SAV_ApproverSub ?v = sub" by (simp_all add: new_vote_def)
  have d: "distinct (sa_subs s i)" using assms(1) by (simp add: sa_inv_def)
  have new: "added \<longleftrightarrow> sub \<notin> set (sa_subs s i)" using sav.add_new [OF sa] v by simp
  have subs: "sa_subs s1 j = (if j = i \<and> added then sa_subs s j @ [sub] else sa_subs s j)" for j
    using sav.add_subs [OF sa, of j] v by simp
  have n: "n = card (insert sub (set (sa_subs s i)))"
    using sav.vote_count(1) [OF sa] d v subs [of i] new by (auto simp: insert_absorb)
  have m: "sa_m s1 = sa_m s" using a by (auto simp: AddVote_def Let_def split: option.splits if_splits)
  have inv: "sa_inv s1" "int n = votes_of s1 i" using AddVote_inv [OF assms(1) a] v by simp_all
  have "set (sa_subs s1 i) = insert sub (set (sa_subs s i))" using subs [of i] new by auto
  with that a new m inv n subs show thesis by auto
qed

text \<open>A gate that passes at this vote.\<close>

lemma gate_passes:
  assumes "sa_inv s1" "sa_m s1 i = Some g" "SA_RequiredApprovers g \<le> votes_of s1 i"
  obtains s2 where "UpdateGateStatus now i ''approved'' email (Some now) s1 = (None, s2)" "sa_inv s2"
    "sa_subs s2 = sa_subs s1"
    "abs_of s2 i = Some \<lparr>ag_voters = set (sa_subs s1 i), ag_required = SA_RequiredApprovers g, ag_status = ''approved''\<rparr>"
    "\<And>j. j \<noteq> i \<Longrightarrow> abs_of s2 j = abs_of s1 j"
proof -
  obtain s2 g2 where u: "UpdateGateStatus now i ''approved'' email (Some now) s1 = (None, s2)"
    "sa_m s2 = (sa_m s1)(i \<mapsto> g2)" "sa_votes s2 = sa_votes s1"
    "SA_RequiredApprovers g2 = SA_RequiredApprovers g" "SA_Status g2 = ''approved''"
    using assms(2) by (auto simp: UpdateGateStatus_def Let_def split: if_splits)
  have "sa_inv s2" using UpdateGateStatus_inv [OF assms(1) u(1)] assms(2,3) by simp
  moreover have subs: "sa_subs s2 = sa_subs s1" by (rule ext) (simp add: sa_subs_def u(3))
  ultimately show thesis using u by (intro that [of s2]) (simp_all add: abs_of_def)
qed

text \<open>
  C17: a call of \<open>Approve\<close> that nobody interferes with does what the abstract gate does: a
  resolved gate stays as it is (\<open>ErrGateResolved\<close>); otherwise the approver joins the voters,
  a repeated vote being reported (\<open>ErrAlreadyApproved\<close>) and counted once, and the gate is
  approved when there are enough voters.  It never fails, returns the gate as it is afterwards
  and leaves every other gate alone.
\<close>

theorem SA_Approve_refines:
  assumes "sa_inv s" "iter_order ks (sa_m s)" "sa_m s i = Some g"
  shows "\<exists>g' verdict s'. SA_Approve ks now vid (SA_RunID g) (SA_StageID g) sub email memo s = (Inr (g', verdict), s') \<and>
    abs_of s' i = map_option (abs_approve sub) (abs_of s i) \<and>
    (\<forall>j. j \<noteq> i \<longrightarrow> abs_of s' j = abs_of s j) \<and>
    sa_inv s' \<and> SA_ID g' = i \<and> map_option ag_status (abs_of s' i) = Some (SA_Status g') \<and>
    verdict = (if SA_Status g \<noteq> ''awaiting'' then Some ErrGateResolved
               else if sub \<in> set (sa_subs s i) then Some ErrAlreadyApproved else None)"
proof (cases "SA_Status g = ''awaiting''")
  case False
  have "SA_ID g = i" using assms(1,3) by (auto simp: sa_inv_def gate_ok_def)
  then show ?thesis
    using assms False by (auto simp: SA_Approve_def GetGate_eq [OF assms] sa_hydrate_def abs_of_def abs_approve_def)
next
  case True
  have gid: "SA_ID g = i" using assms(1,3) by (auto simp: sa_inv_def gate_ok_def)
  obtain added n s1 where v: "AddVote now (new_vote vid i sub email memo) s = (Inr (added, n), s1)"
      "added \<longleftrightarrow> sub \<notin> set (sa_subs s i)" "sa_m s1 = sa_m s" "sa_inv s1" "int n = votes_of s1 i"
      "n = card (insert sub (set (sa_subs s i)))" "set (sa_subs s1 i) = insert sub (set (sa_subs s i))"
      "\<And>j. j \<noteq> i \<Longrightarrow> sa_subs s1 j = sa_subs s j"
    using vote_recorded [OF assms(1,3)] by metis
  have get1: "GetGate ks (SA_RunID g) (SA_StageID g) s1 = Inr (sa_hydrate s1 g)"
    using GetGate_eq [OF v(4), of ks i g] assms(2,3) v(3) by simp
  have other: "abs_of s1 j = abs_of s j" if "j \<noteq> i" for j using v(3) v(8) [OF that] by (simp add: abs_of_def)
  show ?thesis
  proof (cases "SA_RequiredApprovers g \<le> int n")
    case no: False
    have "SA_Approve ks now vid (SA_RunID g) (SA_StageID g) sub email memo s =
        (Inr (sa_hydrate s1 g, if added then None else Some ErrAlreadyApproved), s1)"
      using True no v(1) get1 gid by (simp add: SA_Approve_def GetGate_eq [OF assms] sa_hydrate_def Let_def)
    moreover have "abs_of s1 i = map_option (abs_approve sub) (abs_of s i)"
      using assms(3) True no v(3,6,7) by (simp add: abs_of_def abs_approve_def)
    moreover have "map_option ag_status (abs_of s1 i) = Some ''awaiting''"
      using assms(3) True v(3) by (simp add: abs_of_def)
    ultimately show ?thesis using True v(2,4) gid other by (simp add: sa_hydrate_def)
  next
    case yes: True
    with v(3,5) assms(3) obtain s2 where u: "UpdateGateStatus now i ''approved'' email (Some now) s1 = (None, s2)"
        "sa_inv s2" "sa_subs s2 = sa_subs s1"
        "abs_of s2 i = Some \<lparr>ag_voters = set (sa_subs s1 i), ag_required = SA_RequiredApprovers g, ag_status = ''approved''\<rparr>"
        "\<And>j. j \<noteq> i \<Longrightarrow> abs_of s2 j = abs_of s1 j"
      using gate_passes [OF v(4), of i g] by metis
    have "\<exists>g'. SA_Approve ks now vid (SA_RunID g) (SA_StageID g) sub email memo s =
        (Inr (g', if added then None else Some ErrAlreadyApproved), s2) \<and> SA_ID g' = i \<and> SA_Status g' = ''approved''"
      using True yes v(1) get1 u(1) gid by (simp add: SA_Approve_def GetGate_eq [OF assms] sa_hydrate_def Let_def)
    moreover have "abs_of s2 i = map_option (abs_approve sub) (abs_of s i)"
      using assms(3) True yes v(6,7) u(4) by (simp add: abs_of_def abs_approve_def)
    moreover have "map_option ag_status (abs_of s2 i) = Some ''approved''" by (simp add: u(4))
    ultimately show ?thesis using True v(2) u(2,5) other by auto
  qed
qed

lemma SA_Reject_refines:
  assumes "sa_inv s" "iter_order ks (sa_m s)" "sa_m s i = Some g"
  shows "\<exists>g' verdict s'. SA_Reject ks now (SA_RunID g) (SA_StageID g) email s = (Inr (g', verdict), s') \<and>
    abs_of s' i = map_option abs_reject (abs_of s i) \<and> (\<forall>j. j \<noteq> i \<longrightarrow> abs_of s' j = abs_of s j) \<and>
    sa_inv s' \<and> verdict = (if SA_Status g \<noteq> ''awaiting'' then Some ErrGateResolved else None)"
proof -
  have gid: "SA_ID g = i" using assms(1,3) by (auto simp: sa_inv_def gate_ok_def)
  note get = GetGate_eq [OF assms]
  show ?thesis
  proof (cases "SA_Status g = ''awaiting''")
    case False
    then show ?thesis
      using assms gid by (auto simp: SA_Reject_def get sa_hydrate_def abs_of_def abs_reject_def)
  next
    case True
    obtain s2 g2 where u: "UpdateGateStatus now i ''rejected'' email (Some now) s = (None, s2)"
      "sa_m s2 = (sa_m s)(i \<mapsto> g2)" "sa_votes s2 = sa_votes s"
      "SA_RequiredApprovers g2 = SA_RequiredApprovers g" "SA_Status g2 = ''rejected''"
      using assms(3) by (auto simp: UpdateGateStatus_def Let_def split: if_splits)
    have "sa_inv s2" using UpdateGateStatus_inv [OF assms(1) u(1)] by simp
    moreover have "sa_subs s2 = sa_subs s" by (rule ext) (simp add: sa_subs_def u(3))
    ultimately show ?thesis
      using True u gid assms(3) by (simp add: SA_Reject_def get sa_hydrate_def abs_of_def abs_reject_def)
  qed
qed

lemma race_voted_inv: "sa_inv race_voted"
  using sa_reachable_inv [OF race_advancing] by (simp add: sys_inv_def race_at_def)

theorem SA_Approve_refines_witness:
  "\<exists>g' s'. SA_Approve [''g''] 5 ''w'' ''r'' ''s'' ''ann'' ''ann@x'' [] race_voted = (Inr (g', Some ErrAlreadyApproved), s') \<and>
     map_option ag_status (abs_of s' ''g'') = Some ''approved''"
proof -
  have o: "iter_order [''g''] (sa_m race_voted)" "sa_m race_voted ''g'' = Some race_gate"
    "SA_RunID race_gate = ''r''" "SA_StageID race_gate = ''s''" "SA_Status race_gate = ''awaiting''"
    "''ann'' \<in> set (sa_subs race_voted ''g'')"
    by (simp_all add: race_defs sa_subs_def)
  have "map_option ag_status (map_option (abs_approve ''ann'') (abs_of race_voted ''g'')) = Some ''approved''"
    by (simp add: abs_of_def abs_approve_def race_defs sa_subs_def)
  with SA_Approve_refines [OF race_voted_inv o(1,2), of 5 "''w''" "''ann''" "''ann@x''" "[]"] o show ?thesis
    by auto
qed

end
