(* ===== verification/Environments.thy ===== *)
theory Environments
  imports Strings
begin

text \<open>
  The environments of the promotion chain: \<open>backend/internal/model/environment.go\<close>, the page
  cutter of \<open>backend/internal/store/memory/paginate.go\<close> and what the handlers
  \<open>CreateEnvironment\<close> and \<open>UpdateEnvironment\<close> do to a decoded body
  (\<open>backend/internal/handler/environment.go\<close>).  Strings are byte sequences, compared byte by
  byte as Go does.  A nil map is \<open>None\<close>.
\<close>

record EnvironmentTarget =
  ET_Type :: string
  ET_ClusterID :: string
  ET_Namespace :: string
  ET_KubeContext :: string

record PromotionPolicy =
  PP_Strategy :: string
  PP_RequiredApprovers :: int
  PP_AutoPromoteOn :: "string list"

record Environment =
  Env_ID :: string
  Env_Name :: string
  Env_Order :: int
  Env_Target :: EnvironmentTarget
  Env_Promotion :: PromotionPolicy
  Env_PlainVars :: "(string \<rightharpoonup> string) option"
  Env_Secrets :: "string \<rightharpoonup> 8 word list"
  Env_SecretKeys :: "string list"
  Env_Variables :: "(string \<rightharpoonup> string) option"
  Env_CreatedAt :: time
  Env_Version :: int

subsection \<open>The operations\<close>

definition NormalisePlainVars :: "Environment \<Rightarrow> Environment" where
  "NormalisePlainVars e =
     (let e = (if Env_PlainVars e = None then e\<lparr>Env_PlainVars := Env_Variables e\<rparr> else e);
          e = (if Env_PlainVars e = None then e\<lparr>Env_PlainVars := Some (\<lambda>_. None)\<rparr> else e)
      in e\<lparr>Env_Variables := None\<rparr>)"

text \<open>The insertion sort of \<open>Redact\<close>: the inner loop walks back from \<open>j\<close>, the outer from \<open>i\<close>.\<close>

fun sift :: "nat \<Rightarrow> string list \<Rightarrow> string list" where
  "sift 0 keys = keys"
| "sift (Suc j) keys =
     (if keys ! j > keys ! Suc j then sift j (keys[j := keys ! Suc j, Suc j := keys ! j]) else keys)"

primrec sort_from :: "nat \<Rightarrow> nat \<Rightarrow> string list \<Rightarrow> string list" where
  "sort_from i 0 keys = keys"
| "sort_from i (Suc n) keys = sort_from (Suc i) n (sift i keys)"

definition sort_keys :: "string list \<Rightarrow> string list" where
  "sort_keys keys = sort_from 1 (length keys - 1) keys"

text \<open>\<open>ks\<close> is the order in which the loop visits the secrets.\<close>

definition Redact :: "string list \<Rightarrow> Environment \<Rightarrow> Environment" where
  "Redact ks e =
     (let cp = e\<lparr>Env_Secrets := (\<lambda>_. None)\<rparr> in
      if ks \<noteq> [] then cp\<lparr>Env_SecretKeys := sort_keys ks\<rparr> else cp)"

text \<open>\<open>paginate\<close>: a limit that is not positive means all, a negative offset means none.\<close>

definition paginate :: "'a list \<Rightarrow> int \<Rightarrow> int \<Rightarrow> 'a list" where
  "paginate xs limit offset =
     (if 0 < offset \<and> int (length xs) \<le> offset then []
      else
        (let xs = (if 0 < offset then drop (nat offset) xs else xs) in
         if 0 < limit \<and> limit < int (length xs) then take (nat limit) xs else xs))"

subsection \<open>The handlers' part\<close>

text \<open>
  What is stored for a decoded body: a new environment has no secrets, an updated one keeps the
  secrets it had.
\<close>

definition created_env :: "time \<Rightarrow> string \<Rightarrow> Environment \<Rightarrow> Environment" where
  "created_env now eid body =
     NormalisePlainVars (body\<lparr>Env_Secrets := (\<lambda>_. None), Env_ID := eid, Env_CreatedAt := now\<rparr>)"

definition updated_env :: "string \<Rightarrow> Environment \<Rightarrow> Environment \<Rightarrow> Environment" where
  "updated_env eid existing body =
     NormalisePlainVars (body\<lparr>Env_ID := eid, Env_CreatedAt := Env_CreatedAt existing,
       Env_Secrets := Env_Secrets existing\<rparr>)"

subsection \<open>The sort\<close>

lemma insort_snoc_less: "x < y \<Longrightarrow> insort x (xs @ [y]) = insort x xs @ [y]"
  by (induction xs) auto

lemma insort_above: "(\<And>y. y \<in> set xs \<Longrightarrow> y \<le> x) \<Longrightarrow> sorted xs \<Longrightarrow> insort x xs = xs @ [x]"
proof (induction xs)
  case (Cons y ys)
  then have "insort x ys = ys @ [x]" "y \<le> x" by simp_all
  moreover have "insort x ys = x # ys" if "x = y"
    using Cons.prems(2) that by (intro insort_is_Cons) auto
  ultimately show ?case by auto
qed simp

text \<open>The inner loop inserts the element at \<open>j\<close> into the sorted prefix before it.\<close>

lemma sift_insort:
  "sorted (take j keys) \<Longrightarrow> j < length keys \<Longrightarrow> sift j keys = insort (keys ! j) (take j keys) @ drop (Suc j) keys"
proof (induction j keys rule: sift.induct)
  case (1 keys)
  then show ?case by (cases keys) simp_all
next
  case (2 j keys)
  let ?x = "keys ! Suc j" and ?y = "keys ! j"
  have prefix: "take (Suc j) keys = take j keys @ [?y]" using 2(3) by (simp add: take_Suc_conv_app_nth)
  have split: "keys = take j keys @ ?y # ?x # drop (Suc (Suc j)) keys"
    using 2(3) by (metis Cons_nth_drop_Suc Suc_lessD append_take_drop_id)
  show ?case
  proof (cases "?y > ?x")
    case True
    let ?keys = "keys[j := ?x, Suc j := ?y]"
    have eq: "take j ?keys = take j keys" "?keys ! j = ?x" "drop (Suc j) ?keys = ?y # drop (Suc (Suc j)) keys"
      using 2(3) by (simp_all add: Cons_nth_drop_Suc [symmetric])
    have "sorted (take j keys)" using 2(2) prefix by (simp add: sorted_append)
    with 2(1) [OF True] 2(3) eq have "sift j ?keys = insort ?x (take j keys) @ ?y # drop (Suc (Suc j)) keys"
      by simp
    then show ?thesis using True by (simp add: prefix insort_snoc_less [OF True])
  next
    case False
    have "insort ?x (take (Suc j) keys) = take (Suc j) keys @ [?x]"
      using 2(2) False prefix by (intro insort_above) (auto simp: sorted_append)
    then show ?thesis using False prefix split by simp
  qed
qed

lemma sort_from_sorted:
  assumes "sorted (take i keys)" "i + n = length keys"
  shows "sorted (sort_from i n keys) \<and> mset (sort_from i n keys) = mset keys"
  using assms
proof (induction n arbitrary: i keys)
  case (Suc n)
  have s: "sift i keys = insort (keys ! i) (take i keys) @ drop (Suc i) keys"
    using sift_insort Suc.prems by simp
  have "take (Suc i) (sift i keys) = insort (keys ! i) (take i keys)" using s Suc.prems(2) by simp
  moreover have "mset (sift i keys) = mset keys"
    using id_take_nth_drop [of i keys] Suc.prems(2) by (simp add: s) (metis mset.simps(2) mset_append
      union_mset_add_mset_right)
  moreover have "length (sift i keys) = length keys" using s Suc.prems(2) by simp
  ultimately show ?case using Suc.IH [of "Suc i" "sift i keys"] Suc.prems by (simp add: sorted_insort)
qed simp

lemma sort_keys_spec: "sorted (sort_keys keys) \<and> mset (sort_keys keys) = mset keys"
proof (cases keys)
  case (Cons k ks)
  then show ?thesis unfolding sort_keys_def by (intro sort_from_sorted) simp_all
qed (simp add: sort_keys_def)

subsection \<open>What clients see\<close>

text \<open>
  The redacted copy carries no secret value; when there are secrets it names exactly their
  keys, sorted and without repetition, whatever order the map was visited in; everything else is
  unchanged.
\<close>

theorem Redact_spec:
  assumes "iter_order ks (Env_Secrets e)"
  shows "Env_Secrets (Redact ks e) = (\<lambda>_. None) \<and>
    (Env_Secrets e \<noteq> (\<lambda>_. None) \<longrightarrow>
      Env_SecretKeys (Redact ks e) = sorted_list_of_set (dom (Env_Secrets e))) \<and>
    Redact ks e = e\<lparr>Env_Secrets := (\<lambda>_. None), Env_SecretKeys := Env_SecretKeys (Redact ks e)\<rparr>"
proof (intro conjI impI)
  show "Env_Secrets (Redact ks e) = (\<lambda>_. None)" by (simp add: Redact_def Let_def)
  show "Redact ks e = e\<lparr>Env_Secrets := (\<lambda>_. None), Env_SecretKeys := Env_SecretKeys (Redact ks e)\<rparr>"
    by (simp add: Redact_def Let_def)
  assume "Env_Secrets e \<noteq> (\<lambda>_. None)"
  then have "dom (Env_Secrets e) \<noteq> {}" by simp
  then have "ks \<noteq> []" using assms by (auto simp only: iter_order_def list.set)
  moreover have "sort_keys ks = sorted_list_of_set (set ks)"
  proof (rule sorted_distinct_set_unique)
    have "distinct (sort_keys ks)"
      using assms sort_keys_spec [of ks] by (metis iter_orderD(1) mset_eq_imp_distinct_iff)
    then show "distinct (sort_keys ks)" .
    show "set (sort_keys ks) = set (sorted_list_of_set (set ks))"
      using sort_keys_spec [of ks] by (metis List.finite_set set_mset_mset set_sorted_list_of_set)
  qed (use sort_keys_spec in simp_all)
  ultimately show "Env_SecretKeys (Redact ks e) = sorted_list_of_set (dom (Env_Secrets e))"
    using assms by (simp add: Redact_def Let_def iter_order_def)
qed

text \<open>
  Without secrets the names are not cleared: those a client sent in the body of a create call
  come back to every reader, although the field is documented as ignored on inbound payloads.
\<close>

lemma created_env_echoes_keys:
  "Env_SecretKeys (Redact [] (created_env now eid body)) = Env_SecretKeys body"
  by (simp add: created_env_def NormalisePlainVars_def Redact_def Let_def)

lemma NormalisePlainVars_idem: "NormalisePlainVars (NormalisePlainVars e) = NormalisePlainVars e"
  by (simp add: NormalisePlainVars_def Let_def)

lemma NormalisePlainVars_spec:
  "Env_PlainVars (NormalisePlainVars e) =
     Some (case Env_PlainVars e of Some m \<Rightarrow> m
           | None \<Rightarrow> (case Env_Variables e of Some m \<Rightarrow> m | None \<Rightarrow> (\<lambda>_. None)))"
  by (auto simp: NormalisePlainVars_def Let_def split: option.splits)

text \<open>A page is the window of the list its limit and offset say.\<close>

lemma paginate_pages:
  "0 < n \<Longrightarrow> paginate xs (int n) (int k) = take n (drop k xs)"
  by (cases "k = 0") (auto simp: paginate_def Let_def)

definition demo_environment :: Environment where
  "demo_environment =
     \<lparr>Env_ID = ''staging'', Env_Name = ''Staging'', Env_Order = 2,
      Env_Target = \<lparr>ET_Type = ''cluster'', ET_ClusterID = [], ET_Namespace = [], ET_KubeContext = []\<rparr>,
      Env_Promotion = \<lparr>PP_Strategy = ''manual'', PP_RequiredApprovers = 2, PP_AutoPromoteOn = []\<rparr>,
      Env_PlainVars = None, Env_Secrets = [''TOKEN'' \<mapsto> [1, 2], ''KEY'' \<mapsto> [3]], Env_SecretKeys = [],
      Env_Variables = None, Env_CreatedAt = 1, Env_Version = 1\<rparr>"

theorem Redact_spec_witness:
  "Env_SecretKeys (Redact [''TOKEN'', ''KEY''] demo_environment) = sorted_list_of_set {''TOKEN'', ''KEY''} \<and>
   Env_Secrets (Redact [''TOKEN'', ''KEY''] demo_environment) = (\<lambda>_. None)"
proof -
  have o: "iter_order [''TOKEN'', ''KEY''] (Env_Secrets demo_environment)"
    by (auto simp: demo_environment_def iter_order_def)
  have "Env_Secrets demo_environment \<noteq> (\<lambda>_. None)" by (simp add: demo_environment_def fun_eq_iff) metis
  with Redact_spec [OF o] show ?thesis by (simp add: demo_environment_def insert_commute)
qed

end
