(* ===== verification/Promotion.thy ===== *)
theory Promotion
  imports Gates Environments
begin

text \<open>
  The promotion of a run from one environment to the next: \<open>backend/internal/model/promotion.go\<close>,
  the in-memory store (\<open>backend/internal/store/memory/promotion.go\<close>) and both halves of
  \<open>backend/internal/service/promoter.go\<close>, the \<open>Promoter\<close> on the statuses of a run and the
  \<open>PromotionService\<close> on the store.
\<close>

record PromotionApproval =
  PA_ID :: string
  PA_PromotionID :: string
  PA_ApproverSub :: string
  PA_ApproverEmail :: string
  PA_Note :: string
  PA_CreatedAt :: time

record RunPromotion =
  RP_ID :: string
  RP_RunID :: string
  RP_PipelineID :: string
  RP_EnvironmentID :: string
  RP_Status :: string
  RP_Strategy :: string
  RP_RequiredApprovers :: int
  RP_RequestedBy :: string
  RP_PromotedAt :: "time option"
  RP_CreatedAt :: time
  RP_UpdatedAt :: time
  RP_Approvals :: "PromotionApproval list"

record EnvironmentStatus =
  ES_EnvironmentID :: string
  ES_Status :: string
  ES_PromotedAt :: "time option"
  ES_ApprovedBy :: string
  ES_ApprovalsHave :: int
  ES_ApprovalsNeed :: int

definition RP_ApprovalCount :: "RunPromotion \<Rightarrow> nat" where
  "RP_ApprovalCount p = length (RP_Approvals p)"

definition RP_HasApprover :: "RunPromotion \<Rightarrow> string \<Rightarrow> bool" where
  "RP_HasApprover p sub = list_ex (\<lambda>a. PA_ApproverSub a = sub) (RP_Approvals p)"

definition ToEnvironmentStatus :: "RunPromotion \<Rightarrow> EnvironmentStatus" where
  "ToEnvironmentStatus p =
     \<lparr>ES_EnvironmentID = RP_EnvironmentID p, ES_Status = RP_Status p, ES_PromotedAt = RP_PromotedAt p,
      ES_ApprovedBy = (if RP_Approvals p = [] then [] else PA_ApproverEmail (last (RP_Approvals p))),
      ES_ApprovalsHave = int (length (RP_Approvals p)), ES_ApprovalsNeed = RP_RequiredApprovers p\<rparr>"

subsection \<open>The chain of environments\<close>

text \<open>
  \<open>sort.Slice\<close> is not stable: equal orders may come out in any order, so the input list is
  arbitrary in the theorems about the chain.
\<close>

definition NewPromoter :: "Environment list \<Rightarrow> Environment list" where
  "NewPromoter envs = sort_key Env_Order envs"

fun NextEnvironment :: "Environment list \<Rightarrow> string \<Rightarrow> Environment option" where
  "NextEnvironment (e # f # es) cur = (if Env_ID e = cur then Some f else NextEnvironment (f # es) cur)"
| "NextEnvironment _ cur = None"

definition ShouldAutoPromote :: "Environment \<Rightarrow> bool" where
  "ShouldAutoPromote e \<longleftrightarrow> PP_Strategy (Env_Promotion e) = ''auto''"

text \<open>The run is its list of environment statuses; \<open>None\<close> is the error.\<close>

definition Promoter_Promote ::
  "Environment list \<Rightarrow> time \<Rightarrow> string \<Rightarrow> string \<Rightarrow> EnvironmentStatus list
    \<Rightarrow> EnvironmentStatus option \<times> EnvironmentStatus list" where
  "Promoter_Promote envs now cur approvedBy sts =
     (case NextEnvironment envs cur of
        None \<Rightarrow> (None, sts)
      | Some e \<Rightarrow>
          if PP_Strategy (Env_Promotion e) = ''manual'' \<and> approvedBy = [] then
            (let st = \<lparr>ES_EnvironmentID = Env_ID e, ES_Status = ''awaiting_approval'', ES_PromotedAt = None,
                       ES_ApprovedBy = [], ES_ApprovalsHave = 0, ES_ApprovalsNeed = 0\<rparr>
             in (Some st, sts @ [st]))
          else
            (let st = \<lparr>ES_EnvironmentID = Env_ID e, ES_Status = ''deploying'', ES_PromotedAt = Some now,
                       ES_ApprovedBy = approvedBy, ES_ApprovalsHave = 0, ES_ApprovalsNeed = 0\<rparr>
             in (Some st, sts @ [st])))"

text \<open>\<open>True\<close> when a pending promotion was found.\<close>

fun ApprovePromotion :: "time \<Rightarrow> string \<Rightarrow> string \<Rightarrow> EnvironmentStatus list \<Rightarrow> bool \<times> EnvironmentStatus list" where
  "ApprovePromotion now envID approvedBy [] = (False, [])"
| "ApprovePromotion now envID approvedBy (es # sts) =
     (if ES_EnvironmentID es = envID \<and> ES_Status es = ''awaiting_approval'' then
        (True, es\<lparr>ES_Status := ''deploying'', ES_PromotedAt := Some now, ES_ApprovedBy := approvedBy\<rparr> # sts)
      else (case ApprovePromotion now envID approvedBy sts of (b, sts') \<Rightarrow> (b, es # sts')))"

subsection \<open>The store\<close>

record promotions =
  pr_m :: "string \<rightharpoonup> RunPromotion"
  pr_approvals :: "string \<Rightarrow> PromotionApproval list"

definition findByRunEnv :: "string list \<Rightarrow> promotions \<Rightarrow> string \<Rightarrow> string \<Rightarrow> RunPromotion option" where
  "findByRunEnv ks s runID envID =
     find (\<lambda>p. RP_RunID p = runID \<and> RP_EnvironmentID p = envID) (map_values ks (pr_m s))"

definition pr_hydrate :: "promotions \<Rightarrow> RunPromotion \<Rightarrow> RunPromotion" where
  "pr_hydrate s p = p\<lparr>RP_Approvals := pr_approvals s (RP_ID p)\<rparr>"

definition CreatePromotion ::
  "string list \<Rightarrow> time \<Rightarrow> RunPromotion \<Rightarrow> promotions \<Rightarrow> (store_err + RunPromotion) \<times> promotions" where
  "CreatePromotion ks now p s =
     (if findByRunEnv ks s (RP_RunID p) (RP_EnvironmentID p) \<noteq> None then (Inl ErrConflict, s)
      else
        (let p = (if RP_CreatedAt p = 0 then p\<lparr>RP_CreatedAt := now\<rparr> else p);
             p = p\<lparr>RP_UpdatedAt := RP_CreatedAt p\<rparr>
         in (Inr p, s\<lparr>pr_m := (pr_m s)(RP_ID p \<mapsto> p\<lparr>RP_Approvals := []\<rparr>)\<rparr>)))"

definition GetPromotion :: "string list \<Rightarrow> string \<Rightarrow> string \<Rightarrow> promotions \<Rightarrow> store_err + RunPromotion" where
  "GetPromotion ks runID envID s =
     (case findByRunEnv ks s runID envID of None \<Rightarrow> Inl ErrNotFound | Some p \<Rightarrow> Inr (pr_hydrate s p))"

definition ListPromotions :: "string list \<Rightarrow> string \<Rightarrow> promotions \<Rightarrow> RunPromotion list" where
  "ListPromotions ks runID s =
     sort_key RP_CreatedAt (map (pr_hydrate s) (filter (\<lambda>p. RP_RunID p = runID) (map_values ks (pr_m s))))"

definition UpdatePromotionStatus ::
  "time \<Rightarrow> string \<Rightarrow> string \<Rightarrow> time option \<Rightarrow> promotions \<Rightarrow> store_err option \<times> promotions" where
  "UpdatePromotionStatus now i status promotedAt s =
     (case pr_m s i of
        None \<Rightarrow> (Some ErrNotFound, s)
      | Some p \<Rightarrow>
          (let p = p\<lparr>RP_Status := status\<rparr>;
               p = (case promotedAt of None \<Rightarrow> p | Some t \<Rightarrow> p\<lparr>RP_PromotedAt := Some t\<rparr>)
           in (None, s\<lparr>pr_m := (pr_m s)(i \<mapsto> p\<lparr>RP_UpdatedAt := now\<rparr>)\<rparr>)))"

definition AddApproval ::
  "time \<Rightarrow> PromotionApproval \<Rightarrow> promotions \<Rightarrow> (store_err + bool \<times> nat) \<times> promotions" where
  "AddApproval now a s =
     (case pr_m s (PA_PromotionID a) of
        None \<Rightarrow> (Inl ErrNotFound, s)
      | Some _ \<Rightarrow>
          (let existing = pr_approvals s (PA_PromotionID a) in
           if list_ex (\<lambda>e. PA_ApproverSub e = PA_ApproverSub a) existing then (Inr (False, length existing), s)
           else
             (let a = (if PA_CreatedAt a = 0 then a\<lparr>PA_CreatedAt := now\<rparr> else a)
              in (Inr (True, length existing + 1),
                  s\<lparr>pr_approvals := (pr_approvals s)(PA_PromotionID a := existing @ [a])\<rparr>))))"

definition pr_subs :: "promotions \<Rightarrow> string \<Rightarrow> string list" where
  "pr_subs s i = map PA_ApproverSub (pr_approvals s i)"

definition pr_add :: "time \<Rightarrow> PromotionApproval \<Rightarrow> promotions \<Rightarrow> (bool \<times> nat) option \<times> promotions" where
  "pr_add now a s = (case AddApproval now a s of (Inl e, s') \<Rightarrow> (None, s') | (Inr r, s') \<Rightarrow> (Some r, s'))"

interpretation pav: vote_log "pr_add now" pr_subs PA_PromotionID PA_ApproverSub
  by unfold_locales
    (auto simp: pr_add_def AddApproval_def pr_subs_def Let_def list_ex_iff intro: rev_image_eqI split: option.splits if_splits)

subsection \<open>The service\<close>

definition requiredApprovers :: "PromotionPolicy \<Rightarrow> int" where
  "requiredApprovers pol =
     (if PP_Strategy pol = ''auto'' then 0
      else if PP_RequiredApprovers pol < 1 then 1 else PP_RequiredApprovers pol)"

datatype promote_err =
    EnvErr
  | ExistingErr store_err
  | CreateErr store_err
  | PromotionErr store_err
  | ApprovalErr store_err
  | RereadErr store_err
  | PassErr store_err

definition new_promotion ::
  "PromotionPolicy \<Rightarrow> time \<Rightarrow> string \<Rightarrow> string \<Rightarrow> string \<Rightarrow> string \<Rightarrow> string \<Rightarrow> RunPromotion" where
  "new_promotion pol now pid runID pipelineID envID requestedBy =
     (let p = \<lparr>RP_ID = pid, RP_RunID = runID, RP_PipelineID = pipelineID, RP_EnvironmentID = envID,
               RP_Status = [], RP_Strategy = PP_Strategy pol, RP_RequiredApprovers = requiredApprovers pol,
               RP_RequestedBy = requestedBy, RP_PromotedAt = None, RP_CreatedAt = 0, RP_UpdatedAt = 0,
               RP_Approvals = []\<rparr>
      in if PP_Strategy pol = ''auto''
         then p\<lparr>RP_Status := ''deployed'', RP_PromotedAt := Some now, RP_RequiredApprovers := 0\<rparr>
         else p\<lparr>RP_Status := ''awaiting_approval''\<rparr>)"

text \<open>\<open>envs\<close> is the environment store; \<open>pid\<close> the fresh id.\<close>

definition PS_Promote ::
  "(string \<rightharpoonup> Environment) \<Rightarrow> string list \<Rightarrow> time \<Rightarrow> string \<Rightarrow> string \<Rightarrow> string \<Rightarrow> string \<Rightarrow> string
    \<Rightarrow> promotions \<Rightarrow> (promote_err + RunPromotion) \<times> promotions" where
  "PS_Promote envs ks now pid runID pipelineID envID requestedBy s =
     (case envs envID of
        None \<Rightarrow> (Inl EnvErr, s)
      | Some env \<Rightarrow>
          (case GetPromotion ks runID envID s of
             Inr existing \<Rightarrow> (Inr existing, s)
           | Inl e \<Rightarrow>
               if e \<noteq> ErrNotFound then (Inl (ExistingErr e), s)
               else (case CreatePromotion ks now
                            (new_promotion (Env_Promotion env) now pid runID pipelineID envID requestedBy) s of
                   (Inr p, s') \<Rightarrow> (Inr p, s')
                 | (Inl e, s') \<Rightarrow>
                     (case (if e = ErrConflict then GetPromotion ks runID envID s' else Inl e) of
                        Inr existing \<Rightarrow> (Inr existing, s')
                      | Inl _ \<Rightarrow> (Inl (CreateErr e), s')))))"

definition new_approval :: "string \<Rightarrow> string \<Rightarrow> string \<Rightarrow> string \<Rightarrow> string \<Rightarrow> PromotionApproval" where
  "new_approval aid pid sub email memo =
     \<lparr>PA_ID = aid, PA_PromotionID = pid, PA_ApproverSub = sub, PA_ApproverEmail = email, PA_Note = memo,
      PA_CreatedAt = 0\<rparr>"

text \<open>The flag of the answer is \<open>ErrAlreadyApproved\<close>.\<close>

definition PS_Approve ::
  "string list \<Rightarrow> time \<Rightarrow> string \<Rightarrow> string \<Rightarrow> string \<Rightarrow> string \<Rightarrow> string \<Rightarrow> string
    \<Rightarrow> promotions \<Rightarrow> (promote_err + RunPromotion \<times> bool) \<times> promotions" where
  "PS_Approve ks now aid runID envID sub email memo s =
     (case GetPromotion ks runID envID s of
        Inl e \<Rightarrow> (Inl (PromotionErr e), s)
      | Inr p \<Rightarrow>
          (case AddApproval now (new_approval aid (RP_ID p) sub email memo) s of
             (Inl e, s1) \<Rightarrow> (Inl (ApprovalErr e), s1)
           | (Inr (added, cnt), s1) \<Rightarrow>
               (case GetPromotion ks runID envID s1 of
                  Inl e \<Rightarrow> (Inl (RereadErr e), s1)
                | Inr p1 \<Rightarrow>
                    if RP_RequiredApprovers p1 \<le> int cnt \<and> RP_Status p1 = ''awaiting_approval'' then
                      (case UpdatePromotionStatus now (RP_ID p1) ''approved'' (Some now) s1 of
                         (Some e, s2) \<Rightarrow> (Inl (PassErr e), s2)
                       | (None, s2) \<Rightarrow> (Inr (p1\<lparr>RP_Status := ''approved'', RP_PromotedAt := Some now\<rparr>, \<not> added), s2))
                    else (Inr (p1, \<not> added), s1))))"

definition Statuses :: "string list \<Rightarrow> string \<Rightarrow> promotions \<Rightarrow> EnvironmentStatus list" where
  "Statuses ks runID s = map ToEnvironmentStatus (ListPromotions ks runID s)"

subsection \<open>Histories of calls\<close>

text \<open>
  Calls of \<open>Promote\<close> and \<open>Approve\<close> one after the other.  The environments may be edited between
  two calls, so each call has its own; ids are fresh.
\<close>

inductive promo_step :: "promotions \<Rightarrow> promotions \<Rightarrow> bool" where
  promo_promote:
    "iter_order ks (pr_m s) \<Longrightarrow> pr_m s pid = None \<Longrightarrow>
     PS_Promote envs ks now pid runID pipelineID envID requestedBy s = (r, s') \<Longrightarrow> promo_step s s'"
| promo_approve:
    "iter_order ks (pr_m s) \<Longrightarrow> PS_Approve ks now aid runID envID sub email memo s = (r, s') \<Longrightarrow> promo_step s s'"

definition pr_init :: promotions where
  "pr_init = \<lparr>pr_m = (\<lambda>_. None), pr_approvals = (\<lambda>_. [])\<rparr>"

text \<open>An automatic promotion is done; a manual one has passed exactly when it has enough approvals.\<close>

definition promo_ok :: "promotions \<Rightarrow> string \<Rightarrow> RunPromotion \<Rightarrow> bool" where
  "promo_ok s i p \<longleftrightarrow> RP_ID p = i \<and>
     (if RP_Strategy p = ''auto'' then RP_Status p = ''deployed'' \<and> RP_RequiredApprovers p = 0
      else 1 \<le> RP_RequiredApprovers p \<and>
        RP_Status p = (if RP_RequiredApprovers p \<le> int (length (pr_approvals s i)) then ''approved''
                       else ''awaiting_approval''))"

definition pr_inv :: "promotions \<Rightarrow> bool" where
  "pr_inv s \<longleftrightarrow> (\<forall>i p. pr_m s i = Some p \<longrightarrow> promo_ok s i p) \<and>
     (\<forall>i j p q. pr_m s i = Some p \<longrightarrow> pr_m s j = Some q \<longrightarrow>
        RP_RunID p = RP_RunID q \<longrightarrow> RP_EnvironmentID p = RP_EnvironmentID q \<longrightarrow> i = j) \<and>
     (\<forall>i. distinct (pr_subs s i)) \<and> (\<forall>i. pr_m s i = None \<longrightarrow> pr_approvals s i = [])"

text \<open>What a call keeps of a promotion: everything but its status and what comes with it.\<close>

definition promo_keeps :: "promotions \<Rightarrow> promotions \<Rightarrow> bool" where
  "promo_keeps s s' \<longleftrightarrow> (\<forall>i p. pr_m s i = Some p \<longrightarrow> (\<exists>p'. pr_m s' i = Some p' \<and>
     RP_RunID p' = RP_RunID p \<and> RP_EnvironmentID p' = RP_EnvironmentID p \<and> RP_Strategy p' = RP_Strategy p \<and>
     RP_RequiredApprovers p' = RP_RequiredApprovers p \<and> (RP_Status p \<noteq> ''awaiting_approval'' \<longrightarrow> p' = p)))"

lemma promo_keeps_refl: "promo_keeps s s"
  by (simp add: promo_keeps_def)

lemma promo_keepsE:
  assumes "promo_keeps s s'" "pr_m s i = Some p"
  obtains p' where "pr_m s' i = Some p'" "RP_RunID p' = RP_RunID p" "RP_EnvironmentID p' = RP_EnvironmentID p"
    "RP_Strategy p' = RP_Strategy p" "RP_RequiredApprovers p' = RP_RequiredApprovers p"
    "RP_Status p \<noteq> ''awaiting_approval'' \<longrightarrow> p' = p"
  using assms unfolding promo_keeps_def by blast

lemma promo_keeps_trans:
  assumes "promo_keeps s t" "promo_keeps t u"
  shows "promo_keeps s u"
  unfolding promo_keeps_def
proof (intro allI impI)
  fix i p assume "pr_m s i = Some p"
  with assms(1) obtain q where q: "pr_m t i = Some q" "RP_RunID q = RP_RunID p" "RP_EnvironmentID q = RP_EnvironmentID p"
    "RP_Strategy q = RP_Strategy p" "RP_RequiredApprovers q = RP_RequiredApprovers p"
    "RP_Status p \<noteq> ''awaiting_approval'' \<longrightarrow> q = p" by (rule promo_keepsE) 
  from assms(2) q(1) obtain r where r: "pr_m u i = Some r" "RP_RunID r = RP_RunID q" "RP_EnvironmentID r = RP_EnvironmentID q"
    "RP_Strategy r = RP_Strategy q" "RP_RequiredApprovers r = RP_RequiredApprovers q"
    "RP_Status q \<noteq> ''awaiting_approval'' \<longrightarrow> r = q" by (rule promo_keepsE)
  have "RP_Status p \<noteq> ''awaiting_approval'' \<longrightarrow> r = p" using q(6) r(6) by simp
  with q r show "\<exists>p'. pr_m u i = Some p' \<and> RP_RunID p' = RP_RunID p \<and>
      RP_EnvironmentID p' = RP_EnvironmentID p \<and> RP_Strategy p' = RP_Strategy p \<and>
      RP_RequiredApprovers p' = RP_RequiredApprovers p \<and>
      (RP_Status p \<noteq> ''awaiting_approval'' \<longrightarrow> p' = p)"
    by (intro exI [of _ r]) simp
qed

lemma pr_inv_ok: "pr_inv s \<Longrightarrow> pr_m s i = Some p \<Longrightarrow> promo_ok s i p"
  by (simp add: pr_inv_def)

lemma pr_inv_key:
  assumes "pr_inv s" "pr_m s i = Some p" "pr_m s j = Some q" "RP_RunID p = RP_RunID q"
    "RP_EnvironmentID p = RP_EnvironmentID q"
  shows "i = j"
  using assms unfolding pr_inv_def by blast

lemma pr_inv_distinct: "pr_inv s \<Longrightarrow> distinct (pr_subs s i)"
  by (simp add: pr_inv_def)

lemma GetPromotion_Inr:
  assumes "GetPromotion ks runID envID s = Inr p" "iter_order ks (pr_m s)"
  obtains i p0 where "pr_m s i = Some p0" "RP_RunID p0 = runID" "RP_EnvironmentID p0 = envID" "p = pr_hydrate s p0"
proof -
  from assms(1) obtain p0 where "findByRunEnv ks s runID envID = Some p0" "p = pr_hydrate s p0"
    by (auto simp: GetPromotion_def split: option.splits)
  note f = find_member [OF this(1) [unfolded findByRunEnv_def]]
  from f(1) obtain i where "pr_m s i = Some p0" by auto
  with f(2) \<open>p = pr_hydrate s p0\<close> show thesis by (intro that [of i p0]) simp_all
qed

lemma GetPromotion_Inl:
  assumes "GetPromotion ks runID envID s = Inl e" "iter_order ks (pr_m s)"
  shows "e = ErrNotFound" and "findByRunEnv ks s runID envID = None"
    and "pr_m s i = Some p \<Longrightarrow> RP_RunID p \<noteq> runID \<or> RP_EnvironmentID p \<noteq> envID"
proof -
  show "e = ErrNotFound" "findByRunEnv ks s runID envID = None"
    using assms(1) by (auto simp: GetPromotion_def split: option.splits)
  assume "pr_m s i = Some p"
  then have "p \<in> set (map_values ks (pr_m s))" using assms(2) by (auto simp: iter_order_def)
  with \<open>findByRunEnv ks s runID envID = None\<close> show "RP_RunID p \<noteq> runID \<or> RP_EnvironmentID p \<noteq> envID"
    by (auto simp: findByRunEnv_def find_None_iff)
qed

text \<open>The promotion of a run to an environment is found in whatever order the map is visited.\<close>

lemma findByRunEnv_eq:
  assumes "pr_inv s" "iter_order ks (pr_m s)" "pr_m s i = Some p"
  shows "findByRunEnv ks s (RP_RunID p) (RP_EnvironmentID p) = Some p"
proof (cases "findByRunEnv ks s (RP_RunID p) (RP_EnvironmentID p)")
  case None
  then have "GetPromotion ks (RP_RunID p) (RP_EnvironmentID p) s = Inl ErrNotFound" by (simp add: GetPromotion_def)
  from GetPromotion_Inl(3) [OF this assms(2,3)] show ?thesis by simp
next
  case (Some q)
  note f = find_member [OF Some [unfolded findByRunEnv_def]]
  from f(1) obtain j where j: "pr_m s j = Some q" by auto
  with pr_inv_key [OF assms(1) j assms(3)] f(2) assms(3) Some show ?thesis by simp
qed

subsection \<open>The calls keep the invariant\<close>

lemma new_promotion_fields [simp]:
  "RP_ID (new_promotion pol now pid runID pl envID rq) = pid"
  "RP_RunID (new_promotion pol now pid runID pl envID rq) = runID"
  "RP_EnvironmentID (new_promotion pol now pid runID pl envID rq) = envID"
  "RP_Strategy (new_promotion pol now pid runID pl envID rq) = PP_Strategy pol"
  "RP_RequiredApprovers (new_promotion pol now pid runID pl envID rq) = requiredApprovers pol"
  "RP_Status (new_promotion pol now pid runID pl envID rq) =
     (if PP_Strategy pol = ''auto'' then ''deployed'' else ''awaiting_approval'')"
  by (simp_all add: new_promotion_def requiredApprovers_def Let_def)

lemma requiredApprovers_manual: "PP_Strategy pol \<noteq> ''auto'' \<Longrightarrow> 1 \<le> requiredApprovers pol"
  by (simp add: requiredApprovers_def)

lemma pr_insert:
  assumes inv: "pr_inv s" and new: "pr_m s pid = None" and p: "promo_ok s pid p"
    and other: "\<And>i q. pr_m s i = Some q \<Longrightarrow> RP_RunID q \<noteq> RP_RunID p \<or> RP_EnvironmentID q \<noteq> RP_EnvironmentID p"
    and s': "s' = s\<lparr>pr_m := (pr_m s)(pid \<mapsto> p)\<rparr>"
  shows "pr_inv s' \<and> promo_keeps s s'"
proof -
  have sub: "pr_subs s' = pr_subs s" by (rule ext) (simp add: pr_subs_def s')
  have ok: "promo_ok s' i q = promo_ok s i q" for i q by (simp add: promo_ok_def s')
  have "pr_inv s'"
    unfolding pr_inv_def sub ok
  proof (intro conjI allI impI)
    fix i q assume "pr_m s' i = Some q"
    then show "promo_ok s i q" using p pr_inv_ok [OF inv] by (auto simp: s' split: if_splits)
  next
    fix i j q r assume a: "pr_m s' i = Some q" "pr_m s' j = Some r" "RP_RunID q = RP_RunID r"
      "RP_EnvironmentID q = RP_EnvironmentID r"
    show "i = j"
    proof (cases "i = pid \<or> j = pid")
      case True
      with a other [of i q] other [of j r] show ?thesis by (auto simp: s' split: if_splits)
    next
      case False
      with a pr_inv_key [OF inv, of i q j r] show ?thesis by (simp add: s')
    qed
  next
    fix i show "distinct (pr_subs s i)" by (rule pr_inv_distinct [OF inv])
  next
    fix i assume "pr_m s' i = None"
    then show "pr_approvals s' i = []" using inv by (simp add: s' pr_inv_def split: if_splits)
  qed
  moreover have "promo_keeps s s'" using new by (auto simp: promo_keeps_def s')
  ultimately show ?thesis by blast
qed

lemma PS_Promote_inv:
  assumes inv: "pr_inv s" and ks: "iter_order ks (pr_m s)" and new: "pr_m s pid = None"
    and call: "PS_Promote envs ks now pid runID pipelineID envID requestedBy s = (r, s')"
  shows "pr_inv s' \<and> promo_keeps s s' \<and>
    (\<forall>p. r = Inr p \<longrightarrow> (\<exists>p0. pr_m s' (RP_ID p) = Some p0 \<and> RP_RunID p0 = runID \<and> RP_EnvironmentID p0 = envID))"
proof (cases "envs envID = None")
  case True
  then show ?thesis using call inv by (auto simp: PS_Promote_def promo_keeps_refl)
next
  case False
  then obtain env where env: "envs envID = Some env" by auto
  show ?thesis
  proof (cases "GetPromotion ks runID envID s")
    case (Inr p)
    then obtain i p0 where "pr_m s i = Some p0" "RP_RunID p0 = runID" "RP_EnvironmentID p0 = envID" "p = pr_hydrate s p0"
      using ks by (rule GetPromotion_Inr)
    moreover have "RP_ID p0 = i" using pr_inv_ok [OF inv] calculation(1) by (simp add: promo_ok_def)
    ultimately show ?thesis using call env Inr inv by (auto simp: PS_Promote_def promo_keeps_refl pr_hydrate_def)
  next
    case (Inl e)
    note g = GetPromotion_Inl [OF Inl ks]
    let ?n = "new_promotion (Env_Promotion env) now pid runID pipelineID envID requestedBy"
    let ?p = "?n\<lparr>RP_CreatedAt := (if RP_CreatedAt ?n = 0 then now else RP_CreatedAt ?n)\<rparr>"
    let ?q = "?p\<lparr>RP_UpdatedAt := RP_CreatedAt ?p\<rparr>"
    have r: "r = Inr ?q" "s' = s\<lparr>pr_m := (pr_m s)(pid \<mapsto> ?q\<lparr>RP_Approvals := []\<rparr>)\<rparr>"
      using call env Inl g(1,2) by (auto simp: PS_Promote_def CreatePromotion_def Let_def)
    have none: "pr_approvals s pid = []" using inv new by (simp add: pr_inv_def)
    have ok: "promo_ok s pid (?q\<lparr>RP_Approvals := []\<rparr>)"
      using requiredApprovers_manual [of "Env_Promotion env"] none
      by (auto simp: promo_ok_def requiredApprovers_def)
    have "pr_inv s' \<and> promo_keeps s s'"
      by (rule pr_insert [OF inv new ok _ r(2)]) (use g(3) in simp)
    then show ?thesis using r by simp
  qed
qed

lemma AddApproval_frame:
  assumes "AddApproval now a s = (r, s')"
  shows "pr_m s' = pr_m s" and "pr_m s i = None \<Longrightarrow> pr_approvals s' i = pr_approvals s i"
  using assms by (auto simp: AddApproval_def Let_def split: option.splits if_splits)

text \<open>A recorded approval and the status that goes with it.\<close>

lemma pr_update:
  assumes inv: "pr_inv s" and p: "pr_m s i = Some p" and add: "pr_add now a s = (Some (added, n), s1)"
    and a: "PA_PromotionID a = i"
    and p': "RP_ID p' = RP_ID p" "RP_RunID p' = RP_RunID p" "RP_EnvironmentID p' = RP_EnvironmentID p"
      "RP_Strategy p' = RP_Strategy p" "RP_RequiredApprovers p' = RP_RequiredApprovers p"
    and st: "if RP_Status p = ''awaiting_approval''
             then RP_Status p' = (if RP_RequiredApprovers p \<le> int n then ''approved'' else ''awaiting_approval'')
             else p' = p"
    and m1: "pr_m s1 = pr_m s" and ap1: "\<And>j. pr_m s j = None \<Longrightarrow> pr_approvals s1 j = pr_approvals s j"
  shows "pr_inv (s1\<lparr>pr_m := (pr_m s)(i \<mapsto> p')\<rparr>) \<and> promo_keeps s (s1\<lparr>pr_m := (pr_m s)(i \<mapsto> p')\<rparr>)"
proof -
  let ?s = "s1\<lparr>pr_m := (pr_m s)(i \<mapsto> p')\<rparr>"
  have subs: "pr_subs ?s j = pr_subs s1 j" for j by (simp add: pr_subs_def)
  have len: "length (pr_approvals ?s j) = length (pr_subs s1 j)" for j by (simp add: pr_subs_def)
  have n: "n = length (pr_subs s1 i)" using pav.add_count [OF add] a by simp
  have mono: "length (pr_subs s j) \<le> length (pr_subs s1 j)" for j using pav.vote_mono(2) [OF add] .
  have frame: "pr_subs s1 j = pr_subs s j" if "j \<noteq> i" for j using pav.add_subs [OF add, of j] a that by simp
  have ok0: "promo_ok s i p" using pr_inv_ok [OF inv p] .
  have ok: "promo_ok ?s i p'"
  proof (cases "RP_Strategy p = ''auto'' \<or> RP_Status p = ''awaiting_approval''")
    case True
    then show ?thesis using ok0 p' st n len [of i] by (auto simp: promo_ok_def split: if_splits)
  next
    case False
    then have "p' = p" "RP_Status p = ''approved''" "RP_RequiredApprovers p \<le> int (length (pr_approvals s i))"
      "1 \<le> RP_RequiredApprovers p"
      using st ok0 by (auto simp: promo_ok_def split: if_splits)
    moreover have "length (pr_approvals s i) \<le> length (pr_approvals ?s i)"
      using mono [of i] by (simp add: pr_subs_def)
    ultimately show ?thesis using False ok0 by (simp add: promo_ok_def)
  qed
  have "pr_inv ?s"
    unfolding pr_inv_def
  proof (intro conjI allI impI)
    fix j q assume q: "pr_m ?s j = Some q"
    show "promo_ok ?s j q"
    proof (cases "j = i")
      case True
      with q ok show ?thesis by simp
    next
      case False
      with q have "promo_ok s j q" using pr_inv_ok [OF inv, of j q] by simp
      moreover have "length (pr_approvals ?s j) = length (pr_approvals s j)"
        using frame [OF False] by (metis len length_map pr_subs_def)
      ultimately show ?thesis by (simp add: promo_ok_def)
    qed
  next
    fix j k q r assume a: "pr_m ?s j = Some q" "pr_m ?s k = Some r" "RP_RunID q = RP_RunID r"
      "RP_EnvironmentID q = RP_EnvironmentID r"
    have "\<exists>q0. pr_m s j = Some q0 \<and> RP_RunID q0 = RP_RunID q \<and> RP_EnvironmentID q0 = RP_EnvironmentID q"
      using a(1) p p' by (auto split: if_splits)
    moreover have "\<exists>r0. pr_m s k = Some r0 \<and> RP_RunID r0 = RP_RunID r \<and> RP_EnvironmentID r0 = RP_EnvironmentID r"
      using a(2) p p' by (auto split: if_splits)
    ultimately show "j = k" using a(3,4) pr_inv_key [OF inv, of j _ k] by auto
  next
    fix j show "distinct (pr_subs ?s j)" using pav.vote_distinct [OF add pr_inv_distinct [OF inv]] by (simp add: pr_subs_def)
  next
    fix j assume "pr_m ?s j = None"
    then have "pr_m s j = None" by (simp split: if_splits)
    with ap1 [of j] inv show "pr_approvals ?s j = []" by (simp add: pr_inv_def)
  qed
  moreover have "promo_keeps s ?s" using p p' st by (auto simp: promo_keeps_def)
  ultimately show ?thesis by blast
qed

text \<open>What \<open>Approve\<close> does to a promotion that exists.\<close>

lemma PS_Approve_known:
  assumes inv: "pr_inv s" and ks: "iter_order ks (pr_m s)" and p: "pr_m s i = Some p"
  shows "\<exists>q s'. PS_Approve ks now aid (RP_RunID p) (RP_EnvironmentID p) sub email memo s =
      (Inr (q, sub \<in> set (pr_subs s i)), s') \<and>
    pr_inv s' \<and> promo_keeps s s' \<and> RP_ID q = i \<and> map_option RP_Status (pr_m s' i) = Some (RP_Status q) \<and>
    set (pr_subs s' i) = insert sub (set (pr_subs s i)) \<and> (\<forall>j. j \<noteq> i \<longrightarrow> pr_subs s' j = pr_subs s j)"
proof -
  let ?a = "new_approval aid i sub email memo"
  have a: "PA_PromotionID ?a = i" "PA_ApproverSub ?a = sub" by (simp_all add: new_approval_def)
  have pid: "RP_ID p = i" using pr_inv_ok [OF inv p] by (simp add: promo_ok_def)
  obtain added n s1 where add: "AddApproval now ?a s = (Inr (added, n), s1)"
    using p by (cases "list_ex (\<lambda>e. PA_ApproverSub e = sub) (pr_approvals s i)") (auto simp: AddApproval_def a Let_def)
  then have pa: "pr_add now ?a s = (Some (added, n), s1)" by (simp add: pr_add_def)
  note m1 = AddApproval_frame(1) [OF add]
  have new: "added \<longleftrightarrow> sub \<notin> set (pr_subs s i)" using pav.add_new [OF pa] a by simp
  have subs: "pr_subs s1 j = (if j = i \<and> added then pr_subs s j @ [sub] else pr_subs s j)" for j
    using pav.add_subs [OF pa, of j] a by simp
  have found: "findByRunEnv ks s (RP_RunID p) (RP_EnvironmentID p) = Some p" by (rule findByRunEnv_eq [OF assms])
  then have get: "GetPromotion ks (RP_RunID p) (RP_EnvironmentID p) s = Inr (pr_hydrate s p)"
    "GetPromotion ks (RP_RunID p) (RP_EnvironmentID p) s1 = Inr (pr_hydrate s1 p)"
    by (simp_all add: GetPromotion_def findByRunEnv_def m1)
  let ?pass = "RP_RequiredApprovers p \<le> int n \<and> RP_Status p = ''awaiting_approval''"
  let ?p' = "if ?pass then p\<lparr>RP_Status := ''approved'', RP_PromotedAt := Some now, RP_UpdatedAt := now\<rparr> else p"
  let ?s = "s1\<lparr>pr_m := (pr_m s)(i \<mapsto> ?p')\<rparr>"
  have inv': "pr_inv ?s \<and> promo_keeps s ?s"
    using AddApproval_frame(2) [OF add]
    by (intro pr_update [OF inv p pa a(1) _ _ _ _ _ _ m1]) simp_all
  have "s1\<lparr>pr_m := (pr_m s)(i \<mapsto> p)\<rparr> = s1" using p by (simp add: m1 [symmetric] fun_upd_idem)
  then have "PS_Approve ks now aid (RP_RunID p) (RP_EnvironmentID p) sub email memo s =
      (Inr (if ?pass then (pr_hydrate s1 p)\<lparr>RP_Status := ''approved'', RP_PromotedAt := Some now\<rparr> else pr_hydrate s1 p,
        \<not> added), ?s)"
    using pid p by (simp add: PS_Approve_def get add pr_hydrate_def UpdatePromotionStatus_def m1 Let_def)
  moreover have "pr_subs ?s j = pr_subs s1 j" for j by (simp add: pr_subs_def)
  ultimately show ?thesis using inv' new subs pid by (auto simp: pr_hydrate_def)
qed

lemma promo_step_inv:
  assumes "promo_step s s'" "pr_inv s"
  shows "pr_inv s' \<and> promo_keeps s s'"
  using assms(1)
proof cases
  case (promo_promote ks pid envs now runID pipelineID envID requestedBy r)
  with PS_Promote_inv [OF assms(2) promo_promote] show ?thesis by blast
next
  case (promo_approve ks now aid runID envID sub email memo r)
  show ?thesis
  proof (cases "GetPromotion ks runID envID s")
    case (Inl e)
    with promo_approve(2) assms(2) show ?thesis by (simp add: PS_Approve_def promo_keeps_refl)
  next
    case (Inr p)
    then obtain i p0 where p: "pr_m s i = Some p0" "RP_RunID p0 = runID" "RP_EnvironmentID p0 = envID"
      using promo_approve(1) by (rule GetPromotion_Inr)
    from PS_Approve_known [OF assms(2) promo_approve(1) p(1), of now aid sub email memo] promo_approve(2) p(2,3)
    show ?thesis by auto
  qed
qed

lemma promo_history_inv:
  assumes "promo_step\<^sup>*\<^sup>* s s'" "pr_inv s"
  shows "pr_inv s' \<and> promo_keeps s s'"
  using assms
proof (induction rule: rtranclp_induct)
  case base
  then show ?case by (simp add: promo_keeps_refl)
next
  case (step t u)
  then show ?case using promo_step_inv [OF step.hyps(2)] promo_keeps_trans by blast
qed

lemma pr_init_inv: "pr_inv pr_init"
  by (simp add: pr_init_def pr_inv_def pr_subs_def)

subsection \<open>The gate and the idempotence of a promotion\<close>


text \<open>
  A run is promoted to an environment once.  However many calls come after the first, also
  with another policy of the environment, a repeated \<open>Promote\<close> changes nothing and gives the
  promotion that exists, with the strategy and the threshold it was created with.
\<close>

theorem Promote_idempotent:
  assumes "promo_step\<^sup>*\<^sup>* pr_init s" "iter_order ks (pr_m s)" "pr_m s pid = None"
    and "PS_Promote envs ks now pid runID pipelineID envID requestedBy s = (Inr p, s1)"
    and "promo_step\<^sup>*\<^sup>* s1 s2" "iter_order ks2 (pr_m s2)" "envs2 envID \<noteq> None"
  shows "\<exists>q. PS_Promote envs2 ks2 now2 pid2 runID pipelineID2 envID requestedBy2 s2 = (Inr q, s2) \<and>
    RP_ID q = RP_ID p \<and>
    (\<forall>p0. pr_m s1 (RP_ID p) = Some p0 \<longrightarrow> RP_Strategy q = RP_Strategy p0 \<and> RP_RequiredApprovers q = RP_RequiredApprovers p0)"
proof -
  have inv: "pr_inv s" using promo_history_inv [OF assms(1) pr_init_inv] by blast
  from PS_Promote_inv [OF inv assms(2-4)] obtain p0 where
    p0: "pr_inv s1" "pr_m s1 (RP_ID p) = Some p0" "RP_RunID p0 = runID" "RP_EnvironmentID p0 = envID" by auto
  have inv2: "pr_inv s2" "promo_keeps s1 s2" using promo_history_inv [OF assms(5) p0(1)] by blast+
  from inv2(2) p0(2) obtain q0 where q0: "pr_m s2 (RP_ID p) = Some q0" "RP_RunID q0 = RP_RunID p0"
    "RP_EnvironmentID q0 = RP_EnvironmentID p0" "RP_Strategy q0 = RP_Strategy p0"
    "RP_RequiredApprovers q0 = RP_RequiredApprovers p0" by (rule promo_keepsE)
  have "findByRunEnv ks2 s2 runID envID = Some q0"
    using findByRunEnv_eq [OF inv2(1) assms(6) q0(1)] q0(2,3) p0(3,4) by simp
  moreover have "RP_ID q0 = RP_ID p" using pr_inv_ok [OF inv2(1) q0(1)] by (simp add: promo_ok_def)
  ultimately show ?thesis
    using assms(7) q0(4,5) p0(2) by (auto simp: PS_Promote_def GetPromotion_def pr_hydrate_def)
qed

text \<open>The next environment comes after the current one, with nothing in between.\<close>

lemma NextEnvironment_adjacent:
  "sorted (map Env_Order envs) \<Longrightarrow> NextEnvironment envs cur = Some f \<Longrightarrow>
   \<exists>e. e \<in> set envs \<and> f \<in> set envs \<and> Env_ID e = cur \<and> Env_Order e \<le> Env_Order f \<and>
     (\<forall>g \<in> set envs. Env_Order g \<le> Env_Order e \<or> Env_Order f \<le> Env_Order g)"
proof (induction envs cur rule: NextEnvironment.induct)
  case (1 e f' es cur)
  show ?case
  proof (cases "Env_ID e = cur")
    case True
    then show ?thesis using 1(2,3) by (intro exI [of _ e]) auto
  next
    case False
    with 1 obtain e' where e': "e' \<in> set (f' # es)" "f \<in> set (f' # es)" "Env_ID e' = cur" "Env_Order e' \<le> Env_Order f"
      "\<forall>g \<in> set (f' # es). Env_Order g \<le> Env_Order e' \<or> Env_Order f \<le> Env_Order g" by auto
    moreover have "Env_Order e \<le> Env_Order e'" using 1(2) e'(1) by auto
    ultimately show ?thesis by (intro exI [of _ e']) auto
  qed
qed simp_all

lemma NextEnvironment_order:
  "NextEnvironment (NewPromoter envs) cur = Some f \<Longrightarrow>
   \<exists>e \<in> set envs. f \<in> set envs \<and> Env_ID e = cur \<and> Env_Order e \<le> Env_Order f \<and>
     (\<forall>g \<in> set envs. Env_Order g \<le> Env_Order e \<or> Env_Order f \<le> Env_Order g)"
  using NextEnvironment_adjacent [of "NewPromoter envs" cur f] by (auto simp: NewPromoter_def)

subsection \<open>Witnesses\<close>

definition demo_envs :: "string \<rightharpoonup> Environment" where
  "demo_envs = [''staging'' \<mapsto> demo_environment]"

definition demo_awaiting :: promotions where
  "demo_awaiting = snd (PS_Promote demo_envs [] 1 ''p'' ''r'' ''pl'' ''staging'' ''op'' pr_init)"

definition demo_half :: promotions where
  "demo_half = snd (PS_Approve [''p''] 2 ''a1'' ''r'' ''staging'' ''ann'' ''ann@x'' [] demo_awaiting)"

definition demo_passed :: promotions where
  "demo_passed = snd (PS_Approve [''p''] 3 ''a2'' ''r'' ''staging'' ''bob'' ''bob@x'' [] demo_half)"

lemmas demo_promotion_defs = demo_passed_def demo_half_def demo_awaiting_def pr_init_def demo_envs_def
  demo_environment_def PS_Promote_def PS_Approve_def GetPromotion_def findByRunEnv_def CreatePromotion_def
  new_promotion_def requiredApprovers_def AddApproval_def new_approval_def UpdatePromotionStatus_def
  pr_hydrate_def map_values_def List.map_filter_def Let_def

lemma demo_promo_order: "iter_order [''p''] (pr_m demo_awaiting)" "iter_order [''p''] (pr_m demo_half)"
  "iter_order [''p''] (pr_m demo_passed)"
  by (simp_all add: demo_promotion_defs iter_order_def)

lemma demo_promo_history: "promo_step\<^sup>*\<^sup>* demo_awaiting demo_passed" "promo_step\<^sup>*\<^sup>* pr_init demo_passed"
proof -
  have "promo_step pr_init demo_awaiting" unfolding demo_awaiting_def
    by (rule promo_promote [of "[]" _ "''p''" demo_envs 1 "''r''" "''pl''" "''staging''" "''op''" _ _, OF _ _ prod.collapse [symmetric]])
      (simp_all add: pr_init_def iter_order_def)
  moreover have "promo_step demo_awaiting demo_half" unfolding demo_half_def
    by (rule promo_approve [OF demo_promo_order(1) prod.collapse [symmetric]])
  moreover have "promo_step demo_half demo_passed" unfolding demo_passed_def
    by (rule promo_approve [OF demo_promo_order(2) prod.collapse [symmetric]])
  ultimately show "promo_step\<^sup>*\<^sup>* demo_awaiting demo_passed" "promo_step\<^sup>*\<^sup>* pr_init demo_passed" by auto
qed


theorem Promote_idempotent_witness:
  "\<exists>q. PS_Promote demo_envs [''p''] 9 ''x'' ''r'' ''other'' ''staging'' ''me'' demo_passed = (Inr q, demo_passed) \<and>
     RP_ID q = ''p''"
proof -
  obtain p where p: "PS_Promote demo_envs [] 1 ''p'' ''r'' ''pl'' ''staging'' ''op'' pr_init = (Inr p, demo_awaiting)"
    "RP_ID p = ''p''"
    by (simp add: demo_promotion_defs)
  have h: "promo_step\<^sup>*\<^sup>* pr_init pr_init" by simp
  have e: "iter_order [] (pr_m pr_init)" "pr_m pr_init ''p'' = None" "demo_envs ''staging'' \<noteq> None"
    by (simp_all add: pr_init_def iter_order_def demo_envs_def)
  from Promote_idempotent [where ?envs2.0 = demo_envs and envID = "''staging''", OF h e(1,2) p(1) demo_promo_history(1) demo_promo_order(3) e(3)] p(2)
  show ?thesis by fastforce
qed

end
