(* ===== verification/CanaryStore.thy ===== *)
theory CanaryStore
  imports Gates
begin

text \<open>
  Canary releases, the data: the configuration and the row of a rollout
  (\<open>backend/internal/model/canary.go\<close>) and their in-memory store
  (\<open>backend/internal/store/memory/appcanary.go\<close>).  The store is a map from ids to rows; reads
  return copies.
\<close>

subsection \<open>The configuration\<close>

record CanaryConfig =
  CC_Strategy :: string
  CC_Weight :: int
  CC_AutoPromote :: bool
  CC_HealthWindowSeconds :: int

definition IsCanary :: "CanaryConfig \<Rightarrow> bool" where
  "IsCanary c \<longleftrightarrow> CC_Strategy c = ''canary''"

definition CC_Normalize :: "CanaryConfig \<Rightarrow> CanaryConfig" where
  "CC_Normalize c =
     (let c = (if CC_Strategy c = [] then c\<lparr>CC_Strategy := ''rolling''\<rparr> else c) in
      if CC_Strategy c \<noteq> ''canary'' then
        \<lparr>CC_Strategy = CC_Strategy c, CC_Weight = 0, CC_AutoPromote = False, CC_HealthWindowSeconds = 0\<rparr>
      else
        (let c = (if CC_Weight c = 0 then c\<lparr>CC_Weight := 10\<rparr> else c) in
         if CC_AutoPromote c \<and> CC_HealthWindowSeconds c \<le> 0 then c\<lparr>CC_HealthWindowSeconds := 300\<rparr> else c))"

datatype cc_field = CanaryWeight | CanaryHealthWindowSeconds | DeployStrategy

definition CC_Validate :: "CanaryConfig \<Rightarrow> cc_field option" where
  "CC_Validate c =
     (if CC_Strategy c = [] \<or> CC_Strategy c = ''rolling'' then None
      else if CC_Strategy c = ''canary'' then
        (if CC_Weight c < 1 \<or> CC_Weight c > 99 then Some CanaryWeight
         else if CC_AutoPromote c \<and> CC_HealthWindowSeconds c < 0 then Some CanaryHealthWindowSeconds
         else None)
      else Some DeployStrategy)"

lemma CC_Normalize_idem: "CC_Normalize (CC_Normalize c) = CC_Normalize c"
  by (simp add: CC_Normalize_def Let_def)

text \<open>
  A configuration that passes \<open>Validate\<close> after \<open>Normalize\<close> is an explicit rolling one without
  canary settings or a canary between 1 and 99 percent whose window, if it promotes by itself, is
  positive; and \<open>Normalize\<close> then \<open>Validate\<close> rejects exactly an unknown strategy and a canary whose
  weight, if given, is out of range.
\<close>

theorem CC_Normalize_Validate:
  "(CC_Validate (CC_Normalize c) = None \<longleftrightarrow>
     CC_Strategy c \<in> {[], ''rolling''} \<or>
     CC_Strategy c = ''canary'' \<and> (CC_Weight c = 0 \<or> 1 \<le> CC_Weight c \<and> CC_Weight c \<le> 99)) \<and>
   (CC_Validate (CC_Normalize c) = None \<longrightarrow>
     CC_Normalize c = \<lparr>CC_Strategy = ''rolling'', CC_Weight = 0, CC_AutoPromote = False, CC_HealthWindowSeconds = 0\<rparr> \<or>
     CC_Strategy (CC_Normalize c) = ''canary'' \<and> 1 \<le> CC_Weight (CC_Normalize c) \<and> CC_Weight (CC_Normalize c) \<le> 99 \<and>
     (CC_AutoPromote (CC_Normalize c) \<longrightarrow> 1 \<le> CC_HealthWindowSeconds (CC_Normalize c)))"
  by (cases "CC_Strategy c = ''canary''") (auto simp: CC_Normalize_def CC_Validate_def Let_def)

theorem CC_Normalize_Validate_witness:
  "CC_Weight (CC_Normalize \<lparr>CC_Strategy = ''canary'', CC_Weight = 0, CC_AutoPromote = True, CC_HealthWindowSeconds = 0\<rparr>) = 10"
proof -
  let ?c = "\<lparr>CC_Strategy = ''canary'', CC_Weight = 0, CC_AutoPromote = True, CC_HealthWindowSeconds = 0\<rparr> :: CanaryConfig"
  have "CC_Validate (CC_Normalize ?c) = None" using CC_Normalize_Validate [of ?c] by simp
  then have "1 \<le> CC_Weight (CC_Normalize ?c)" using CC_Normalize_Validate [of ?c]
    by (auto simp: CC_Normalize_def)
  then show ?thesis by (simp add: CC_Normalize_def Let_def)
qed

subsection \<open>The rows\<close>

datatype CanaryStatus = CanaryPending | CanaryProgressing | CanaryPromoted | CanaryAborted | CanaryFailed

definition CanaryStatus_IsTerminal :: "CanaryStatus \<Rightarrow> bool" where
  "CanaryStatus_IsTerminal s \<longleftrightarrow> s = CanaryPromoted \<or> s = CanaryAborted \<or> s = CanaryFailed"

record AppCanary =
  AC_ID :: string
  AC_AppID :: string
  AC_RunID :: string
  AC_StableImage :: string
  AC_CanaryImage :: string
  AC_Weight :: int
  AC_Status :: CanaryStatus
  AC_AutoPromote :: bool
  AC_HealthWindowSeconds :: int
  AC_Healthy :: bool
  AC_Message :: string
  AC_PromoteAfter :: "time option"
  AC_StartedAt :: time
  AC_UpdatedAt :: time
  AC_ResolvedAt :: "time option"

type_synonym appCanaries = "string \<rightharpoonup> AppCanary"

definition canaryActive :: "CanaryStatus \<Rightarrow> bool" where
  "canaryActive st \<longleftrightarrow> st = CanaryPending \<or> st = CanaryProgressing"

definition AC_Create ::
  "string list \<Rightarrow> time \<Rightarrow> AppCanary \<Rightarrow> appCanaries \<Rightarrow> (store_err + AppCanary) \<times> appCanaries" where
  "AC_Create ks now c m =
     (if canaryActive (AC_Status c) \<and>
         list_ex (\<lambda>e. AC_AppID e = AC_AppID c \<and> canaryActive (AC_Status e)) (map_values ks m)
      then (Inl ErrConflict, m)
      else
        (let c = (if AC_StartedAt c = 0 then c\<lparr>AC_StartedAt := now\<rparr> else c);
             c = c\<lparr>AC_UpdatedAt := AC_StartedAt c\<rparr>
         in (Inr c, m(AC_ID c \<mapsto> c))))"

definition AC_Get :: "string \<Rightarrow> appCanaries \<Rightarrow> store_err + AppCanary" where
  "AC_Get i m = (case m i of None \<Rightarrow> Inl ErrNotFound | Some c \<Rightarrow> Inr c)"

definition AC_GetActive :: "string list \<Rightarrow> string \<Rightarrow> appCanaries \<Rightarrow> store_err + AppCanary" where
  "AC_GetActive ks appID m =
     (case find (\<lambda>c. AC_AppID c = appID \<and> AC_Status c = CanaryProgressing) (map_values ks m) of
        None \<Rightarrow> Inl ErrNotFound | Some c \<Rightarrow> Inr c)"

fun stale_loop :: "time \<Rightarrow> string list \<Rightarrow> nat \<times> appCanaries \<Rightarrow> nat \<times> appCanaries" where
  "stale_loop olderThan [] nm = nm"
| "stale_loop olderThan (k # ks) (n, m) =
     (case m k of
        Some c \<Rightarrow>
          if AC_Status c = CanaryPending \<and> AC_StartedAt c < olderThan
          then stale_loop olderThan ks (n + 1, m(k := None)) else stale_loop olderThan ks (n, m)
      | None \<Rightarrow> stale_loop olderThan ks (n, m))"

definition DeleteStalePending :: "string list \<Rightarrow> time \<Rightarrow> appCanaries \<Rightarrow> nat \<times> appCanaries" where
  "DeleteStalePending ks olderThan m = stale_loop olderThan ks (0, m)"

text \<open>The compare-and-swap: \<open>True\<close> for the one caller that resolves the canary.\<close>

definition ClaimTerminal ::
  "time \<Rightarrow> string \<Rightarrow> CanaryStatus \<Rightarrow> appCanaries \<Rightarrow> (store_err + bool) \<times> appCanaries" where
  "ClaimTerminal now i to m =
     (case m i of
        None \<Rightarrow> (Inl ErrNotFound, m)
      | Some c \<Rightarrow>
          if AC_Status c \<noteq> CanaryProgressing then (Inr False, m)
          else (Inr True, m(i \<mapsto> c\<lparr>AC_Status := to, AC_UpdatedAt := now\<rparr>)))"

fun latest_loop :: "string \<Rightarrow> AppCanary list \<Rightarrow> AppCanary option \<Rightarrow> AppCanary option" where
  "latest_loop appID [] latest = latest"
| "latest_loop appID (c # cs) latest =
     (case AC_ResolvedAt c of
        None \<Rightarrow> latest_loop appID cs latest
      | Some t \<Rightarrow>
          if AC_AppID c \<noteq> appID \<or> AC_Status c \<noteq> CanaryPromoted then latest_loop appID cs latest
          else if (case latest of None \<Rightarrow> True | Some l \<Rightarrow> (case AC_ResolvedAt l of None \<Rightarrow> False | Some u \<Rightarrow> u < t))
          then latest_loop appID cs (Some c) else latest_loop appID cs latest)"

definition LatestPromoted :: "string list \<Rightarrow> string \<Rightarrow> appCanaries \<Rightarrow> store_err + AppCanary" where
  "LatestPromoted ks appID m =
     (case latest_loop appID (map_values ks m) None of None \<Rightarrow> Inl ErrNotFound | Some c \<Rightarrow> Inr c)"

definition AC_Update :: "time \<Rightarrow> AppCanary \<Rightarrow> appCanaries \<Rightarrow> store_err option \<times> appCanaries" where
  "AC_Update now c m =
     (case m (AC_ID c) of
        None \<Rightarrow> (Some ErrNotFound, m)
      | Some _ \<Rightarrow> (None, m(AC_ID c \<mapsto> c\<lparr>AC_UpdatedAt := now\<rparr>)))"

definition ListProgressing :: "string list \<Rightarrow> appCanaries \<Rightarrow> AppCanary list" where
  "ListProgressing ks m =
     sort_key AC_StartedAt (filter (\<lambda>c. AC_Status c = CanaryProgressing) (map_values ks m))"

end
