(* ===== verification/AppModel.thy ===== *)
theory AppModel
  imports CanaryStore Pipeline Strings
begin

text \<open>
  An app with its build plan and deploy target, a row of its deploy history
  (\<open>backend/internal/model/app.go\<close>), and its runtime names (\<open>service/app_targets.go\<close>).  Left out of the
  app are the description and the fields of its health.
\<close>

record BuildPlan =
  BP_Kind :: string
  BP_Path :: string
  BP_Args :: "string \<rightharpoonup> string"
  BP_Buildpacks :: "string list"
  BP_Commit :: string
  BP_InstallationID :: int
  BP_Files :: "string list"
  BP_Profiles :: "string list"
  BP_Variables :: "string \<rightharpoonup> string"

record ExternalServiceBinding =
  XB_Service :: string
  XB_Provider :: string
  XB_Resource :: string
  XB_Consumers :: "string list"
  XB_Environment :: "string \<rightharpoonup> string"

record DeployTarget =
  DT_Kind :: string
  DT_HostID :: string
  DT_Namespace :: string
  DT_Region :: string
  DT_Service :: string
  DT_Prefix :: string
  DT_ExternalServices :: "ExternalServiceBinding list"

record App =
  App_ID :: string
  App_Name :: string
  App_GitHubRepo :: string
  App_Branch :: string
  App_BuildPlan :: "BuildPlan option"
  App_DeployTarget :: DeployTarget
  App_RegistryRef :: string
  App_EnvironmentID :: string
  App_WebhookSecret :: string
  App_HasWebhook :: bool
  App_AutoDeploy :: bool
  App_Canary :: CanaryConfig
  App_CreatedAt :: time
  App_UpdatedAt :: time
  App_Version :: int
  App_DeployedURL :: string

abbreviation App_Kind :: "App \<Rightarrow> string" where "App_Kind app \<equiv> DT_Kind (App_DeployTarget app)"
abbreviation App_Namespace :: "App \<Rightarrow> string" where "App_Namespace app \<equiv> DT_Namespace (App_DeployTarget app)"
abbreviation App_Prefix :: "App \<Rightarrow> string" where "App_Prefix app \<equiv> DT_Prefix (App_DeployTarget app)"

definition App_Redact :: "App \<Rightarrow> App" where
  "App_Redact a = a\<lparr>App_WebhookSecret := [], App_HasWebhook := App_WebhookSecret a \<noteq> []\<rparr>"

definition DeploymentScope :: "DeployTarget \<Rightarrow> string" where
  "DeploymentScope t =
     (let ns = (if DT_Kind t = ''kubernetes''
                then (if TrimSpace (DT_Namespace t) = [] then ''default'' else TrimSpace (DT_Namespace t))
                else [])
      in DT_Kind t @ ''/'' @ ns @ ''/'' @ DT_HostID t)"

definition AppPrefix :: "App \<Rightarrow> string" where
  "AppPrefix app = (if App_Prefix app \<noteq> [] then App_Prefix app else sanitize (App_Name app))"

definition RuntimeServiceName :: "App \<Rightarrow> string \<Rightarrow> string" where
  "RuntimeServiceName app service = AppPrefix app @ ''-'' @ sanitize service"

record AppDeploy =
  AD_ID :: string
  AD_AppID :: string
  AD_RunID :: string
  AD_PipelineID :: string
  AD_ImageRef :: string
  AD_Digest :: string
  AD_Status :: string
  AD_Kind :: string
  AD_CreatedAt :: time

end
