(* ===== verification/CanaryService.thy ===== *)
theory CanaryService
  imports AppModel
begin

text \<open>
  Canary releases, the service (\<open>backend/internal/service/canary.go\<close>): \<open>Start\<close>, \<open>Promote\<close>,
  \<open>Abort\<close>, \<open>Status\<close> and the sweep, each as a function of the state it finds; the races of
  several callers are in the theory \<open>CanaryRace\<close>.  The app store, the builder, the
  traffic-splitting deployer, the probes and the deploy history are interfaces of the code and
  parameters here; their answers may differ at every call, so they get the number of the call,
  as do the clock and the order in which the store visits its map.
\<close>

subsection \<open>The replica split of the deployer\<close>

definition splitReplicas :: "int \<Rightarrow> int \<Rightarrow> int \<times> int" where
  "splitReplicas weight pool =
     (let pool = (if pool \<le> 0 then 4 else pool) in
      if weight \<le> 0 then (0, pool)
      else if weight \<ge> 100 then (pool, 0)
      else
        (let canary = (weight * pool + 50) div 100;
             canary = (if canary < 1 then 1 else canary);
             canary = (if canary > pool - 1 then pool - 1 else canary)
         in (canary, pool - canary)))"

text \<open>
  The split uses the whole pool; with at least two pods a canary between 1 and 99 percent has
  a pod on each side and its share is its weight up to half a pod, or the nearest that leaves a
  pod to both; 0 percent and below is all stable and 100 percent and above all canary.
\<close>

theorem splitReplicas_shares:
  assumes "splitReplicas weight pool = (canary, main)" "n = (if pool \<le> 0 then 4 else pool)"
  shows "canary + main = n \<and> 0 \<le> canary \<and> 0 \<le> main \<and>
    (weight \<le> 0 \<longrightarrow> canary = 0) \<and> (100 \<le> weight \<longrightarrow> main = 0) \<and>
    (0 < weight \<and> weight < 100 \<and> 2 \<le> n \<longrightarrow> 1 \<le> canary \<and> 1 \<le> main \<and>
       (100 * canary \<le> weight * n + 50 \<and> weight * n \<le> 100 * canary + 50 \<or> canary = 1 \<or> main = 1))"
proof -
  have n: "1 \<le> n" using assms(2) by simp
  consider "weight \<le> 0" | "100 \<le> weight" | "0 < weight" "weight < 100" by linarith
  then show ?thesis
  proof cases
    case 3
    let ?c = "(weight * n + 50) div 100"
    have "0 \<le> weight * n" using 3 n by simp
    then have "0 \<le> ?c" by simp
    moreover have "100 * (x div 100) \<le> x" "x < 100 * (x div 100) + 100" for x :: int by presburger+
    from this [of "weight * n + 50"] have "100 * ?c \<le> weight * n + 50" "weight * n + 50 < 100 * ?c + 100" by simp_all
    moreover have "canary = (if n - 1 < max 1 ?c then n - 1 else max 1 ?c)" "main = n - canary"
      using assms 3 by (auto simp: splitReplicas_def Let_def split: if_splits)
    ultimately have c: "canary = (if n - 1 < max 1 ?c then n - 1 else max 1 ?c)" "main = n - canary"
      "100 * ?c \<le> weight * n + 50" "weight * n \<le> 100 * ?c + 50" by linarith+
    consider "n = 1" | "2 \<le> n" "?c < 1" | "2 \<le> n" "1 \<le> ?c" "n - 1 < ?c" | "2 \<le> n" "1 \<le> ?c" "?c \<le> n - 1"
      using n by linarith
    then show ?thesis
    proof cases
      case 4
      then have "canary = ?c" using c(1) by simp
      with 4 3 c show ?thesis by simp
    qed (use 3 c(1,2) in simp_all)
  qed (use assms n in \<open>auto simp: splitReplicas_def Let_def\<close>)
qed

text \<open>With a pool of one pod a canary gets none, against the comment of the function.\<close>

lemma splitReplicas_one_pod: "0 < weight \<Longrightarrow> weight < 100 \<Longrightarrow> splitReplicas weight 1 = (0, 1)"
  by (simp add: splitReplicas_def Let_def)

theorem splitReplicas_shares_witness: "1 \<le> fst (splitReplicas 10 0)"
proof -
  have "splitReplicas 10 0 = (1, 3)" by (simp add: splitReplicas_def)
  from splitReplicas_shares [OF this refl] this show ?thesis by simp
qed

subsection \<open>The interfaces\<close>

record WeightedRequest =
  WR_Namespace :: string
  WR_Name :: string
  WR_StableImage :: string
  WR_CanaryImage :: string
  WR_Weight :: int

datatype lookup_err = NoSuchApp | LookupFailed

datatype split_err = SplitUnsupported string | SplitFailed string

fun split_msg :: "split_err \<Rightarrow> string" where
  "split_msg (SplitUnsupported e) = e"
| "split_msg (SplitFailed e) = e"

text \<open>
  \<open>ce_weighted\<close> is \<open>None\<close> when the deployer cannot split traffic, \<open>ce_ready\<close> when it cannot tell
  the readiness of a canary, \<open>ce_prober\<close> and \<open>ce_deploys\<close> when none is wired.
\<close>

record can_env =
  ce_apps :: "nat \<Rightarrow> string \<Rightarrow> lookup_err + App"
  ce_weighted :: "(nat \<Rightarrow> WeightedRequest \<Rightarrow> split_err option) option"
  ce_ready :: "(nat \<Rightarrow> string \<Rightarrow> string \<Rightarrow> string + bool \<times> string) option"
  ce_prober :: "(nat \<Rightarrow> App \<Rightarrow> string \<times> string) option"
  ce_build :: "nat \<Rightarrow> App \<Rightarrow> string + string"
  ce_deploys :: "(nat \<Rightarrow> string \<Rightarrow> AppDeploy list option) option"
  ce_clock :: "nat \<Rightarrow> time"
  ce_ord :: "nat \<Rightarrow> appCanaries \<Rightarrow> string list"

text \<open>The state: the store, the number of the next call, the splits asked for and the events sent.\<close>

record can_world =
  cw_m :: appCanaries
  cw_tick :: nat
  cw_splits :: "WeightedRequest list"
  cw_events :: "(string \<times> string \<times> string) list"

definition tick :: "can_world \<Rightarrow> can_world" where
  "tick w = w\<lparr>cw_tick := Suc (cw_tick w)\<rparr>"

abbreviation clock_now :: "can_env \<Rightarrow> can_world \<Rightarrow> time" where
  "clock_now en w \<equiv> ce_clock en (cw_tick w)"

abbreviation visit :: "can_env \<Rightarrow> can_world \<Rightarrow> string list" where
  "visit en w \<equiv> ce_ord en (cw_tick w) (cw_m w)"

definition supportsCanary :: "can_env \<Rightarrow> App \<Rightarrow> bool" where
  "supportsCanary en app \<longleftrightarrow> ce_weighted en \<noteq> None \<and> App_Kind app = ''kubernetes''"

text \<open>A call of \<open>DeployWeighted\<close>; without a weighted deployer the code would panic, which no caller lets happen.\<close>

definition DeployWeighted :: "can_env \<Rightarrow> App \<Rightarrow> AppCanary \<Rightarrow> int \<Rightarrow> can_world \<Rightarrow> split_err option \<times> can_world" where
  "DeployWeighted en app c weight w =
     (let req = \<lparr>WR_Namespace = App_Namespace app, WR_Name = AppPrefix app, WR_StableImage = AC_StableImage c,
                 WR_CanaryImage = AC_CanaryImage c, WR_Weight = weight\<rparr>
      in (case ce_weighted en of None \<Rightarrow> None | Some dw \<Rightarrow> dw (cw_tick w) req,
          tick (w\<lparr>cw_splits := cw_splits w @ [req]\<rparr>)))"

definition NotifyCanary :: "App \<Rightarrow> string \<Rightarrow> string \<Rightarrow> can_world \<Rightarrow> can_world" where
  "NotifyCanary app event msg w = w\<lparr>cw_events := cw_events w @ [(event, App_ID app, msg)]\<rparr>"

text \<open>The store's \<open>Update\<close>, which also stamps the caller's copy.\<close>

definition update_row :: "can_env \<Rightarrow> AppCanary \<Rightarrow> can_world \<Rightarrow> (store_err + AppCanary) \<times> can_world" where
  "update_row en c w =
     (case AC_Update (clock_now en w) c (cw_m w) of
        (Some e, m) \<Rightarrow> (Inl e, tick (w\<lparr>cw_m := m\<rparr>))
      | (None, m) \<Rightarrow> (Inr (c\<lparr>AC_UpdatedAt := clock_now en w\<rparr>), tick (w\<lparr>cw_m := m\<rparr>)))"

subsection \<open>Starting\<close>

text \<open>The first successful deploy with an image, if it is newer than the last promoted canary.\<close>

fun first_deploy :: "string \<Rightarrow> time \<Rightarrow> AppDeploy list \<Rightarrow> string" where
  "first_deploy img at' [] = img"
| "first_deploy img at' (d # ds) =
     (if AD_Status d \<noteq> ''success'' \<or> AD_ImageRef d = [] then first_deploy img at' ds
      else if at' < AD_CreatedAt d then AD_ImageRef d else img)"

definition stableImageFor :: "can_env \<Rightarrow> App \<Rightarrow> can_world \<Rightarrow> string" where
  "stableImageFor en app w =
     (let (img, at') =
        (case LatestPromoted (visit en w) (App_ID app) (cw_m w) of
           Inl _ \<Rightarrow> ([], 0)
         | Inr prev \<Rightarrow>
             if AC_CanaryImage prev = [] then ([], 0)
             else (AC_CanaryImage prev, case AC_ResolvedAt prev of None \<Rightarrow> 0 | Some t \<Rightarrow> t))
      in case ce_deploys en of
           None \<Rightarrow> img
         | Some list_by_app \<Rightarrow>
             (case list_by_app (cw_tick w) (App_ID app) of None \<Rightarrow> img | Some rows \<Rightarrow> first_deploy img at' rows))"

definition failPending :: "can_env \<Rightarrow> App \<Rightarrow> AppCanary \<Rightarrow> string \<Rightarrow> can_world \<Rightarrow> can_world" where
  "failPending en app c reason w =
     (let now = clock_now en w;
          c = c\<lparr>AC_Status := CanaryFailed, AC_Weight := 0, AC_Healthy := False,
                AC_Message := ''failed to establish canary: '' @ reason, AC_PromoteAfter := None,
                AC_ResolvedAt := Some now\<rparr>
      in NotifyCanary app ''canary.failed'' reason (snd (update_row en c (tick w))))"

datatype can_err =
    CanNotConfigured
  | ErrCanaryUnsupported
  | ErrCanaryInFlight
  | ErrNoActiveCanary
  | CanReserve store_err
  | CanBuild string
  | CanSplit string
  | CanPersist store_err
  | CanClaim store_err
  | CanGet store_err
  | CanLoadApp lookup_err

definition reserved_canary :: "CanaryConfig \<Rightarrow> time \<Rightarrow> string \<Rightarrow> App \<Rightarrow> string \<Rightarrow> AppCanary" where
  "reserved_canary cfg now cid app runID =
     \<lparr>AC_ID = cid, AC_AppID = App_ID app, AC_RunID = runID, AC_StableImage = [], AC_CanaryImage = [],
      AC_Weight = CC_Weight cfg, AC_Status = CanaryPending, AC_AutoPromote = CC_AutoPromote cfg,
      AC_HealthWindowSeconds = CC_HealthWindowSeconds cfg, AC_Healthy = True, AC_Message = ''starting canary'',
      AC_PromoteAfter = None, AC_StartedAt = now, AC_UpdatedAt = 0, AC_ResolvedAt = None\<rparr>"

text \<open>The duration of the window is computed in 64 bits.\<close>

definition live_canary :: "CanaryConfig \<Rightarrow> time \<Rightarrow> AppCanary \<Rightarrow> AppCanary" where
  "live_canary cfg now c =
     (let c = c\<lparr>AC_Status := CanaryProgressing, AC_Message := ''canary at '' @ show_int (CC_Weight cfg) @ ''%''\<rparr>
      in if CC_AutoPromote cfg then c\<lparr>AC_PromoteAfter := Some (now + wrap64 (CC_HealthWindowSeconds cfg * Second))\<rparr>
         else c)"

definition Start_split ::
  "can_env \<Rightarrow> CanaryConfig \<Rightarrow> App \<Rightarrow> AppCanary \<Rightarrow> can_world \<Rightarrow> (can_err + AppCanary) \<times> can_world" where
  "Start_split en cfg app c w =
     (case DeployWeighted en app c (CC_Weight cfg) w of
        (Some e, w) \<Rightarrow>
          (Inl (case e of SplitUnsupported _ \<Rightarrow> ErrCanaryUnsupported | SplitFailed m \<Rightarrow> CanSplit m),
           failPending en app c (''establish split: '' @ split_msg e) w)
      | (None, w) \<Rightarrow>
          (case update_row en (live_canary cfg (clock_now en w) c) (tick w) of
             (Inl e, w) \<Rightarrow> (Inl (CanPersist e), w)
           | (Inr c, w) \<Rightarrow> (Inr c, w)))"

definition Start_build ::
  "can_env \<Rightarrow> CanaryConfig \<Rightarrow> App \<Rightarrow> AppCanary \<Rightarrow> can_world \<Rightarrow> (can_err + AppCanary) \<times> can_world" where
  "Start_build en cfg app c w =
     (let current = stableImageFor en app w; w = tick w in
      case ce_build en (cw_tick w) app of
        Inl e \<Rightarrow> (Inl (CanBuild e), failPending en app c (''build image: '' @ e) (tick w))
      | Inr img \<Rightarrow>
          Start_split en cfg app
            (c\<lparr>AC_StableImage := (if current = [] then img else current), AC_CanaryImage := img\<rparr>) (tick w))"

definition CS_Start :: "can_env \<Rightarrow> string \<Rightarrow> App \<Rightarrow> string \<Rightarrow> can_world \<Rightarrow> (can_err + AppCanary) \<times> can_world" where
  "CS_Start en cid app runID w =
     (let cfg = CC_Normalize (App_Canary app) in
      if \<not> IsCanary cfg then (Inl CanNotConfigured, w)
      else if \<not> supportsCanary en app then (Inl ErrCanaryUnsupported, w)
      else
        (let c = reserved_canary cfg (clock_now en w) cid app runID; w = tick w in
         case AC_Create (visit en w) (clock_now en w) c (cw_m w) of
           (Inl e, m) \<Rightarrow> (Inl (if e = ErrConflict then ErrCanaryInFlight else CanReserve e), tick (w\<lparr>cw_m := m\<rparr>))
         | (Inr c, m) \<Rightarrow> Start_build en cfg app c (tick (w\<lparr>cw_m := m\<rparr>))))"

subsection \<open>Promoting and aborting\<close>

definition loadActive :: "can_env \<Rightarrow> string \<Rightarrow> can_world \<Rightarrow> (can_err + App \<times> AppCanary) \<times> can_world" where
  "loadActive en appID w =
     (case AC_GetActive (visit en w) appID (cw_m w) of
        Inl _ \<Rightarrow> (Inl ErrNoActiveCanary, tick w)
      | Inr c \<Rightarrow>
          (let w = tick w in
           (case ce_apps en (cw_tick w) appID of
              Inl e \<Rightarrow> (Inl (CanLoadApp e), tick w)
            | Inr app \<Rightarrow> (Inr (app, c), tick w))))"

definition revertClaim :: "can_env \<Rightarrow> AppCanary \<Rightarrow> can_world \<Rightarrow> can_world" where
  "revertClaim en c w = snd (update_row en (c\<lparr>AC_Status := CanaryProgressing, AC_ResolvedAt := None\<rparr>) w)"

definition promoted_row :: "time \<Rightarrow> AppCanary \<Rightarrow> AppCanary" where
  "promoted_row now c =
     c\<lparr>AC_Status := CanaryPromoted, AC_Weight := 100, AC_Healthy := True, AC_Message := ''promoted to 100%'',
       AC_PromoteAfter := None, AC_ResolvedAt := Some now\<rparr>"

definition aborted_row :: "time \<Rightarrow> string \<Rightarrow> AppCanary \<Rightarrow> AppCanary" where
  "aborted_row now reason c =
     c\<lparr>AC_Status := CanaryAborted, AC_Weight := 0,
       AC_Message := (if reason = [] then ''aborted by operator'' else reason),
       AC_PromoteAfter := None, AC_ResolvedAt := Some now\<rparr>"

definition CS_Promote :: "can_env \<Rightarrow> string \<Rightarrow> can_world \<Rightarrow> (can_err + AppCanary) \<times> can_world" where
  "CS_Promote en appID w =
     (case loadActive en appID w of
        (Inl e, w) \<Rightarrow> (Inl e, w)
      | (Inr (app, c), w) \<Rightarrow>
          (case ClaimTerminal (clock_now en w) (AC_ID c) CanaryPromoted (cw_m w) of
             (Inl e, m) \<Rightarrow> (Inl (CanClaim e), tick (w\<lparr>cw_m := m\<rparr>))
           | (Inr False, m) \<Rightarrow> (map_sum CanGet id (AC_Get (AC_ID c) m), tick (w\<lparr>cw_m := m\<rparr>))
           | (Inr True, m) \<Rightarrow>
               (case DeployWeighted en app c 100 (tick (w\<lparr>cw_m := m\<rparr>)) of
                  (Some e, w) \<Rightarrow> (Inl (CanSplit (split_msg e)), revertClaim en c w)
                | (None, w) \<Rightarrow>
                    (case update_row en (promoted_row (clock_now en w) c) (tick w) of
                       (Inl e, w) \<Rightarrow> (Inl (CanPersist e), w)
                     | (Inr c, w) \<Rightarrow> (Inr c, NotifyCanary app ''canary.promoted'' [] w)))))"

definition CS_Abort :: "can_env \<Rightarrow> string \<Rightarrow> string \<Rightarrow> can_world \<Rightarrow> (can_err + AppCanary) \<times> can_world" where
  "CS_Abort en appID reason w =
     (case loadActive en appID w of
        (Inl e, w) \<Rightarrow> (Inl e, w)
      | (Inr (app, c), w) \<Rightarrow>
          (case ClaimTerminal (clock_now en w) (AC_ID c) CanaryAborted (cw_m w) of
             (Inl e, m) \<Rightarrow> (Inl (CanClaim e), tick (w\<lparr>cw_m := m\<rparr>))
           | (Inr False, m) \<Rightarrow> (map_sum CanGet id (AC_Get (AC_ID c) m), tick (w\<lparr>cw_m := m\<rparr>))
           | (Inr True, m) \<Rightarrow>
               (case DeployWeighted en app c 0 (tick (w\<lparr>cw_m := m\<rparr>)) of
                  (Some e, w) \<Rightarrow> (Inl (CanSplit (split_msg e)), revertClaim en c w)
                | (None, w) \<Rightarrow>
                    (case update_row en (aborted_row (clock_now en w) reason c) (tick w) of
                       (Inl e, w) \<Rightarrow> (Inl (CanPersist e), w)
                     | (Inr c, w) \<Rightarrow> (Inr c, NotifyCanary app ''canary.aborted'' (AC_Message c) w)))))"

definition CS_Status :: "can_env \<Rightarrow> string \<Rightarrow> can_world \<Rightarrow> can_err + AppCanary" where
  "CS_Status en appID w = map_sum (\<lambda>_. ErrNoActiveCanary) id (AC_GetActive (visit en w) appID (cw_m w))"

subsection \<open>The sweep\<close>

datatype canaryDecision = decisionWait | decisionPromote | decisionRollback

definition decide :: "can_env \<Rightarrow> App \<Rightarrow> AppCanary \<Rightarrow> can_world \<Rightarrow> (canaryDecision \<times> string) \<times> can_world" where
  "decide en app c w =
     (let pastDeadline = (AC_StartedAt c + 30 * Minute < clock_now en w); w = tick w in
      case ce_ready en of
        Some ready \<Rightarrow>
          (case ready (cw_tick w) (App_Namespace app) (AppPrefix app) of
             Inl e \<Rightarrow>
               (if pastDeadline then (decisionRollback, ''canary readiness unknown past deadline: '' @ e)
                else (decisionWait, ''canary readiness inconclusive: '' @ e), tick w)
           | Inr (b, detail) \<Rightarrow>
               (if b then (decisionPromote, ''canary workload: '' @ detail)
                else if pastDeadline then (decisionRollback, ''canary workload not ready past deadline: '' @ detail)
                else (decisionWait, ''canary workload not ready yet: '' @ detail), tick w))
      | None \<Rightarrow>
          (case ce_prober en of
             None \<Rightarrow> ((decisionPromote, ''no probe wired; assuming healthy''), w)
           | Some probe \<Rightarrow>
               (case probe (cw_tick w) app of
                  (health, msg) \<Rightarrow>
                    (if health = ''healthy'' then (decisionPromote, msg)
                     else if health = ''failed'' then (decisionRollback, msg)
                     else if pastDeadline then (decisionRollback, ''health '' @ health @ '' past deadline: '' @ msg)
                     else (decisionWait, ''health '' @ health @ '': '' @ msg), tick w))))"

definition evaluate :: "can_env \<Rightarrow> App \<Rightarrow> AppCanary \<Rightarrow> can_world \<Rightarrow> can_world" where
  "evaluate en app c w =
     (case decide en app c w of
        ((decisionPromote, _), w) \<Rightarrow> snd (CS_Promote en (AC_AppID c) w)
      | ((decisionRollback, msg), w) \<Rightarrow> snd (CS_Abort en (AC_AppID c) (''auto-rollback: '' @ msg) w)
      | ((decisionWait, _), w) \<Rightarrow> w)"

definition reapAppGone :: "can_env \<Rightarrow> AppCanary \<Rightarrow> can_world \<Rightarrow> can_world" where
  "reapAppGone en c w =
     (case ClaimTerminal (clock_now en w) (AC_ID c) CanaryAborted (cw_m w) of
        (Inr True, m) \<Rightarrow>
          (let w = tick (w\<lparr>cw_m := m\<rparr>); now = clock_now en w in
           snd (update_row en (c\<lparr>AC_Status := CanaryAborted, AC_Message := ''app deleted during canary'',
                                 AC_ResolvedAt := Some now\<rparr>) (tick w)))
      | (_, m) \<Rightarrow> tick (w\<lparr>cw_m := m\<rparr>))"

definition due :: "time \<Rightarrow> AppCanary \<Rightarrow> bool" where
  "due now c \<longleftrightarrow> AC_AutoPromote c \<and> (case AC_PromoteAfter c of None \<Rightarrow> False | Some t \<Rightarrow> t \<le> now)"

fun sweep_loop :: "can_env \<Rightarrow> time \<Rightarrow> AppCanary list \<Rightarrow> can_world \<Rightarrow> can_world" where
  "sweep_loop en now [] w = w"
| "sweep_loop en now (c # cs) w =
     (case ce_apps en (cw_tick w) (AC_AppID c) of
        Inl NoSuchApp \<Rightarrow> sweep_loop en now cs (reapAppGone en c (tick w))
      | Inl LookupFailed \<Rightarrow> sweep_loop en now cs (tick w)
      | Inr app \<Rightarrow> sweep_loop en now cs (if due now c then evaluate en app c (tick w) else tick w))"

definition SweepAutoPromote :: "can_env \<Rightarrow> can_world \<Rightarrow> can_world" where
  "SweepAutoPromote en w =
     (if ce_weighted en = None then w
      else
        (let w = tick (w\<lparr>cw_m := snd (DeleteStalePending (visit en w) (clock_now en w - Hour) (cw_m w))\<rparr>);
             canaries = ListProgressing (visit en w) (cw_m w);
             w = tick w
         in sweep_loop en (clock_now en w) canaries (tick w)))"

subsection \<open>The verdict of the sweep\<close>

text \<open>
  The verdict is never a guess.  A canary is promoted only when its own pods report ready, or,
  where the deployer cannot tell, when the app's probe says healthy or none is wired; an error of
  the probe never promotes; nothing waits past the deadline of half an hour; a rollback needs the
  deadline or a failed probe.  Judging changes nothing.
\<close>

theorem decide_never_blind:
  assumes "decide en app c w = ((d, msg), w')"
  shows "cw_m w' = cw_m w \<and> cw_splits w' = cw_splits w \<and>
    (d = decisionPromote \<longleftrightarrow>
       (case ce_ready en of
          Some ready \<Rightarrow> (\<exists>detail. ready (Suc (cw_tick w)) (App_Namespace app) (AppPrefix app) = Inr (True, detail))
        | None \<Rightarrow> (case ce_prober en of None \<Rightarrow> True
                  | Some probe \<Rightarrow> fst (probe (Suc (cw_tick w)) app) = ''healthy''))) \<and>
    (d = decisionWait \<longrightarrow> clock_now en w \<le> AC_StartedAt c + 30 * Minute) \<and>
    (d = decisionRollback \<longrightarrow> AC_StartedAt c + 30 * Minute < clock_now en w \<or>
       (\<exists>probe. ce_ready en = None \<and> ce_prober en = Some probe \<and> fst (probe (Suc (cw_tick w)) app) = ''failed''))"
proof (cases "ce_ready en")
  case (Some ready)
  with assms show ?thesis
    by (cases "ready (Suc (cw_tick w)) (App_Namespace app) (AppPrefix app)")
      (auto simp: decide_def tick_def Let_def split: prod.splits if_splits)
next
  case None
  show ?thesis
  proof (cases "ce_prober en")
    case (Some probe)
    obtain health m where p: "probe (Suc (cw_tick w)) app = (health, m)" by fastforce
    show ?thesis
      using assms None Some p by (simp add: decide_def tick_def Let_def split: if_splits) (elim conjE, hypsubst, simp)+
  qed (use assms None in \<open>auto simp: decide_def tick_def Let_def\<close>)
qed

subsection \<open>What a start leaves behind\<close>

lemma tick_simps [simp]: "cw_m (tick w) = cw_m w" "cw_splits (tick w) = cw_splits w" "cw_events (tick w) = cw_events w"
  by (simp_all add: tick_def)

lemma update_row_present:
  "cw_m w (AC_ID c) = Some r \<Longrightarrow>
   update_row en c w = (Inr (c\<lparr>AC_UpdatedAt := clock_now en w\<rparr>),
     tick (w\<lparr>cw_m := (cw_m w)(AC_ID c \<mapsto> c\<lparr>AC_UpdatedAt := clock_now en w\<rparr>)\<rparr>))"
  by (simp add: update_row_def AC_Update_def)

lemma DeployWeighted_world:
  assumes "DeployWeighted en app c weight w = (r, w')"
  shows "cw_m w' = cw_m w" and "cw_events w' = cw_events w"
    and "cw_splits w' = cw_splits w @ [\<lparr>WR_Namespace = App_Namespace app, WR_Name = AppPrefix app,
      WR_StableImage = AC_StableImage c, WR_CanaryImage = AC_CanaryImage c, WR_Weight = weight\<rparr>]"
  using assms by (auto simp: DeployWeighted_def Let_def)

text \<open>The row ends as failed, and the app's owner hears of it.\<close>

definition failed_in :: "can_world \<Rightarrow> string \<Rightarrow> App \<Rightarrow> can_world \<Rightarrow> bool" where
  "failed_in w cid app w' \<longleftrightarrow>
     (\<exists>row reason. cw_m w' = (cw_m w)(cid \<mapsto> row) \<and> AC_AppID row = App_ID app \<and> AC_Status row = CanaryFailed \<and>
        AC_ResolvedAt row \<noteq> None \<and> cw_events w' = cw_events w @ [(''canary.failed'', App_ID app, reason)])"

lemma failPending_failed:
  assumes "cw_m w (AC_ID c) = Some r" "AC_AppID c = App_ID app"
  shows "failed_in w (AC_ID c) app (failPending en app c reason w) \<and>
    cw_splits (failPending en app c reason w) = cw_splits w"
proof -
  let ?c = "c\<lparr>AC_Status := CanaryFailed, AC_Weight := 0, AC_Healthy := False,
                AC_Message := ''failed to establish canary: '' @ reason, AC_PromoteAfter := None,
                AC_ResolvedAt := Some (clock_now en w)\<rparr>"
  have "cw_m (tick w) (AC_ID ?c) = Some r" using assms(1) by simp
  from update_row_present [OF this, of en] assms(2) show ?thesis
    unfolding failed_in_def failPending_def Let_def NotifyCanary_def by force
qed

text \<open>The row is live: its traffic has been split at the configured weight.\<close>

definition live_in :: "can_world \<Rightarrow> CanaryConfig \<Rightarrow> AppCanary \<Rightarrow> AppCanary \<Rightarrow> can_world \<Rightarrow> bool" where
  "live_in w cfg c row w' \<longleftrightarrow>
     cw_m w' = (cw_m w)(AC_ID c \<mapsto> row) \<and> AC_ID row = AC_ID c \<and> AC_AppID row = AC_AppID c \<and>
     AC_Status row = CanaryProgressing \<and> AC_Weight row = AC_Weight c \<and>
     (AC_PromoteAfter row \<noteq> AC_PromoteAfter c \<longrightarrow> CC_AutoPromote cfg) \<and> cw_events w' = cw_events w"

lemma live_canary_fields [simp]:
  "AC_ID (live_canary cfg now c) = AC_ID c" "AC_AppID (live_canary cfg now c) = AC_AppID c"
  "AC_Status (live_canary cfg now c) = CanaryProgressing" "AC_Weight (live_canary cfg now c) = AC_Weight c"
  "AC_PromoteAfter (live_canary cfg now c) =
     (if CC_AutoPromote cfg then Some (now + wrap64 (CC_HealthWindowSeconds cfg * Second)) else AC_PromoteAfter c)"
  by (simp_all add: live_canary_def Let_def)

lemma Start_split_outcome:
  assumes "cw_m w (AC_ID c) = Some r0" "AC_AppID c = App_ID app" "Start_split en cfg app c w = (r, w')"
  shows "(\<exists>req. cw_splits w' = cw_splits w @ [req] \<and> WR_Weight req = CC_Weight cfg \<and>
      WR_StableImage req = AC_StableImage c \<and> WR_CanaryImage req = AC_CanaryImage c) \<and>
    (case r of Inr row \<Rightarrow> live_in w cfg c row w' | Inl e \<Rightarrow> failed_in w (AC_ID c) app w')"
proof -
  obtain e w1 where d: "DeployWeighted en app c (CC_Weight cfg) w = (e, w1)" by fastforce
  note dw = DeployWeighted_world [OF d]
  have m1: "cw_m w1 (AC_ID c) = Some r0" using assms(1) dw(1) by simp
  show ?thesis
  proof (cases e)
    case (Some err)
    then obtain e' where r: "r = Inl e'" "w' = failPending en app c (''establish split: '' @ split_msg err) w1"
      using assms(3) d by (auto simp: Start_split_def)
    have "failed_in w1 (AC_ID c) app w' \<and> cw_splits w' = cw_splits w1"
      unfolding r(2) by (rule failPending_failed [OF m1 assms(2)])
    with r(1) dw show ?thesis by (simp add: failed_in_def)
  next
    case None
    let ?c = "live_canary cfg (clock_now en w1) c"
    have "cw_m (tick w1) (AC_ID ?c) = Some r0" using m1 by simp
    from update_row_present [OF this, of en] assms(3) d None dw show ?thesis
      by (auto simp: Start_split_def live_in_def)
  qed
qed

lemma Start_build_outcome:
  assumes "cw_m w (AC_ID c) = Some r0" "AC_AppID c = App_ID app" "Start_build en cfg app c w = (r, w')"
  shows "case r of
      Inr row \<Rightarrow> live_in w cfg c row w' \<and> (\<exists>req img. cw_splits w' = cw_splits w @ [req] \<and>
        ce_build en (Suc (cw_tick w)) app = Inr img \<and> WR_CanaryImage req = img \<and> WR_Weight req = CC_Weight cfg \<and>
        WR_StableImage req = (if stableImageFor en app w = [] then img else stableImageFor en app w))
    | Inl e \<Rightarrow> failed_in w (AC_ID c) app w'"
proof (cases "ce_build en (Suc (cw_tick w)) app")
  case (Inl e)
  then have r: "r = Inl (CanBuild e)" "w' = failPending en app c (''build image: '' @ e) (tick (tick w))"
    using assms(3) by (simp_all add: Start_build_def tick_def Let_def)
  have "cw_m (tick (tick w)) (AC_ID c) = Some r0" using assms(1) by simp
  from failPending_failed [OF this assms(2), of en] r show ?thesis by (simp add: failed_in_def)
next
  case (Inr img)
  let ?c = "c\<lparr>AC_StableImage := (if stableImageFor en app w = [] then img else stableImageFor en app w), AC_CanaryImage := img\<rparr>"
  have s: "Start_split en cfg app ?c (tick (tick w)) = (r, w')"
    using assms(3) Inr by (simp add: Start_build_def tick_def Let_def)
  have "cw_m (tick (tick w)) (AC_ID ?c) = Some r0" "AC_AppID ?c = App_ID app" using assms(1,2) by simp_all
  from Start_split_outcome [OF this s] Inr show ?thesis
    by (cases r) (auto simp: live_in_def failed_in_def)
qed

text \<open>
  A start that finds a canary of its app pending or progressing is refused and changes nothing;
  otherwise it adds one row.  The row is progressing, its traffic split once, at the configured
  weight, between the built image and the image the app serves, when the build and the split
  succeed; in every other case it ends as failed, so the next start is not blocked, and the
  failure is reported.
\<close>

theorem CS_Start_outcome:
  assumes "\<And>n m. finite (dom m) \<Longrightarrow> iter_order (ce_ord en n m) m" "finite (dom (cw_m w))"
    and "IsCanary (CC_Normalize (App_Canary app))" "supportsCanary en app"
    and "CS_Start en cid app runID w = (r, w')"
  shows "if \<exists>i c. cw_m w i = Some c \<and> AC_AppID c = App_ID app \<and> canaryActive (AC_Status c)
    then r = Inl ErrCanaryInFlight \<and> cw_m w' = cw_m w \<and> cw_splits w' = cw_splits w \<and> cw_events w' = cw_events w
    else (\<exists>row. cw_m w' = (cw_m w)(cid \<mapsto> row) \<and> AC_AppID row = App_ID app \<and>
      (case r of
         Inr c \<Rightarrow> c = row \<and> AC_Status row = CanaryProgressing \<and> cw_events w' = cw_events w \<and>
           (\<exists>req img n. cw_splits w' = cw_splits w @ [req] \<and> ce_build en n app = Inr img \<and>
              WR_Weight req = CC_Weight (CC_Normalize (App_Canary app)) \<and> WR_CanaryImage req = img \<and>
              (img \<noteq> [] \<longrightarrow> WR_StableImage req \<noteq> []))
       | Inl e \<Rightarrow> AC_Status row = CanaryFailed \<and>
           (\<exists>reason. cw_events w' = cw_events w @ [(''canary.failed'', App_ID app, reason)])))"
proof -
  let ?cfg = "CC_Normalize (App_Canary app)"
  let ?c = "reserved_canary ?cfg (clock_now en w) cid app runID"
  let ?busy = "\<exists>i c. cw_m w i = Some c \<and> AC_AppID c = App_ID app \<and> canaryActive (AC_Status c)"
  have order: "iter_order (visit en (tick w)) (cw_m (tick w))" using assms(1,2) by simp
  then have "list_ex (\<lambda>e. AC_AppID e = AC_AppID ?c \<and> canaryActive (AC_Status e)) (map_values (visit en (tick w)) (cw_m w))
      \<longleftrightarrow> ?busy"
    by (auto simp: list_ex_iff iter_order_def reserved_canary_def dom_def)
  then have create: "?busy \<longleftrightarrow> AC_Create (visit en (tick w)) (clock_now en (tick w)) ?c (cw_m w) = (Inl ErrConflict, cw_m w)"
    by (auto simp: AC_Create_def reserved_canary_def canaryActive_def Let_def)
  show ?thesis
  proof (cases ?busy)
    case True
    with create assms(3-5) show ?thesis by (auto simp: CS_Start_def Let_def)
  next
    case False
    then obtain c m where c: "AC_Create (visit en (tick w)) (clock_now en (tick w)) ?c (cw_m w) = (Inr c, m)"
        "m = (cw_m w)(cid \<mapsto> c)" "AC_ID c = cid" "AC_AppID c = App_ID app"
      using create by (auto simp: AC_Create_def reserved_canary_def Let_def split: if_splits)
    let ?w = "tick (tick w\<lparr>cw_m := m\<rparr>)"
    have s: "Start_build en ?cfg app c ?w = (r, w')" using assms(3-5) c(1) by (simp add: CS_Start_def Let_def)
    have "cw_m ?w (AC_ID c) = Some c" using c by simp
    from Start_build_outcome [OF this c(4) s] c False show ?thesis
      by (cases r) (auto simp: live_in_def failed_in_def split: if_splits)
  qed
qed

subsection \<open>Promotion and rollback\<close>

lemma loadActive_found:
  assumes "AC_GetActive (visit en w) appID (cw_m w) = Inr c" "ce_apps en (Suc (cw_tick w)) appID = Inr app"
  shows "loadActive en appID w = (Inr (app, c), tick (tick w))" and "AC_Status c = CanaryProgressing"
  using assms find_member [of _ "map_values (visit en w) (cw_m w)" c]
  by (auto simp: loadActive_def AC_GetActive_def tick_def split: option.splits)

lemma loadActive_none:
  "AC_GetActive (visit en w) appID (cw_m w) = Inl e \<Longrightarrow> loadActive en appID w = (Inl ErrNoActiveCanary, tick w)"
  by (simp add: loadActive_def)

text \<open>The outcome of a claimed transition to \<open>st\<close> at \<open>weight\<close>.\<close>

definition resolved_in ::
  "CanaryStatus \<Rightarrow> int \<Rightarrow> string \<Rightarrow> can_world \<Rightarrow> App \<Rightarrow> AppCanary \<Rightarrow> can_err + AppCanary \<Rightarrow> can_world \<Rightarrow> bool" where
  "resolved_in st weight event w app c r w' \<longleftrightarrow>
     cw_splits w' = cw_splits w @ [\<lparr>WR_Namespace = App_Namespace app, WR_Name = AppPrefix app,
       WR_StableImage = AC_StableImage c, WR_CanaryImage = AC_CanaryImage c, WR_Weight = weight\<rparr>] \<and>
     (\<exists>row. cw_m w' = (cw_m w)(AC_ID c \<mapsto> row) \<and> AC_ID row = AC_ID c \<and> AC_AppID row = AC_AppID c \<and>
        (case r of
           Inr c' \<Rightarrow> c' = row \<and> AC_Status row = st \<and> AC_Weight row = weight \<and> AC_ResolvedAt row \<noteq> None \<and>
             (\<exists>msg. cw_events w' = cw_events w @ [(event, App_ID app, msg)])
         | Inl _ \<Rightarrow> AC_Status row = CanaryProgressing \<and> AC_Weight row = AC_Weight c \<and> AC_ResolvedAt row = None \<and>
             cw_events w' = cw_events w))"

lemma claim_progressing:
  "m i = Some c \<Longrightarrow> AC_Status c = CanaryProgressing \<Longrightarrow>
   ClaimTerminal now i st m = (Inr True, m(i \<mapsto> c\<lparr>AC_Status := st, AC_UpdatedAt := now\<rparr>))"
  by (simp add: ClaimTerminal_def)

lemma revertClaim_row:
  "cw_m w (AC_ID c) = Some r \<Longrightarrow> cw_m (revertClaim en c w) = (cw_m w)(AC_ID c \<mapsto>
     c\<lparr>AC_Status := CanaryProgressing, AC_ResolvedAt := None, AC_UpdatedAt := clock_now en w\<rparr>) \<and>
   cw_splits (revertClaim en c w) = cw_splits w \<and> cw_events (revertClaim en c w) = cw_events w"
  using update_row_present [of w "c\<lparr>AC_Status := CanaryProgressing, AC_ResolvedAt := None\<rparr>" r en]
  by (simp add: revertClaim_def)

text \<open>
  Promoting the active canary of an app sends one traffic shift, to 100 percent of the
  canary's image.  If the shift succeeds the row is promoted, at 100 percent and resolved, and
  this is what the call returns and reports; if it fails the canary is active again as before and
  nothing is reported.  No other row changes.
\<close>

theorem CS_Promote_outcome:
  assumes "AC_GetActive (visit en w) appID (cw_m w) = Inr c" "cw_m w (AC_ID c) = Some c"
    and "ce_apps en (Suc (cw_tick w)) appID = Inr app" "CS_Promote en appID w = (r, w')"
  shows "resolved_in CanaryPromoted 100 ''canary.promoted'' w app c r w'"
proof -
  note l = loadActive_found [OF assms(1,3)]
  let ?w = "tick (tick w)"
  let ?m = "(cw_m w)(AC_ID c \<mapsto> c\<lparr>AC_Status := CanaryPromoted, AC_UpdatedAt := clock_now en ?w\<rparr>)"
  have claim: "ClaimTerminal (clock_now en ?w) (AC_ID c) CanaryPromoted (cw_m ?w) = (Inr True, ?m)"
    using claim_progressing [of "cw_m w" "AC_ID c" c] assms(2) l(2) by simp
  obtain e w1 where d: "DeployWeighted en app c 100 (tick (?w\<lparr>cw_m := ?m\<rparr>)) = (e, w1)" by fastforce
  note dw = DeployWeighted_world [OF d]
  have m1: "cw_m w1 = ?m" "cw_events w1 = cw_events w" using dw by simp_all
  show ?thesis
  proof (cases e)
    case (Some err)
    have "cw_m w1 (AC_ID c) \<noteq> None" using m1 by simp
    then obtain r0 where "cw_m w1 (AC_ID c) = Some r0" by blast
    from revertClaim_row [OF this, of en] Some assms(4) l claim d dw m1 show ?thesis
      by (auto simp: CS_Promote_def resolved_in_def)
  next
    case None
    let ?c = "promoted_row (clock_now en w1) c"
    have i: "AC_ID ?c = AC_ID c" "AC_AppID ?c = AC_AppID c" "AC_Status ?c = CanaryPromoted" "AC_Weight ?c = 100"
      "AC_ResolvedAt ?c = Some (clock_now en w1)" by (simp_all add: promoted_row_def)
    have "cw_m (tick w1) (AC_ID ?c) \<noteq> None" using m1 i by simp
    then obtain r0 where "cw_m (tick w1) (AC_ID ?c) = Some r0" by blast
    from update_row_present [OF this, of en] None assms(4) l claim d dw m1 i show ?thesis
      by (auto simp: CS_Promote_def resolved_in_def NotifyCanary_def)
  qed
qed

lemma CS_Abort_outcome:
  assumes "AC_GetActive (visit en w) appID (cw_m w) = Inr c" "cw_m w (AC_ID c) = Some c"
    and "ce_apps en (Suc (cw_tick w)) appID = Inr app" "CS_Abort en appID reason w = (r, w')"
  shows "resolved_in CanaryAborted 0 ''canary.aborted'' w app c r w'"
proof -
  note l = loadActive_found [OF assms(1,3)]
  let ?w = "tick (tick w)"
  let ?m = "(cw_m w)(AC_ID c \<mapsto> c\<lparr>AC_Status := CanaryAborted, AC_UpdatedAt := clock_now en ?w\<rparr>)"
  have claim: "ClaimTerminal (clock_now en ?w) (AC_ID c) CanaryAborted (cw_m ?w) = (Inr True, ?m)"
    using claim_progressing [of "cw_m w" "AC_ID c" c] assms(2) l(2) by simp
  obtain e w1 where d: "DeployWeighted en app c 0 (tick (?w\<lparr>cw_m := ?m\<rparr>)) = (e, w1)" by fastforce
  note dw = DeployWeighted_world [OF d]
  have m1: "cw_m w1 = ?m" "cw_events w1 = cw_events w" using dw by simp_all
  show ?thesis
  proof (cases e)
    case (Some err)
    have "cw_m w1 (AC_ID c) \<noteq> None" using m1 by simp
    then obtain r0 where "cw_m w1 (AC_ID c) = Some r0" by blast
    from revertClaim_row [OF this, of en] Some assms(4) l claim d dw m1 show ?thesis
      by (auto simp: CS_Abort_def resolved_in_def)
  next
    case None
    let ?c = "aborted_row (clock_now en w1) reason c"
    have i: "AC_ID ?c = AC_ID c" "AC_AppID ?c = AC_AppID c" "AC_Status ?c = CanaryAborted" "AC_Weight ?c = 0"
      "AC_ResolvedAt ?c = Some (clock_now en w1)" by (simp_all add: aborted_row_def)
    have "cw_m (tick w1) (AC_ID ?c) \<noteq> None" using m1 i by simp
    then obtain r0 where "cw_m (tick w1) (AC_ID ?c) = Some r0" by blast
    from update_row_present [OF this, of en] None assms(4) l claim d dw m1 i show ?thesis
      by (auto simp: CS_Abort_def resolved_in_def NotifyCanary_def)
  qed
qed

text \<open>
  The window is not bounded above: \<open>Validate\<close> accepts one of \<open>10 ^ 10\<close> seconds, whose duration
  overflows to a negative one, so the canary is due for promotion as soon as it is live.
\<close>

lemma huge_window_due_at_once:
  assumes "cfg = \<lparr>CC_Strategy = ''canary'', CC_Weight = 10, CC_AutoPromote = True, CC_HealthWindowSeconds = 10000000000\<rparr>"
    and "AC_AutoPromote c"
  shows "CC_Validate (CC_Normalize cfg) = None \<and> due now (live_canary (CC_Normalize cfg) now c)"
proof -
  have "wrap64 (10000000000 * Second) < 0" by (simp add: wrap64_def)
  moreover have "CC_Normalize cfg = cfg" by (simp add: assms(1) CC_Normalize_def Let_def)
  ultimately show ?thesis
    using assms by (simp add: CC_Validate_def due_def live_canary_def Let_def)
qed

subsection \<open>Witnesses\<close>

definition demo_app :: App where
  "demo_app = \<lparr>App_ID = ''app'', App_Name = ''web'', App_GitHubRepo = ''acme/web'', App_Branch = ''main'',
     App_BuildPlan = None, App_DeployTarget = \<lparr>DT_Kind = ''kubernetes'', DT_HostID = [], DT_Namespace = [], DT_Region = [],
       DT_Service = [], DT_Prefix = [], DT_ExternalServices = []\<rparr>, App_RegistryRef = [], App_EnvironmentID = [],
     App_WebhookSecret = [], App_HasWebhook = False, App_AutoDeploy = False, App_Canary = \<lparr>CC_Strategy = ''canary'', CC_Weight = 10, CC_AutoPromote = False, CC_HealthWindowSeconds = 0\<rparr>,
     App_CreatedAt = 0, App_UpdatedAt = 0, App_Version = 1, App_DeployedURL = []\<rparr>"

definition demo_can_env :: "string + bool \<times> string \<Rightarrow> can_env" where
  "demo_can_env ready =
     \<lparr>ce_apps = (\<lambda>_ _. Inr demo_app), ce_weighted = Some (\<lambda>_ _. None), ce_ready = Some (\<lambda>_ _ _. ready),
      ce_prober = None, ce_build = (\<lambda>_ _. Inr ''v2''), ce_deploys = None, ce_clock = (\<lambda>n. int n + 1),
      ce_ord = (\<lambda>_ m. sorted_list_of_set (dom m))\<rparr>"

definition demo_can_world :: can_world where
  "demo_can_world = \<lparr>cw_m = (\<lambda>_. None), cw_tick = 0, cw_splits = [], cw_events = []\<rparr>"

definition demo_progressing :: AppCanary where
  "demo_progressing = (reserved_canary (App_Canary demo_app) 1 ''c1'' demo_app ''run'')
     \<lparr>AC_Status := CanaryProgressing, AC_StableImage := ''v1'', AC_CanaryImage := ''v2''\<rparr>"

theorem decide_never_blind_witness:
  "\<exists>msg w'. decide (demo_can_env (Inl ''timeout'')) demo_app demo_progressing demo_can_world = ((decisionWait, msg), w')"
proof -
  obtain d msg w' where r: "decide (demo_can_env (Inl ''timeout'')) demo_app demo_progressing demo_can_world = ((d, msg), w')"
    by (metis surj_pair)
  note t = decide_never_blind [OF r]
  have "d \<noteq> decisionPromote" using t by (simp add: demo_can_env_def)
  moreover have "d \<noteq> decisionRollback"
    using t by (simp add: demo_can_env_def demo_can_world_def demo_progressing_def reserved_canary_def)
  ultimately show ?thesis using r canaryDecision.exhaust by metis
qed

theorem CS_Start_outcome_witness:
  "\<exists>row w'. CS_Start (demo_can_env (Inr (True, []))) ''c1'' demo_app ''run'' demo_can_world = (Inr row, w') \<and>
     AC_Status row = CanaryProgressing \<and> length (cw_splits w') = 1"
proof -
  let ?en = "demo_can_env (Inr (True, []))"
  obtain r w' where s: "CS_Start ?en ''c1'' demo_app ''run'' demo_can_world = (r, w')" by fastforce
  have o: "iter_order (ce_ord ?en n m) m" if "finite (dom m)" for n m
    using that by (simp add: demo_can_env_def iter_order_def)
  have h: "finite (dom (cw_m demo_can_world))" "IsCanary (CC_Normalize (App_Canary demo_app))" "supportsCanary ?en demo_app"
    by (simp_all add: demo_can_world_def demo_app_def IsCanary_def CC_Normalize_def supportsCanary_def demo_can_env_def)
  have "\<exists>row. r = Inr row"
    using s by (auto simp: CS_Start_def Start_build_def Start_split_def DeployWeighted_def update_row_def AC_Update_def
        AC_Create_def IsCanary_def CC_Normalize_def supportsCanary_def demo_app_def reserved_canary_def demo_can_env_def demo_can_world_def map_values_def List.map_filter_def Let_def
        split: if_splits)
  then obtain row where "r = Inr row" ..
  with CS_Start_outcome [OF o h s] s show ?thesis by (auto simp: demo_can_world_def)
qed

theorem CS_Promote_outcome_witness:
  "\<exists>row w'. CS_Promote (demo_can_env (Inr (True, []))) ''app'' (demo_can_world\<lparr>cw_m := [''c1'' \<mapsto> demo_progressing]\<rparr>) =
     (Inr row, w') \<and> AC_Status row = CanaryPromoted \<and> AC_Weight row = 100"
proof -
  let ?en = "demo_can_env (Inr (True, []))" and ?w = "demo_can_world\<lparr>cw_m := [''c1'' \<mapsto> demo_progressing]\<rparr>"
  obtain r w' where s: "CS_Promote ?en ''app'' ?w = (r, w')" by fastforce
  have h: "AC_GetActive (visit ?en ?w) ''app'' (cw_m ?w) = Inr demo_progressing"
      "cw_m ?w (AC_ID demo_progressing) = Some demo_progressing" "ce_apps ?en (Suc (cw_tick ?w)) ''app'' = Inr demo_app"
    by (simp_all add: AC_GetActive_def demo_can_env_def demo_progressing_def reserved_canary_def demo_app_def
        map_values_def List.map_filter_def)
  note t = CS_Promote_outcome [OF h s]
  have "\<exists>row. r = Inr row"
    using s loadActive_found [OF h(1,3)] h(2)
    by (auto simp: CS_Promote_def ClaimTerminal_def DeployWeighted_def update_row_def AC_Update_def promoted_row_def
        demo_can_env_def Let_def)
  then obtain row where "r = Inr row" ..
  with t s show ?thesis by (auto simp: resolved_in_def)
qed

end
