(* ===== verification/CanaryRace.thy ===== *)
theory CanaryRace
  imports CanaryService
begin

text \<open>
  Any number of operators, sweepers and starters at work on the canaries at the same time.  A
  call of the service is several calls of the store, which are atomic; between two of them the
  others can act.  \<open>can_step\<close> has one rule for each store call of \<open>Start\<close>, \<open>Promote\<close>, \<open>Abort\<close>,
  \<open>reapAppGone\<close> and the reaping of stale rows; builds and traffic splits happen between the
  steps and only decide which step comes next.
\<close>

text \<open>
  Where an actor is: in no call; in \<open>Start\<close> after the row is reserved; in \<open>Promote\<close>, \<open>Abort\<close> or
  the sweep after the row is loaded; or after it won the row for a final status and before it
  writes the outcome.
\<close>

datatype can_pc = CIdle | Starting AppCanary | Loaded AppCanary | Claimed AppCanary CanaryStatus

record can_sys =
  cs_m :: appCanaries
  cs_pc :: "nat \<Rightarrow> can_pc"
  cs_reverted :: bool

abbreviation can_goto :: "nat \<Rightarrow> can_pc \<Rightarrow> appCanaries \<Rightarrow> can_sys \<Rightarrow> can_sys" where
  "can_goto a pc m x \<equiv> x\<lparr>cs_m := m, cs_pc := (cs_pc x)(a := pc)\<rparr>"

fun pc_row :: "can_pc \<Rightarrow> AppCanary option" where
  "pc_row CIdle = None"
| "pc_row (Starting c) = Some c"
| "pc_row (Loaded c) = Some c"
| "pc_row (Claimed c st) = Some c"

text \<open>A fresh id: no row has it and no actor knows it.\<close>

definition fresh_canary :: "can_sys \<Rightarrow> string \<Rightarrow> bool" where
  "fresh_canary x i \<longleftrightarrow> cs_m x i = None \<and> (\<forall>a c. pc_row (cs_pc x a) = Some c \<longrightarrow> AC_ID c \<noteq> i)"

text \<open>The row an outcome writes.\<close>

definition start_outcome :: "CanaryConfig \<Rightarrow> AppCanary \<Rightarrow> AppCanary \<Rightarrow> bool" where
  "start_outcome cfg c c' \<longleftrightarrow>
     (\<exists>stable img now. c' = live_canary cfg now (c\<lparr>AC_StableImage := stable, AC_CanaryImage := img\<rparr>)) \<or>
     (\<exists>stable img now reason. c' = c\<lparr>AC_StableImage := stable, AC_CanaryImage := img, AC_Status := CanaryFailed,
        AC_Weight := 0, AC_Healthy := False, AC_Message := reason, AC_PromoteAfter := None, AC_ResolvedAt := Some now\<rparr>)"

inductive can_step :: "can_sys \<Rightarrow> can_sys \<Rightarrow> bool" where
  start_reserve:
    "cs_pc x a = CIdle \<Longrightarrow> iter_order ks (cs_m x) \<Longrightarrow> fresh_canary x cid \<Longrightarrow>
     AC_Create ks now (reserved_canary cfg now' cid app runID) (cs_m x) = (Inr c, m) \<Longrightarrow>
     can_step x (can_goto a (Starting c) m x)"
| start_finish:
    "cs_pc x a = Starting c \<Longrightarrow> start_outcome cfg c c' \<Longrightarrow> AC_Update now c' (cs_m x) = (r, m) \<Longrightarrow>
     can_step x (can_goto a CIdle m x)"
| start_crash:
    "cs_pc x a = Starting c \<Longrightarrow> can_step x (can_goto a CIdle (cs_m x) x)"
| load_active:
    "cs_pc x a = CIdle \<Longrightarrow> iter_order ks (cs_m x) \<Longrightarrow> AC_GetActive ks appID (cs_m x) = Inr c \<Longrightarrow>
     can_step x (can_goto a (Loaded c) (cs_m x) x)"
| load_listed:
    "cs_pc x a = CIdle \<Longrightarrow> iter_order ks (cs_m x) \<Longrightarrow> c \<in> set (ListProgressing ks (cs_m x)) \<Longrightarrow>
     can_step x (can_goto a (Loaded c) (cs_m x) x)"
| claim_won:
    "cs_pc x a = Loaded c \<Longrightarrow> st \<in> {CanaryPromoted, CanaryAborted} \<Longrightarrow>
     ClaimTerminal now (AC_ID c) st (cs_m x) = (Inr True, m) \<Longrightarrow>
     can_step x (can_goto a (Claimed c st) m x)"
| claim_lost:
    "cs_pc x a = Loaded c \<Longrightarrow> ClaimTerminal now (AC_ID c) st (cs_m x) = (r, m) \<Longrightarrow> r \<noteq> Inr True \<Longrightarrow>
     can_step x (can_goto a CIdle m x)"
| load_dropped:
    "cs_pc x a = Loaded c \<Longrightarrow> can_step x (can_goto a CIdle (cs_m x) x)"
| settle:
    "cs_pc x a = Claimed c st \<Longrightarrow>
     c' = promoted_row t c \<and> st = CanaryPromoted \<or> c' = aborted_row t reason c \<and> st = CanaryAborted \<or>
       c' = c\<lparr>AC_Status := CanaryAborted, AC_Message := reason, AC_ResolvedAt := Some t\<rparr> \<and> st = CanaryAborted \<Longrightarrow>
     AC_Update now c' (cs_m x) = (r, m) \<Longrightarrow>
     can_step x (can_goto a CIdle m x)"
| revert:
    "cs_pc x a = Claimed c st \<Longrightarrow>
     AC_Update now (c\<lparr>AC_Status := CanaryProgressing, AC_ResolvedAt := None\<rparr>) (cs_m x) = (r, m) \<Longrightarrow>
     can_step x ((can_goto a CIdle m x)\<lparr>cs_reverted := True\<rparr>)"
| reap_stale:
    "iter_order ks (cs_m x) \<Longrightarrow> DeleteStalePending ks olderThan (cs_m x) = (n, m) \<Longrightarrow>
     can_step x (x\<lparr>cs_m := m\<rparr>)"

definition can_init :: can_sys where
  "can_init = \<lparr>cs_m = (\<lambda>_. None), cs_pc = (\<lambda>_. CIdle), cs_reverted = False\<rparr>"

subsection \<open>The invariant\<close>

text \<open>
  The actor in \<open>Start\<close> has a row that is pending or reaped, the one that won a row has one in a
  final status, and nobody else is at work on these rows in such a way.
\<close>

fun pc_fits :: "appCanaries \<Rightarrow> can_pc \<Rightarrow> bool" where
  "pc_fits m (Starting c) = (\<forall>r. m (AC_ID c) = Some r \<longrightarrow> AC_Status r = CanaryPending \<and> AC_AppID r = AC_AppID c)"
| "pc_fits m (Loaded c) = (\<exists>r. m (AC_ID c) = Some r \<and> AC_Status r \<noteq> CanaryPending \<and> AC_AppID r = AC_AppID c)"
| "pc_fits m (Claimed c st) = (\<exists>r. m (AC_ID c) = Some r \<and> AC_Status r \<in> {CanaryPromoted, CanaryAborted} \<and>
     AC_AppID r = AC_AppID c)"
| "pc_fits m CIdle = True"

fun owned :: "can_pc \<Rightarrow> string option" where
  "owned (Starting c) = Some (AC_ID c)"
| "owned (Claimed c st) = Some (AC_ID c)"
| "owned _ = None"

definition slot_free :: "appCanaries \<Rightarrow> bool" where
  "slot_free m \<longleftrightarrow> (\<forall>i j c d. m i = Some c \<longrightarrow> m j = Some d \<longrightarrow> canaryActive (AC_Status c) \<longrightarrow>
     canaryActive (AC_Status d) \<longrightarrow> AC_AppID c = AC_AppID d \<longrightarrow> i = j)"

definition can_inv :: "can_sys \<Rightarrow> bool" where
  "can_inv x \<longleftrightarrow> (\<forall>i c. cs_m x i = Some c \<longrightarrow> AC_ID c = i) \<and>
     (\<forall>a. pc_fits (cs_m x) (cs_pc x a)) \<and>
     (\<forall>a b i. owned (cs_pc x a) = Some i \<longrightarrow> owned (cs_pc x b) = Some i \<longrightarrow> a = b) \<and>
     (\<not> cs_reverted x \<longrightarrow> slot_free (cs_m x))"

text \<open>How the store calls change the map.\<close>

lemma AC_Update_map:
  "AC_Update now c m = (r, m') \<Longrightarrow> m' = (if m (AC_ID c) = None then m else m(AC_ID c \<mapsto> c\<lparr>AC_UpdatedAt := now\<rparr>))"
  by (auto simp: AC_Update_def split: option.splits)

lemma AC_Create_map:
  assumes "AC_Create ks now c m = (Inr c', m')"
  shows "m' = m(AC_ID c \<mapsto> c') \<and> AC_ID c' = AC_ID c \<and> AC_AppID c' = AC_AppID c \<and> AC_Status c' = AC_Status c"
    and "canaryActive (AC_Status c) \<Longrightarrow> iter_order ks m \<Longrightarrow> m i = Some d \<Longrightarrow> canaryActive (AC_Status d) \<Longrightarrow>
      AC_AppID d \<noteq> AC_AppID c"
proof -
  show "m' = m(AC_ID c \<mapsto> c') \<and> AC_ID c' = AC_ID c \<and> AC_AppID c' = AC_AppID c \<and> AC_Status c' = AC_Status c"
    using assms by (auto simp: AC_Create_def Let_def split: if_splits)
  assume a: "canaryActive (AC_Status c)" "iter_order ks m" "m i = Some d" "canaryActive (AC_Status d)"
  have "d \<in> set (map_values ks m)" using a(2,3) by (auto simp: iter_order_def)
  with assms a(1,4) show "AC_AppID d \<noteq> AC_AppID c" by (auto simp: AC_Create_def list_ex_iff split: if_splits)
qed

lemma ClaimTerminal_won:
  assumes "ClaimTerminal now i st m = (Inr True, m')"
  obtains c where "m i = Some c" "AC_Status c = CanaryProgressing"
    "m' = m(i \<mapsto> c\<lparr>AC_Status := st, AC_UpdatedAt := now\<rparr>)"
  using assms by (auto simp: ClaimTerminal_def split: option.splits if_splits)

lemma ClaimTerminal_lost: "ClaimTerminal now i st m = (r, m') \<Longrightarrow> r \<noteq> Inr True \<Longrightarrow> m' = m"
  by (auto simp: ClaimTerminal_def split: option.splits if_splits)

lemma stale_loop_map:
  "stale_loop t ks (n, m) = (n', m') \<Longrightarrow> m' i = m i \<or> m' i = None \<and> (\<exists>c. m i = Some c \<and> AC_Status c = CanaryPending)"
proof (induction ks arbitrary: n m)
  case (Cons k ks)
  then show ?case
  proof (cases "m k")
    case (Some c)
    show ?thesis
    proof (cases "AC_Status c = CanaryPending \<and> AC_StartedAt c < t")
      case True
      with Some Cons.prems have "stale_loop t ks (n + 1, m(k := None)) = (n', m')" by simp
      from Cons.IH [OF this] Some True show ?thesis by (auto split: if_splits)
    next
      case False
      with Some Cons.prems have "stale_loop t ks (n, m) = (n', m')" by auto
      from Cons.IH [OF this] show ?thesis .
    qed
  next
    case None
    with Cons.prems have "stale_loop t ks (n, m) = (n', m')" by simp
    from Cons.IH [OF this] show ?thesis .
  qed
qed simp

lemma DeleteStalePending_map:
  "DeleteStalePending ks t m = (n, m') \<Longrightarrow> m' i = m i \<or> m' i = None \<and> (\<exists>c. m i = Some c \<and> AC_Status c = CanaryPending)"
  unfolding DeleteStalePending_def by (rule stale_loop_map)

lemma slot_free_upd:
  assumes "slot_free m" "m i = Some r" "AC_AppID c = AC_AppID r"
    and "canaryActive (AC_Status c) \<Longrightarrow> canaryActive (AC_Status r)"
  shows "slot_free (m(i \<mapsto> c))"
  using assms unfolding slot_free_def by (auto split: if_splits)

lemma can_invD:
  assumes "can_inv x"
  shows "cs_m x i = Some c \<Longrightarrow> AC_ID c = i" and "pc_fits (cs_m x) (cs_pc x a)"
    and "owned (cs_pc x a) = Some i \<Longrightarrow> owned (cs_pc x b) = Some i \<Longrightarrow> a = b"
    and "\<not> cs_reverted x \<Longrightarrow> slot_free (cs_m x)"
  using assms unfolding can_inv_def by blast+

lemma can_invI:
  assumes "\<And>i c. cs_m x i = Some c \<Longrightarrow> AC_ID c = i" and "\<And>a. pc_fits (cs_m x) (cs_pc x a)"
    and "\<And>a b i. owned (cs_pc x a) = Some i \<Longrightarrow> owned (cs_pc x b) = Some i \<Longrightarrow> a = b"
    and "\<not> cs_reverted x \<Longrightarrow> slot_free (cs_m x)"
  shows "can_inv x"
  unfolding can_inv_def using assms by blast

text \<open>An actor that moves on without touching the store.\<close>

lemma can_inv_goto:
  assumes inv: "can_inv x" and fits: "pc_fits (cs_m x) pc"
    and own: "owned pc = None \<or> owned pc = owned (cs_pc x a)"
  shows "can_inv (can_goto a pc (cs_m x) x)"
proof -
  let ?pc = "(cs_pc x)(a := pc)"
  have "owned (cs_pc x b) = Some i" if "owned (?pc b) = Some i" for b i
    using that own by (cases "b = a") auto
  then have own': "b = d" if "owned (?pc b) = Some i" "owned (?pc d) = Some i" for b d i
    using that can_invD(3) [OF inv] by blast
  have fits': "pc_fits (cs_m x) (?pc b)" for b using fits can_invD(2) [OF inv, of b] by (cases "b = a") simp_all
  have slot: "slot_free (cs_m x)" if "\<not> cs_reverted x" using can_invD(4) [OF inv that] .
  show ?thesis by (rule can_invI) (simp_all add: can_invD(1) [OF inv] own' fits' slot del: fun_upd_apply)
qed

text \<open>A row written by its owner, who is done then.\<close>

lemma can_inv_write:
  assumes inv: "can_inv x" and own: "owned (cs_pc x a) = Some i"
    and c: "AC_ID c = i" "AC_Status c \<noteq> CanaryPending"
    and app: "\<And>r. cs_m x i = Some r \<Longrightarrow> AC_AppID r = AC_AppID c"
    and m: "m = (if cs_m x i = None then cs_m x else (cs_m x)(i \<mapsto> c))"
    and slot: "\<not> rv \<Longrightarrow> \<not> cs_reverted x \<and> (\<forall>r. cs_m x i = Some r \<longrightarrow> canaryActive (AC_Status c) \<longrightarrow> canaryActive (AC_Status r))"
  shows "can_inv ((can_goto a CIdle m x)\<lparr>cs_reverted := rv\<rparr>)"
proof -
  let ?pc = "(cs_pc x)(a := CIdle)"
  have ids: "AC_ID d = j" if "m j = Some d" for j d
    using that can_invD(1) [OF inv] c(1) by (auto simp: m split: if_splits)
  have fits: "pc_fits m (?pc b)" for b
  proof (cases "b = a")
    case False
    have old: "pc_fits (cs_m x) (cs_pc x b)" by (rule can_invD(2) [OF inv])
    have "owned (cs_pc x b) \<noteq> Some i" using can_invD(3) [OF inv own] False by blast
    with old False c app show ?thesis by (cases "cs_pc x b") (auto simp: m)
  qed simp
  have "owned (cs_pc x b) = Some j" if "owned (?pc b) = Some j" for b j
    using that by (cases "b = a") auto
  then have own': "b = d" if "owned (?pc b) = Some j" "owned (?pc d) = Some j" for b d j
    using that can_invD(3) [OF inv] by blast
  have slot': "slot_free m" if "\<not> rv"
    using can_invD(4) [OF inv] slot [OF that] app slot_free_upd [of "cs_m x" i _ c] by (cases "cs_m x i") (simp_all add: m)
  show ?thesis by (rule can_invI) (simp_all add: ids own' fits slot' del: fun_upd_apply)
qed

text \<open>A reserved row.\<close>

lemma can_inv_reserve:
  assumes inv: "can_inv x" and idle: "cs_pc x a = CIdle" and ks: "iter_order ks (cs_m x)"
    and fresh: "fresh_canary x cid"
    and create: "AC_Create ks now (reserved_canary cfg now' cid app runID) (cs_m x) = (Inr c, m)"
  shows "can_inv (can_goto a (Starting c) m x)"
proof -
  let ?pc = "(cs_pc x)(a := Starting c)"
  note new = AC_Create_map(1) [OF create]
  have c: "AC_ID c = cid" "AC_AppID c = App_ID app" "AC_Status c = CanaryPending" "m = (cs_m x)(cid \<mapsto> c)"
    using new by (simp_all add: reserved_canary_def)
  have none: "cs_m x cid = None" and unknown: "pc_row (cs_pc x b) = Some d \<Longrightarrow> AC_ID d \<noteq> cid" for b d
    using fresh by (auto simp: fresh_canary_def)
  have ids: "AC_ID d = j" if "m j = Some d" for j d using that can_invD(1) [OF inv] c by (auto split: if_splits)
  have fits: "pc_fits m (?pc b)" for b
  proof (cases "b = a")
    case False
    have "pc_fits (cs_m x) (cs_pc x b)" by (rule can_invD(2) [OF inv])
    with False unknown [of b] c(4) show ?thesis by (cases "cs_pc x b") auto
  qed (use c in simp)
  have own_old: "owned (cs_pc x b) = Some j \<Longrightarrow> j \<noteq> cid" for b j
    using unknown [of b] by (cases "cs_pc x b") auto
  have own: "b = d" if "owned (?pc b) = Some j" "owned (?pc d) = Some j" for b d j
    using that own_old [of b j] own_old [of d j] can_invD(3) [OF inv, of b j d] c(1) by (auto split: if_splits)
  have slot: "slot_free m" if "\<not> cs_reverted x"
    unfolding slot_free_def
  proof (intro allI impI)
    fix i j d e assume d: "m i = Some d" "m j = Some e" "canaryActive (AC_Status d)" "canaryActive (AC_Status e)"
      "AC_AppID d = AC_AppID e"
    have other: "AC_AppID f \<noteq> App_ID app" if "cs_m x k = Some f" "canaryActive (AC_Status f)" for k f
      using AC_Create_map(2) [OF create _ ks that] by (simp add: reserved_canary_def canaryActive_def)
    have old: "slot_free (cs_m x)" using can_invD(4) [OF inv that] .
    show "i = j"
    proof (cases "i = cid \<or> j = cid")
      case True
      with d other c show ?thesis by (auto split: if_splits)
    next
      case False
      with d old c(4) show ?thesis unfolding slot_free_def by auto
    qed
  qed
  show ?thesis by (rule can_invI) (simp_all add: ids own fits slot del: fun_upd_apply)
qed

text \<open>A row won for a final status: it was progressing, so nobody owned it.\<close>

lemma can_inv_claim:
  assumes inv: "can_inv x" and pc: "cs_pc x a = Loaded c" and st: "st \<in> {CanaryPromoted, CanaryAborted}"
    and claim: "ClaimTerminal now (AC_ID c) st (cs_m x) = (Inr True, m)"
  shows "can_inv (can_goto a (Claimed c st) m x)"
proof -
  let ?pc = "(cs_pc x)(a := Claimed c st)" and ?i = "AC_ID c"
  from claim obtain r where r: "cs_m x ?i = Some r" "AC_Status r = CanaryProgressing"
    "m = (cs_m x)(?i \<mapsto> r\<lparr>AC_Status := st, AC_UpdatedAt := now\<rparr>)" by (rule ClaimTerminal_won)
  have app: "AC_AppID r = AC_AppID c" using can_invD(2) [OF inv, of a] pc r(1) by simp
  have ids: "AC_ID d = j" if "m j = Some d" for j d
    using that can_invD(1) [OF inv] r by (auto split: if_splits)
  have free: "owned (cs_pc x b) \<noteq> Some ?i" for b
    using can_invD(2) [OF inv, of b] r(1,2) by (cases "cs_pc x b") auto
  have fits: "pc_fits m (?pc b)" for b
  proof (cases "b = a")
    case True
    then show ?thesis using r st app by simp
  next
    case False
    have "pc_fits (cs_m x) (cs_pc x b)" by (rule can_invD(2) [OF inv])
    with False free [of b] r st show ?thesis by (cases "cs_pc x b") auto
  qed
  have own: "b = d" if "owned (?pc b) = Some j" "owned (?pc d) = Some j" for b d j
    using that free [of b] free [of d] can_invD(3) [OF inv, of b j d] by (auto split: if_splits)
  have slot: "slot_free m" if "\<not> cs_reverted x"
    unfolding r(3) using st by (intro slot_free_upd [OF can_invD(4) [OF inv that] r(1)]) (auto simp: canaryActive_def)
  show ?thesis by (rule can_invI) (simp_all add: ids own fits slot del: fun_upd_apply)
qed

text \<open>Stale pending rows removed.\<close>

lemma can_inv_reap:
  assumes inv: "can_inv x" and del: "DeleteStalePending ks t (cs_m x) = (n, m)"
  shows "can_inv (x\<lparr>cs_m := m\<rparr>)"
proof -
  note m = DeleteStalePending_map [OF del]
  have sub: "cs_m x i = Some c" if "m i = Some c" for i c using m [of i] that by auto
  have keep: "m i = Some c" if "cs_m x i = Some c" "AC_Status c \<noteq> CanaryPending" for i c using m [of i] that by auto
  have fits: "pc_fits m (cs_pc x a)" for a
  proof -
    note old = can_invD(2) [OF inv, of a]
    show ?thesis
    proof (cases "cs_pc x a")
      case (Starting c)
      have "AC_Status r = CanaryPending \<and> AC_AppID r = AC_AppID c" if "m (AC_ID c) = Some r" for r
        using old Starting sub [OF that] by simp
      then show ?thesis unfolding Starting pc_fits.simps by blast
    next
      case (Loaded c)
      with old obtain r where r: "cs_m x (AC_ID c) = Some r" "AC_Status r \<noteq> CanaryPending" "AC_AppID r = AC_AppID c"
        by auto
      with keep [OF r(1,2)] Loaded show ?thesis by simp
    next
      case (Claimed c st)
      with old obtain r where r: "cs_m x (AC_ID c) = Some r" "AC_Status r \<in> {CanaryPromoted, CanaryAborted}"
        "AC_AppID r = AC_AppID c" by auto
      then have "AC_Status r \<noteq> CanaryPending" by auto
      from keep [OF r(1) this] r Claimed show ?thesis by simp
    qed simp
  qed
  have slot: "slot_free m" if "\<not> cs_reverted x"
    using can_invD(4) [OF inv that] sub unfolding slot_free_def by meson
  have own: "a = b" if "owned (cs_pc x a) = Some i" "owned (cs_pc x b) = Some i" for a b i
    using can_invD(3) [OF inv that] .
  have ids: "AC_ID c = i" if "m i = Some c" for i c using can_invD(1) [OF inv sub [OF that]] .
  show ?thesis
  proof (rule can_invI, goal_cases)
    case (1 i c)
    then show ?case using ids [of i c] by simp
  next
    case (2 a)
    show ?case using fits [of a] by simp
  next
    case (3 a b i)
    then show ?case using own [of a i b] by simp
  next
    case 4
    then show ?case using slot by simp
  qed
qed

lemma start_outcome_row:
  assumes "start_outcome cfg c c'"
  shows "AC_ID c' = AC_ID c \<and> AC_AppID c' = AC_AppID c \<and> AC_Status c' \<in> {CanaryProgressing, CanaryFailed}"
  using assms by (auto simp: start_outcome_def live_canary_def Let_def)

lemma can_step_inv:
  assumes "can_step x y" "can_inv x"
  shows "can_inv y"
  using assms(1)
proof cases
  case (start_reserve a ks cid now cfg now' app runID c m)
  then show ?thesis using can_inv_reserve [OF assms(2)] by blast
next
  case (start_finish a c cfg c' now r m)
  note row = start_outcome_row [OF start_finish(3)]
  have fits: "pc_fits (cs_m x) (Starting c)" using can_invD(2) [OF assms(2), of a] start_finish(2) by simp
  have "can_inv ((can_goto a CIdle m x)\<lparr>cs_reverted := cs_reverted x\<rparr>)"
    by (rule can_inv_write [OF assms(2), where i = "AC_ID c" and c = "c'\<lparr>AC_UpdatedAt := now\<rparr>"])
      (use start_finish(2) row fits AC_Update_map [OF start_finish(4)] in \<open>auto simp: canaryActive_def\<close>)
  then show ?thesis using start_finish(1) by simp
next
  case (claim_won a c st now m)
  then show ?thesis using can_inv_claim [OF assms(2)] by blast
next
  case (claim_lost a c now st r m)
  then show ?thesis using can_inv_goto [OF assms(2), of CIdle a] ClaimTerminal_lost [OF claim_lost(3,4)] by simp
next
  case (load_active a ks appID c)
  from load_active(4,3) obtain i where i: "cs_m x i = Some c" "AC_Status c = CanaryProgressing"
    using find_member [of _ "map_values ks (cs_m x)" c] by (auto simp: AC_GetActive_def split: option.splits)
  then have "pc_fits (cs_m x) (Loaded c)" using can_invD(1) [OF assms(2) i(1)] by simp
  then show ?thesis unfolding load_active(1) by (intro can_inv_goto [OF assms(2)]) simp_all
next
  case (load_listed a ks c)
  then obtain i where i: "cs_m x i = Some c" "AC_Status c = CanaryProgressing" by (auto simp: ListProgressing_def)
  then have "pc_fits (cs_m x) (Loaded c)" using can_invD(1) [OF assms(2) i(1)] by simp
  then show ?thesis unfolding load_listed(1) by (intro can_inv_goto [OF assms(2)]) simp_all
next
  case (settle a c st c' t reason now r m)
  have fits: "pc_fits (cs_m x) (Claimed c st)" using can_invD(2) [OF assms(2), of a] settle(2) by simp
  have row: "AC_ID c' = AC_ID c" "AC_AppID c' = AC_AppID c" "AC_Status c' = st" "st \<in> {CanaryPromoted, CanaryAborted}"
    using settle(3) by (auto simp: promoted_row_def aborted_row_def)
  have "can_inv ((can_goto a CIdle m x)\<lparr>cs_reverted := cs_reverted x\<rparr>)"
    by (rule can_inv_write [OF assms(2), where i = "AC_ID c" and c = "c'\<lparr>AC_UpdatedAt := now\<rparr>"])
      (use settle(2) row fits AC_Update_map [OF settle(4)] in \<open>auto simp: canaryActive_def\<close>)
  then show ?thesis using settle(1) by simp
next
  case (revert a c st now r m)
  have fits: "pc_fits (cs_m x) (Claimed c st)" using can_invD(2) [OF assms(2), of a] revert(2) by simp
  show ?thesis
    unfolding revert(1)
    by (rule can_inv_write [OF assms(2), where i = "AC_ID c" and
          c = "c\<lparr>AC_Status := CanaryProgressing, AC_ResolvedAt := None, AC_UpdatedAt := now\<rparr>"])
      (use revert(2) fits AC_Update_map [OF revert(3)] in auto)
next
  case (reap_stale ks olderThan n m)
  then show ?thesis using can_inv_reap [OF assms(2)] by blast
qed (use can_inv_goto [OF assms(2), of CIdle] in simp_all)

lemma can_reachable_inv:
  assumes "can_step\<^sup>*\<^sup>* can_init x"
  shows "can_inv x"
  using assms
proof (induction rule: rtranclp_induct)
  case base
  show ?case by (simp add: can_inv_def can_init_def slot_free_def)
next
  case (step y z)
  then show ?case using can_step_inv by blast
qed

subsection \<open>What holds of every interleaving\<close>

text \<open>
  C19: a canary is resolved by one actor at a time.  While an actor has won it and is shifting its
  traffic, nobody else has won the same canary and every further claim of it, by whomever and for
  whichever status, is answered with a loss and changes nothing.
\<close>

theorem canary_single_winner:
  assumes "can_step\<^sup>*\<^sup>* can_init x" "cs_pc x a = Claimed c st"
  shows "(\<forall>b d st'. cs_pc x b = Claimed d st' \<longrightarrow> AC_ID d = AC_ID c \<longrightarrow> b = a) \<and>
    (\<forall>now st'. ClaimTerminal now (AC_ID c) st' (cs_m x) = (Inr False, cs_m x))"
proof -
  have inv: "can_inv x" by (rule can_reachable_inv [OF assms(1)])
  obtain r where r: "cs_m x (AC_ID c) = Some r" "AC_Status r \<in> {CanaryPromoted, CanaryAborted}"
    using can_invD(2) [OF inv, of a] assms(2) by auto
  have "b = a" if "cs_pc x b = Claimed d st'" "AC_ID d = AC_ID c" for b d st'
    using can_invD(3) [OF inv, of b "AC_ID c" a] that assms(2) by simp
  moreover have "ClaimTerminal now (AC_ID c) st' (cs_m x) = (Inr False, cs_m x)" for now st'
    using r by (auto simp: ClaimTerminal_def)
  ultimately show ?thesis by blast
qed

text \<open>
  C20: an app has at most one canary that is pending or progressing, whatever starters,
  operators and sweepers do at the same time, as long as no traffic shift has failed after the
  canary was claimed.
\<close>

theorem canary_slot:
  assumes "can_step\<^sup>*\<^sup>* can_init x" "\<not> cs_reverted x"
    and "cs_m x i = Some c" "cs_m x j = Some d" "canaryActive (AC_Status c)" "canaryActive (AC_Status d)"
    and "AC_AppID c = AC_AppID d"
  shows "i = j"
  using can_invD(4) [OF can_reachable_inv [OF assms(1)] assms(2)] assms(3-) unfolding slot_free_def by blast

subsection \<open>A claim that is taken back\<close>

text \<open>
  \<open>revertClaim\<close> makes the row progressing again without looking whether another canary of the app
  has taken the slot since the claim freed it.  The trace: a canary runs, an operator aborts it,
  the next canary starts, and the abort's traffic shift fails.
\<close>

abbreviation demo_row :: "string \<Rightarrow> time \<Rightarrow> AppCanary" where
  "demo_row i t \<equiv> (reserved_canary (App_Canary demo_app) t i demo_app ''run'')\<lparr>AC_UpdatedAt := t\<rparr>"

definition demo_live :: AppCanary where
  "demo_live = (live_canary (App_Canary demo_app) 2 ((demo_row ''c1'' 1)\<lparr>AC_StableImage := ''v1'', AC_CanaryImage := ''v2''\<rparr>))
     \<lparr>AC_UpdatedAt := 2\<rparr>"

definition demo_aborted :: AppCanary where
  "demo_aborted = demo_live\<lparr>AC_Status := CanaryAborted, AC_UpdatedAt := 3\<rparr>"

definition sys_at :: "appCanaries \<Rightarrow> can_pc \<Rightarrow> can_pc \<Rightarrow> can_sys" where
  "sys_at m p q = \<lparr>cs_m = m, cs_pc = (\<lambda>_. CIdle)(0 := p, 1 := q), cs_reverted = False\<rparr>"

lemma sys_at_goto: "can_goto 0 p m' (sys_at m CIdle q) = sys_at m' p q" "can_goto 0 p m' (sys_at m (Starting c) q) = sys_at m' p q"
    "can_goto 0 p m' (sys_at m (Loaded c) q) = sys_at m' p q" "can_goto 1 p m' (sys_at m r CIdle) = sys_at m' r p"
  by (auto simp: sys_at_def fun_eq_iff)

lemmas demo_canary_defs = demo_live_def demo_aborted_def demo_app_def reserved_canary_def live_canary_def sys_at_def
  AC_Create_def AC_Update_def AC_GetActive_def ClaimTerminal_def canaryActive_def fresh_canary_def iter_order_def
  map_values_def List.map_filter_def Let_def

lemma demo_started: "can_step\<^sup>*\<^sup>* can_init (sys_at [''c1'' \<mapsto> demo_row ''c1'' 1] (Starting (demo_row ''c1'' 1)) CIdle)"
proof -
  have init: "can_init = sys_at (\<lambda>_. None) CIdle CIdle" by (simp add: can_init_def sys_at_def fun_eq_iff)
  have "can_step (sys_at (\<lambda>_. None) CIdle CIdle)
      (can_goto 0 (Starting (demo_row ''c1'' 1)) [''c1'' \<mapsto> demo_row ''c1'' 1] (sys_at (\<lambda>_. None) CIdle CIdle))"
    by (rule start_reserve [of _ 0 "[]" "''c1''" 5 "App_Canary demo_app" 1 demo_app "''run''"])
      (auto simp: demo_canary_defs)
  then have "can_step (sys_at (\<lambda>_. None) CIdle CIdle) (sys_at [''c1'' \<mapsto> demo_row ''c1'' 1] (Starting (demo_row ''c1'' 1)) CIdle)"
    by (simp add: sys_at_goto)
  then show ?thesis unfolding init by blast
qed

lemma demo_running: "can_step\<^sup>*\<^sup>* can_init (sys_at [''c1'' \<mapsto> demo_live] CIdle CIdle)"
proof -
  have "start_outcome (App_Canary demo_app) (demo_row ''c1'' 1)
      (live_canary (App_Canary demo_app) 2 ((demo_row ''c1'' 1)\<lparr>AC_StableImage := ''v1'', AC_CanaryImage := ''v2''\<rparr>))"
    unfolding start_outcome_def by blast
  moreover have "AC_Update 2 (live_canary (App_Canary demo_app) 2
        ((demo_row ''c1'' 1)\<lparr>AC_StableImage := ''v1'', AC_CanaryImage := ''v2''\<rparr>)) [''c1'' \<mapsto> demo_row ''c1'' 1] =
      (None, [''c1'' \<mapsto> demo_live])"
    by (simp add: demo_canary_defs)
  ultimately have "can_step (sys_at [''c1'' \<mapsto> demo_row ''c1'' 1] (Starting (demo_row ''c1'' 1)) CIdle)
      (can_goto 0 CIdle [''c1'' \<mapsto> demo_live] (sys_at [''c1'' \<mapsto> demo_row ''c1'' 1] (Starting (demo_row ''c1'' 1)) CIdle))"
    by (intro start_finish) (simp_all add: sys_at_def)
  with demo_started show ?thesis by (simp add: sys_at_goto)
qed

lemma demo_claimed: "can_step\<^sup>*\<^sup>* can_init (sys_at [''c1'' \<mapsto> demo_aborted] (Claimed demo_live CanaryAborted) CIdle)"
proof -
  have "can_step (sys_at [''c1'' \<mapsto> demo_live] CIdle CIdle)
      (can_goto 0 (Loaded demo_live) [''c1'' \<mapsto> demo_live] (sys_at [''c1'' \<mapsto> demo_live] CIdle CIdle))"
    using load_active [of "sys_at [''c1'' \<mapsto> demo_live] CIdle CIdle" 0 "[''c1'']" "''app''" demo_live]
    by (simp add: demo_canary_defs)
  then have 1: "can_step (sys_at [''c1'' \<mapsto> demo_live] CIdle CIdle) (sys_at [''c1'' \<mapsto> demo_live] (Loaded demo_live) CIdle)"
    by (simp add: sys_at_goto)
  have "can_step (sys_at [''c1'' \<mapsto> demo_live] (Loaded demo_live) CIdle)
      (can_goto 0 (Claimed demo_live CanaryAborted) [''c1'' \<mapsto> demo_aborted] (sys_at [''c1'' \<mapsto> demo_live] (Loaded demo_live) CIdle))"
    by (rule claim_won [where now = 3]) (simp_all add: demo_canary_defs)
  then have 2: "can_step (sys_at [''c1'' \<mapsto> demo_live] (Loaded demo_live) CIdle)
      (sys_at [''c1'' \<mapsto> demo_aborted] (Claimed demo_live CanaryAborted) CIdle)"
    by (simp add: sys_at_goto)
  from demo_running 1 2 show ?thesis by (meson rtranclp.rtrancl_into_rtrancl)
qed

lemma demo_restarted:
  "can_step\<^sup>*\<^sup>* can_init (sys_at [''c1'' \<mapsto> demo_aborted, ''c2'' \<mapsto> demo_row ''c2'' 4]
     (Claimed demo_live CanaryAborted) (Starting (demo_row ''c2'' 4)))"
proof -
  let ?x = "sys_at [''c1'' \<mapsto> demo_aborted] (Claimed demo_live CanaryAborted) CIdle"
  have "fresh_canary ?x ''c2''" by (auto simp: demo_canary_defs)
  then have "can_step ?x (can_goto 1 (Starting (demo_row ''c2'' 4)) [''c1'' \<mapsto> demo_aborted, ''c2'' \<mapsto> demo_row ''c2'' 4] ?x)"
    by (intro start_reserve [of _ 1 "[''c1'']" "''c2''" 5 "App_Canary demo_app" 4 demo_app "''run''"])
      (simp_all add: demo_canary_defs)
  then have "can_step ?x (sys_at [''c1'' \<mapsto> demo_aborted, ''c2'' \<mapsto> demo_row ''c2'' 4]
      (Claimed demo_live CanaryAborted) (Starting (demo_row ''c2'' 4)))"
    by (simp only: sys_at_goto)
  with demo_claimed show ?thesis by (rule rtranclp.rtrancl_into_rtrancl)
qed

lemma revert_breaks_slot:
  "\<exists>x c d. can_step\<^sup>*\<^sup>* can_init x \<and> cs_m x ''c1'' = Some c \<and> cs_m x ''c2'' = Some d \<and>
     AC_Status c = CanaryProgressing \<and> AC_Status d = CanaryPending \<and> AC_AppID c = AC_AppID d"
proof -
  let ?m = "[''c1'' \<mapsto> demo_aborted, ''c2'' \<mapsto> demo_row ''c2'' 4]"
  let ?x = "sys_at ?m (Claimed demo_live CanaryAborted) (Starting (demo_row ''c2'' 4))"
  let ?c = "demo_live\<lparr>AC_Status := CanaryProgressing, AC_ResolvedAt := None\<rparr>"
  let ?m' = "?m(''c1'' \<mapsto> ?c\<lparr>AC_UpdatedAt := 6\<rparr>)"
  have "AC_Update 6 ?c (cs_m ?x) = (None, ?m')" by (simp add: demo_canary_defs)
  then have "can_step ?x ((can_goto 0 CIdle ?m' ?x)\<lparr>cs_reverted := True\<rparr>)"
    by (intro revert) (simp_all add: sys_at_def)
  with demo_restarted have "can_step\<^sup>*\<^sup>* can_init ((can_goto 0 CIdle ?m' ?x)\<lparr>cs_reverted := True\<rparr>)"
    by (rule rtranclp.rtrancl_into_rtrancl)
  moreover have "AC_AppID demo_live = ''app''" "AC_AppID (demo_row ''c2'' 4) = ''app''"
    "AC_Status (demo_row ''c2'' 4) = CanaryPending"
    by (simp_all add: demo_canary_defs)
  ultimately show ?thesis
    by (intro exI [of _ "(can_goto 0 CIdle ?m' ?x)\<lparr>cs_reverted := True\<rparr>"] exI [of _ "?c\<lparr>AC_UpdatedAt := 6\<rparr>"]
        exI [of _ "demo_row ''c2'' 4"] conjI) (assumption, simp_all)
qed

theorem canary_single_winner_witness:
  "ClaimTerminal 9 ''c1'' CanaryPromoted [''c1'' \<mapsto> demo_aborted] = (Inr False, [''c1'' \<mapsto> demo_aborted])"
proof -
  have "cs_pc (sys_at [''c1'' \<mapsto> demo_aborted] (Claimed demo_live CanaryAborted) CIdle) 0 = Claimed demo_live CanaryAborted"
    by (simp add: sys_at_def)
  from canary_single_winner [OF demo_claimed this] show ?thesis by (simp add: demo_canary_defs)
qed

theorem canary_slot_witness:
  "\<exists>x d. can_step\<^sup>*\<^sup>* can_init x \<and> cs_m x ''c2'' = Some d \<and> AC_Status d = CanaryPending \<and>
     (\<forall>i c. cs_m x i = Some c \<longrightarrow> canaryActive (AC_Status c) \<longrightarrow> AC_AppID c = AC_AppID d \<longrightarrow> i = ''c2'')"
proof -
  let ?x = "sys_at [''c1'' \<mapsto> demo_aborted, ''c2'' \<mapsto> demo_row ''c2'' 4] (Claimed demo_live CanaryAborted) (Starting (demo_row ''c2'' 4))"
  have d: "cs_m ?x ''c2'' = Some (demo_row ''c2'' 4)" "AC_Status (demo_row ''c2'' 4) = CanaryPending"
    "\<not> cs_reverted ?x" "canaryActive (AC_Status (demo_row ''c2'' 4))"
    by (simp_all add: demo_canary_defs)
  have "i = ''c2''" if "cs_m ?x i = Some c" "canaryActive (AC_Status c)" "AC_AppID c = AC_AppID (demo_row ''c2'' 4)" for i c
    by (rule canary_slot [OF demo_restarted d(3) that(1) d(1) that(2) d(4) that(3)])
  with demo_restarted d show ?thesis by blast
qed

end
