(* ===== verification/Calendar.thy ===== *)
theory Calendar
  imports Prelude
begin

text \<open>
  What the scheduler uses of Go's package \<open>time\<close>: the Gregorian calendar of \<open>Year\<close>, \<open>Month\<close>,
  \<open>Day\<close>, \<open>Weekday\<close>, \<open>Hour\<close> and \<open>Minute\<close>, the constructor \<open>Date\<close>, \<open>AddDate\<close> and \<open>Truncate\<close>.  An
  instant counts nanoseconds from the zero \<open>Time\<close>, 1 January of year 1 in UTC, a Monday; days are
  numbered from there.  A location is the lookup of its offset: for a second, the offset in
  force and the first and the first-not-any-more second it is in force, \<open>None\<close> where there is no
  such bound.
\<close>

subsection \<open>Years\<close>

definition is_leap :: "int \<Rightarrow> bool" where
  "is_leap y \<longleftrightarrow> 4 dvd y \<and> (\<not> 100 dvd y \<or> 400 dvd y)"

text \<open>The number of the first day of year \<open>y + 1\<close>.\<close>

definition year_start :: "int \<Rightarrow> int" where
  "year_start y = 365 * y + y div 4 - y div 100 + y div 400"

text \<open>The year of a day, counted from 0: a guess by the mean year, corrected by one.\<close>

definition year_of :: "int \<Rightarrow> int" where
  "year_of n = (let y = n * 400 div 146097 in if year_start (y + 1) \<le> n then y + 1 else y)"

lemma div_step:
  assumes "1 < (k::int)"
  shows "(y + 1) div k = y div k + (if k dvd y + 1 then 1 else 0)"
proof -
  have split: "(y + 1) div k = y div k + (y mod k + 1) div k"
    using div_add1_eq [of y 1 k] assms by simp
  have dvd: "k dvd y + 1 \<longleftrightarrow> (y mod k + 1) mod k = 0" by (simp add: dvd_eq_mod_eq_0 mod_add_left_eq)
  have range: "0 \<le> y mod k" "y mod k < k" using assms by simp_all
  show ?thesis
  proof (cases "y mod k + 1 = k")
    case True
    with split dvd assms show ?thesis by simp
  next
    case False
    with range have "0 < y mod k + 1" "y mod k + 1 < k" by simp_all
    with split dvd show ?thesis by (simp add: mod_pos_pos_trivial div_pos_pos_trivial)
  qed
qed

lemma year_length: "year_start (y + 1) = year_start y + (if is_leap (y + 1) then 366 else 365)"
proof -
  have d: "100 dvd y + 1" if "400 dvd y + 1" using dvd_trans [of 100 400 "y + 1"] that by simp
  have c: "4 dvd y + 1" if "100 dvd y + 1" using dvd_trans [of 4 100 "y + 1"] that by simp
  have "year_start (y + 1) = year_start y + 365 + (if 4 dvd y + 1 then 1 else 0) -
      (if 100 dvd y + 1 then 1 else 0) + (if 400 dvd y + 1 then 1 else 0)"
    unfolding year_start_def using div_step [of 4 y] div_step [of 100 y] div_step [of 400 y] by simp
  then show ?thesis unfolding is_leap_def using c d by (cases "400 dvd y + 1"; cases "100 dvd y + 1") simp_all
qed

lemma year_start_mono: "y \<le> z \<Longrightarrow> year_start y \<le> year_start z"
proof (induction z rule: int_ge_induct)
  case (step z)
  with year_length [of z] show ?case by simp
qed simp

lemma year_start_less: "year_start y < year_start z \<longleftrightarrow> y < z"
proof
  assume "y < z"
  then have "year_start (y + 1) \<le> year_start z" by (intro year_start_mono) simp
  then show "year_start y < year_start z" using year_length [of y] by (simp split: if_splits)
next
  assume "year_start y < year_start z"
  then show "y < z" using year_start_mono [of z y] by (cases "y < z") auto
qed

text \<open>The year of a day contains it, and it is the only one.\<close>

lemma year_of_bounds: "year_start (year_of n) \<le> n" "n < year_start (year_of n + 1)"
proof -
  define y where "y = n * 400 div 146097"
  have div: "k * (x div k) \<le> x" "x < k * (x div k) + k" if "0 < k" for k x :: int
    using mult_div_mod_eq [of k x] pos_mod_sign [OF that, of x] pos_mod_bound [OF that, of x] by linarith+
  have bound: "4 * (x div 4) \<le> x" "x < 4 * (x div 4) + 4" "100 * (x div 100) \<le> x" "x < 100 * (x div 100) + 100"
    "400 * (x div 400) \<le> x" "x < 400 * (x div 400) + 400" for x :: int
    using div by simp_all
  have y: "146097 * y \<le> n * 400" "n * 400 < 146097 * y + 146097"
    unfolding y_def using div [of 146097 "n * 400"] by simp_all
  have lo: "year_start y \<le> n" using bound [of y] y unfolding year_start_def by linarith
  have "n < 365 * z + a - b + c"
    if "z = y + 2" "z < 4 * a + 4" "100 * b \<le> z" "z < 400 * c + 400" for z a b c
    using that y by linarith
  from this [OF refl bound(2,3,6) [of "y + 2"]] have hi: "n < year_start (y + 2)" by (simp add: year_start_def)
  have "year_start (y + 2) = year_start (y + 1 + 1)" by (simp add: algebra_simps)
  moreover have "year_of n = (if year_start (y + 1) \<le> n then y + 1 else y)"
    by (simp add: year_of_def y_def Let_def)
  ultimately show "year_start (year_of n) \<le> n" "n < year_start (year_of n + 1)"
    using lo hi by (simp_all only: not_le split: if_splits) simp_all
qed

lemma year_of_unique:
  assumes "year_start y \<le> n" "n < year_start (y + 1)"
  shows "year_of n = y"
proof -
  have "year_start y < year_start (year_of n + 1)" "year_start (year_of n) < year_start (y + 1)"
    using assms year_of_bounds [of n] by simp_all
  then show ?thesis by (simp add: year_start_less)
qed

subsection \<open>Months and days\<close>

text \<open>The days of a year before month \<open>m\<close>; month 13 is the next January.\<close>

definition before :: "bool \<Rightarrow> nat \<Rightarrow> int" where
  "before leap m =
     [0, 0, 31, 59, 90, 120, 151, 181, 212, 243, 273, 304, 334, 365] ! m + (if leap \<and> 2 < m then 1 else 0)"

function month_from :: "bool \<Rightarrow> nat \<Rightarrow> int \<Rightarrow> nat" where
  "month_from leap m d = (if 12 \<le> m \<or> d < before leap (Suc m) then m else month_from leap (Suc m) d)"
  by pat_completeness auto
termination by (relation "measure (\<lambda>(leap, m, d). 12 - m)") auto

declare month_from.simps [simp del]

definition civil :: "int \<Rightarrow> int \<times> nat \<times> int" where
  "civil n =
     (let y = year_of n; d = n - year_start y; leap = is_leap (y + 1); m = month_from leap 1 d
      in (y + 1, m, d - before leap m + 1))"

text \<open>The day of a date; the day of the month may lie outside the month, which normalises it.\<close>

definition day_number :: "int \<Rightarrow> nat \<Rightarrow> int \<Rightarrow> int" where
  "day_number y m d = year_start (y - 1) + before (is_leap y) m + d - 1"

lemma month_from_bounds:
  "m \<le> 12 \<Longrightarrow> before leap m \<le> d \<Longrightarrow> d < before leap 13 \<Longrightarrow>
   m \<le> month_from leap m d \<and> month_from leap m d \<le> 12 \<and>
   before leap (month_from leap m d) \<le> d \<and> d < before leap (Suc (month_from leap m d))"
proof (induction leap m d rule: month_from.induct)
  case (1 leap m d)
  show ?case
  proof (cases "12 \<le> m \<or> d < before leap (Suc m)")
    case True
    with 1(2-4) show ?thesis by (subst (1 2 3 4) month_from.simps) (auto simp: eval_nat_numeral)
  next
    case False
    with 1 have "Suc m \<le> month_from leap (Suc m) d \<and> month_from leap (Suc m) d \<le> 12 \<and>
      before leap (month_from leap (Suc m) d) \<le> d \<and> d < before leap (Suc (month_from leap (Suc m) d))" by auto
    moreover have "month_from leap m d = month_from leap (Suc m) d"
      using False by (subst month_from.simps) simp
    ultimately show ?thesis by simp
  qed
qed

lemma before_step:
  assumes "1 \<le> m" "m \<le> 12"
  shows "before leap m < before leap (Suc m)"
proof -
  have "\<forall>m \<in> set [1..<13]. before True m < before True (Suc m)" by code_simp
  moreover have "\<forall>m \<in> set [1..<13]. before False m < before False (Suc m)" by code_simp
  moreover have "m \<in> set [1..<13]" using assms by simp
  ultimately show ?thesis by (cases leap) simp_all
qed

lemma before_mono: "1 \<le> m \<Longrightarrow> m \<le> k \<Longrightarrow> k \<le> 13 \<Longrightarrow> before leap m \<le> before leap k"
proof (induction k)
  case (Suc k)
  show ?case
  proof (cases "m = Suc k")
    case False
    with Suc have "before leap m \<le> before leap k" by simp
    also have "\<dots> \<le> before leap (Suc k)" using before_step [of k leap] Suc.prems False by simp
    finally show ?thesis .
  qed simp
qed simp

lemma before_ends [simp]: "before leap (Suc 0) = 0" "before leap 13 = (if leap then 366 else 365)"
  by (simp_all add: before_def)

lemma year_day_bounds:
  "0 \<le> n - year_start (year_of n)" "n - year_start (year_of n) < before (is_leap (year_of n + 1)) 13"
  using year_of_bounds [of n] year_length [of "year_of n"] by simp_all

text \<open>The date of a day is a proper date, and the day is in its month.\<close>

lemma civil_month:
  assumes "civil n = (y, m, d)"
  shows "1 \<le> m" "m \<le> 12" "day_number y m 1 \<le> n" "n < year_start (y - 1) + before (is_leap y) (Suc m)"
    "n = day_number y m d"
proof -
  let ?y = "year_of n"
  note b = month_from_bounds [of 1 "is_leap (?y + 1)" "n - year_start ?y"]
  have m: "y = ?y + 1" "m = month_from (is_leap y) 1 (n - year_start ?y)" "d = n - year_start ?y - before (is_leap y) m + 1"
    using assms by (auto simp: civil_def Let_def)
  have "1 \<le> m \<and> m \<le> 12 \<and> before (is_leap y) m \<le> n - year_start ?y \<and> n - year_start ?y < before (is_leap y) (Suc m)"
    unfolding m using year_day_bounds [of n] b by simp
  then show "1 \<le> m" "m \<le> 12" "day_number y m 1 \<le> n" "n < year_start (y - 1) + before (is_leap y) (Suc m)"
    "n = day_number y m d"
    using m by (simp_all add: day_number_def)
qed

text \<open>Every day between the first of a month and the first of the next is in the month.\<close>

lemma civil_within:
  assumes "1 \<le> m" "m \<le> 12" "day_number y m 1 \<le> n" "n < year_start (y - 1) + before (is_leap y) (Suc m)"
  shows "civil n = (y, m, n - day_number y m 1 + 1)"
proof -
  have lo: "before (is_leap y) m \<le> n - year_start (y - 1)" using assms(3) by (simp add: day_number_def)
  have "before (is_leap y) 1 \<le> before (is_leap y) m" "before (is_leap y) (Suc m) \<le> before (is_leap y) 13"
    using before_mono [of 1 m] before_mono [of "Suc m" 13] assms(1,2) by simp_all
  then have "year_start (y - 1) \<le> n" "n < year_start (y - 1 + 1)"
    using lo assms(4) year_length [of "y - 1"] by simp_all
  then have y: "year_of n = y - 1" by (rule year_of_unique)
  let ?m = "month_from (is_leap y) 1 (n - year_start (y - 1))"
  have b: "1 \<le> ?m" "?m \<le> 12" "before (is_leap y) ?m \<le> n - year_start (y - 1)"
      "n - year_start (y - 1) < before (is_leap y) (Suc ?m)"
    using month_from_bounds [of 1 "is_leap y" "n - year_start (y - 1)"] year_day_bounds [of n] y by simp_all
  have "?m = m"
  proof (rule ccontr)
    assume "?m \<noteq> m"
    then consider "Suc ?m \<le> m" | "Suc m \<le> ?m" by linarith
    then show False
    proof cases
      case 1
      with before_mono [of "Suc ?m" m "is_leap y"] assms(2) b(4) lo show False by simp
    next
      case 2
      with before_mono [of "Suc m" ?m "is_leap y"] b(2,3) assms(4) show False by simp
    qed
  qed
  then show ?thesis using y by (simp add: civil_def day_number_def Let_def)
qed

text \<open>Month 13 is January.\<close>

lemma day_number_next:
  assumes "1 \<le> m" "m \<le> 12"
  shows "year_start (y - 1) + before (is_leap y) (Suc m) =
    (if m = 12 then day_number (y + 1) 1 1 else day_number y (Suc m) 1)"
proof (cases "m = 12")
  case True
  then show ?thesis using year_length [of "y - 1"] by (simp add: day_number_def)
qed (simp add: day_number_def)

text \<open>
  The calendar round trip: the date of a day is a month between 1 and 12 and gives the day
  back, and a day of a month gives its date back.
\<close>

theorem civil_roundtrip:
  "(case civil n of (y, m, d) \<Rightarrow> 1 \<le> m \<and> m \<le> 12 \<and> 1 \<le> d \<and> day_number y m d = n) \<and>
   (1 \<le> m \<and> m \<le> 12 \<and> 1 \<le> d \<and> d \<le> before (is_leap y) (Suc m) - before (is_leap y) m \<longrightarrow>
     civil (day_number y m d) = (y, m, d))"
proof -
  obtain y' m' d' where c: "civil n = (y', m', d')" by (metis surj_pair)
  note b = civil_month [OF c]
  have "1 \<le> d'" using b(3,5) by (simp add: day_number_def)
  moreover have "civil (day_number y m d) = (y, m, d)"
    if "1 \<le> m" "m \<le> 12" "1 \<le> d" "d \<le> before (is_leap y) (Suc m) - before (is_leap y) m"
    using civil_within [of m y "day_number y m d"] that by (simp add: day_number_def)
  ultimately show ?thesis using b c by simp
qed

theorem civil_roundtrip_witness: "civil (day_number 2024 2 29) = (2024, 2, 29)"
  using civil_roundtrip [of 0 2 29 2024] by (simp add: before_def is_leap_def)

subsection \<open>Instants and locations\<close>

type_synonym Location = "int \<Rightarrow> int \<times> int option \<times> int option"

definition UTC :: Location where
  "UTC _ = (0, None, None)"

definition local_secs :: "Location \<Rightarrow> time \<Rightarrow> int" where
  "local_secs loc t = t div Second + fst (loc (t div Second))"

definition local_day :: "Location \<Rightarrow> time \<Rightarrow> int" where
  "local_day loc t = local_secs loc t div 86400"

definition local_hour :: "Location \<Rightarrow> time \<Rightarrow> int" where
  "local_hour loc t = local_secs loc t mod 86400 div 3600"

definition local_minute :: "Location \<Rightarrow> time \<Rightarrow> int" where
  "local_minute loc t = local_secs loc t mod 3600 div 60"

text \<open>Sunday is 0; day 0 is a Monday.\<close>

definition local_weekday :: "Location \<Rightarrow> time \<Rightarrow> int" where
  "local_weekday loc t = (local_day loc t + 1) mod 7"

text \<open>
  \<open>Date\<close>: the offset is first looked up as if the local second were one of UTC; if the second
  that gives is not one at which this offset is in force, the offset there is taken.
\<close>

definition resolve_local :: "Location \<Rightarrow> int \<Rightarrow> int" where
  "resolve_local loc l =
     (case loc l of
        (off, first, past) \<Rightarrow>
          if off = 0 then l
          else
            (let utc = l - off in
             if (\<exists>a \<in> set_option first. utc < a) \<or> (\<exists>b \<in> set_option past. b \<le> utc)
             then l - fst (loc utc) else utc))"

definition Date :: "Location \<Rightarrow> int \<Rightarrow> nat \<Rightarrow> int \<Rightarrow> int \<Rightarrow> int \<Rightarrow> time" where
  "Date loc y m d secs nanos = resolve_local loc (day_number y m d * 86400 + secs) * Second + nanos"

definition AddYears :: "Location \<Rightarrow> int \<Rightarrow> time \<Rightarrow> time" where
  "AddYears loc k t =
     (case civil (local_day loc t) of
        (y, m, d) \<Rightarrow> Date loc (y + k) m d (local_secs loc t mod 86400) (t mod Second))"

definition Truncate :: "duration \<Rightarrow> time \<Rightarrow> time" where
  "Truncate d t = t - t mod d"

text \<open>A location whose offset never changes.\<close>

definition fixed_zone :: "int \<Rightarrow> Location \<Rightarrow> bool" where
  "fixed_zone off loc \<longleftrightarrow> (\<forall>s. loc s = (off, None, None))"

lemma fixed_local: "fixed_zone off loc \<Longrightarrow> local_secs loc t = t div Second + off"
  by (simp add: fixed_zone_def local_secs_def)

lemma fixed_Date: "fixed_zone off loc \<Longrightarrow> Date loc y m d secs nanos = (day_number y m d * 86400 + secs - off) * Second + nanos"
  by (simp add: fixed_zone_def Date_def resolve_local_def)

end
