(* ===== verification/Cron.thy ===== *)
theory Cron
  imports Calendar Strings
begin

unbundle bit_operations_syntax

text \<open>
  The cron expressions of the scheduler (\<open>backend/internal/scheduler/cron.go\<close>): the parser that
  turns five fields into bit masks, and the search for the next minute that matches.
\<close>

record Cron =
  Cron_minute :: "64 word"
  Cron_hour :: "64 word"
  Cron_dom :: "64 word"
  Cron_month :: "64 word"
  Cron_dow :: "64 word"

type_synonym fieldSpec = "int \<times> int"

abbreviation specMinute :: fieldSpec where "specMinute \<equiv> (0, 59)"
abbreviation specHour :: fieldSpec where "specHour \<equiv> (0, 23)"
abbreviation specDOM :: fieldSpec where "specDOM \<equiv> (1, 31)"
abbreviation specMonth :: fieldSpec where "specMonth \<equiv> (1, 12)"
abbreviation specDOW :: fieldSpec where "specDOW \<equiv> (0, 6)"

text \<open>\<open>1 << uint(v)\<close>: a shift by 64 or more, as a negative \<open>v\<close> gives, leaves nothing.\<close>

definition shl1 :: "int \<Rightarrow> 64 word" where
  "shl1 v = (if 0 \<le> v \<and> v < 64 then push_bit (nat v) 1 else 0)"

definition cron_matches :: "64 word \<Rightarrow> int \<Rightarrow> bool" where
  "cron_matches bits v \<longleftrightarrow> bits AND shl1 v \<noteq> 0"

definition fullMask :: "fieldSpec \<Rightarrow> 64 word" where
  "fullMask spec = foldl (\<lambda>m v. m OR shl1 v) 0 [fst spec..snd spec]"

subsection \<open>Parsing\<close>

fun fields_loop :: "(nat \<times> string) list \<Rightarrow> string \<Rightarrow> string list" where
  "fields_loop [] cur = (if cur = [] then [] else [cur])"
| "fields_loop ((r, b) # rs) cur =
     (if is_space r then (if cur = [] then fields_loop rs [] else cur # fields_loop rs [])
      else fields_loop rs (cur @ b))"

definition Fields :: "string \<Rightarrow> string list" where
  "Fields s = fields_loop (runes_of s) []"

fun split_comma :: "string \<Rightarrow> string \<Rightarrow> string list" where
  "split_comma [] cur = [cur]"
| "split_comma (c # cs) cur = (if c = CHR '','' then cur # split_comma cs [] else split_comma cs (cur @ [c]))"

fun digits_value :: "int \<Rightarrow> string \<Rightarrow> int option" where
  "digits_value n [] = Some n"
| "digits_value n (c # cs) =
     (if 48 \<le> (of_char c :: nat) \<and> (of_char c :: nat) \<le> 57
      then digits_value (10 * n + (of_char c - 48)) cs else None)"

text \<open>\<open>strconv.Atoi\<close>: an optional sign, at least one digit, and a value of 64 bits.\<close>

definition Atoi :: "string \<Rightarrow> int option" where
  "Atoi s =
     (let neg = (s \<noteq> [] \<and> hd s = CHR ''-'');
          ds = (if s \<noteq> [] \<and> hd s \<in> {CHR ''-'', CHR ''+''} then tl s else s)
      in if ds = [] then None
         else (case digits_value 0 ds of
             None \<Rightarrow> None
           | Some n \<Rightarrow>
               (let v = (if neg then - n else n) in if - (2 ^ 63) \<le> v \<and> v < 2 ^ 63 then Some v else None)))"

datatype field_err =
    EmptyElement
  | BadStep string
  | BadLow string
  | BadHigh string
  | BadNumber string
  | OutOfRange int int
  | NoValues

text \<open>The loop \<open>for v := lo; v <= hi; v += step\<close> in 64 bits; \<open>None\<close> if it does not end.\<close>

partial_function (option) set_bits :: "int \<Rightarrow> int \<Rightarrow> int \<Rightarrow> 64 word \<Rightarrow> 64 word option" where
  "set_bits hi step v out =
     (if v \<le> hi then set_bits hi step (wrap64 (v + step)) (out OR shl1 v) else Some out)"

text \<open>A part before its first slash, and what follows it.\<close>

definition before_char :: "char \<Rightarrow> string \<Rightarrow> string" where
  "before_char c s = takeWhile (\<lambda>x. x \<noteq> c) s"

definition after_char :: "char \<Rightarrow> string \<Rightarrow> string" where
  "after_char c s = tl (dropWhile (\<lambda>x. x \<noteq> c) s)"

definition parse_step :: "fieldSpec \<Rightarrow> string \<Rightarrow> field_err + int \<times> string" where
  "parse_step spec part =
     (if CHR ''/'' \<in> set part then
        (case Atoi (after_char CHR ''/'' part) of
           None \<Rightarrow> Inl (BadStep (after_char CHR ''/'' part))
         | Some s \<Rightarrow>
             if s \<le> 0 then Inl (BadStep (after_char CHR ''/'' part))
             else
               (let p = before_char CHR ''/'' part in
                Inr (s, if p = [] \<or> p = ''*'' then show_int (fst spec) @ ''-'' @ show_int (snd spec) else p)))
      else Inr (1, part))"

definition parse_range :: "fieldSpec \<Rightarrow> string \<Rightarrow> field_err + int \<times> int" where
  "parse_range spec part =
     (if part = ''*'' then Inr spec
      else if CHR ''-'' \<in> set part then
        (case Atoi (before_char CHR ''-'' part) of
           None \<Rightarrow> Inl (BadLow (before_char CHR ''-'' part))
         | Some a \<Rightarrow>
             (case Atoi (after_char CHR ''-'' part) of
                None \<Rightarrow> Inl (BadHigh (after_char CHR ''-'' part))
              | Some b \<Rightarrow> Inr (a, b)))
      else (case Atoi part of None \<Rightarrow> Inl (BadNumber part) | Some n \<Rightarrow> Inr (n, n)))"

fun parse_parts :: "fieldSpec \<Rightarrow> string list \<Rightarrow> 64 word \<Rightarrow> (field_err + 64 word) option" where
  "parse_parts spec [] out = Some (if out = 0 then Inl NoValues else Inr out)"
| "parse_parts spec (p # ps) out =
     (let part = TrimSpace p in
      if part = [] then Some (Inl EmptyElement)
      else (case parse_step spec part of
          Inl e \<Rightarrow> Some (Inl e)
        | Inr (step, part) \<Rightarrow>
            (case parse_range spec part of
               Inl e \<Rightarrow> Some (Inl e)
             | Inr (lo, hi) \<Rightarrow>
                 if lo < fst spec \<or> hi > snd spec \<or> lo > hi then Some (Inl (OutOfRange lo hi))
                 else (case set_bits hi step lo out of
                     None \<Rightarrow> None
                   | Some out \<Rightarrow> parse_parts spec ps out))))"

definition parseField :: "string \<Rightarrow> fieldSpec \<Rightarrow> (field_err + 64 word) option" where
  "parseField f spec = parse_parts spec (split_comma f []) 0"

datatype cron_err = WantFields nat | BadField nat field_err

fun parse_fields :: "nat \<Rightarrow> (string \<times> fieldSpec) list \<Rightarrow> (cron_err + 64 word list) option" where
  "parse_fields i [] = Some (Inr [])"
| "parse_fields i ((f, spec) # fs) =
     (case parseField f spec of
        None \<Rightarrow> None
      | Some (Inl e) \<Rightarrow> Some (Inl (BadField (i + 1) e))
      | Some (Inr m) \<Rightarrow>
          (case parse_fields (i + 1) fs of
             None \<Rightarrow> None
           | Some (Inl e) \<Rightarrow> Some (Inl e)
           | Some (Inr ms) \<Rightarrow> Some (Inr (m # ms))))"

abbreviation cron_specs :: "fieldSpec list" where
  "cron_specs \<equiv> [specMinute, specHour, specDOM, specMonth, specDOW]"

definition Parse :: "string \<Rightarrow> (cron_err + Cron) option" where
  "Parse expr =
     (let fs = Fields (TrimSpace expr) in
      if length fs \<noteq> 5 then Some (Inl (WantFields (length fs)))
      else (case parse_fields 0 (zip fs cron_specs) of
          None \<Rightarrow> None
        | Some (Inl e) \<Rightarrow> Some (Inl e)
        | Some (Inr ms) \<Rightarrow>
            Some (Inr \<lparr>Cron_minute = ms ! 0, Cron_hour = ms ! 1, Cron_dom = ms ! 2, Cron_month = ms ! 3,
                       Cron_dow = ms ! 4\<rparr>)))"

text \<open>The equations that evaluate the parser on a concrete expression.\<close>

lemmas cron_eval =
  TrimSpace_def runes_of.simps decode_rune_def is_space_def Fields_def Atoi_def parse_step_def parse_range_def
  before_char_def after_char_def Let_def set_bits.simps shl1_def

text \<open>The bits of a mask.\<close>

lemma cron_matches_bit: "cron_matches m v \<longleftrightarrow> 0 \<le> v \<and> v < 64 \<and> bit m (nat v)"
  by (auto simp: cron_matches_def shl1_def bit_iff_and_push_bit_not_eq_0)

lemma cron_matches_zero [simp]: "\<not> cron_matches 0 v"
  by (simp add: cron_matches_bit)

lemma cron_matches_or: "cron_matches (m OR shl1 v) b \<longleftrightarrow> cron_matches m b \<or> b = v \<and> 0 \<le> v \<and> v < 64"
  by (auto simp: cron_matches_bit shl1_def bit_or_iff bit_exp_iff possible_bit_def)

lemma mask_nonzero: "m \<noteq> 0 \<longleftrightarrow> (\<exists>v. cron_matches m v)"
proof
  assume "m \<noteq> 0"
  then obtain n where "bit m n" by (auto simp: bit_eq_iff)
  moreover from this have "n < 64" using bit_imp_le_length by fastforce
  ultimately have "cron_matches m (int n)" by (simp add: cron_matches_bit)
  then show "\<exists>v. cron_matches m v" ..
qed auto

text \<open>The loop of a step that cannot leave 64 bits visits exactly the multiples.\<close>

lemma set_bits_small:
  assumes "0 < step" "step \<le> 2 ^ 62" "0 \<le> v" "hi < 64"
  shows "\<exists>m. set_bits hi step v out = Some m \<and>
    (\<forall>b. cron_matches m b \<longleftrightarrow> cron_matches out b \<or> v \<le> b \<and> b \<le> hi \<and> step dvd b - v)"
  using assms(3)
proof (induction "nat (hi + 1 - v)" arbitrary: v out rule: less_induct)
  case less
  show ?case
  proof (cases "v \<le> hi")
    case False
    then show ?thesis by (subst set_bits.simps) auto
  next
    case True
    have w: "wrap64 (v + step) = v + step" using less.prems True assms by (intro wrap64_id) simp_all
    obtain m where m: "set_bits hi step (v + step) (out OR shl1 v) = Some m"
        "\<forall>b. cron_matches m b \<longleftrightarrow>
          cron_matches (out OR shl1 v) b \<or> v + step \<le> b \<and> b \<le> hi \<and> step dvd b - (v + step)"
      using less.hyps [of "v + step" "out OR shl1 v"] less.prems True assms(1) by auto
    have d: "v + step \<le> b \<and> step dvd b - (v + step) \<or> b = v \<longleftrightarrow> v \<le> b \<and> step dvd b - v" for b
    proof -
      have "step dvd b - (v + step) \<longleftrightarrow> step dvd b - v"
        using dvd_add_times_triv_right_iff [of step "b - v" "- 1"] by (simp add: algebra_simps)
      moreover have "v + step \<le> b" if "step dvd b - v" "v \<le> b" "b \<noteq> v"
        using zdvd_imp_le [OF that(1)] that(2,3) by simp
      ultimately show ?thesis using assms(1) by auto
    qed
    have "cron_matches m b \<longleftrightarrow> cron_matches out b \<or> v \<le> b \<and> b \<le> hi \<and> step dvd b - v" for b
      using m(2) d [of b] True less.prems assms(4) by (auto simp: cron_matches_or)
    with m(1) w True show ?thesis by (subst set_bits.simps) simp
  qed
qed

text \<open>
  A step so large that \<open>v += step\<close> wraps around comes back twice \<open>2 ^ 63 - step\<close> below, after a
  round at a negative \<open>v\<close> that sets no bit, and so still ends.
\<close>

lemma set_bits_large:
  assumes "2 ^ 62 < step" "step < 2 ^ 63" "hi < 64"
    and "- 64 \<le> v \<or> - (2 ^ 63) \<le> v \<and> v < - 64 \<and> - 64 \<le> v + step \<and> v + step < 64"
  shows "\<exists>m. set_bits hi step v out = Some m \<and>
    (\<forall>b. cron_matches m b \<longrightarrow> cron_matches out b \<or> 0 \<le> b \<and> b \<le> hi) \<and>
    (\<forall>b. cron_matches out b \<or> b = v \<and> 0 \<le> v \<and> v \<le> hi \<longrightarrow> cron_matches m b)"
  using assms(4)
proof (induction "nat (if v < - 64 then 2 * (v + step + 100) + 1 else 2 * (v + 100))" arbitrary: v out
    rule: less_induct)
  case less
  let ?v = "wrap64 (v + step)"
  show ?case
  proof (cases "v \<le> hi")
    case False
    then show ?thesis by (subst set_bits.simps) auto
  next
    case True
    have go: "set_bits hi step v out = set_bits hi step ?v (out OR shl1 v)" using True by (subst set_bits.simps) simp
    consider "v < - 64" | "- 64 \<le> v" "v + step < 2 ^ 63" | "- 64 \<le> v" "2 ^ 63 \<le> v + step" by linarith
    then have "\<exists>m. set_bits hi step ?v (out OR shl1 v) = Some m \<and>
      (\<forall>b. cron_matches m b \<longrightarrow> cron_matches (out OR shl1 v) b \<or> 0 \<le> b \<and> b \<le> hi) \<and>
      (\<forall>b. cron_matches (out OR shl1 v) b \<or> b = ?v \<and> 0 \<le> ?v \<and> ?v \<le> hi \<longrightarrow> cron_matches m b)"
    proof cases
      case 1
      then have "?v = v + step" using less.prems assms(1,2) by (intro wrap64_id) simp_all
      with 1 less.prems show ?thesis by (intro less.hyps) auto
    next
      case 2
      then have w: "?v = v + step" using assms(1) by (intro wrap64_id) simp_all
      have "\<not> v + step \<le> hi" using 2 assms(1,3) by simp
      then show ?thesis unfolding w by (subst set_bits.simps) auto
    next
      case 3
      have "?v = v + step - 2 ^ 64"
        using 3(2) True assms(1-3) wrap64_above [of "v + step"] by simp
      then show ?thesis using 3 True assms by (intro less.hyps) auto
    qed
    then obtain m where m: "set_bits hi step ?v (out OR shl1 v) = Some m"
      "\<forall>b. cron_matches m b \<longrightarrow> cron_matches (out OR shl1 v) b \<or> 0 \<le> b \<and> b \<le> hi"
      "\<forall>b. cron_matches (out OR shl1 v) b \<longrightarrow> cron_matches m b" by blast
    then show ?thesis unfolding go using True assms(3) by (auto simp: cron_matches_or)
  qed
qed

lemma set_bits_returns:
  assumes "0 < step" "step < 2 ^ 63" "0 \<le> v" "v \<le> hi" "hi < 64"
  shows "\<exists>m. set_bits hi step v out = Some m \<and>
    {b. cron_matches out b} \<union> {v} \<subseteq> {b. cron_matches m b} \<and>
    {b. cron_matches m b} \<subseteq> {b. cron_matches out b} \<union> {0..hi}"
proof (cases "step \<le> 2 ^ 62")
  case True
  from set_bits_small [OF assms(1) True assms(3,5), of out] show ?thesis using assms(3,4) by auto
next
  case False
  then obtain m where m: "set_bits hi step v out = Some m"
      "\<forall>b. cron_matches m b \<longrightarrow> cron_matches out b \<or> 0 \<le> b \<and> b \<le> hi"
      "\<forall>b. cron_matches out b \<or> b = v \<and> 0 \<le> v \<and> v \<le> hi \<longrightarrow> cron_matches m b"
    using set_bits_large [of step hi v out] assms by auto
  from m(2) have "{b. cron_matches m b} \<subseteq> {b. cron_matches out b} \<union> {0..hi}" by auto
  with m(1,3) assms(3,4) show ?thesis by auto
qed

lemma Atoi_range: "Atoi s = Some n \<Longrightarrow> n < 2 ^ 63"
  by (auto simp: Atoi_def Let_def split: if_splits option.splits)

lemma parse_step_range:
  assumes "parse_step spec part = Inr (step, q)"
  shows "0 < step \<and> step < 2 ^ 63"
  using assms by (auto simp: parse_step_def Let_def dest: Atoi_range split: if_splits option.splits)

text \<open>The values one part of a field lists.\<close>

definition part_values :: "fieldSpec \<Rightarrow> string \<Rightarrow> int set" where
  "part_values spec p =
     {v. \<exists>step q lo hi. parse_step spec (TrimSpace p) = Inr (step, q) \<and> parse_range spec q = Inr (lo, hi) \<and>
        lo \<le> v \<and> v \<le> hi \<and> step dvd v - lo}"

text \<open>One round of the loop over the parts.\<close>

lemma parse_parts_Cons:
  assumes "0 \<le> fst spec" "snd spec < 64"
  shows "(\<exists>e. parse_parts spec (p # ps) out = Some (Inl e)) \<or>
    (\<exists>step q lo hi m. parse_step spec (TrimSpace p) = Inr (step, q) \<and> parse_range spec q = Inr (lo, hi) \<and>
       0 \<le> lo \<and> lo \<le> hi \<and> hi \<le> snd spec \<and>
       set_bits hi step lo out = Some m \<and> parse_parts spec (p # ps) out = parse_parts spec ps m)"
proof (cases "TrimSpace p = []")
  case False
  show ?thesis
  proof (cases "parse_step spec (TrimSpace p)")
    case (Inr sq)
    obtain step q where sq: "sq = (step, q)" by (cases sq)
    show ?thesis
    proof (cases "parse_range spec q")
      case inr: (Inr r)
      obtain lo hi where r: "r = (lo, hi)" by (cases r)
      show ?thesis
      proof (cases "lo < fst spec \<or> hi > snd spec \<or> lo > hi")
        case no: False
        have "0 < step \<and> step < 2 ^ 63" using parse_step_range [of spec "TrimSpace p" step q] Inr sq by simp
        then obtain m where "set_bits hi step lo out = Some m"
          using set_bits_returns [of step lo hi out] no assms by auto
        then show ?thesis using False Inr sq inr r no assms by (auto simp: Let_def)
      qed (use False Inr sq inr r in \<open>simp add: Let_def\<close>)
    qed (use False Inr sq in \<open>simp add: Let_def\<close>)
  qed (use False in \<open>simp add: Let_def\<close>)
qed simp

lemma parse_parts_in_range:
  assumes "0 \<le> fst spec" "snd spec < 64" "{b. cron_matches out b} \<subseteq> {0..snd spec}"
  shows "\<exists>r. parse_parts spec ps out = Some r \<and>
    (\<forall>m. r = Inr m \<longrightarrow> m \<noteq> 0 \<and> {b. cron_matches m b} \<subseteq> {0..snd spec})"
  using assms(3)
proof (induction ps arbitrary: out)
  case (Cons p ps)
  from parse_parts_Cons [OF assms(1,2), of p ps out] show ?case
  proof (elim disjE exE conjE)
    fix step q lo hi m
    assume a: "parse_step spec (TrimSpace p) = Inr (step, q)" "parse_range spec q = Inr (lo, hi)"
      "0 \<le> lo" "lo \<le> hi" "hi \<le> snd spec"
      "set_bits hi step lo out = Some m" "parse_parts spec (p # ps) out = parse_parts spec ps m"
    have "{b. cron_matches m b} \<subseteq> {b. cron_matches out b} \<union> {0..hi}"
      using set_bits_returns [of step lo hi out] parse_step_range [OF a(1)] a(3-6) assms(2) by auto
    then have "{b. cron_matches m b} \<subseteq> {0..snd spec}" using Cons.prems a(5) by auto
    from Cons.IH [OF this] show ?thesis unfolding a(7) .
  qed auto
qed auto

lemma parse_parts_values:
  assumes "0 \<le> fst spec" "snd spec < 64"
    and "\<And>p step q. p \<in> set ps \<Longrightarrow> parse_step spec (TrimSpace p) = Inr (step, q) \<Longrightarrow> step \<le> 2 ^ 62"
    and "parse_parts spec ps out = Some (Inr m)"
  shows "cron_matches m v \<longleftrightarrow> cron_matches out v \<or> (\<exists>p \<in> set ps. v \<in> part_values spec p)"
  using assms(3,4)
proof (induction ps arbitrary: out)
  case (Cons p ps)
  from parse_parts_Cons [OF assms(1,2), of p ps out] Cons.prems(2)
  obtain step q lo hi m' where a: "parse_step spec (TrimSpace p) = Inr (step, q)" "parse_range spec q = Inr (lo, hi)"
      "0 \<le> lo" "lo \<le> hi" "hi \<le> snd spec"
      "set_bits hi step lo out = Some m'" "parse_parts spec (p # ps) out = parse_parts spec ps m'"
    by auto
  have "step \<le> 2 ^ 62" "0 < step" using Cons.prems(1) [of p step q] parse_step_range [OF a(1)] a(1) by auto
  then have "cron_matches m' v \<longleftrightarrow> cron_matches out v \<or> v \<in> part_values spec p"
    using set_bits_small [of step lo hi out] a assms(2) by (auto simp: part_values_def)
  moreover have "cron_matches m v \<longleftrightarrow> cron_matches m' v \<or> (\<exists>p \<in> set ps. v \<in> part_values spec p)"
    using Cons.prems a(7) by (intro Cons.IH) auto
  ultimately show ?case by auto
qed (auto split: if_splits)

text \<open>
  A field that is accepted matches exactly the values its parts list: a value from the part's
  low to its high end, a multiple of the step away from the low end (for steps up to \<open>2 ^ 62\<close>).
\<close>

theorem parseField_values:
  assumes "0 \<le> fst spec" "snd spec < 64" "parseField f spec = Some (Inr m)"
    and "\<And>p step q. p \<in> set (split_comma f []) \<Longrightarrow> parse_step spec (TrimSpace p) = Inr (step, q) \<Longrightarrow> step \<le> 2 ^ 62"
  shows "cron_matches m v \<longleftrightarrow> (\<exists>p \<in> set (split_comma f []). v \<in> part_values spec p)"
  using parse_parts_values [of spec "split_comma f []" 0 m v] assms by (simp add: parseField_def)

lemma split_demo: "split_comma ''1-10/3,20'' [] = [''1-10/3'', ''20'']"
  by simp

lemma step_demo:
  "parse_step specMinute (TrimSpace ''1-10/3'') = Inr (3, ''1-10'')"
  "parse_step specMinute (TrimSpace ''20'') = Inr (1, ''20'')"
  by (simp_all add: cron_eval)

lemma parseField_demo: "parseField ''1-10/3,20'' specMinute = Some (Inr 1049746)"
  unfolding parseField_def split_demo by (simp add: cron_eval)

theorem parseField_values_witness:
  "cron_matches 1049746 7 \<longleftrightarrow> (\<exists>p \<in> set (split_comma ''1-10/3,20'' []). 7 \<in> part_values specMinute p)"
proof (rule parseField_values [OF _ _ parseField_demo])
  fix p step q
  assume "p \<in> set (split_comma ''1-10/3,20'' [])" and s: "parse_step specMinute (TrimSpace p) = Inr (step, q)"
  then consider "p = ''1-10/3''" | "p = ''20''" unfolding split_demo by auto
  then show "step \<le> 2 ^ 62" using s step_demo by cases simp_all
qed simp_all

lemma parse_fields_in_range:
  assumes "\<forall>(f, spec) \<in> set fs. 0 \<le> fst spec \<and> snd spec < 64"
  shows "\<exists>r. parse_fields i fs = Some r \<and>
    (\<forall>ms. r = Inr ms \<longrightarrow>
       list_all2 (\<lambda>(f, spec) m. m \<noteq> 0 \<and> {b. cron_matches m b} \<subseteq> {0..snd spec}) fs ms)"
  using assms
proof (induction fs arbitrary: i)
  case (Cons x fs)
  obtain f spec where x: "x = (f, spec)" by (cases x)
  obtain r where r: "parseField f spec = Some r"
      "\<forall>m. r = Inr m \<longrightarrow> m \<noteq> 0 \<and> {b. cron_matches m b} \<subseteq> {0..snd spec}"
    using parse_parts_in_range [of spec 0 "split_comma f []"] Cons.prems x by (auto simp: parseField_def)
  obtain rs where rs: "parse_fields (i + 1) fs = Some rs"
      "\<forall>ms. rs = Inr ms \<longrightarrow> list_all2 (\<lambda>(f, spec) m. m \<noteq> 0 \<and> {b. cron_matches m b} \<subseteq> {0..snd spec}) fs ms"
    using Cons.IH [of "i + 1"] Cons.prems by auto
  show ?case using r rs x by (cases r; cases rs) auto
qed simp

lemma Parse_total: "\<exists>r. Parse expr = Some r"
proof (cases "length (Fields (TrimSpace expr)) = 5")
  case True
  have "\<forall>(f, spec) \<in> set (zip fs cron_specs). 0 \<le> fst spec \<and> snd spec < 64" for fs :: "string list"
    by (auto dest!: set_zip_rightD)
  from parse_fields_in_range [OF this [of "Fields (TrimSpace expr)"], of 0] True
  show ?thesis by (auto simp: Parse_def Let_def split: sum.split)
qed (simp add: Parse_def Let_def)

text \<open>
  Parsing returns for every string, also where a huge step makes the loop variable wrap
  around, and an accepted expression has five masks, each with a value and none above the
  maximum of its field.
\<close>

theorem Parse_in_range:
  "\<exists>r. Parse expr = Some r \<and>
     (case r of
        Inl e \<Rightarrow> True
      | Inr c \<Rightarrow>
          0 \<notin> {Cron_minute c, Cron_hour c, Cron_dom c, Cron_month c, Cron_dow c} \<and>
          {b. cron_matches (Cron_minute c) b} \<subseteq> {0..59} \<and> {b. cron_matches (Cron_hour c) b} \<subseteq> {0..23} \<and>
          {b. cron_matches (Cron_dom c) b} \<subseteq> {0..31} \<and> {b. cron_matches (Cron_month c) b} \<subseteq> {0..12} \<and>
          {b. cron_matches (Cron_dow c) b} \<subseteq> {0..6})"
proof (cases "length (Fields (TrimSpace expr)) = 5")
  case True
  then obtain f1 f2 f3 f4 f5 where fs: "Fields (TrimSpace expr) = [f1, f2, f3, f4, f5]"
    by (auto simp: eval_nat_numeral length_Suc_conv)
  let ?fs = "zip [f1, f2, f3, f4, f5] cron_specs"
  obtain r where r: "parse_fields 0 ?fs = Some r"
      "\<forall>ms. r = Inr ms \<longrightarrow> list_all2 (\<lambda>(f, spec) m. m \<noteq> 0 \<and> {b. cron_matches m b} \<subseteq> {0..snd spec}) ?fs ms"
    using parse_fields_in_range [of ?fs 0] by auto
  show ?thesis
  proof (cases r)
    case (Inl e)
    with r(1) fs show ?thesis by (simp add: Parse_def)
  next
    case (Inr ms)
    have "list_all2 (\<lambda>(f, spec) m. m \<noteq> 0 \<and> {b. cron_matches m b} \<subseteq> {0..snd spec}) ?fs ms" using r(2) Inr by blast
    then obtain m1 m2 m3 m4 m5 where "ms = [m1, m2, m3, m4, m5]"
      "\<forall>(m, hi) \<in> {(m1, 59), (m2, 23), (m3, 31), (m4, 12), (m5, 6)}. m \<noteq> 0 \<and> {b. cron_matches m b} \<subseteq> {0..hi}"
      by (auto simp: list_all2_Cons1)
    with r(1) fs Inr show ?thesis by (simp add: Parse_def)
  qed
qed (simp add: Parse_def Let_def)

text \<open>A step of \<open>2 ^ 63 - 1\<close> wraps around and sets bits below the low end of its range.\<close>

lemma step_wraps_below: "parseField ''10-59/9223372036854775807'' specMinute = Some (Inr 1365)"
  by (simp add: parseField_def cron_eval wrap64_def)

subsection \<open>The next occurrence\<close>

text \<open>The rule for the two day fields: either matches when both are restrictive.\<close>

definition day_ok :: "Cron \<Rightarrow> int \<Rightarrow> int \<Rightarrow> bool" where
  "day_ok c d w =
     (let domAny = (Cron_dom c = fullMask specDOM);
          dowAny = (Cron_dow c = fullMask specDOW);
          domOK = cron_matches (Cron_dom c) d;
          dowOK = cron_matches (Cron_dow c) w
      in if domAny \<and> dowAny then True
         else if domAny then dowOK
         else if dowAny then domOK
         else domOK \<or> dowOK)"

text \<open>\<open>None\<close> if the search does not end, \<open>Some None\<close> for the error.\<close>

partial_function (option) next_loop :: "Cron \<Rightarrow> Location \<Rightarrow> time \<Rightarrow> time \<Rightarrow> time option option" where
  "next_loop c loc deadline t =
     (if t < deadline then
        (case civil (local_day loc t) of
           (y, m, d) \<Rightarrow>
             if \<not> cron_matches (Cron_month c) (int m) then
               next_loop c loc deadline
                 (if m + 1 > 12 then Date loc (y + 1) 1 1 0 0 else Date loc y (m + 1) 1 0 0)
             else if \<not> day_ok c d (local_weekday loc t) then
               next_loop c loc deadline (Date loc y m (d + 1) 0 0)
             else if \<not> cron_matches (Cron_hour c) (local_hour loc t) then
               next_loop c loc deadline (Date loc y m d ((local_hour loc t + 1) * 3600) 0)
             else if \<not> cron_matches (Cron_minute c) (local_minute loc t) then
               next_loop c loc deadline (t + Minute)
             else Some (Some t))
      else Some None)"

text \<open>\<open>floc\<close> is the location \<open>from\<close> carries, which \<open>AddDate\<close> uses.\<close>

definition Next :: "Cron \<Rightarrow> Location \<Rightarrow> time \<Rightarrow> Location \<Rightarrow> time option option" where
  "Next c floc from loc = next_loop c loc (AddYears floc 4 from) (Truncate Minute (from + Minute))"

subsection \<open>The search skips no match\<close>

text \<open>The expression matches at an instant.\<close>

definition cron_at :: "Cron \<Rightarrow> Location \<Rightarrow> time \<Rightarrow> bool" where
  "cron_at c loc t \<longleftrightarrow>
     (case civil (local_day loc t) of
        (y, m, d) \<Rightarrow> cron_matches (Cron_month c) (int m) \<and> day_ok c d (local_weekday loc t)) \<and>
     cron_matches (Cron_hour c) (local_hour loc t) \<and> cron_matches (Cron_minute c) (local_minute loc t)"

lemma div_less_mult: "0 < k \<Longrightarrow> s div k < n \<longleftrightarrow> s < n * k" for s n k :: int
proof -
  assume k: "0 < k"
  define q where "q = s div k"
  have s: "k * q \<le> s" "s < k * (q + 1)"
    using pos_mod_bound [OF k, of s] pos_mod_sign [OF k, of s] mult_div_mod_eq [of k s]
    unfolding q_def distrib_left mult_1_right by linarith+
  show ?thesis
  proof (cases "q < n")
    case True
    then have "k * (q + 1) \<le> k * n" using k by simp
    with s True show ?thesis by (simp add: q_def mult.commute)
  next
    case False
    then have "k * n \<le> k * q" using k by simp
    with s False show ?thesis by (simp add: q_def mult.commute)
  qed
qed

lemma hour_of_day: "s mod 86400 div 3600 = s div 3600 - 24 * (s div 86400)" for s :: int
proof -
  have "s mod (3600 * 24) = 3600 * (s div 3600 mod 24) + s mod 3600" by (rule zmod_zmult2_eq) simp
  moreover have "s div (3600 * 24) = s div 3600 div 24" by (rule zdiv_zmult2_eq) simp
  moreover have "(3600 * (s div 3600 mod 24) + s mod 3600) div 3600 = s div 3600 mod 24" by simp
  moreover have "s div 3600 mod 24 = s div 3600 - 24 * (s div 3600 div 24)"
    by (rule minus_mult_div_eq_mod [symmetric])
  ultimately show ?thesis by simp
qed

definition skips :: "Cron \<Rightarrow> Location \<Rightarrow> time \<Rightarrow> time \<Rightarrow> bool" where
  "skips c loc t u \<longleftrightarrow> t < u \<and> Minute dvd u \<and> (\<forall>v. Minute dvd v \<longrightarrow> t \<le> v \<longrightarrow> v < u \<longrightarrow> \<not> cron_at c loc v)"

lemma fixed_instant:
  assumes "fixed_zone off loc" "Minute dvd t"
  shows "t = (local_secs loc t - off) * Second"
  using assms(2) unfolding fixed_local [OF assms(1)] by (auto elim: dvdE)

text \<open>
  A jump to the local second \<open>x\<close> skips only instants without a match when those from \<open>t\<close> to
  \<open>x\<close> share the part of the date that does not match.
\<close>

lemma skips_to:
  assumes "fixed_zone off loc" "60 dvd off" "Minute dvd t" "60 dvd x" "local_secs loc t < x"
    and "\<And>v. local_secs loc t \<le> local_secs loc v \<Longrightarrow> local_secs loc v < x \<Longrightarrow> \<not> cron_at c loc v"
  shows "skips c loc t ((x - off) * Second)"
proof -
  have "t < (x - off) * Second"
    using fixed_instant [OF assms(1,3)] assms(5) by (metis diff_strict_right_mono mult_strict_right_mono zero_less_numeral)
  moreover have "60 * Second dvd (x - off) * Second" using assms(2,4) by (intro mult_dvd_mono dvd_diff dvd_refl)
  moreover have "local_secs loc t \<le> local_secs loc v \<and> local_secs loc v < x"
    if "t \<le> v" "v < (x - off) * Second" for v
    using that zdiv_mono1 [of t v Second] div_less_mult [of Second v "x - off"] unfolding fixed_local [OF assms(1)] by linarith
  ultimately show ?thesis using assms(6) unfolding skips_def by blast
qed

lemma skip_month:
  assumes "fixed_zone off loc" "60 dvd off" "Minute dvd t" "civil (local_day loc t) = (y, m, d)"
    and "\<not> cron_matches (Cron_month c) (int m)"
  shows "skips c loc t (if m + 1 > 12 then Date loc (y + 1) 1 1 0 0 else Date loc y (m + 1) 1 0 0)"
proof -
  note b = civil_month [OF assms(4)]
  define n where "n = year_start (y - 1) + before (is_leap y) (Suc m)"
  have "(if m + 1 > 12 then Date loc (y + 1) 1 1 0 0 else Date loc y (m + 1) 1 0 0) = (n * 86400 - off) * Second"
    using day_number_next [OF b(1,2), of y] b(2) by (auto simp: fixed_Date [OF assms(1)] n_def)
  moreover have "skips c loc t ((n * 86400 - off) * Second)"
  proof (rule skips_to [OF assms(1-3)])
    show "local_secs loc t < n * 86400" using b(4) unfolding local_day_def n_def by (simp add: div_less_mult)
  next
    fix v assume v: "local_secs loc t \<le> local_secs loc v" "local_secs loc v < n * 86400"
    have "local_day loc t \<le> local_day loc v" using v(1) unfolding local_day_def by (rule zdiv_mono1) simp
    moreover have "local_day loc v < n" using v(2) unfolding local_day_def by (simp add: div_less_mult)
    ultimately have "\<exists>d'. civil (local_day loc v) = (y, m, d')"
      using civil_within [OF b(1,2)] b(3) n_def by (meson order_trans)
    then show "\<not> cron_at c loc v" using assms(5) by (auto simp: cron_at_def)
  qed simp
  ultimately show ?thesis by simp
qed

lemma skip_day:
  assumes "fixed_zone off loc" "60 dvd off" "Minute dvd t" "civil (local_day loc t) = (y, m, d)"
    and "\<not> day_ok c d (local_weekday loc t)"
  shows "skips c loc t (Date loc y m (d + 1) 0 0)"
proof -
  have "Date loc y m (d + 1) 0 0 = ((local_day loc t + 1) * 86400 - off) * Second"
    using civil_month(5) [OF assms(4)] by (simp add: fixed_Date [OF assms(1)] day_number_def)
  moreover have "skips c loc t (((local_day loc t + 1) * 86400 - off) * Second)"
  proof (rule skips_to [OF assms(1-3)])
    show "local_secs loc t < (local_day loc t + 1) * 86400" unfolding local_day_def by (simp flip: div_less_mult)
  next
    fix v assume "local_secs loc t \<le> local_secs loc v" "local_secs loc v < (local_day loc t + 1) * 86400"
    then have "local_day loc v = local_day loc t"
      using zdiv_mono1 [of "local_secs loc t" "local_secs loc v" 86400]
      unfolding local_day_def by (simp flip: div_less_mult)
    then show "\<not> cron_at c loc v" using assms(4,5) by (auto simp: cron_at_def local_weekday_def)
  qed simp
  ultimately show ?thesis by simp
qed

lemma skip_hour:
  assumes "fixed_zone off loc" "60 dvd off" "Minute dvd t" "civil (local_day loc t) = (y, m, d)"
    and "\<not> cron_matches (Cron_hour c) (local_hour loc t)"
  shows "skips c loc t (Date loc y m d ((local_hour loc t + 1) * 3600) 0)"
proof -
  define h where "h = local_secs loc t div 3600"
  have hour: "local_hour loc v = local_secs loc v div 3600 - 24 * local_day loc v" for v
    unfolding local_hour_def local_day_def by (rule hour_of_day)
  have "Date loc y m d ((local_hour loc t + 1) * 3600) 0 = ((h + 1) * 3600 - off) * Second"
    using civil_month(5) [OF assms(4)] hour [of t] by (simp add: fixed_Date [OF assms(1)] h_def)
  moreover have "skips c loc t (((h + 1) * 3600 - off) * Second)"
  proof (rule skips_to [OF assms(1-3)])
    show "local_secs loc t < (h + 1) * 3600" unfolding h_def by (simp flip: div_less_mult)
  next
    fix v assume "local_secs loc t \<le> local_secs loc v" "local_secs loc v < (h + 1) * 3600"
    then have e: "local_secs loc v div 3600 = local_secs loc t div 3600"
      using zdiv_mono1 [of "local_secs loc t" "local_secs loc v" 3600] unfolding h_def by (simp flip: div_less_mult)
    have "s div 86400 = s div 3600 div 24" for s :: int using zdiv_zmult2_eq [of 24 s 3600] by simp
    with e have "local_day loc v = local_day loc t" by (simp add: local_day_def)
    with e have "local_hour loc v = local_hour loc t" by (simp add: hour)
    then show "\<not> cron_at c loc v" using assms(5) by (simp add: cron_at_def)
  qed simp
  ultimately show ?thesis by simp
qed

lemma skip_minute:
  assumes "Minute dvd t" "\<not> cron_matches (Cron_minute c) (local_minute loc t)"
  shows "skips c loc t (t + Minute)"
proof -
  have "v = t" if v: "Minute dvd v" "t \<le> v" "v < t + Minute" for v
  proof -
    obtain i j where "t = Minute * i" "v = Minute * j" using assms(1) v(1) by (auto elim!: dvdE)
    then show ?thesis using v(2,3) by simp
  qed
  then show ?thesis using assms by (auto simp: skips_def cron_at_def)
qed

text \<open>What a search from \<open>t\<close> promises.\<close>

definition least_match :: "Cron \<Rightarrow> Location \<Rightarrow> time \<Rightarrow> time \<Rightarrow> time option \<Rightarrow> bool" where
  "least_match c loc deadline t r =
     (case r of
        None \<Rightarrow> (\<forall>v. Minute dvd v \<longrightarrow> t \<le> v \<longrightarrow> v < deadline \<longrightarrow> \<not> cron_at c loc v)
      | Some u \<Rightarrow> t \<le> u \<and> u < deadline \<and> Minute dvd u \<and> cron_at c loc u \<and>
          (\<forall>v. Minute dvd v \<longrightarrow> t \<le> v \<longrightarrow> v < u \<longrightarrow> \<not> cron_at c loc v))"

lemma least_match_skips:
  assumes "skips c loc t t'" "least_match c loc deadline t' r"
  shows "least_match c loc deadline t r"
proof -
  have s: "\<not> cron_at c loc v" if "Minute dvd v" "t \<le> v" "v < t'" for v
    using assms(1) that unfolding skips_def by blast
  have lt: "t < t'" using assms(1) by (simp add: skips_def)
  show ?thesis
  proof (cases r)
    case None
    with assms(2) s show ?thesis unfolding least_match_def by (simp, meson not_le)
  next
    case (Some u)
    then have u: "t' \<le> u" "u < deadline" "Minute dvd u" "cron_at c loc u"
      "\<And>v. Minute dvd v \<Longrightarrow> t' \<le> v \<Longrightarrow> v < u \<Longrightarrow> \<not> cron_at c loc v"
      using assms(2) by (simp_all add: least_match_def)
    then have "\<not> cron_at c loc v" if "Minute dvd v" "t \<le> v" "v < u" for v
      using s that by (meson not_le)
    with Some u lt show ?thesis by (simp add: least_match_def)
  qed
qed

lemma next_loop_step:
  assumes "fixed_zone off loc" "60 dvd off" "Minute dvd t" "t < deadline"
  shows "next_loop c loc deadline t = Some (Some t) \<and> cron_at c loc t \<or>
    (\<exists>t'. skips c loc t t' \<and> next_loop c loc deadline t = next_loop c loc deadline t')"
proof -
  obtain y m d where ymd: "civil (local_day loc t) = (y, m, d)" by (metis surj_pair)
  consider "\<not> cron_matches (Cron_month c) (int m)"
    | "cron_matches (Cron_month c) (int m)" "\<not> day_ok c d (local_weekday loc t)"
    | "cron_matches (Cron_month c) (int m)" "day_ok c d (local_weekday loc t)"
      "\<not> cron_matches (Cron_hour c) (local_hour loc t)"
    | "cron_matches (Cron_month c) (int m)" "day_ok c d (local_weekday loc t)"
      "cron_matches (Cron_hour c) (local_hour loc t)" "\<not> cron_matches (Cron_minute c) (local_minute loc t)"
    | "cron_at c loc t" using ymd by (auto simp: cron_at_def)
  then show ?thesis
  proof cases
    case 1
    have "next_loop c loc deadline t = next_loop c loc deadline
        (if m + 1 > 12 then Date loc (y + 1) 1 1 0 0 else Date loc y (m + 1) 1 0 0)"
      by (subst next_loop.simps) (simp add: 1 ymd assms(4))
    with skip_month [OF assms(1-3) ymd 1] show ?thesis by blast
  next
    case 2
    have "next_loop c loc deadline t = next_loop c loc deadline (Date loc y m (d + 1) 0 0)"
      by (subst next_loop.simps) (simp add: 2 ymd assms(4))
    with skip_day [OF assms(1-3) ymd 2(2)] show ?thesis by blast
  next
    case 3
    have "next_loop c loc deadline t = next_loop c loc deadline (Date loc y m d ((local_hour loc t + 1) * 3600) 0)"
      by (subst next_loop.simps) (simp add: 3 ymd assms(4))
    with skip_hour [OF assms(1-3) ymd 3(3)] show ?thesis by blast
  next
    case 4
    have "next_loop c loc deadline t = next_loop c loc deadline (t + Minute)"
      by (subst next_loop.simps) (simp add: 4 ymd assms(4))
    with skip_minute [OF assms(3) 4(4)] show ?thesis by blast
  next
    case 5
    then have "next_loop c loc deadline t = Some (Some t)"
      by (subst next_loop.simps) (simp add: ymd assms(4) cron_at_def)
    with 5 show ?thesis by blast
  qed
qed

lemma next_loop_least:
  assumes "fixed_zone off loc" "60 dvd off" "Minute dvd t"
  shows "\<exists>r. next_loop c loc deadline t = Some r \<and> least_match c loc deadline t r"
  using assms(3)
proof (induction "nat (deadline - t)" arbitrary: t rule: less_induct)
  case less
  show ?case
  proof (cases "t < deadline")
    case False
    then show ?thesis using next_loop.simps [of c loc deadline t] by (auto simp: least_match_def)
  next
    case True
    from next_loop_step [OF assms(1,2) less.prems True, of c] show ?thesis
    proof (elim disjE exE conjE)
      assume "next_loop c loc deadline t = Some (Some t)" "cron_at c loc t"
      then show ?thesis using less.prems True by (auto simp: least_match_def)
    next
      fix t' assume s: "skips c loc t t'" "next_loop c loc deadline t = next_loop c loc deadline t'"
      then have "nat (deadline - t') < nat (deadline - t)" "Minute dvd t'" using True by (auto simp: skips_def)
      from less.hyps [OF this] show ?thesis using s least_match_skips by metis
    qed
  qed
qed

text \<open>The search from the next minute on.\<close>

definition next_spec :: "Cron \<Rightarrow> Location \<Rightarrow> time \<Rightarrow> time \<Rightarrow> time option \<Rightarrow> bool" where
  "next_spec c loc from deadline r \<longleftrightarrow>
    (case r of
       Some u \<Rightarrow> from < u \<and> u < deadline \<and> Minute dvd u \<and> cron_at c loc u \<and>
         (\<forall>v. Minute dvd v \<and> from < v \<and> v < u \<longrightarrow> \<not> cron_at c loc v)
     | None \<Rightarrow> (\<forall>v. Minute dvd v \<and> from < v \<and> v < deadline \<longrightarrow> \<not> cron_at c loc v))"

lemma Next_spec:
  assumes "fixed_zone off loc" "60 dvd off"
  shows "\<exists>r. Next c floc from loc = Some r \<and> next_spec c loc from (AddYears floc 4 from) r"
proof -
  let ?t = "Truncate Minute (from + Minute)"
  have t: "Minute dvd ?t" unfolding Truncate_def by (rule dvd_minus_mod)
  have lt: "from < ?t" using pos_mod_bound [of Minute "from + Minute"] by (simp add: Truncate_def)
  have ge: "?t \<le> v" if v: "Minute dvd v" "from < v" for v
  proof (rule ccontr)
    assume "\<not> ?t \<le> v"
    moreover obtain i where "?t = Minute * i" using t by (rule dvdE)
    moreover obtain j where "v = Minute * j" using v(1) by (rule dvdE)
    moreover have "?t \<le> from + Minute" by (simp add: Truncate_def)
    ultimately show False using v(2) by simp
  qed
  obtain r where "Next c floc from loc = Some r" and l: "least_match c loc (AddYears floc 4 from) ?t r"
    unfolding Next_def using next_loop_least [OF assms t] by blast
  moreover have "next_spec c loc from (AddYears floc 4 from) r"
  proof (cases r)
    case None
    with l have "\<not> cron_at c loc v" if "Minute dvd v" "?t \<le> v" "v < AddYears floc 4 from" for v
      using that unfolding least_match_def by simp
    with None ge show ?thesis by (simp add: next_spec_def)
  next
    case (Some u)
    with l have u: "?t \<le> u" "u < AddYears floc 4 from" "Minute dvd u" "cron_at c loc u"
      and no: "\<And>v. Minute dvd v \<Longrightarrow> ?t \<le> v \<Longrightarrow> v < u \<Longrightarrow> \<not> cron_at c loc v"
      unfolding least_match_def by simp_all
    have "from < u" using lt u(1) by (rule less_le_trans)
    with Some u ge no show ?thesis by (simp add: next_spec_def)
  qed
  ultimately show ?thesis by blast
qed

lemma Next_match:
  assumes "fixed_zone off loc" "60 dvd off"
  obtains n where "Next c floc from loc = Some n" "\<And>u. n = Some u \<Longrightarrow> from < u \<and> cron_at c loc u"
proof -
  obtain n where n: "Next c floc from loc = Some n" "next_spec c loc from (AddYears floc 4 from) n"
    using Next_spec [OF assms] by blast
  then have "from < u \<and> cron_at c loc u" if "n = Some u" for u using that by (simp add: next_spec_def)
  with n(1) that show ?thesis by blast
qed

text \<open>
  C13: in a location with a fixed offset of whole minutes, \<open>Next\<close> returns, and returns the first
  minute after \<open>from\<close> and before the four-year deadline that the expression matches, or the error
  when there is none: no jump over a month, a day or an hour skips a match.
\<close>

theorem Next_least:
  assumes "fixed_zone off loc" "60 dvd off"
  shows "\<exists>r. Next c floc from loc = Some r \<and>
    (case r of
       Some u \<Rightarrow> from < u \<and> u < AddYears floc 4 from \<and> Minute dvd u \<and> cron_at c loc u \<and>
         (\<forall>v. Minute dvd v \<and> from < v \<and> v < u \<longrightarrow> \<not> cron_at c loc v)
     | None \<Rightarrow> (\<forall>v. Minute dvd v \<and> from < v \<and> v < AddYears floc 4 from \<longrightarrow> \<not> cron_at c loc v))"
  using Next_spec [OF assms, of c floc "from"] by (auto simp: next_spec_def split: option.splits)

subsection \<open>A gap of the local clock\<close>

text \<open>New York around 10 March 2024: at 7:00 UTC the offset changes from -5 to -4 hours.\<close>

definition spring_forward :: int where
  "spring_forward = day_number 2024 3 10 * 86400 + 7 * 3600"

definition NewYork :: Location where
  "NewYork s =
     (if s < spring_forward then (-18000, None, Some spring_forward) else (-14400, Some spring_forward, None))"

lemma next_loop_stuck:
  assumes "civil (local_day loc t) = (y, m, d)" "cron_matches (Cron_month c) (int m)"
    and "day_ok c d (local_weekday loc t)" "\<not> cron_matches (Cron_hour c) (local_hour loc t)"
    and "Date loc y m d ((local_hour loc t + 1) * 3600) 0 = t" "t < deadline"
  shows "next_loop c loc deadline t = None"
proof (rule ccontr)
  assume "next_loop c loc deadline t \<noteq> None"
  then obtain r where "next_loop c loc deadline t = Some r" by blast
  then have "\<not> (c = c \<and> loc = loc \<and> t = t \<and> t < deadline)"
  proof (rule next_loop.raw_induct [where P = "\<lambda>c' loc' dl t' r. \<not> (c = c' \<and> loc = loc' \<and> t = t' \<and> t' < dl)", rotated])
    fix f and c' :: Cron and loc' :: Location and dl t' r
    assume ih: "\<And>c' loc' dl t' r. f c' loc' dl t' = Some r \<Longrightarrow> \<not> (c = c' \<and> loc = loc' \<and> t = t' \<and> t' < dl)"
      and eq: "(if t' < dl then
        (case civil (local_day loc' t') of
           (y, m, d) \<Rightarrow>
             if \<not> cron_matches (Cron_month c') (int m) then
               f c' loc' dl (if m + 1 > 12 then Date loc' (y + 1) 1 1 0 0 else Date loc' y (m + 1) 1 0 0)
             else if \<not> day_ok c' d (local_weekday loc' t') then f c' loc' dl (Date loc' y m (d + 1) 0 0)
             else if \<not> cron_matches (Cron_hour c') (local_hour loc' t') then
               f c' loc' dl (Date loc' y m d ((local_hour loc' t' + 1) * 3600) 0)
             else if \<not> cron_matches (Cron_minute c') (local_minute loc' t') then f c' loc' dl (t' + Minute)
             else Some (Some t'))
        else Some None) = Some r"
    show "\<not> (c = c' \<and> loc = loc' \<and> t = t' \<and> t' < dl)"
    proof
      assume s: "c = c' \<and> loc = loc' \<and> t = t' \<and> t' < dl"
      then have "f c' loc' dl t' = Some r" using eq assms(1-5) by simp
      from ih [OF this] s show False by blast
    qed
  qed
  with assms(6) show False by simp
qed

text \<open>The night of the change, in local time: 23:59 the day before, midnight, and one o'clock.\<close>

definition before_gap :: time where
  "before_gap = (spring_forward - 7 * 3600 + 5 * 3600 - 60) * Second"

definition nightly :: Cron where
  "nightly = \<lparr>Cron_minute = shl1 59, Cron_hour = shl1 23, Cron_dom = fullMask specDOM,
     Cron_month = fullMask specMonth, Cron_dow = fullMask specDOW\<rparr>"

lemma nightly_parsed: "Parse ''59 23 * * *'' = Some (Inr nightly)"
  by (simp add: Parse_def parseField_def cron_eval nightly_def fullMask_def upto.simps)

lemma spring_forward_secs: "spring_forward = 63845650800"
  by code_simp

lemma NewYork_eval:
  "NewYork s = (if s < 63845650800 then (-18000, None, Some 63845650800) else (-14400, Some 63845650800, None))"
  by (simp add: NewYork_def spring_forward_secs)

lemma civil_gap: "civil 738954 = (2024, 3, 10)" "civil 738953 = (2024, 3, 9)"
  by (code_simp, code_simp)

lemma before_gap_ns: "before_gap = 63845643540000000000"
  by (simp add: before_gap_def spring_forward_secs)

text \<open>The search with a fixed offset of five and a half hours.\<close>

theorem Next_least_witness: "Next nightly UTC before_gap (\<lambda>_. (19800, None, None)) \<noteq> None"
  using Next_least [of 19800 "\<lambda>_. (19800, None, None)" nightly UTC before_gap] by (auto simp: fixed_zone_def)

lemmas gap_eval =
  local_day_def local_secs_def local_hour_def local_minute_def local_weekday_def NewYork_eval Date_def
  resolve_local_def day_number_def before_def year_start_def is_leap_def nightly_def cron_matches_def
  shl1_def fullMask_def day_ok_def upto.simps civil_gap

lemma gap_deadline: "63845647200000000000 < AddYears NewYork 4 before_gap"
  by (simp add: AddYears_def before_gap_ns gap_eval)

lemma gap_midnight:
  "63845647200000000000 < dl \<Longrightarrow>
     next_loop nightly NewYork dl 63845643600000000000 = next_loop nightly NewYork dl 63845647200000000000"
  by (subst next_loop.simps) (simp add: gap_eval)

lemma gap_one: "63845647200000000000 < dl \<Longrightarrow> next_loop nightly NewYork dl 63845647200000000000 = None"
  by (rule next_loop_stuck [where y = 2024 and m = 3 and d = 10]) (simp_all add: gap_eval)

text \<open>
  C14: the search can hang: the hour jump asks \<open>Date\<close> for two o'clock on the morning New York
  skips that hour, gets one o'clock back, and asks again for ever.
\<close>

theorem Next_hangs_in_gap:
  "Parse ''59 23 * * *'' = Some (Inr nightly) \<and> Next nightly NewYork before_gap NewYork = None"
  using gap_deadline gap_midnight gap_one nightly_parsed
  by (simp add: Next_def Truncate_def before_gap_ns)

end
