(* ===== verification/RunStore.thy ===== *)
theory RunStore
  imports Executor
begin

text \<open>
  The run stores: the map of \<open>backend/internal/store/memory/run.go\<close>, which holds pointers to runs
  that its callers may share, and the table of \<open>backend/internal/store/postgres/run.go\<close>, which
  holds values.  Both meet the contract \<open>run_store\<close> of \<open>backend/internal/store/store.go\<close> over the
  rows a reader sees; what the pointers add is that a run that was created is the caller's own
  record.

  The executor's record of a run is extended by the columns it only carries along; the
  environment statuses are left out.
\<close>

record RunRow = PipelineRun +
  Run_PipelineID :: string
  Run_Variables :: "string \<rightharpoonup> string"
  Run_CreatedAt :: time
  Run_HeartbeatAt :: "time option"
  Run_StartedByUserSub :: string
  Run_StartedByEmail :: string
  Run_StartedByGroups :: "string list"
  Run_StartedByTokenHash :: string
  Run_PipelineVersion :: int

datatype run_store_err = RunNotFound string | RunExists string | CtxDone

definition strip_logs :: "StageRun list \<Rightarrow> StageRun list" where
  "strip_logs = map (\<lambda>sr. sr\<lparr>SR_Logs := []\<rparr>)"

definition run_summary :: "RunRow \<Rightarrow> RunRow" where
  "run_summary r = r\<lparr>Run_StageRuns := strip_logs (Run_StageRuns r)\<rparr>"

definition orphaned :: "time \<Rightarrow> duration \<Rightarrow> RunRow \<Rightarrow> bool" where
  "orphaned now threshold r \<longleftrightarrow> Run_Status r = ''running'' \<and>
     (case Run_HeartbeatAt r of None \<Rightarrow> True | Some hb \<Rightarrow> now - hb > threshold)"

definition mark_orphan :: "time \<Rightarrow> RunRow \<Rightarrow> RunRow" where
  "mark_orphan now r = r\<lparr>Run_Status := ''failed'', Run_Error := ''orphaned: heartbeat stale at boot'',
     Run_FinishedAt := Some now\<rparr>"

lemma mark_orphan_settled [simp]: "\<not> orphaned now th (mark_orphan now' r)"
  by (simp add: orphaned_def mark_orphan_def)

definition set_status :: "string \<Rightarrow> time option \<Rightarrow> string \<Rightarrow> RunRow \<Rightarrow> RunRow" where
  "set_status status finishedAt errMsg r =
     r\<lparr>Run_Status := status, Run_FinishedAt := finishedAt, Run_Error := errMsg\<rparr>"

definition set_progress :: "StageRun list \<Rightarrow> RunRow \<Rightarrow> RunRow" where
  "set_progress srs r = r\<lparr>Run_StageRuns := strip_logs srs\<rparr>"

definition set_heartbeat :: "time \<Rightarrow> RunRow \<Rightarrow> RunRow" where
  "set_heartbeat ts r = r\<lparr>Run_HeartbeatAt := Some ts\<rparr>"

text \<open>Newest first, an offset and a limit; a limit that is not positive means all.\<close>

definition run_page :: "int \<Rightarrow> int \<Rightarrow> RunRow list \<Rightarrow> RunRow list" where
  "run_page limit offset rs =
     (let rs = (if offset > 0 then drop (nat offset) rs else rs)
      in if limit > 0 then take (nat limit) rs else rs)"

definition newest_first :: "RunRow list \<Rightarrow> RunRow list" where
  "newest_first = sort_key (\<lambda>r. - Run_CreatedAt r)"

subsection \<open>The contract\<close>

text \<open>
  The rows a reader sees are \<open>rows s\<close>; \<open>kept\<close> is what the store keeps of a run that is updated.
\<close>

locale run_store =
  fixes rows :: "'s \<Rightarrow> string \<rightharpoonup> RunRow"
    and inv :: "'s \<Rightarrow> bool"
    and kept :: "RunRow \<Rightarrow> RunRow \<Rightarrow> RunRow"
    and get :: "string \<Rightarrow> 's \<Rightarrow> run_store_err + RunRow"
    and update_status :: "string \<Rightarrow> string \<Rightarrow> time option \<Rightarrow> string \<Rightarrow> 's \<Rightarrow> run_store_err + 's"
    and update_progress :: "string \<Rightarrow> StageRun list \<Rightarrow> 's \<Rightarrow> run_store_err + 's"
    and heartbeat :: "string \<Rightarrow> time \<Rightarrow> 's \<Rightarrow> run_store_err + 's"
    and update :: "RunRow \<Rightarrow> 's \<Rightarrow> run_store_err + 's"
    and sweep :: "string list \<Rightarrow> time \<Rightarrow> duration \<Rightarrow> 's \<Rightarrow> 's \<times> nat"
  assumes get_row: "inv s \<Longrightarrow> get i s = (case rows s i of None \<Rightarrow> Inl (RunNotFound i) | Some r \<Rightarrow> Inr r)"
    and status_missing: "inv s \<Longrightarrow> rows s i = None \<Longrightarrow> update_status i st fin e s = Inl (RunNotFound i)"
    and status_row: "inv s \<Longrightarrow> rows s i = Some r \<Longrightarrow>
      \<exists>s'. update_status i st fin e s = Inr s' \<and> inv s' \<and> rows s' = (rows s)(i \<mapsto> set_status st fin e r)"
    and progress_missing: "inv s \<Longrightarrow> rows s i = None \<Longrightarrow> update_progress i srs s = Inl (RunNotFound i)"
    and progress_row: "inv s \<Longrightarrow> rows s i = Some r \<Longrightarrow>
      \<exists>s'. update_progress i srs s = Inr s' \<and> inv s' \<and> rows s' = (rows s)(i \<mapsto> set_progress srs r)"
    and heartbeat_missing: "inv s \<Longrightarrow> rows s i = None \<Longrightarrow> heartbeat i ts s = Inl (RunNotFound i)"
    and heartbeat_row: "inv s \<Longrightarrow> rows s i = Some r \<Longrightarrow>
      \<exists>s'. heartbeat i ts s = Inr s' \<and> inv s' \<and> rows s' = (rows s)(i \<mapsto> set_heartbeat ts r)"
    and update_missing: "inv s \<Longrightarrow> rows s (Run_ID r) = None \<Longrightarrow> update r s = Inl (RunNotFound (Run_ID r))"
    and update_row: "inv s \<Longrightarrow> rows s (Run_ID r) = Some old \<Longrightarrow>
      \<exists>s'. update r s = Inr s' \<and> inv s' \<and> rows s' = (rows s)(Run_ID r \<mapsto> kept old r)"
    and sweep_rows: "inv s \<Longrightarrow> iter_order ks (rows s) \<Longrightarrow> inv (fst (sweep ks now th s)) \<and>
      rows (fst (sweep ks now th s)) = (\<lambda>i. map_option (\<lambda>r. if orphaned now th r then mark_orphan now r else r) (rows s i)) \<and>
      snd (sweep ks now th s) = card {i. \<exists>r. rows s i = Some r \<and> orphaned now th r}"
begin

lemma heartbeat_status:
  assumes "inv s" "heartbeat i ts s = Inr s'"
  shows "inv s'" and "map_option Run_Status (rows s' j) = map_option Run_Status (rows s j)"
proof -
  obtain r where r: "rows s i = Some r" using assms heartbeat_missing [OF assms(1), of i ts] by fastforce
  from heartbeat_row [OF assms(1) r, of ts] assms(2)
  have "inv s'" "rows s' = (rows s)(i \<mapsto> set_heartbeat ts r)" by auto
  then show "inv s'" "map_option Run_Status (rows s' j) = map_option Run_Status (rows s j)"
    using r by (auto simp: set_heartbeat_def)
qed

lemma progress_status:
  assumes "inv s" "update_progress i srs s = Inr s'"
  shows "inv s'" and "map_option Run_Status (rows s' j) = map_option Run_Status (rows s j)"
proof -
  obtain r where r: "rows s i = Some r" using assms progress_missing [OF assms(1), of i srs] by fastforce
  from progress_row [OF assms(1) r, of srs] assms(2)
  have "inv s'" "rows s' = (rows s)(i \<mapsto> set_progress srs r)" by auto
  then show "inv s'" "map_option Run_Status (rows s' j) = map_option Run_Status (rows s j)"
    using r by (auto simp: set_progress_def)
qed

text \<open>A sweep settles what it finds: a second one at the same time does nothing more.\<close>

lemma sweep_again:
  assumes "inv s" "iter_order ks (rows s)"
  shows "rows (fst (sweep ks now th (fst (sweep ks now th s)))) = rows (fst (sweep ks now th s))"
    and "snd (sweep ks now th (fst (sweep ks now th s))) = 0"
proof -
  let ?s = "fst (sweep ks now th s)"
  note one = sweep_rows [OF assms, of now th]
  have none: "\<not> orphaned now th r" if "rows ?s i = Some r" for i r
    using one that by (auto split: if_splits) (metis mark_orphan_settled)
  have same: "iter_order ks (rows ?s)" using one assms(2) by (auto simp: iter_order_def dom_def)
  have two: "rows (fst (sweep ks now th ?s)) = (\<lambda>i. map_option (\<lambda>r. if orphaned now th r then mark_orphan now r else r) (rows ?s i))"
      "snd (sweep ks now th ?s) = card {i. \<exists>r. rows ?s i = Some r \<and> orphaned now th r}"
    using sweep_rows [of ?s ks now th] one same by blast+
  have "map_option (\<lambda>r. if orphaned now th r then mark_orphan now r else r) (rows ?s i) = rows ?s i" for i
    by (cases "rows ?s i") (simp_all add: none)
  with two(1) show "rows (fst (sweep ks now th ?s)) = rows ?s" by simp
  have "{i. \<exists>r. rows ?s i = Some r \<and> orphaned now th r} = {}" using none by blast
  with two(2) show "snd (sweep ks now th ?s) = 0" by simp
qed

text \<open>A run whose heartbeat is recent survives the sweep as it is.\<close>

lemma sweep_spares:
  assumes "inv s" "heartbeat i ts s = Inr s'" "now - ts \<le> th" "iter_order ks (rows s')"
  shows "rows (fst (sweep ks now th s')) i = rows s' i"
proof -
  obtain r where r: "rows s i = Some r" using assms(1,2) heartbeat_missing [OF assms(1), of i ts] by fastforce
  from heartbeat_row [OF assms(1) r, of ts] assms(2)
  have "inv s'" "rows s' i = Some (set_heartbeat ts r)" by auto
  then show ?thesis using sweep_rows [of s' ks now th] assms(3,4) by (simp add: orphaned_def set_heartbeat_def)
qed

end

subsection \<open>In PostgreSQL\<close>

text \<open>
  \<open>dead\<close> tells that the context of the call is done: \<open>database/sql\<close> then returns its error and
  runs no statement.  The primary key is the id.
\<close>

type_synonym pg_runs = "string \<rightharpoonup> RunRow"

definition pg_Get :: "bool \<Rightarrow> string \<Rightarrow> pg_runs \<Rightarrow> run_store_err + RunRow" where
  "pg_Get dead i s = (if dead then Inl CtxDone else case s i of None \<Rightarrow> Inl (RunNotFound i) | Some r \<Rightarrow> Inr r)"

definition pg_GetSummary :: "bool \<Rightarrow> string \<Rightarrow> pg_runs \<Rightarrow> run_store_err + RunRow" where
  "pg_GetSummary dead i s =
     (if dead then Inl CtxDone else case s i of None \<Rightarrow> Inl (RunNotFound i) | Some r \<Rightarrow> Inr (run_summary r))"

definition pg_List :: "bool \<Rightarrow> string list \<Rightarrow> string \<Rightarrow> int \<Rightarrow> int \<Rightarrow> pg_runs \<Rightarrow> run_store_err + RunRow list" where
  "pg_List dead ks pipelineID limit offset s =
     (if dead then Inl CtxDone
      else Inr (map run_summary (run_page limit offset
        (newest_first (filter (\<lambda>r. Run_PipelineID r = pipelineID) (map_values ks s))))))"

definition pg_Create :: "bool \<Rightarrow> time \<Rightarrow> RunRow \<Rightarrow> pg_runs \<Rightarrow> run_store_err + pg_runs \<times> RunRow" where
  "pg_Create dead now r s =
     (if dead then Inl CtxDone
      else if s (Run_ID r) \<noteq> None then Inl (RunExists (Run_ID r))
      else
        (let r = r\<lparr>Run_CreatedAt := (if Run_CreatedAt r = 0 then now else Run_CreatedAt r)\<rparr>
         in Inr (s(Run_ID r \<mapsto> r\<lparr>Run_HeartbeatAt := None\<rparr>), r)))"

text \<open>The columns that \<open>Update\<close> writes come from the run, the others from the row.\<close>

definition pg_kept :: "RunRow \<Rightarrow> RunRow \<Rightarrow> RunRow" where
  "pg_kept old r = old\<lparr>Run_Status := Run_Status r, Run_StageRuns := Run_StageRuns r, Run_Variables := Run_Variables r,
     Run_StartedAt := Run_StartedAt r, Run_FinishedAt := Run_FinishedAt r, Run_Error := Run_Error r,
     Run_HeartbeatAt := Run_HeartbeatAt r\<rparr>"

definition pg_modify :: "bool \<Rightarrow> string \<Rightarrow> (RunRow \<Rightarrow> RunRow) \<Rightarrow> pg_runs \<Rightarrow> run_store_err + pg_runs" where
  "pg_modify dead i f s =
     (if dead then Inl CtxDone else case s i of None \<Rightarrow> Inl (RunNotFound i) | Some r \<Rightarrow> Inr (s(i \<mapsto> f r)))"

definition pg_Update :: "bool \<Rightarrow> RunRow \<Rightarrow> pg_runs \<Rightarrow> run_store_err + pg_runs" where
  "pg_Update dead r = pg_modify dead (Run_ID r) (\<lambda>old. pg_kept old r)"

definition pg_UpdateStatus :: "bool \<Rightarrow> string \<Rightarrow> string \<Rightarrow> time option \<Rightarrow> string \<Rightarrow> pg_runs \<Rightarrow> run_store_err + pg_runs" where
  "pg_UpdateStatus dead i status finishedAt errMsg = pg_modify dead i (set_status status finishedAt errMsg)"

definition pg_UpdateProgress :: "bool \<Rightarrow> string \<Rightarrow> StageRun list \<Rightarrow> pg_runs \<Rightarrow> run_store_err + pg_runs" where
  "pg_UpdateProgress dead i srs = pg_modify dead i (set_progress srs)"

definition pg_UpdateHeartbeat :: "bool \<Rightarrow> string \<Rightarrow> time \<Rightarrow> pg_runs \<Rightarrow> run_store_err + pg_runs" where
  "pg_UpdateHeartbeat dead i ts = pg_modify dead i (set_heartbeat ts)"

definition pg_SweepOrphans :: "time \<Rightarrow> duration \<Rightarrow> pg_runs \<Rightarrow> pg_runs \<times> nat" where
  "pg_SweepOrphans now threshold s =
     (\<lambda>i. map_option (\<lambda>r. if orphaned now threshold r then mark_orphan now r else r) (s i),
      card {i. \<exists>r. s i = Some r \<and> orphaned now threshold r})"

definition pg_ok :: "pg_runs \<Rightarrow> bool" where
  "pg_ok s \<longleftrightarrow> (\<forall>i r. s i = Some r \<longrightarrow> Run_ID r = i)"

lemma pg_modify_row:
  assumes "pg_ok s" "s i = Some r" "Run_ID (f r) = Run_ID r"
  shows "\<exists>s'. pg_modify False i f s = Inr s' \<and> pg_ok s' \<and> s' = s(i \<mapsto> f r)"
  using assms by (auto simp: pg_modify_def pg_ok_def)

interpretation pgr: run_store "\<lambda>s. s" pg_ok pg_kept "pg_Get False" "pg_UpdateStatus False" "pg_UpdateProgress False"
  "pg_UpdateHeartbeat False" "pg_Update False" "\<lambda>_. pg_SweepOrphans"
proof
  fix s :: pg_runs and i st fin e and r :: RunRow
  assume s: "pg_ok s" "s i = Some r"
  show "\<exists>s'. pg_UpdateStatus False i st fin e s = Inr s' \<and> pg_ok s' \<and> s' = s(i \<mapsto> set_status st fin e r)"
    unfolding pg_UpdateStatus_def using s by (rule pg_modify_row) (simp add: set_status_def)
next
  fix s :: pg_runs and i srs and r :: RunRow
  assume s: "pg_ok s" "s i = Some r"
  show "\<exists>s'. pg_UpdateProgress False i srs s = Inr s' \<and> pg_ok s' \<and> s' = s(i \<mapsto> set_progress srs r)"
    unfolding pg_UpdateProgress_def using s by (rule pg_modify_row) (simp add: set_progress_def)
next
  fix s :: pg_runs and i ts and r :: RunRow
  assume s: "pg_ok s" "s i = Some r"
  show "\<exists>s'. pg_UpdateHeartbeat False i ts s = Inr s' \<and> pg_ok s' \<and> s' = s(i \<mapsto> set_heartbeat ts r)"
    unfolding pg_UpdateHeartbeat_def using s by (rule pg_modify_row) (simp add: set_heartbeat_def)
next
  fix s :: pg_runs and r old :: RunRow
  assume s: "pg_ok s" "s (Run_ID r) = Some old"
  show "\<exists>s'. pg_Update False r s = Inr s' \<and> pg_ok s' \<and> s' = s(Run_ID r \<mapsto> pg_kept old r)"
    unfolding pg_Update_def using s by (rule pg_modify_row) (simp add: pg_kept_def)
next
  fix s :: pg_runs and now th
  assume "pg_ok s"
  then have "pg_ok (fst (pg_SweepOrphans now th s))"
    by (auto simp: pg_ok_def pg_SweepOrphans_def mark_orphan_def)
  then show "pg_ok (fst (pg_SweepOrphans now th s)) \<and>
      fst (pg_SweepOrphans now th s) = (\<lambda>i. map_option (\<lambda>r. if orphaned now th r then mark_orphan now r else r) (s i)) \<and>
      snd (pg_SweepOrphans now th s) = card {i. \<exists>r. s i = Some r \<and> orphaned now th r}"
    by (simp add: pg_SweepOrphans_def)
qed (simp_all add: pg_Get_def pg_UpdateStatus_def pg_UpdateProgress_def pg_UpdateHeartbeat_def pg_Update_def pg_modify_def)

subsection \<open>In memory\<close>

text \<open>
  A run lives in a cell; the map holds the address of the cell the caller of \<open>Create\<close> or
  \<open>Update\<close> passed.  A write through the map is seen by whoever holds the address.  (\<open>Get\<close> copies
  the record; the slices it shares are only replaced as a whole.)
\<close>

record mem_runs =
  mr_cells :: "nat \<rightharpoonup> RunRow"
  mr_next :: nat
  mr_m :: "string \<rightharpoonup> nat"

text \<open>\<open>&model.PipelineRun{...}\<close>: a cell no one else holds.\<close>

definition mr_alloc :: "RunRow \<Rightarrow> mem_runs \<Rightarrow> mem_runs \<times> nat" where
  "mr_alloc r s = (s\<lparr>mr_cells := (mr_cells s)(mr_next s \<mapsto> r), mr_next := mr_next s + 1\<rparr>, mr_next s)"

definition mr_rows :: "mem_runs \<Rightarrow> string \<rightharpoonup> RunRow" where
  "mr_rows s i = (case mr_m s i of None \<Rightarrow> None | Some a \<Rightarrow> mr_cells s a)"

text \<open>The cell of an id is allocated and holds a run with that id, so no two ids share one.\<close>

definition mr_ok :: "mem_runs \<Rightarrow> bool" where
  "mr_ok s \<longleftrightarrow> (\<forall>a. mr_next s \<le> a \<longrightarrow> mr_cells s a = None) \<and>
     (\<forall>i a. mr_m s i = Some a \<longrightarrow> (\<exists>r. mr_cells s a = Some r \<and> Run_ID r = i))"

definition mr_List :: "string list \<Rightarrow> string \<Rightarrow> int \<Rightarrow> int \<Rightarrow> mem_runs \<Rightarrow> RunRow list" where
  "mr_List ks pipelineID limit offset s =
     (let matched = newest_first (filter (\<lambda>r. Run_PipelineID r = pipelineID) (map_values ks (mr_rows s)));
          limited = (\<lambda>matched. if limit > 0 \<and> int (length matched) > limit then take (nat limit) matched else matched);
          summaries = map (\<lambda>r. if Run_StageRuns r \<noteq> [] then run_summary r else r)
      in if offset > 0 then
           (if offset \<ge> int (length matched) then [] else summaries (limited (drop (nat offset) matched)))
         else summaries (limited matched))"

definition mr_Get :: "string \<Rightarrow> mem_runs \<Rightarrow> run_store_err + RunRow" where
  "mr_Get i s = (case mr_rows s i of None \<Rightarrow> Inl (RunNotFound i) | Some r \<Rightarrow> Inr r)"

definition mr_GetSummary :: "string \<Rightarrow> mem_runs \<Rightarrow> run_store_err + RunRow" where
  "mr_GetSummary i s = (case mr_Get i s of Inl e \<Rightarrow> Inl e | Inr r \<Rightarrow> Inr (run_summary r))"

text \<open>A write through the map.\<close>

definition mr_write :: "nat \<Rightarrow> (RunRow \<Rightarrow> RunRow) \<Rightarrow> mem_runs \<Rightarrow> mem_runs" where
  "mr_write a f s = s\<lparr>mr_cells := (mr_cells s)(a := map_option f (mr_cells s a))\<rparr>"

definition mr_modify :: "string \<Rightarrow> (RunRow \<Rightarrow> RunRow) \<Rightarrow> mem_runs \<Rightarrow> run_store_err + mem_runs" where
  "mr_modify i f s = (case mr_m s i of None \<Rightarrow> Inl (RunNotFound i) | Some a \<Rightarrow> Inr (mr_write a f s))"

definition mr_UpdateProgress :: "string \<Rightarrow> StageRun list \<Rightarrow> mem_runs \<Rightarrow> run_store_err + mem_runs" where
  "mr_UpdateProgress i srs = mr_modify i (set_progress srs)"

definition mr_UpdateStatus :: "string \<Rightarrow> string \<Rightarrow> time option \<Rightarrow> string \<Rightarrow> mem_runs \<Rightarrow> run_store_err + mem_runs" where
  "mr_UpdateStatus i status finishedAt errMsg = mr_modify i (set_status status finishedAt errMsg)"

definition mr_UpdateHeartbeat :: "string \<Rightarrow> time \<Rightarrow> mem_runs \<Rightarrow> run_store_err + mem_runs" where
  "mr_UpdateHeartbeat i ts = mr_modify i (set_heartbeat ts)"

text \<open>\<open>Create\<close> and \<open>Update\<close> of the run in the cell \<open>a\<close>.\<close>

definition mr_CreateCell :: "time \<Rightarrow> nat \<Rightarrow> mem_runs \<Rightarrow> mem_runs" where
  "mr_CreateCell now a s =
     (case mr_cells s a of
        None \<Rightarrow> s
      | Some r \<Rightarrow>
          (mr_write a (\<lambda>r. if Run_CreatedAt r = 0 then r\<lparr>Run_CreatedAt := now\<rparr> else r) s)
            \<lparr>mr_m := (mr_m s)(Run_ID r \<mapsto> a)\<rparr>)"

definition mr_UpdateCell :: "nat \<Rightarrow> mem_runs \<Rightarrow> run_store_err + mem_runs" where
  "mr_UpdateCell a s =
     (case mr_cells s a of
        None \<Rightarrow> Inr s
      | Some r \<Rightarrow>
          (case mr_m s (Run_ID r) of
             None \<Rightarrow> Inl (RunNotFound (Run_ID r))
           | Some _ \<Rightarrow> Inr (s\<lparr>mr_m := (mr_m s)(Run_ID r \<mapsto> a)\<rparr>)))"

definition mr_Update :: "RunRow \<Rightarrow> mem_runs \<Rightarrow> run_store_err + mem_runs" where
  "mr_Update r s = (case mr_alloc r s of (s, a) \<Rightarrow> mr_UpdateCell a s)"

text \<open>The sweep, in the visiting order \<open>ks\<close> of the map.\<close>

fun mr_SweepOrphans :: "string list \<Rightarrow> time \<Rightarrow> duration \<Rightarrow> mem_runs \<Rightarrow> mem_runs \<times> nat" where
  "mr_SweepOrphans [] now threshold s = (s, 0)"
| "mr_SweepOrphans (k # ks) now threshold s =
     (case mr_rows s k of
        None \<Rightarrow> mr_SweepOrphans ks now threshold s
      | Some r \<Rightarrow>
          if orphaned now threshold r then
            (case mr_SweepOrphans ks now threshold (mr_write (the (mr_m s k)) (mark_orphan now) s) of (s, n) \<Rightarrow> (s, n + 1))
          else mr_SweepOrphans ks now threshold s)"

lemma mr_okD:
  assumes "mr_ok s" "mr_m s i = Some a"
  shows "\<exists>r. mr_cells s a = Some r \<and> Run_ID r = i \<and> mr_rows s i = Some r"
proof -
  from assms obtain r where "mr_cells s a = Some r" "Run_ID r = i" unfolding mr_ok_def by blast
  with assms(2) show ?thesis by (simp add: mr_rows_def)
qed

lemma mr_rows_Some: "mr_ok s \<Longrightarrow> mr_rows s i = Some r \<longleftrightarrow> (\<exists>a. mr_m s i = Some a \<and> mr_cells s a = Some r)"
  by (auto simp: mr_rows_def split: option.splits)

lemma mr_rows_None: "mr_ok s \<Longrightarrow> mr_rows s i = None \<longleftrightarrow> mr_m s i = None"
  by (auto simp: mr_rows_def dest: mr_okD split: option.splits)

text \<open>A write that keeps the id changes the row of one id.\<close>

lemma mr_write_row:
  assumes "mr_ok s" "mr_m s i = Some a" "mr_rows s i = Some r" "Run_ID (f r) = Run_ID r"
  shows "mr_ok (mr_write a f s)" and "mr_rows (mr_write a f s) = (mr_rows s)(i \<mapsto> f r)"
proof -
  have c: "mr_cells s a = Some r" "Run_ID r = i" using mr_okD [OF assms(1,2)] assms(2,3) by auto
  have own: "j = i" if "mr_m s j = Some a" for j using mr_okD [OF assms(1) that] c by auto
  have "a < mr_next s" using assms(1) c unfolding mr_ok_def by (metis not_le option.distinct(1))
  moreover have "\<exists>r'. mr_cells (mr_write a f s) b = Some r' \<and> Run_ID r' = j" if jb: "mr_m s j = Some b" for j b
  proof (cases "b = a")
    case True
    then have "j = i" using own jb by blast
    with True c assms(4) show ?thesis by (simp add: mr_write_def)
  next
    case False
    obtain r' where "mr_cells s b = Some r'" "Run_ID r' = j" using mr_okD [OF assms(1) jb] by blast
    with False show ?thesis by (simp add: mr_write_def)
  qed
  moreover have "mr_next (mr_write a f s) = mr_next s" "mr_m (mr_write a f s) = mr_m s" by (simp_all add: mr_write_def)
  moreover have "mr_cells (mr_write a f s) b = None" if "mr_next s \<le> b" for b
    using assms(1) that by (auto simp: mr_ok_def mr_write_def)
  ultimately show "mr_ok (mr_write a f s)" unfolding mr_ok_def by simp
  show "mr_rows (mr_write a f s) = (mr_rows s)(i \<mapsto> f r)"
  proof
    fix j
    show "mr_rows (mr_write a f s) j = ((mr_rows s)(i \<mapsto> f r)) j"
    proof (cases "j = i")
      case True
      then show ?thesis using c(1) assms(2) by (simp add: mr_rows_def mr_write_def)
    next
      case False
      then have "mr_m s j \<noteq> Some a" using own by blast
      with False show ?thesis by (simp add: mr_rows_def mr_write_def split: option.split)
    qed
  qed
qed

lemma mr_modify_row:
  assumes "mr_ok s" "mr_rows s i = Some r" "Run_ID (f r) = Run_ID r"
  shows "\<exists>s'. mr_modify i f s = Inr s' \<and> mr_ok s' \<and> mr_rows s' = (mr_rows s)(i \<mapsto> f r)"
proof -
  obtain a where a: "mr_m s i = Some a" using mr_rows_Some [OF assms(1)] assms(2) by blast
  with mr_write_row [where f = f, OF assms(1) a assms(2,3)] show ?thesis by (simp add: mr_modify_def)
qed

lemma mr_Update_row:
  assumes "mr_ok s" "mr_rows s (Run_ID r) = Some old"
  shows "\<exists>s'. mr_Update r s = Inr s' \<and> mr_ok s' \<and> mr_rows s' = (mr_rows s)(Run_ID r \<mapsto> r)"
proof -
  obtain a where a: "mr_m s (Run_ID r) = Some a" using mr_rows_Some [OF assms(1)] assms(2) by blast
  let ?s = "s\<lparr>mr_cells := (mr_cells s)(mr_next s \<mapsto> r), mr_next := mr_next s + 1,
    mr_m := (mr_m s)(Run_ID r \<mapsto> mr_next s)\<rparr>"
  have u: "mr_Update r s = Inr ?s" using a by (simp add: mr_Update_def mr_alloc_def mr_UpdateCell_def)
  have new: "b \<noteq> mr_next s" if "mr_m s j = Some b" for j b
    using mr_okD [OF assms(1) that] assms(1) unfolding mr_ok_def by (metis order_refl option.distinct(1))
  have "\<exists>r'. mr_cells ?s b = Some r' \<and> Run_ID r' = j" if "mr_m ?s j = Some b" for j b
  proof (cases "j = Run_ID r")
    case False
    with that have j: "mr_m s j = Some b" by simp
    from mr_okD [OF assms(1) j] new [OF j] show ?thesis by auto
  qed (use that in auto)
  moreover have "mr_cells ?s b = None" if "mr_next ?s \<le> b" for b
    using assms(1) that by (simp add: mr_ok_def)
  ultimately have "mr_ok ?s" unfolding mr_ok_def by blast
  moreover have "mr_rows ?s = (mr_rows s)(Run_ID r \<mapsto> r)"
  proof
    fix j
    show "mr_rows ?s j = ((mr_rows s)(Run_ID r \<mapsto> r)) j"
      using new by (auto simp: mr_rows_def split: option.split)
  qed
  ultimately show ?thesis using u by blast
qed

text \<open>Every id of the order is visited once, so its row is judged as it was.\<close>

lemma mr_Sweep_rows:
  assumes "mr_ok s" "distinct ks"
  shows "mr_ok (fst (mr_SweepOrphans ks now th s)) \<and>
    mr_rows (fst (mr_SweepOrphans ks now th s)) =
      (\<lambda>i. if i \<in> set ks then map_option (\<lambda>r. if orphaned now th r then mark_orphan now r else r) (mr_rows s i)
           else mr_rows s i) \<and>
    snd (mr_SweepOrphans ks now th s) = card {i \<in> set ks. \<exists>r. mr_rows s i = Some r \<and> orphaned now th r}"
  using assms
proof (induction ks arbitrary: s)
  case (Cons k ks)
  let ?sw = "\<lambda>r. if orphaned now th r then mark_orphan now r else r"
  have k: "k \<notin> set ks" "distinct ks" using Cons.prems(2) by simp_all
  show ?case
  proof (cases "\<exists>r. mr_rows s k = Some r \<and> orphaned now th r")
    case True
    then obtain r where r: "mr_rows s k = Some r" "orphaned now th r" by blast
    obtain a where a: "mr_m s k = Some a" using mr_rows_Some [OF Cons.prems(1)] r(1) by blast
    let ?s = "mr_write a (mark_orphan now) s"
    have w: "mr_ok ?s" "mr_rows ?s = (mr_rows s)(k \<mapsto> mark_orphan now r)"
      using mr_write_row [where f = "mark_orphan now", OF Cons.prems(1) a r(1)] by (simp_all add: mark_orphan_def)
    have e: "mr_SweepOrphans (k # ks) now th s =
        (fst (mr_SweepOrphans ks now th ?s), snd (mr_SweepOrphans ks now th ?s) + 1)"
      using r a by (simp split: prod.split)
    have set: "{i \<in> set (k # ks). \<exists>r. mr_rows s i = Some r \<and> orphaned now th r} =
        insert k {i \<in> set ks. \<exists>r. mr_rows ?s i = Some r \<and> orphaned now th r}"
      using r k w(2) by auto
    have "k \<notin> {i \<in> set ks. \<exists>r. mr_rows ?s i = Some r \<and> orphaned now th r}" using k by simp
    then have "card {i \<in> set (k # ks). \<exists>r. mr_rows s i = Some r \<and> orphaned now th r} =
        card {i \<in> set ks. \<exists>r. mr_rows ?s i = Some r \<and> orphaned now th r} + 1"
      unfolding set by (subst card_insert_disjoint) simp_all
    moreover have "(\<lambda>i. if i \<in> set ks then map_option ?sw (mr_rows ?s i) else mr_rows ?s i) =
        (\<lambda>i. if i \<in> set (k # ks) then map_option ?sw (mr_rows s i) else mr_rows s i)"
      using r k w(2) by auto
    ultimately show ?thesis using Cons.IH [OF w(1) k(2)] e by simp
  next
    case False
    then have e: "mr_SweepOrphans (k # ks) now th s = mr_SweepOrphans ks now th s" by (auto split: option.split)
    have same: "map_option ?sw (mr_rows s k) = mr_rows s k" using False by (cases "mr_rows s k") auto
    have "{i \<in> set (k # ks). \<exists>r. mr_rows s i = Some r \<and> orphaned now th r} =
        {i \<in> set ks. \<exists>r. mr_rows s i = Some r \<and> orphaned now th r}" using False by auto
    moreover have "(\<lambda>i. if i \<in> set (k # ks) then map_option ?sw (mr_rows s i) else mr_rows s i) =
        (\<lambda>i. if i \<in> set ks then map_option ?sw (mr_rows s i) else mr_rows s i)"
      using same by auto
    ultimately show ?thesis using Cons.IH [OF Cons.prems(1) k(2)] e by simp
  qed
qed simp

interpretation mrr: run_store mr_rows mr_ok "\<lambda>old r. r" mr_Get mr_UpdateStatus mr_UpdateProgress
  mr_UpdateHeartbeat mr_Update mr_SweepOrphans
proof
  fix s i st fin e and r :: RunRow
  assume s: "mr_ok s" "mr_rows s i = Some r"
  show "\<exists>s'. mr_UpdateStatus i st fin e s = Inr s' \<and> mr_ok s' \<and> mr_rows s' = (mr_rows s)(i \<mapsto> set_status st fin e r)"
    unfolding mr_UpdateStatus_def using s by (rule mr_modify_row) (simp add: set_status_def)
next
  fix s i srs and r :: RunRow
  assume s: "mr_ok s" "mr_rows s i = Some r"
  show "\<exists>s'. mr_UpdateProgress i srs s = Inr s' \<and> mr_ok s' \<and> mr_rows s' = (mr_rows s)(i \<mapsto> set_progress srs r)"
    unfolding mr_UpdateProgress_def using s by (rule mr_modify_row) (simp add: set_progress_def)
next
  fix s i ts and r :: RunRow
  assume s: "mr_ok s" "mr_rows s i = Some r"
  show "\<exists>s'. mr_UpdateHeartbeat i ts s = Inr s' \<and> mr_ok s' \<and> mr_rows s' = (mr_rows s)(i \<mapsto> set_heartbeat ts r)"
    unfolding mr_UpdateHeartbeat_def using s by (rule mr_modify_row) (simp add: set_heartbeat_def)
next
  fix s and r old :: RunRow
  assume "mr_ok s" "mr_rows s (Run_ID r) = Some old"
  then show "\<exists>s'. mr_Update r s = Inr s' \<and> mr_ok s' \<and> mr_rows s' = (mr_rows s)(Run_ID r \<mapsto> r)"
    by (rule mr_Update_row)
next
  fix s ks now th
  assume s: "mr_ok s" "iter_order ks (mr_rows s)"
  have ks: "distinct ks" "set ks = {i. \<exists>r. mr_rows s i = Some r}" using s(2) by (auto simp: iter_order_def dom_def)
  have "(\<lambda>i. if i \<in> set ks then map_option (\<lambda>r. if orphaned now th r then mark_orphan now r else r) (mr_rows s i)
           else mr_rows s i) = (\<lambda>i. map_option (\<lambda>r. if orphaned now th r then mark_orphan now r else r) (mr_rows s i))"
    using ks(2) by auto
  moreover have "{i \<in> set ks. \<exists>r. mr_rows s i = Some r \<and> orphaned now th r} = {i. \<exists>r. mr_rows s i = Some r \<and> orphaned now th r}"
    using ks(2) by auto
  ultimately show "mr_ok (fst (mr_SweepOrphans ks now th s)) \<and>
      mr_rows (fst (mr_SweepOrphans ks now th s)) =
        (\<lambda>i. map_option (\<lambda>r. if orphaned now th r then mark_orphan now r else r) (mr_rows s i)) \<and>
      snd (mr_SweepOrphans ks now th s) = card {i. \<exists>r. mr_rows s i = Some r \<and> orphaned now th r}"
    using mr_Sweep_rows [OF s(1) ks(1), of now th] by simp
qed (simp_all add: mr_Get_def mr_UpdateStatus_def mr_UpdateProgress_def mr_UpdateHeartbeat_def mr_modify_def
    mr_rows_None mr_Update_def mr_alloc_def mr_UpdateCell_def split: option.split)

subsection \<open>The two stores agree\<close>

lemma mr_modify_sim:
  assumes "mr_ok s" "\<And>r. Run_ID (f r) = Run_ID r"
  shows "map_sum id mr_rows (mr_modify i f s) = pg_modify False i f (mr_rows s)"
proof (cases "mr_rows s i")
  case None
  then have "mr_m s i = None" using mr_rows_None [OF assms(1)] by simp
  with None show ?thesis by (simp add: mr_modify_def pg_modify_def)
next
  case (Some r)
  from mr_modify_row [where f = f, OF assms(1) Some assms(2)] Some
  show ?thesis by (auto simp: pg_modify_def)
qed

lemma mr_List_page: "mr_List ks p limit offset s =
    map run_summary (run_page limit offset
      (newest_first (filter (\<lambda>r. Run_PipelineID r = p) (map_values ks (mr_rows s)))))"
proof -
  have "(if Run_StageRuns r \<noteq> [] then run_summary r else r) = run_summary r" for r
    by (simp add: run_summary_def strip_logs_def)
  then show ?thesis by (simp add: mr_List_def run_page_def Let_def)
qed


definition demo_row :: RunRow where
  "demo_row = PipelineRun.extend demo_run
     \<lparr>Run_PipelineID = ''p'', Run_Variables = Map.empty, Run_CreatedAt = 5, Run_HeartbeatAt = None,
      Run_StartedByUserSub = [], Run_StartedByEmail = [], Run_StartedByGroups = [], Run_StartedByTokenHash = [],
      Run_PipelineVersion = 1\<rparr>"

definition demo_mem_runs :: mem_runs where
  "demo_mem_runs = \<lparr>mr_cells = [0 \<mapsto> demo_row], mr_next = 1, mr_m = [''r'' \<mapsto> 0]\<rparr>"

lemma demo_mem_rows: "mr_ok demo_mem_runs" "mr_rows demo_mem_runs = [''r'' \<mapsto> demo_row]"
proof -
  have i: "Run_ID demo_row = ''r''" by (simp add: demo_row_def demo_run_def PipelineRun.extend_def)
  show "mr_ok demo_mem_runs" by (simp add: mr_ok_def demo_mem_runs_def i)
  show "mr_rows demo_mem_runs = [''r'' \<mapsto> demo_row]" by (auto simp: mr_rows_def demo_mem_runs_def)
qed


text \<open>
  What only the store in memory does: the run that was created is the caller's own record, so a
  later status write is seen by the caller.
\<close>

lemma mr_shared_cell:
  assumes "mr_cells s a = Some r" "mr_UpdateStatus (Run_ID r) st fin e (mr_CreateCell now a s) = Inr s'"
  shows "map_option Run_Status (mr_cells s' a) = Some st"
  using assms by (auto simp: mr_CreateCell_def mr_UpdateStatus_def mr_modify_def mr_write_def set_status_def)

end
