(* ===== verification/RunLifecycle.thy ===== *)
theory RunLifecycle
  imports RunStore Execution JobQueue
begin

text \<open>
  The life of a pipeline run on PostgreSQL: the request that creates its row and starts it
  (\<open>backend/internal/handler/pipeline.go\<close>), the coordinator that bounds and tracks the runs of the
  process (\<open>backend/internal/server/runs.go\<close>), the queue worker's side
  (\<open>backend/internal/service/enqueuer.go\<close>, \<open>jobqueue_runner.go\<close>), the outcome event
  (\<open>notify.go\<close>), the cancel request, the heartbeat, a crash, and the orphan sweep at boot.  The
  executor works on its own copy of the run, as the table holds values.

  The JSON text of a job's payload is written and read by \<open>marshal\<close> and \<open>unmarshal\<close>.
\<close>

record PipelineRow = Pipeline +
  Pipeline_Name :: string
  Pipeline_Variables :: "string \<rightharpoonup> string"
  Pipeline_Version :: int

subsection \<open>Starting a run\<close>

text \<open>The actor of the request, if there is one, and the hash of its bearer token.\<close>

record run_actor =
  actor_user :: "(string \<times> string \<times> string list) option"
  actor_tokenHash :: string

definition pending_stage :: "Stage \<Rightarrow> StageRun" where
  "pending_stage st = \<lparr>SR_StageID = Stage_ID st, SR_Status = ''pending'', SR_StartedAt = None, SR_FinishedAt = None,
     SR_Logs = [], SR_Error = [], SR_Artifacts = [], SR_Outputs = Map.empty\<rparr>"

definition new_run :: "string \<Rightarrow> run_actor \<Rightarrow> PipelineRow \<Rightarrow> RunRow" where
  "new_run runID actor p =
     \<lparr>Run_ID = runID, Run_Status = ''pending'', Run_StageRuns = map pending_stage (Pipeline_Stages p),
      Run_StartedAt = None, Run_FinishedAt = None, Run_Error = [], Run_PipelineID = Pipeline_ID p,
      Run_Variables = Pipeline_Variables p, Run_CreatedAt = 0, Run_HeartbeatAt = None,
      Run_StartedByUserSub = (case actor_user actor of None \<Rightarrow> [] | Some (sub, _, _) \<Rightarrow> sub),
      Run_StartedByEmail = (case actor_user actor of None \<Rightarrow> [] | Some (_, email, _) \<Rightarrow> email),
      Run_StartedByGroups = (case actor_user actor of None \<Rightarrow> [] | Some (_, _, gs) \<Rightarrow> gs),
      Run_StartedByTokenHash = actor_tokenHash actor, Run_PipelineVersion = Pipeline_Version p\<rparr>"

definition EnqueueRun ::
  "(string \<Rightarrow> string \<Rightarrow> string) \<Rightarrow> int \<Rightarrow> time \<Rightarrow> string \<Rightarrow> string \<Rightarrow> string \<Rightarrow> job_map \<Rightarrow> jq_error + job_map" where
  "EnqueueRun marshal maxAttempts now jobID pipelineID runID jobs =
     (case JobMem_Enqueue now jobID ''pipeline-run'' (Some (marshal pipelineID runID))
        \<lparr>eo_RunAt = 0, eo_MaxAttempts = maxAttempts, eo_ConcurrencyKey = ''pipeline:'' @ pipelineID, eo_ID = []\<rparr> jobs of
        Inl e \<Rightarrow> Inl e
      | Inr (jobs, _) \<Rightarrow> Inr jobs)"

definition NewJobQueueEnqueuer_MaxAttempts :: int where
  "NewJobQueueEnqueuer_MaxAttempts = 1"

text \<open>A run in execution: its pipeline, the executor's own copy, and whether it came by the queue.\<close>

record flight =
  fl_pipeline :: PipelineRow
  fl_run :: RunRow
  fl_queued :: bool

record run_world =
  rw_runs :: pg_runs
  rw_jobs :: job_map
  rw_used :: nat
  rw_flights :: "string \<rightharpoonup> flight"
  rw_events :: "(string \<times> string) list"

text \<open>
  The server: whether the job queue is wired, the cap on concurrent runs (0: none), and the
  payload's text.
\<close>

record run_server =
  sv_queue :: bool
  sv_maxConcurrentRuns :: nat
  sv_marshal :: "string \<Rightarrow> string \<Rightarrow> string"
  sv_unmarshal :: "string \<Rightarrow> (string \<times> string) option"

datatype run_answer = RunAccepted | RunNoPipeline | RunServerError | ErrRunCapacity

definition TryAcquire :: "run_server \<Rightarrow> run_world \<Rightarrow> bool" where
  "TryAcquire sv w \<longleftrightarrow> sv_maxConcurrentRuns sv = 0 \<or> rw_used w < sv_maxConcurrentRuns sv"

definition Spawn :: "run_server \<Rightarrow> string \<Rightarrow> flight \<Rightarrow> run_world \<Rightarrow> run_world option" where
  "Spawn sv runID f w =
     (if TryAcquire sv w
      then Some (w\<lparr>rw_used := rw_used w + 1, rw_flights := (rw_flights w)(runID \<mapsto> f)\<rparr>)
      else None)"

definition RunPipeline ::
  "run_server \<Rightarrow> bool \<Rightarrow> time \<Rightarrow> string \<Rightarrow> string \<Rightarrow> run_actor \<Rightarrow> PipelineRow option \<Rightarrow> run_world \<Rightarrow> run_answer \<times> run_world" where
  "RunPipeline sv dead now runID jobID actor found w =
     (case found of
        None \<Rightarrow> (RunNoPipeline, w)
      | Some p \<Rightarrow>
          (case pg_Create dead now (new_run runID actor p) (rw_runs w) of
             Inl _ \<Rightarrow> (RunServerError, w)
           | Inr (runs, run) \<Rightarrow>
               (let w = w\<lparr>rw_runs := runs\<rparr> in
                if sv_queue sv then
                  (RunAccepted,
                   (case EnqueueRun (sv_marshal sv) NewJobQueueEnqueuer_MaxAttempts now jobID (Pipeline_ID p) runID (rw_jobs w) of
                      Inl _ \<Rightarrow> w
                    | Inr jobs \<Rightarrow> w\<lparr>rw_jobs := jobs\<rparr>))
                else
                  (case Spawn sv runID \<lparr>fl_pipeline = p, fl_run = run, fl_queued = False\<rparr> w of
                     None \<Rightarrow> (ErrRunCapacity, w)
                   | Some w \<Rightarrow> (RunAccepted, w)))))"

subsection \<open>The worker's side\<close>

datatype handle_err = DecodePayload | MissingIds | GetPipeline string | GetRun string run_store_err

definition Handle_load ::
  "(string \<Rightarrow> (string \<times> string) option) \<Rightarrow> (string \<rightharpoonup> PipelineRow) \<Rightarrow> bool \<Rightarrow> Job \<Rightarrow> pg_runs \<Rightarrow> handle_err + PipelineRow \<times> RunRow" where
  "Handle_load unmarshal pipelines dead job runs =
     (case unmarshal (job_Payload job) of
        None \<Rightarrow> Inl DecodePayload
      | Some (pipelineID, runID) \<Rightarrow>
          if pipelineID = [] \<or> runID = [] then Inl MissingIds
          else (case pipelines pipelineID of
              None \<Rightarrow> Inl (GetPipeline pipelineID)
            | Some p \<Rightarrow>
                (case pg_Get dead runID runs of
                   Inl e \<Rightarrow> Inl (GetRun runID e)
                 | Inr run \<Rightarrow> Inr (p, run))))"

subsection \<open>The end of a run\<close>

definition run_event :: "string \<Rightarrow> run_err option \<Rightarrow> string option" where
  "run_event status execErr =
     (if execErr \<noteq> None then Some ''run.failed''
      else if status = ''cancelled'' then Some ''run.cancelled''
      else if status = ''success'' then Some ''run.succeeded''
      else if status = ''failed'' then Some ''run.failed''
      else None)"

definition NotifyRunOutcome :: "string \<Rightarrow> string \<Rightarrow> run_err option \<Rightarrow> run_world \<Rightarrow> run_world" where
  "NotifyRunOutcome runID status execErr w =
     (case run_event status execErr of None \<Rightarrow> w | Some ev \<Rightarrow> w\<lparr>rw_events := rw_events w @ [(runID, ev)]\<rparr>)"

text \<open>
  What follows \<open>Execute\<close>: on both paths the row is written, in the closure of \<open>RunPipeline\<close> under
  the context with the run's deadline; there a failed write ends the work before the event goes
  out, while the worker goes on.  Then the slot of the coordinator is released.
\<close>

definition end_run :: "bool \<Rightarrow> string \<Rightarrow> flight \<Rightarrow> PipelineRun \<Rightarrow> run_err option \<Rightarrow> run_world \<Rightarrow> run_world" where
  "end_run dead runID f result execErr w =
     (let run = PipelineRun.extend result (RunRow.fields (Run_PipelineID (fl_run f)) (Run_Variables (fl_run f))
            (Run_CreatedAt (fl_run f)) (Run_HeartbeatAt (fl_run f)) (Run_StartedByUserSub (fl_run f))
            (Run_StartedByEmail (fl_run f)) (Run_StartedByGroups (fl_run f)) (Run_StartedByTokenHash (fl_run f))
            (Run_PipelineVersion (fl_run f)));
          w = w\<lparr>rw_flights := (rw_flights w)(runID := None),
                rw_used := (if fl_queued f then rw_used w else rw_used w - 1)\<rparr>
      in (case pg_Update dead run (rw_runs w) of
            Inl _ \<Rightarrow> if fl_queued f then NotifyRunOutcome runID (Run_Status result) execErr w else w
          | Inr runs \<Rightarrow> NotifyRunOutcome runID (Run_Status result) execErr (w\<lparr>rw_runs := runs\<rparr>)))"

subsection \<open>Cancelling\<close>

datatype cancel_answer = CancelOK | CancelNotFound | CancelError

definition CancelPipelineRun :: "bool \<Rightarrow> string \<Rightarrow> string \<Rightarrow> pg_runs \<Rightarrow> cancel_answer \<times> pg_runs" where
  "CancelPipelineRun dead pipelineID runID runs =
     (case pg_Get dead runID runs of
        Inl (RunNotFound _) \<Rightarrow> (CancelNotFound, runs)
      | Inl _ \<Rightarrow> (CancelError, runs)
      | Inr run \<Rightarrow>
          if Run_PipelineID run \<noteq> pipelineID then (CancelNotFound, runs)
          else (case pg_UpdateStatus dead runID ''cancelled'' (Run_FinishedAt run) (Run_Error run) runs of
              Inl (RunNotFound _) \<Rightarrow> (CancelNotFound, runs)
            | Inl _ \<Rightarrow> (CancelError, runs)
            | Inr runs \<Rightarrow> (CancelOK, runs)))"

subsection \<open>What can happen\<close>

definition best_effort :: "run_store_err + pg_runs \<Rightarrow> run_world \<Rightarrow> run_world" where
  "best_effort r w = (case r of Inl _ \<Rightarrow> w | Inr runs \<Rightarrow> w\<lparr>rw_runs := runs\<rparr>)"

inductive life :: "run_server \<Rightarrow> run_world \<Rightarrow> run_world \<Rightarrow> bool" for sv :: run_server where
  request: "life sv w (snd (RunPipeline sv dead now runID jobID actor found w))"
| work: "sv_queue sv \<Longrightarrow> rw_jobs w jobID = Some job \<Longrightarrow>
    Handle_load (sv_unmarshal sv) pipelines dead job (rw_runs w) = Inr (p, run) \<Longrightarrow> rw_flights w (Run_ID run) = None \<Longrightarrow>
    life sv w (w\<lparr>rw_flights := (rw_flights w)(Run_ID run \<mapsto> \<lparr>fl_pipeline = p, fl_run = run, fl_queued = True\<rparr>)\<rparr>)"
| flush: "rw_flights w runID = Some f \<Longrightarrow> life sv w (best_effort (pg_UpdateProgress dead runID srs (rw_runs w)) w)"
| heartbeat: "rw_flights w runID = Some f \<Longrightarrow> \<not> fl_queued f \<Longrightarrow>
    life sv w (best_effort (pg_UpdateHeartbeat dead runID ts (rw_runs w)) w)"
| cancel: "life sv w (w\<lparr>rw_runs := snd (CancelPipelineRun dead pipelineID runID (rw_runs w))\<rparr>)"
| finished: "rw_flights w runID = Some f \<Longrightarrow>
    execute_ok xp (Pipeline.truncate (fl_pipeline f)) \<Longrightarrow>
    Execute xp (Pipeline.truncate (fl_pipeline f)) (PipelineRun.truncate (fl_run f)) (result, res) execErr statuses \<Longrightarrow>
    life sv w (end_run dead runID f (result\<lparr>Run_StageRuns := srs\<rparr>) execErr w)"
| crash: "life sv w (w\<lparr>rw_flights := Map.empty, rw_used := 0\<rparr>)"
| sweep: "life sv w (w\<lparr>rw_runs := fst (pg_SweepOrphans now threshold (rw_runs w))\<rparr>)"

inductive life_reach :: "run_server \<Rightarrow> run_world \<Rightarrow> run_world \<Rightarrow> bool" for sv :: run_server and w0 :: run_world where
  start: "life_reach sv w0 w0"
| step: "life_reach sv w0 w \<Longrightarrow> life sv w w' \<Longrightarrow> life_reach sv w0 w'"

definition empty_world :: run_world where
  "empty_world = \<lparr>rw_runs = Map.empty, rw_jobs = Map.empty, rw_used = 0, rw_flights = Map.empty, rw_events = []\<rparr>"


inductive_cases lifeE: "life sv w w'"

subsection \<open>The table while runs execute\<close>

definition at_rest :: "string set" where
  "at_rest = {''pending'', ''success'', ''failed'', ''cancelled''}"

text \<open>No row says running, flights have rows, and the slots in use are those of the inline flights.\<close>

definition inline_flights :: "run_world \<Rightarrow> string set" where
  "inline_flights w = {i. \<exists>f. rw_flights w i = Some f \<and> \<not> fl_queued f}"

definition rows_inv :: "pg_runs \<Rightarrow> bool" where
  "rows_inv runs \<longleftrightarrow> pg_ok runs \<and> (\<forall>i r. runs i = Some r \<longrightarrow> Run_Status r \<in> at_rest)"

definition flights_inv :: "run_server \<Rightarrow> run_world \<Rightarrow> bool" where
  "flights_inv sv w \<longleftrightarrow> finite (dom (rw_flights w)) \<and> rw_used w = card (inline_flights w) \<and>
     (sv_maxConcurrentRuns sv \<noteq> 0 \<longrightarrow> rw_used w \<le> sv_maxConcurrentRuns sv) \<and>
     (\<forall>i f. rw_flights w i = Some f \<longrightarrow> Run_ID (fl_run f) = i \<and> rw_runs w i \<noteq> None)"

lemma rows_inv_upd: "rows_inv runs \<Longrightarrow> Run_ID r = i \<Longrightarrow> Run_Status r \<in> at_rest \<Longrightarrow> rows_inv (runs(i \<mapsto> r))"
  by (auto simp: rows_inv_def pg_ok_def)

text \<open>What a change of the table keeps.\<close>

definition table_step :: "pg_runs \<Rightarrow> pg_runs \<Rightarrow> bool" where
  "table_step runs runs' \<longleftrightarrow> (rows_inv runs \<longrightarrow> rows_inv runs') \<and> (\<forall>i. runs i \<noteq> None \<longrightarrow> runs' i \<noteq> None)"

lemma table_step_refl [simp]: "table_step runs runs"
  by (simp add: table_step_def)

lemma pg_modify_table:
  assumes "pg_modify dead i f runs = Inr runs'" "\<And>r. Run_ID (f r) = Run_ID r"
    and "\<And>r. runs i = Some r \<Longrightarrow> Run_Status r \<in> at_rest \<Longrightarrow> Run_Status (f r) \<in> at_rest"
  shows "table_step runs runs'"
proof -
  obtain r where r: "runs i = Some r" "runs' = runs(i \<mapsto> f r)"
    using assms(1) by (auto simp: pg_modify_def split: if_splits option.splits)
  have "rows_inv runs'" if "rows_inv runs"
  proof -
    have "Run_ID r = i" "Run_Status r \<in> at_rest" using that r(1) by (auto simp: rows_inv_def pg_ok_def)
    then show ?thesis unfolding r(2) using that assms(2) assms(3) [OF r(1)] by (intro rows_inv_upd) simp_all
  qed
  then show ?thesis using r(2) by (simp add: table_step_def)
qed

lemma progress_table: "pg_UpdateProgress dead i srs runs = Inr runs' \<Longrightarrow> table_step runs runs'"
  unfolding pg_UpdateProgress_def by (erule pg_modify_table) (simp_all add: set_progress_def)

lemma heartbeat_table: "pg_UpdateHeartbeat dead i ts runs = Inr runs' \<Longrightarrow> table_step runs runs'"
  unfolding pg_UpdateHeartbeat_def by (erule pg_modify_table) (simp_all add: set_heartbeat_def)

lemma cancel_table: "table_step runs (snd (CancelPipelineRun dead pid i runs))"
proof -
  have "table_step runs runs'" if "pg_UpdateStatus dead i ''cancelled'' fin e runs = Inr runs'" for fin e runs'
    using that [unfolded pg_UpdateStatus_def] by (rule pg_modify_table) (simp_all add: set_status_def at_rest_def)
  then show ?thesis
    unfolding CancelPipelineRun_def by (auto split: sum.split run_store_err.split)
qed

lemma sweep_table: "rows_inv runs \<Longrightarrow> pg_SweepOrphans now th runs = (runs, 0)"
proof -
  assume "rows_inv runs"
  then have no: "\<not> orphaned now th r" if "runs i = Some r" for i r
  proof -
    have "Run_Status r \<in> at_rest" using \<open>rows_inv runs\<close> that unfolding rows_inv_def by blast
    then show ?thesis by (auto simp: orphaned_def at_rest_def)
  qed
  have "map_option (\<lambda>r. if orphaned now th r then mark_orphan now r else r) (runs i) = runs i" for i
    using no by (cases "runs i") auto
  moreover have "{i. \<exists>r. runs i = Some r \<and> orphaned now th r} = {}" using no by auto
  then have "card {i. \<exists>r. runs i = Some r \<and> orphaned now th r} = 0" by (simp only: card.empty)
  ultimately show ?thesis unfolding pg_SweepOrphans_def by simp
qed

lemma create_row:
  assumes "pg_Create dead now r runs = Inr (runs', r')"
  shows "runs (Run_ID r) = None \<and> runs' = runs(Run_ID r \<mapsto> r'\<lparr>Run_HeartbeatAt := None\<rparr>) \<and>
    Run_ID r' = Run_ID r \<and> Run_Status r' = Run_Status r"
  using assms by (auto simp: pg_Create_def Let_def split: if_splits)

lemma Execute_ends:
  assumes "execute_ok xp p" "Execute xp p run (result, res) err statuses"
  shows "Run_ID result = Run_ID run" and "Run_Status result \<in> {''success'', ''failed'', ''cancelled''}"
proof -
  have o: "looplab_ok (xp_lf xp)" "build_orders runBuilder (fst (xp_orders xp)) (snd (xp_orders xp))"
    using assms(1) by (simp_all add: execute_ok_def)
  have fin: "Run_ID x = Run_ID r \<and> Run_Status x \<in> {''success'', ''failed'', ''cancelled''}"
    if "(x, res) = finish xp r e c" for x and r :: PipelineRun and e c
  proof -
    have "x = fst (finish xp r e c)" using that by (metis fst_conv)
    then show ?thesis
      using finalize_eq [OF o, of "xp_finishTime xp" r e c] by (cases e) (auto simp: Let_def)
  qed
  from assms(2) have "\<exists>r e c. (result, res) = finish xp r e c \<and> Run_ID r = Run_ID run"
  proof cases
    case (ran dag L s rerr status)
    have "Run_ID (run\<lparr>Run_Status := status, Run_StartedAt := Some (xp_startedAt xp)\<rparr>) = Run_ID run" by simp
    with ran(1) show ?thesis by blast
  qed blast+
  then show "Run_ID result = Run_ID run" "Run_Status result \<in> {''success'', ''failed'', ''cancelled''}"
    using fin by (metis, metis)
qed

lemma end_run_table:
  assumes "Run_Status result \<in> at_rest"
  shows "table_step (rw_runs w) (rw_runs (end_run dead i f result e w))"
proof -
  have n: "rw_runs (NotifyRunOutcome i st e w) = rw_runs w" for st and w :: run_world
    by (simp add: NotifyRunOutcome_def split: option.split)
  have "table_step runs runs'"
    if "pg_Update dead r runs = Inr runs'" "Run_Status r \<in> at_rest" for r :: RunRow and runs runs'
    using that(1) [unfolded pg_Update_def] by (rule pg_modify_table) (simp_all add: pg_kept_def that(2))
  then show ?thesis using assms
    by (auto simp: end_run_def Let_def n PipelineRun.extend_def split: sum.split)
qed

lemma end_run_flights:
  "rw_flights (end_run dead i f result e w) = (rw_flights w)(i := None)"
  "rw_used (end_run dead i f result e w) = (if fl_queued f then rw_used w else rw_used w - 1)"
  by (simp_all add: end_run_def Let_def NotifyRunOutcome_def split: sum.split option.split)

text \<open>What a request does to the world.\<close>

lemma request_cases:
  assumes "RunPipeline sv dead now i jobID actor found w = (ans, w')"
  shows "w' = w \<or>
    (\<exists>p r'. found = Some p \<and> rw_runs w i = None \<and> rw_runs w' = (rw_runs w)(i \<mapsto> r'\<lparr>Run_HeartbeatAt := None\<rparr>) \<and>
       Run_ID r' = i \<and> Run_Status r' = ''pending'' \<and>
       (if ans = RunAccepted \<and> \<not> sv_queue sv
        then TryAcquire sv w \<and> rw_used w' = rw_used w + 1 \<and>
          rw_flights w' = (rw_flights w)(i \<mapsto> \<lparr>fl_pipeline = p, fl_run = r', fl_queued = False\<rparr>)
        else rw_used w' = rw_used w \<and> rw_flights w' = rw_flights w))"
proof (cases found)
  case None
  with assms show ?thesis by (simp add: RunPipeline_def)
next
  case (Some p)
  show ?thesis
  proof (cases "pg_Create dead now (new_run i actor p) (rw_runs w)")
    case (Inl e)
    with assms Some show ?thesis by (simp add: RunPipeline_def)
  next
    case (Inr x)
    obtain runs r' where x: "x = (runs, r')" by (cases x)
    note c = create_row [OF Inr [unfolded x]]
    have n: "Run_ID (new_run i actor p) = i" "Run_Status (new_run i actor p) = ''pending''" by (simp_all add: new_run_def)
    show ?thesis
      using assms Some Inr x c n
      by (auto simp: RunPipeline_def Spawn_def TryAcquire_def Let_def split: if_splits option.splits sum.splits)
  qed
qed

lemma inline_upd:
  assumes "finite (dom (rw_flights w))" "rw_flights w i = None"
    "rw_flights w' = (rw_flights w)(i \<mapsto> f)"
  shows "card (inline_flights w') = card (inline_flights w) + (if fl_queued f then 0 else 1)"
proof -
  have "inline_flights w \<subseteq> dom (rw_flights w)" by (auto simp: inline_flights_def)
  then have "finite (inline_flights w)" using assms(1) by (rule finite_subset)
  moreover have "i \<notin> inline_flights w" using assms(2) by (simp add: inline_flights_def)
  moreover have "inline_flights w' = (if fl_queued f then inline_flights w else insert i (inline_flights w))"
    using assms(2,3) by (auto simp: inline_flights_def)
  ultimately show ?thesis by simp
qed

lemma inline_del:
  assumes "finite (dom (rw_flights w))" "rw_flights w i = Some f" "rw_flights w' = (rw_flights w)(i := None)"
  shows "card (inline_flights w') = card (inline_flights w) - (if fl_queued f then 0 else 1)"
proof -
  have "inline_flights w \<subseteq> dom (rw_flights w)" by (auto simp: inline_flights_def)
  then have "finite (inline_flights w)" using assms(1) by (rule finite_subset)
  moreover have "inline_flights w' = (if fl_queued f then inline_flights w else inline_flights w - {i})"
    using assms(2,3) by (auto simp: inline_flights_def)
  moreover have "i \<in> inline_flights w \<longleftrightarrow> \<not> fl_queued f" using assms(2) by (auto simp: inline_flights_def)
  ultimately show ?thesis by (simp add: card_Diff_singleton)
qed

lemma inline_cong: "rw_flights w' = rw_flights w \<Longrightarrow> inline_flights w' = inline_flights w"
  by (simp add: inline_flights_def)

lemma flights_inv_table:
  assumes "flights_inv sv w" "rw_flights w' = rw_flights w" "rw_used w' = rw_used w" "table_step (rw_runs w) (rw_runs w')"
  shows "flights_inv sv w'"
  using assms unfolding flights_inv_def inline_cong [OF assms(2)] table_step_def by (metis (no_types))

lemma best_effort_proj:
  "rw_flights (best_effort r w) = rw_flights w" "rw_used (best_effort r w) = rw_used w"
  "rw_runs (best_effort r w) = (case r of Inl _ \<Rightarrow> rw_runs w | Inr runs \<Rightarrow> runs)"
  by (simp_all add: best_effort_def split: sum.split)

lemma life_inv:
  assumes "life sv w w'" "rows_inv (rw_runs w)" "flights_inv sv w"
  shows "rows_inv (rw_runs w') \<and> flights_inv sv w'"
proof -
  have frame: "rows_inv (rw_runs w') \<and> flights_inv sv w'"
    if "rw_flights w' = rw_flights w" "rw_used w' = rw_used w" "table_step (rw_runs w) (rw_runs w')"
    using that flights_inv_table [OF assms(3) that] assms(2) by (simp add: table_step_def)
  from assms(1) show ?thesis
  proof cases
    case (request dead now i jobID actor found)
    obtain ans where "RunPipeline sv dead now i jobID actor found w = (ans, w')" using request by (metis prod.collapse)
    from request_cases [OF this] show ?thesis
    proof (elim disjE exE conjE)
      fix p r'
      assume new: "rw_runs w i = None" "rw_runs w' = (rw_runs w)(i \<mapsto> r'\<lparr>Run_HeartbeatAt := None\<rparr>)"
          "Run_ID r' = i" "Run_Status r' = ''pending''"
        and fl: "if ans = RunAccepted \<and> \<not> sv_queue sv
          then TryAcquire sv w \<and> rw_used w' = rw_used w + 1 \<and>
            rw_flights w' = (rw_flights w)(i \<mapsto> \<lparr>fl_pipeline = p, fl_run = r', fl_queued = False\<rparr>)
          else rw_used w' = rw_used w \<and> rw_flights w' = rw_flights w"
      have t: "table_step (rw_runs w) (rw_runs w')"
        using rows_inv_upd [of "rw_runs w" "r'\<lparr>Run_HeartbeatAt := None\<rparr>" i] new
        by (simp add: table_step_def at_rest_def)
      show ?thesis
      proof (cases "ans = RunAccepted \<and> \<not> sv_queue sv")
        case True
        have free: "rw_flights w i = None" using assms(3) new(1) unfolding flights_inv_def by (metis not_None_eq)
        have fin: "finite (dom (rw_flights w))" using assms(3) by (simp add: flights_inv_def)
        have "card (inline_flights w') = card (inline_flights w) + 1"
          using inline_upd [OF fin free, of w'] fl True by simp
        then have "flights_inv sv w'"
          using assms(3) fl True new t unfolding flights_inv_def TryAcquire_def table_step_def by auto
        with t assms(2) show ?thesis by (simp add: table_step_def)
      qed (use frame fl t in simp)
    qed (use assms in simp)
  next
    case (work jobID job pipelines dead p run)
    have row: "rw_runs w (Run_ID run) = Some run"
    proof -
      obtain pid i where "rw_runs w i = Some run"
        using work(4) by (auto simp: Handle_load_def pg_Get_def split: option.splits if_splits prod.splits sum.splits)
      then show ?thesis using assms(2) by (auto simp: rows_inv_def pg_ok_def)
    qed
    have fin: "finite (dom (rw_flights w))" using assms(3) by (simp add: flights_inv_def)
    have "card (inline_flights w') = card (inline_flights w)"
      using inline_upd [OF fin work(5), of w'] work(1) by simp
    then show ?thesis using assms row work(1) unfolding flights_inv_def by auto
  next
    case (flush i f dead srs)
    show ?thesis by (rule frame) (use flush progress_table in \<open>auto simp: best_effort_proj split: sum.split\<close>)
  next
    case (heartbeat i f dead ts)
    show ?thesis by (rule frame) (use heartbeat heartbeat_table in \<open>auto simp: best_effort_proj split: sum.split\<close>)
  next
    case (cancel dead pid i)
    show ?thesis by (rule frame) (use cancel cancel_table in simp_all)
  next
    case (finished i f xp result res e statuses dead srs)
    let ?r = "result\<lparr>Run_StageRuns := srs\<rparr>"
    have "Run_Status ?r \<in> at_rest" using Execute_ends(2) [OF finished(3,4)] by (auto simp: at_rest_def)
    then have t: "table_step (rw_runs w) (rw_runs w')" unfolding finished(1) by (rule end_run_table)
    have fl: "rw_flights w' = (rw_flights w)(i := None)"
      "rw_used w' = (if fl_queued f then rw_used w else rw_used w - 1)"
      unfolding finished(1) by (rule end_run_flights)+
    have fin: "finite (dom (rw_flights w))" using assms(3) by (simp add: flights_inv_def)
    have "flights_inv sv w'"
      using assms(3) fl t inline_del [OF fin finished(2) fl(1)] unfolding flights_inv_def table_step_def
      by (auto split: if_splits)
    with t assms(2) show ?thesis by (simp add: table_step_def)
  next
    case crash
    then show ?thesis using assms(2) by (simp add: flights_inv_def inline_flights_def)
  next
    case (sweep now th)
    show ?thesis by (rule frame) (use sweep sweep_table [OF assms(2)] in simp_all)
  qed
qed

lemma reach_inv:
  assumes "life_reach sv empty_world w"
  shows "rows_inv (rw_runs w) \<and> flights_inv sv w"
  using assms
proof induction
  case start
  show ?case by (simp add: empty_world_def rows_inv_def pg_ok_def flights_inv_def inline_flights_def)
next
  case (step w w')
  then show ?case using life_inv by blast
qed

text \<open>
  C10: whatever requests, cancels, progress writes, heartbeats, ends, crashes and sweeps happen,
  the table never says that a pipeline run is running, so the orphan sweep finds nothing: a run
  that a crash cuts off is not recovered by it.
\<close>

theorem sweep_finds_no_pipeline_run:
  assumes "life_reach sv empty_world w"
  shows "(\<forall>r \<in> ran (rw_runs w). Run_Status r \<in> {''pending'', ''success'', ''failed'', ''cancelled''}) \<and>
    pg_SweepOrphans now threshold (rw_runs w) = (rw_runs w, 0)"
  using reach_inv [OF assms] sweep_table by (auto simp: rows_inv_def at_rest_def ran_def)


subsection \<open>Runs that nobody finishes\<close>

lemma cancel_row:
  assumes "runs i = Some r" "Run_Status r \<in> {''pending'', ''cancelled''}"
  shows "\<exists>r'. snd (CancelPipelineRun dead pid j runs) i = Some r' \<and> Run_Status r' \<in> {''pending'', ''cancelled''}"
  using assms
  by (auto simp: CancelPipelineRun_def pg_Get_def pg_UpdateStatus_def pg_modify_def set_status_def
      split: option.split run_store_err.split)

lemma modify_other: "pg_modify dead j f runs = Inr runs' \<Longrightarrow> i \<noteq> j \<Longrightarrow> runs' i = runs i"
  by (auto simp: pg_modify_def split: if_splits option.splits)

lemma end_run_other:
  assumes "i \<noteq> j" "Run_ID result = j"
  shows "rw_runs (end_run dead j f result e w) i = rw_runs w i"
proof -
  have n: "rw_runs (NotifyRunOutcome j st e w) = rw_runs w" for st and w :: run_world
    by (simp add: NotifyRunOutcome_def split: option.split)
  have "runs' i = runs i" if "pg_Update dead r runs = Inr runs'" "Run_ID r = j" for r :: RunRow and runs runs'
    using modify_other [OF that(1) [unfolded pg_Update_def], of i] that(2) assms(1) by simp
  then show ?thesis using assms(2)
    by (auto simp: end_run_def Let_def n PipelineRun.extend_def split: sum.split)
qed

text \<open>A pending run without an execution, where no queue hands it to a worker.\<close>

definition stranded :: "string \<Rightarrow> run_world \<Rightarrow> bool" where
  "stranded i w \<longleftrightarrow> rw_flights w i = None \<and>
     (\<exists>r. rw_runs w i = Some r \<and> Run_Status r \<in> {''pending'', ''cancelled''})"

lemma life_stranded:
  assumes "\<not> sv_queue sv" "life sv w w'" "stranded i w" "rows_inv (rw_runs w)" "flights_inv sv w"
  shows "stranded i w'"
proof -
  obtain r where r: "rw_flights w i = None" "rw_runs w i = Some r" "Run_Status r \<in> {''pending'', ''cancelled''}"
    using assms(3) by (auto simp: stranded_def)
  from assms(2) show ?thesis
  proof cases
    case (request dead now j jobID actor found)
    obtain ans where "RunPipeline sv dead now j jobID actor found w = (ans, w')" using request by (metis prod.collapse)
    from request_cases [OF this] show ?thesis
    proof (elim disjE exE conjE)
      fix p r'
      assume new: "rw_runs w j = None" "rw_runs w' = (rw_runs w)(j \<mapsto> r'\<lparr>Run_HeartbeatAt := None\<rparr>)"
        and fl: "if ans = RunAccepted \<and> \<not> sv_queue sv
          then TryAcquire sv w \<and> rw_used w' = rw_used w + 1 \<and>
            rw_flights w' = (rw_flights w)(j \<mapsto> \<lparr>fl_pipeline = p, fl_run = r', fl_queued = False\<rparr>)
          else rw_used w' = rw_used w \<and> rw_flights w' = rw_flights w"
      have "i \<noteq> j" using new(1) r(2) by auto
      then show ?thesis using new(2) fl r by (auto simp: stranded_def split: if_splits)
    qed (use assms(3) in simp)
  next
    case work
    with assms(1) show ?thesis by simp
  next
    case (flush j f dead srs)
    then have "i \<noteq> j" using r(1) by auto
    with flush r modify_other [of dead j "set_progress srs" "rw_runs w" _ i] show ?thesis
      by (auto simp: stranded_def best_effort_proj pg_UpdateProgress_def split: sum.split)
  next
    case (heartbeat j f dead ts)
    then have "i \<noteq> j" using r(1) by auto
    with heartbeat r modify_other [of dead j "set_heartbeat ts" "rw_runs w" _ i] show ?thesis
      by (auto simp: stranded_def best_effort_proj pg_UpdateHeartbeat_def split: sum.split)
  next
    case (cancel dead pid j)
    then show ?thesis using r cancel_row [where runs = "rw_runs w" and dead = dead and pid = pid and j = j, OF r(2) r(3)] by (simp add: stranded_def)
  next
    case (finished j f xp result res e statuses dead srs)
    have "i \<noteq> j" using finished(2) r(1) by auto
    moreover have "Run_ID (result\<lparr>Run_StageRuns := srs\<rparr>) = j"
      using Execute_ends(1) [OF finished(3,4)] assms(5) finished(2)
      by (simp add: flights_inv_def PipelineRun.truncate_def)
    ultimately have "rw_runs w' i = rw_runs w i" unfolding finished(1) by (intro end_run_other)
    moreover have "rw_flights w' i = None" unfolding finished(1) end_run_flights using r(1) by simp
    ultimately show ?thesis using r by (simp add: stranded_def)
  next
    case crash
    then show ?thesis using r by (simp add: stranded_def)
  next
    case (sweep now th)
    then show ?thesis using r sweep_table [OF assms(4)] by (simp add: stranded_def)
  qed
qed

text \<open>
  On a server without the queue, a pending run that is not in execution stays pending until
  someone cancels it, whatever else happens, the sweep included.  Three ways lead there: the
  coordinator refuses the run after its row was written, the process crashes, and the run reaches
  its deadline, whose context then refuses the final write.
\<close>

theorem stranded_run_stays:
  assumes "\<not> sv_queue sv" "life_reach sv empty_world w" "life_reach sv w w'"
    and "rw_flights w i = None" "rw_runs w i = Some r" "Run_Status r = ''pending''"
  shows "\<exists>r'. rw_runs w' i = Some r' \<and> Run_Status r' \<in> {''pending'', ''cancelled''} \<and> rw_flights w' i = None"
proof -
  have "rows_inv (rw_runs w') \<and> flights_inv sv w' \<and> stranded i w'" using assms(3)
  proof induction
    case start
    then show ?case using reach_inv [OF assms(2)] assms(4-6) by (simp add: stranded_def)
  next
    case (step v v')
    then show ?case using life_inv [of sv v v'] life_stranded [OF assms(1), of v v' i] by blast
  qed
  then show ?thesis by (auto simp: stranded_def)
qed

text \<open>The three ways to a stranded run.\<close>

lemma refused_run_has_row:
  assumes "RunPipeline sv dead now i jobID actor found w = (ErrRunCapacity, w')"
  shows "\<exists>r. rw_runs w' i = Some r \<and> Run_Status r = ''pending'' \<and> rw_flights w' = rw_flights w"
proof -
  from assms obtain p runs r where c: "found = Some p"
      "pg_Create dead now (new_run i actor p) (rw_runs w) = Inr (runs, r)" "w' = w\<lparr>rw_runs := runs\<rparr>"
    by (auto simp: RunPipeline_def Let_def split: option.splits if_splits sum.splits)
  from create_row [OF c(2)] c(3) show ?thesis by (auto simp: new_run_def)
qed

lemma deadline_loses_result:
  "\<not> fl_queued f \<Longrightarrow>
     rw_runs (end_run True i f result e w) = rw_runs w \<and> rw_events (end_run True i f result e w) = rw_events w"
  by (simp add: end_run_def pg_Update_def pg_modify_def Let_def)

subsection \<open>A cancel that is lost\<close>

lemma end_run_row:
  assumes "rw_runs w i = Some old" "Run_ID result = i"
  shows "map_option Run_Status (rw_runs (end_run False i f result e w) i) = Some (Run_Status result)"
  using assms
  by (simp add: end_run_def pg_Update_def pg_modify_def pg_kept_def NotifyRunOutcome_def PipelineRun.extend_def Let_def
      split: option.split)

definition demo_sv :: run_server where
  "demo_sv = \<lparr>sv_queue = False, sv_maxConcurrentRuns = 8, sv_marshal = (\<lambda>p r. p @ ''/'' @ r), sv_unmarshal = (\<lambda>_. None)\<rparr>"

definition demo_pipeline_row :: PipelineRow where
  "demo_pipeline_row = Pipeline.extend demo_pipeline
     \<lparr>Pipeline_Name = ''demo'', Pipeline_Variables = Map.empty, Pipeline_Version = 1\<rparr>"

definition demo_started :: run_world where
  "demo_started = snd (RunPipeline demo_sv False 5 ''r1'' ''j1'' \<lparr>actor_user = None, actor_tokenHash = []\<rparr>
     (Some demo_pipeline_row) empty_world)"

definition demo_cancelled :: run_world where
  "demo_cancelled = demo_started\<lparr>rw_runs := snd (CancelPipelineRun False ''p'' ''r1'' (rw_runs demo_started))\<rparr>"

lemma demo_pipeline_truncate: "Pipeline.truncate demo_pipeline_row = demo_pipeline" "Pipeline_ID demo_pipeline_row = ''p''"
  by (simp_all add: demo_pipeline_row_def Pipeline.truncate_def Pipeline.extend_def demo_pipeline_def)

lemma demo_started_world:
  "\<exists>r f. rw_runs demo_started ''r1'' = Some r \<and> Run_Status r = ''pending'' \<and> Run_PipelineID r = ''p'' \<and>
     rw_flights demo_started ''r1'' = Some f \<and> \<not> fl_queued f \<and> fl_pipeline f = demo_pipeline_row \<and>
     Run_ID (fl_run f) = ''r1'' \<and> Run_Status (fl_run f) = ''pending''"
  by (simp add: demo_started_def RunPipeline_def pg_Create_def empty_world_def new_run_def demo_sv_def Spawn_def
      TryAcquire_def demo_pipeline_truncate Let_def)

text \<open>
  A cancel can be lost: a run is started, its cancel is answered with success and the row says
  cancelled, and when the run ends its result is written over it, success.
\<close>

theorem cancel_can_be_lost:
  "\<exists>w w'. life_reach demo_sv empty_world w \<and> life demo_sv w w' \<and>
     fst (CancelPipelineRun False ''p'' ''r1'' (rw_runs demo_started)) = CancelOK \<and>
     map_option Run_Status (rw_runs w ''r1'') = Some ''cancelled'' \<and>
     map_option Run_Status (rw_runs w' ''r1'') = Some ''success''"
proof -
  obtain r f where d: "rw_runs demo_started ''r1'' = Some r" "Run_PipelineID r = ''p''"
      "rw_flights demo_started ''r1'' = Some f" "fl_pipeline f = demo_pipeline_row"
      "Run_ID (fl_run f) = ''r1''" "Run_Status (fl_run f) = ''pending''"
    using demo_started_world by blast
  let ?run = "PipelineRun.truncate (fl_run f)"
  have run: "Run_ID ?run = ''r1''" "Run_Status ?run \<noteq> ''cancelled''"
    using d by (simp_all add: PipelineRun.truncate_def)
  obtain result res statuses where e: "Execute demo_xp demo_pipeline ?run (result, res) None statuses"
      "Run_Status result = ''success''"
    using demo_executes_run [OF run(2)] by (metis prod.collapse fst_conv)
  let ?w = "end_run False ''r1'' f (result\<lparr>Run_StageRuns := []\<rparr>) None demo_cancelled"
  have one: "life_reach demo_sv empty_world demo_started"
    unfolding demo_started_def by (rule life_reach.step [OF life_reach.start life.request])
  have two: "life_reach demo_sv empty_world demo_cancelled"
    unfolding demo_cancelled_def by (rule life_reach.step [OF one life.cancel])
  have c: "fst (CancelPipelineRun False ''p'' ''r1'' (rw_runs demo_started)) = CancelOK"
    "\<exists>old. rw_runs demo_cancelled ''r1'' = Some old \<and> Run_Status old = ''cancelled''"
    using d(1,2) by (simp_all add: CancelPipelineRun_def pg_Get_def pg_UpdateStatus_def pg_modify_def set_status_def
        demo_cancelled_def)
  have fl: "rw_flights demo_cancelled ''r1'' = Some f" using d(3) by (simp add: demo_cancelled_def)
  have three: "life demo_sv demo_cancelled ?w"
    by (rule life.finished [OF fl, of demo_xp])
       (use e(1) d(4) demo_execute_ok in \<open>simp_all add: demo_pipeline_truncate\<close>)
  have "Run_ID result = ''r1''" using Execute_ends(1) [OF demo_execute_ok e(1)] run(1) by simp
  then have "map_option Run_Status (rw_runs ?w ''r1'') = Some ''success''"
    using end_run_row [of demo_cancelled "''r1''" _ "result\<lparr>Run_StageRuns := []\<rparr>"] c(2) e(2) by auto
  with two three c show ?thesis by (metis option.simps(9))
qed

subsection \<open>Concrete instances\<close>

theorem sweep_finds_no_pipeline_run_witness: "pg_SweepOrphans 100 10 (rw_runs demo_started) = (rw_runs demo_started, 0)"
  using sweep_finds_no_pipeline_run [OF life_reach.step [OF life_reach.start life.request], where now = 100 and threshold = 10]
  unfolding demo_started_def by blast


text \<open>The started run, after a crash.\<close>

theorem stranded_run_stays_witness:
  "\<exists>r. fst (pg_SweepOrphans 100 10 (rw_runs demo_started)) ''r1'' = Some r \<and> Run_Status r \<in> {''pending'', ''cancelled''}"
proof -
  let ?w = "demo_started\<lparr>rw_flights := Map.empty, rw_used := 0\<rparr>"
  have one: "life_reach demo_sv empty_world demo_started"
    unfolding demo_started_def by (rule life_reach.step [OF life_reach.start life.request])
  have two: "life_reach demo_sv empty_world ?w" by (rule life_reach.step [OF one life.crash])
  have three: "life_reach demo_sv ?w (?w\<lparr>rw_runs := fst (pg_SweepOrphans 100 10 (rw_runs ?w))\<rparr>)"
    by (rule life_reach.step [OF life_reach.start life.sweep])
  obtain r where r: "rw_runs demo_started ''r1'' = Some r" "Run_Status r = ''pending''"
    using demo_started_world by blast
  have q: "\<not> sv_queue demo_sv" by (simp add: demo_sv_def)
  from stranded_run_stays [OF q two three, of "''r1''" r] r show ?thesis by auto
qed

end
