(* ===== verification/Scheduler.thy ===== *)
theory Scheduler
  imports Cron RunLifecycle
begin

text \<open>
  The cron scheduler: its store in memory and a tick of the runner
  (\<open>backend/internal/scheduler/schedule.go\<close>, \<open>store.go\<close>, \<open>scheduler.go\<close>) and the requests that
  manage the schedules (\<open>backend/internal/handler/schedules.go\<close>).  The advisory lock that elects
  the one replica that ticks is left to PostgreSQL.  The IANA database is the parameter \<open>load\<close>,
  \<open>uuid.Parse\<close> the parameter \<open>uuid_ok\<close>.
\<close>

record Schedule =
  Sched_ID :: string
  Sched_PipelineID :: string
  Sched_Name :: string
  Sched_CronExpr :: string
  Sched_Timezone :: string
  Sched_LastRunAt :: "time option"
  Sched_LastRunID :: string
  Sched_NextRunAt :: time
  Sched_Enabled :: bool
  Sched_CreatedAt :: time
  Sched_UpdatedAt :: time

definition LoadLocation :: "(string \<Rightarrow> Location option) \<Rightarrow> Schedule \<Rightarrow> Location" where
  "LoadLocation load s =
     (if Sched_Timezone s = [] then UTC else case load (Sched_Timezone s) of None \<Rightarrow> UTC | Some loc \<Rightarrow> loc)"

subsection \<open>The store in memory\<close>

datatype sched_err = EmptyScheduleID | DuplicateSchedule string | ScheduleNotFound

type_synonym schedules = "string \<rightharpoonup> Schedule"

definition SM_List :: "string list \<Rightarrow> schedules \<Rightarrow> Schedule list" where
  "SM_List ks m = map_values ks m"

definition SM_Get :: "string \<Rightarrow> schedules \<Rightarrow> sched_err + Schedule" where
  "SM_Get i m = (case m i of None \<Rightarrow> Inl ScheduleNotFound | Some s \<Rightarrow> Inr s)"

definition SM_Create :: "time \<Rightarrow> Schedule \<Rightarrow> schedules \<Rightarrow> sched_err + schedules" where
  "SM_Create now s m =
     (if Sched_ID s = [] then Inl EmptyScheduleID
      else
        (let s = s\<lparr>Sched_CreatedAt := (if Sched_CreatedAt s = 0 then now else Sched_CreatedAt s), Sched_UpdatedAt := now\<rparr>
         in if m (Sched_ID s) \<noteq> None then Inl (DuplicateSchedule (Sched_ID s)) else Inr (m(Sched_ID s \<mapsto> s))))"

definition SM_Update :: "time \<Rightarrow> Schedule \<Rightarrow> schedules \<Rightarrow> sched_err + schedules" where
  "SM_Update now s m =
     (if m (Sched_ID s) = None then Inl ScheduleNotFound else Inr (m(Sched_ID s \<mapsto> s\<lparr>Sched_UpdatedAt := now\<rparr>)))"

definition SM_Delete :: "string \<Rightarrow> schedules \<Rightarrow> sched_err + schedules" where
  "SM_Delete i m = (if m i = None then Inl ScheduleNotFound else Inr (m(i := None)))"

definition sched_due :: "time \<Rightarrow> Schedule \<Rightarrow> bool" where
  "sched_due cutoff s \<longleftrightarrow> Sched_Enabled s \<and> \<not> Sched_NextRunAt s > cutoff"

definition SM_DueBefore :: "time \<Rightarrow> string list \<Rightarrow> schedules \<Rightarrow> Schedule list" where
  "SM_DueBefore cutoff ks m = filter (sched_due cutoff) (map_values ks m)"

definition SM_MarkFired :: "time \<Rightarrow> string \<Rightarrow> time \<Rightarrow> string \<Rightarrow> time \<Rightarrow> schedules \<Rightarrow> sched_err + schedules" where
  "SM_MarkFired now i firedAt runID nextRunAt m =
     (case m i of
        None \<Rightarrow> Inl ScheduleNotFound
      | Some s \<Rightarrow> Inr (m(i \<mapsto> s\<lparr>Sched_LastRunAt := Some firedAt, Sched_LastRunID := runID,
                      Sched_NextRunAt := nextRunAt, Sched_UpdatedAt := now\<rparr>)))"

subsection \<open>A tick\<close>

text \<open>
  What one firing sees: the location of \<open>time.Now\<close>, the clock of the store, the run id and the
  job id that are drawn, and the enqueuer.
\<close>

record sched_env =
  se_load :: "string \<Rightarrow> Location option"
  se_local :: Location
  se_clock :: time
  se_runID :: string
  se_jobID :: string
  se_marshal :: "string \<Rightarrow> string \<Rightarrow> string"
  se_maxAttempts :: int

text \<open>\<open>sched_<nanoseconds>\<close>.\<close>

definition newRunID :: "int \<Rightarrow> string" where
  "newRunID nanos = ''sched_'' @ show_int nanos"

text \<open>\<open>None\<close> when the search for the next time does not end.\<close>

definition fire :: "sched_env \<Rightarrow> time \<Rightarrow> Schedule \<Rightarrow> schedules \<times> job_map \<Rightarrow> (schedules \<times> job_map) option" where
  "fire env now s mj =
     (case Parse (Sched_CronExpr s) of
        None \<Rightarrow> None
      | Some (Inl e) \<Rightarrow>
          Some (case SM_Update (se_clock env) (s\<lparr>Sched_Enabled := False\<rparr>) (fst mj) of
                  Inl _ \<Rightarrow> mj | Inr m \<Rightarrow> (m, snd mj))
      | Some (Inr c) \<Rightarrow>
          (case EnqueueRun (se_marshal env) (se_maxAttempts env) (se_clock env) (se_jobID env)
              (Sched_PipelineID s) (se_runID env) (snd mj) of
             Inl _ \<Rightarrow> Some mj
           | Inr jobs \<Rightarrow>
               (case Next c (se_local env) now (LoadLocation (se_load env) s) of
                  None \<Rightarrow> None
                | Some None \<Rightarrow> Some (fst mj, jobs)
                | Some (Some u) \<Rightarrow>
                    Some (case SM_MarkFired (se_clock env) (Sched_ID s) now (se_runID env) u (fst mj) of
                            Inl _ \<Rightarrow> (fst mj, jobs) | Inr m \<Rightarrow> (m, jobs)))))"

fun fire_all :: "(string \<Rightarrow> sched_env) \<Rightarrow> time \<Rightarrow> Schedule list \<Rightarrow> schedules \<times> job_map \<Rightarrow> (schedules \<times> job_map) option" where
  "fire_all env now [] mj = Some mj"
| "fire_all env now (s # ss) mj =
     (case fire (env (Sched_ID s)) now s mj of None \<Rightarrow> None | Some mj \<Rightarrow> fire_all env now ss mj)"

definition tick :: "(string \<Rightarrow> sched_env) \<Rightarrow> time \<Rightarrow> string list \<Rightarrow> schedules \<times> job_map \<Rightarrow> (schedules \<times> job_map) option" where
  "tick env now ks mj = fire_all env now (SM_DueBefore now ks (fst mj)) mj"

subsection \<open>The requests\<close>

record sched_request =
  rq_PipelineID :: string
  rq_Name :: string
  rq_CronExpr :: string
  rq_Timezone :: string
  rq_Enabled :: "bool option"

datatype sched_answer = SchedOK Schedule | SchedBadRequest | SchedNotFound | SchedServerError

definition validateScheduleRequest ::
  "(string \<Rightarrow> bool) \<Rightarrow> (string \<Rightarrow> Location option) \<Rightarrow> sched_request \<Rightarrow> sched_request option" where
  "validateScheduleRequest uuid_ok load r =
     (if \<not> uuid_ok (rq_PipelineID r) then None
      else (case Parse (rq_CronExpr r) of
          Some (Inr _) \<Rightarrow>
            (let r = (if rq_Timezone r = [] then r\<lparr>rq_Timezone := ''UTC''\<rparr> else r)
             in if load (rq_Timezone r) = None then None else Some r)
        | _ \<Rightarrow> None))"

text \<open>\<open>Some None\<close> for an error.\<close>

definition nextRunFromSchedule :: "(string \<Rightarrow> Location option) \<Rightarrow> Location \<Rightarrow> time \<Rightarrow> Schedule \<Rightarrow> time option option" where
  "nextRunFromSchedule load local now s =
     (case Parse (Sched_CronExpr s) of
        None \<Rightarrow> None
      | Some (Inl _) \<Rightarrow> Some None
      | Some (Inr c) \<Rightarrow> Next c local now (LoadLocation load s))"

definition CreateSchedule ::
  "(string \<Rightarrow> bool) \<Rightarrow> (string \<Rightarrow> Location option) \<Rightarrow> Location \<Rightarrow> time \<Rightarrow> string \<Rightarrow> sched_request \<Rightarrow> schedules
    \<Rightarrow> (sched_answer \<times> schedules) option" where
  "CreateSchedule uuid_ok load local now newID r m =
     (case validateScheduleRequest uuid_ok load r of
        None \<Rightarrow> Some (SchedBadRequest, m)
      | Some r \<Rightarrow>
          (let s = \<lparr>Sched_ID = newID, Sched_PipelineID = rq_PipelineID r, Sched_Name = rq_Name r,
                 Sched_CronExpr = rq_CronExpr r, Sched_Timezone = rq_Timezone r, Sched_LastRunAt = None,
                 Sched_LastRunID = [], Sched_NextRunAt = 0,
                 Sched_Enabled = (case rq_Enabled r of None \<Rightarrow> True | Some b \<Rightarrow> b),
                 Sched_CreatedAt = 0, Sched_UpdatedAt = 0\<rparr>
           in case nextRunFromSchedule load local now s of
                None \<Rightarrow> None
              | Some None \<Rightarrow> Some (SchedBadRequest, m)
              | Some (Some u) \<Rightarrow>
                  (let s = s\<lparr>Sched_NextRunAt := u\<rparr>
                   in Some (case SM_Create now s m of Inl _ \<Rightarrow> (SchedServerError, m) | Inr m \<Rightarrow> (SchedOK s, m)))))"

definition UpdateSchedule ::
  "(string \<Rightarrow> bool) \<Rightarrow> (string \<Rightarrow> Location option) \<Rightarrow> Location \<Rightarrow> time \<Rightarrow> string \<Rightarrow> sched_request \<Rightarrow> schedules
    \<Rightarrow> (sched_answer \<times> schedules) option" where
  "UpdateSchedule uuid_ok load local now i r m =
     (case SM_Get i m of
        Inl _ \<Rightarrow> Some (SchedNotFound, m)
      | Inr existing \<Rightarrow>
          (case validateScheduleRequest uuid_ok load r of
             None \<Rightarrow> Some (SchedBadRequest, m)
           | Some r \<Rightarrow>
               (let s = existing\<lparr>Sched_PipelineID := rq_PipelineID r, Sched_Name := rq_Name r,
                      Sched_CronExpr := rq_CronExpr r, Sched_Timezone := rq_Timezone r,
                      Sched_Enabled := (case rq_Enabled r of None \<Rightarrow> Sched_Enabled existing | Some b \<Rightarrow> b)\<rparr>
                in case nextRunFromSchedule load local now s of
                     None \<Rightarrow> None
                   | Some None \<Rightarrow> Some (SchedBadRequest, m)
                   | Some (Some u) \<Rightarrow>
                       (let s = s\<lparr>Sched_NextRunAt := u\<rparr>
                        in Some (case SM_Update now s m of
                             Inl ScheduleNotFound \<Rightarrow> (SchedNotFound, m)
                           | Inl _ \<Rightarrow> (SchedServerError, m)
                           | Inr m \<Rightarrow> (SchedOK s, m))))))"

definition DeleteSchedule :: "string \<Rightarrow> schedules \<Rightarrow> bool \<times> schedules" where
  "DeleteSchedule i m = (case SM_Delete i m of Inl _ \<Rightarrow> (False, m) | Inr m \<Rightarrow> (True, m))"

subsection \<open>What a tick does\<close>

definition scheds_ok :: "schedules \<Rightarrow> bool" where
  "scheds_ok m \<longleftrightarrow> (\<forall>i s. m i = Some s \<longrightarrow> Sched_ID s = i)"

definition fixed_load :: "(string \<Rightarrow> Location option) \<Rightarrow> bool" where
  "fixed_load load \<longleftrightarrow> (\<forall>z loc. load z = Some loc \<longrightarrow> (\<exists>off. fixed_zone off loc \<and> 60 dvd off))"

lemma fixed_LoadLocation: "fixed_load load \<Longrightarrow> \<exists>off. fixed_zone off (LoadLocation load s) \<and> 60 dvd off"
  by (auto simp: LoadLocation_def fixed_load_def fixed_zone_def UTC_def split: option.splits)

text \<open>The rows a due schedule can have afterwards.\<close>

definition fired_row :: "sched_env \<Rightarrow> time \<Rightarrow> Schedule \<Rightarrow> Schedule \<Rightarrow> bool" where
  "fired_row env now s s' \<longleftrightarrow>
     s' = s\<lparr>Sched_Enabled := False, Sched_UpdatedAt := se_clock env\<rparr> \<and> (\<exists>e. Parse (Sched_CronExpr s) = Some (Inl e)) \<or>
     (\<exists>c u. Parse (Sched_CronExpr s) = Some (Inr c) \<and> now < u \<and> cron_at c (LoadLocation (se_load env) s) u \<and>
        s' = s\<lparr>Sched_LastRunAt := Some now, Sched_LastRunID := se_runID env, Sched_NextRunAt := u,
               Sched_UpdatedAt := se_clock env\<rparr>) \<or>
     (\<exists>c. Parse (Sched_CronExpr s) = Some (Inr c) \<and> s' = s)"

lemma fire_row:
  assumes "fixed_load (se_load env)" "m (Sched_ID s) = Some s"
  shows "\<exists>m' jobs' s'. fire env now s (m, jobs) = Some (m', jobs') \<and> m' = m(Sched_ID s \<mapsto> s') \<and> fired_row env now s s'"
proof -
  obtain r where r: "Parse (Sched_CronExpr s) = Some r" using Parse_total by blast
  show ?thesis
  proof (cases r)
    case (Inl e)
    with r assms(2) show ?thesis
      by (auto simp: fire_def SM_Update_def fired_row_def intro!: exI)
  next
    case (Inr c)
    have same: "m = m(Sched_ID s \<mapsto> s)" using assms(2) by (simp add: fun_upd_idem)
    have keep: "fired_row env now s s" using r Inr by (simp add: fired_row_def)
    show ?thesis
    proof (cases "EnqueueRun (se_marshal env) (se_maxAttempts env) (se_clock env) (se_jobID env)
        (Sched_PipelineID s) (se_runID env) jobs")
      case (Inl e)
      with r Inr have "fire env now s (m, jobs) = Some (m, jobs)" by (simp add: fire_def)
      with same keep show ?thesis by blast
    next
      case enq: (Inr jobs')
      obtain off where "fixed_zone off (LoadLocation (se_load env) s)" "60 dvd off"
        using fixed_LoadLocation [OF assms(1)] by blast
      from Next_match [OF this, of c "se_local env" now]
      obtain n where n: "Next c (se_local env) now (LoadLocation (se_load env) s) = Some n"
        "\<And>u. n = Some u \<Longrightarrow> now < u \<and> cron_at c (LoadLocation (se_load env) s) u" by blast
      show ?thesis
      proof (cases n)
        case None
        with r Inr enq n(1) have "fire env now s (m, jobs) = Some (m, jobs')" by (simp add: fire_def)
        with same keep show ?thesis by blast
      next
        case (Some u)
        with r Inr enq n assms(2) show ?thesis by (auto simp: fire_def SM_MarkFired_def fired_row_def intro!: exI)
      qed
    qed
  qed
qed

lemma fire_all_rows:
  assumes "\<And>i. fixed_load (se_load (env i))" "distinct (map Sched_ID ss)" "\<And>s. s \<in> set ss \<Longrightarrow> m (Sched_ID s) = Some s"
  shows "\<exists>m' jobs'. fire_all env now ss (m, jobs) = Some (m', jobs') \<and>
    (\<forall>i. i \<notin> Sched_ID ` set ss \<longrightarrow> m' i = m i) \<and>
    (\<forall>s \<in> set ss. \<exists>s'. m' (Sched_ID s) = Some s' \<and> fired_row (env (Sched_ID s)) now s s')"
  using assms(2,3)
proof (induction ss arbitrary: m jobs)
  case (Cons s ss)
  have row: "m (Sched_ID s) = Some s" using Cons.prems(2) by simp
  obtain m1 jobs1 s' where f: "fire (env (Sched_ID s)) now s (m, jobs) = Some (m1, jobs1)"
      "m1 = m(Sched_ID s \<mapsto> s')" "fired_row (env (Sched_ID s)) now s s'"
    using fire_row [where env = "env (Sched_ID s)" and now = now and jobs = jobs and m = m and s = s, OF assms(1) row] by blast
  have fresh: "Sched_ID s \<notin> Sched_ID ` set ss" "distinct (map Sched_ID ss)" using Cons.prems(1) by auto
  have rest: "m1 (Sched_ID t) = Some t" if "t \<in> set ss" for t
    using Cons.prems(2) [of t] that fresh(1) f(2) by (metis fun_upd_other image_eqI list.set_intros(2))
  from Cons.IH [OF fresh(2) rest, of jobs1] obtain m' jobs' where
    g: "fire_all env now ss (m1, jobs1) = Some (m', jobs')" "\<forall>i. i \<notin> Sched_ID ` set ss \<longrightarrow> m' i = m1 i"
      "\<forall>s \<in> set ss. \<exists>s'. m' (Sched_ID s) = Some s' \<and> fired_row (env (Sched_ID s)) now s s'" by blast
  have "m' (Sched_ID s) = Some s'" using g(2) fresh(1) f(2) by simp
  then show ?case using f g by auto
qed simp


subsection \<open>What becomes of a scheduled run\<close>

text \<open>
  The run a firing enqueues is never executed: firing creates no row for it, and when the
  worker loads the job it finds no row with the run's id and returns an error.
\<close>

theorem scheduled_run_never_loads:
  assumes "\<And>p r. unmarshal (se_marshal env p r) = Some (p, r)"
    and "fire env now s (m, jobs) = Some (m', jobs')" "jobs' \<noteq> jobs"
    and "runs (se_runID env) = None"
  shows "\<exists>job e. jobs' (se_jobID env) = Some job \<and> job_Kind job = ''pipeline-run'' \<and>
    Handle_load unmarshal pipelines False job runs = Inl e \<and>
    (e = MissingIds \<or> e = GetPipeline (Sched_PipelineID s) \<or> e = GetRun (se_runID env) (RunNotFound (se_runID env)))"
proof -
  have "EnqueueRun (se_marshal env) (se_maxAttempts env) (se_clock env) (se_jobID env)
      (Sched_PipelineID s) (se_runID env) jobs = Inr jobs'"
    using assms(2,3) by (auto simp: fire_def split: option.splits sum.splits)
  then obtain job where "jobs' (se_jobID env) = Some job" "job_Kind job = ''pipeline-run''"
      "job_Payload job = se_marshal env (Sched_PipelineID s) (se_runID env)"
    by (auto simp: EnqueueRun_def JobMem_Enqueue_def Let_def split: sum.splits if_splits)
  moreover from this have "\<exists>e. Handle_load unmarshal pipelines False job runs = Inl e \<and>
    (e = MissingIds \<or> e = GetPipeline (Sched_PipelineID s) \<or> e = GetRun (se_runID env) (RunNotFound (se_runID env)))"
    using assms(1,4) by (auto simp: Handle_load_def pg_Get_def split: option.split)
  ultimately show ?thesis by blast
qed

subsection \<open>Concrete schedules\<close>

definition demo_schedule :: "string \<Rightarrow> Schedule" where
  "demo_schedule expr = \<lparr>Sched_ID = ''s'', Sched_PipelineID = ''p'', Sched_Name = [], Sched_CronExpr = expr,
     Sched_Timezone = ''UTC'', Sched_LastRunAt = None, Sched_LastRunID = [], Sched_NextRunAt = 5,
     Sched_Enabled = True, Sched_CreatedAt = 1, Sched_UpdatedAt = 1\<rparr>"

definition demo_sched_env :: sched_env where
  "demo_sched_env = \<lparr>se_load = (\<lambda>_. None), se_local = UTC, se_clock = 9, se_runID = ''sched_7'', se_jobID = ''job_7'',
     se_marshal = (\<lambda>p r. replicate (length p) CHR ''x'' @ ''/'' @ p @ r), se_maxAttempts = 1\<rparr>"


text \<open>A payload that can be read back, for the hypothesis on the JSON text.\<close>

definition demo_unmarshal :: "string \<Rightarrow> (string \<times> string) option" where
  "demo_unmarshal t =
     (let n = length (takeWhile (\<lambda>c. c = CHR ''x'') t); r = drop (n + 1) t in Some (take n r, drop n r))"

lemma demo_unmarshal_marshal: "demo_unmarshal (se_marshal demo_sched_env p r) = Some (p, r)"
proof -
  have "takeWhile (\<lambda>c. c = CHR ''x'') (replicate (length p) CHR ''x'' @ ''/'' @ p @ r) = replicate (length p) CHR ''x''"
    by (simp add: takeWhile_append)
  then show ?thesis by (simp add: demo_unmarshal_def demo_sched_env_def Let_def)
qed

theorem scheduled_run_never_loads_witness:
  "\<exists>m' jobs' job e. fire demo_sched_env 7 (demo_schedule ''59 23 * * *'') (Map.empty, Map.empty) = Some (m', jobs') \<and>
     jobs' ''job_7'' = Some job \<and> Handle_load demo_unmarshal (\<lambda>_. Some demo_pipeline_row) False job Map.empty = Inl e"
proof -
  obtain jobs' where e: "EnqueueRun (se_marshal demo_sched_env) (se_maxAttempts demo_sched_env)
      (se_clock demo_sched_env) (se_jobID demo_sched_env) (Sched_PipelineID (demo_schedule ''59 23 * * *''))
      (se_runID demo_sched_env) Map.empty = Inr jobs'" "jobs' \<noteq> Map.empty"
    by (simp add: EnqueueRun_def JobMem_Enqueue_def demo_sched_env_def Let_def)
  have "fixed_zone 0 (LoadLocation (se_load demo_sched_env) (demo_schedule ''59 23 * * *''))"
    by (simp add: LoadLocation_def demo_sched_env_def fixed_zone_def UTC_def)
  from Next_match [OF this, of nightly "se_local demo_sched_env" 7] obtain n where
    n: "Next nightly (se_local demo_sched_env) 7 (LoadLocation (se_load demo_sched_env) (demo_schedule ''59 23 * * *'')) = Some n"
    by auto
  have "Sched_CronExpr (demo_schedule ''59 23 * * *'') = ''59 23 * * *''" by (simp add: demo_schedule_def)
  then obtain m' where "fire demo_sched_env 7 (demo_schedule ''59 23 * * *'') (Map.empty, Map.empty) = Some (m', jobs')"
    using e n nightly_parsed by (cases n) (auto simp: fire_def SM_MarkFired_def)
  with scheduled_run_never_loads [OF demo_unmarshal_marshal this e(2), where runs = Map.empty
      and pipelines = "\<lambda>_. Some demo_pipeline_row"]
  show ?thesis by (auto simp: demo_sched_env_def)
qed

text \<open>The memory store does not order what is due.\<close>

lemma DueBefore_unordered:
  "map Sched_NextRunAt (SM_DueBefore 9 [''b'', ''a'']
     [''a'' \<mapsto> demo_schedule ''x''\<lparr>Sched_NextRunAt := 1\<rparr>, ''b'' \<mapsto> demo_schedule ''x''\<lparr>Sched_NextRunAt := 2\<rparr>]) = [2, 1]"
  by (simp add: SM_DueBefore_def map_values_def List.map_filter_def sched_due_def demo_schedule_def)

end
