(* ===== verification/Base64.thy ===== *)
theory Base64
  imports Prelude
begin

text \<open>
  Go's \<open>encoding/base64\<close> as far as tokens, tickets and licenses use it: \<open>RawURLEncoding\<close> without
  padding and \<open>StdEncoding\<close> with it, both lenient about the unused bits of a last quantum and
  deaf to line breaks.  A byte sequence is a \<open>string\<close>.
\<close>

subsection \<open>The two alphabets\<close>

definition b64_char :: "bool \<Rightarrow> nat \<Rightarrow> char" where
  "b64_char url v =
     char_of (if v < 26 then 65 + v else if v < 52 then 71 + v else if v < 62 then v - 4
              else if v = 62 then (if url then 45 else 43) else (if url then 95 else 47))"

definition b64_value :: "bool \<Rightarrow> char \<Rightarrow> nat option" where
  "b64_value url ch =
     (let c = of_char ch in
      if 65 \<le> c \<and> c \<le> 90 then Some (c - 65)
      else if 97 \<le> c \<and> c \<le> 122 then Some (c - 71)
      else if 48 \<le> c \<and> c \<le> 57 then Some (c + 4)
      else if c = (if url then 45 else 43) then Some 62
      else if c = (if url then 95 else 47) then Some 63
      else None)"

lemma of_char_b64_char:
  "v < 64 \<Longrightarrow> of_char (b64_char url v) =
     (if v < 26 then 65 + v else if v < 52 then 71 + v else if v < 62 then v - 4
      else if v = 62 then (if url then 45 else 43) else (if url then 95 else (47 :: nat)))"
  by (auto simp: b64_char_def of_char_of)

lemma b64_value_char [simp]: "v < 64 \<Longrightarrow> b64_value url (b64_char url v) = Some v"
  by (auto simp: b64_value_def of_char_b64_char Let_def)

text \<open>A digit is a letter, a decimal digit, or one of the two extra characters.\<close>

definition b64_digit :: "bool \<Rightarrow> char \<Rightarrow> bool" where
  "b64_digit url ch \<longleftrightarrow> b64_value url ch \<noteq> None"

lemma b64_char_digit [simp]: "v < 64 \<Longrightarrow> b64_digit url (b64_char url v)"
  by (simp add: b64_digit_def)

lemma b64_digit_url: "b64_digit True ch \<Longrightarrow> (45 :: nat) \<le> of_char ch \<and> of_char ch \<noteq> (46 :: nat) \<and> of_char ch < (128 :: nat)"
  by (auto simp: b64_digit_def b64_value_def Let_def split: if_splits)

subsection \<open>Quanta of three bytes and four digits\<close>

fun sextets :: "nat list \<Rightarrow> nat list" where
  "sextets [] = []"
| "sextets [a] = (let v = a * 65536 in [v div 262144 mod 64, v div 4096 mod 64])"
| "sextets [a, b] = (let v = a * 65536 + b * 256 in [v div 262144 mod 64, v div 4096 mod 64, v div 64 mod 64])"
| "sextets (a # b # c # r) =
     (let v = a * 65536 + b * 256 + c
      in [v div 262144 mod 64, v div 4096 mod 64, v div 64 mod 64, v mod 64] @ sextets r)"

fun bytes_of :: "nat list \<Rightarrow> nat list option" where
  "bytes_of [] = Some []"
| "bytes_of [x] = None"
| "bytes_of [x, y] = (let v = x * 262144 + y * 4096 in Some [v div 65536 mod 256])"
| "bytes_of [x, y, z] =
     (let v = x * 262144 + y * 4096 + z * 64 in Some [v div 65536 mod 256, v div 256 mod 256])"
| "bytes_of (x # y # z # w # r) =
     (let v = x * 262144 + y * 4096 + z * 64 + w
      in map_option (\<lambda>bs. [v div 65536 mod 256, v div 256 mod 256, v mod 256] @ bs) (bytes_of r))"

lemma split4:
  assumes "v < (16777216 :: nat)"
  shows "v div 262144 mod 64 * 262144 + v div 4096 mod 64 * 4096 + v div 64 mod 64 * 64 + v mod 64 = v"
proof -
  define x y z where "x = v div 64" and "y = x div 64" and "z = y div 64"
  have d: "v div 64 = x" "v div 4096 = y" "v div 262144 = z"
    by (simp_all add: x_def y_def z_def div_mult2_eq [symmetric])
  have "z < 64" using assms unfolding d(3) [symmetric] by (intro less_mult_imp_div_less) simp
  then have m: "z mod 64 = z" by simp
  have "v = x * 64 + v mod 64" unfolding x_def by (rule div_mult_mod_eq [symmetric])
  moreover have "x = y * 64 + x mod 64" unfolding y_def by (rule div_mult_mod_eq [symmetric])
  moreover have "y = z * 64 + y mod 64" unfolding z_def by (rule div_mult_mod_eq [symmetric])
  ultimately show ?thesis unfolding d m by linarith
qed

lemma digit_of_sum:
  assumes "x < (n :: nat)"
  shows "(m * n + x) mod n = x" "(m * n + x) div n = m"
  using assms by (simp_all add: mult.commute)

lemma bytes3:
  assumes "a < 256" "b < 256" "c < (256 :: nat)"
  shows "(a * 65536 + b * 256 + c) div 65536 mod 256 = a"
    "(a * 65536 + b * 256 + c) div 256 mod 256 = b"
    "(a * 65536 + b * 256 + c) mod 256 = c"
    "a * 65536 + b * 256 + c < 16777216"
proof -
  have v: "a * 65536 + b * 256 + c = (a * 256 + b) * 256 + c" by simp
  have q: "(a * 65536 + b * 256 + c) div 256 = a * 256 + b"
    unfolding v by (rule digit_of_sum(2) [OF assms(3)])
  show "(a * 65536 + b * 256 + c) div 256 mod 256 = b"
    unfolding q by (rule digit_of_sum(1) [OF assms(2)])
  have "(a * 65536 + b * 256 + c) div 65536 = (a * 65536 + b * 256 + c) div 256 div 256"
    by (simp add: div_mult2_eq [symmetric])
  also have "\<dots> = a" unfolding q by (rule digit_of_sum(2) [OF assms(2)])
  finally show "(a * 65536 + b * 256 + c) div 65536 mod 256 = a" using assms(1) by simp
  show "(a * 65536 + b * 256 + c) mod 256 = c" unfolding v by (rule digit_of_sum(1) [OF assms(3)])
  show "a * 65536 + b * 256 + c < 16777216" using assms by linarith
qed

lemma bytes_of_sextets:
  "\<forall>x \<in> set bs. x < 256 \<Longrightarrow> bytes_of (sextets bs) = Some bs"
proof (induction bs rule: sextets.induct)
  case (2 a)
  let ?v = "a * 65536 :: nat"
  have "?v = a * 1024 * 64 + 0" "?v div 64 = a * 16 * 64 + 0" by simp_all
  then have m: "?v mod 64 = 0" "?v div 64 mod 64 = 0" by (metis digit_of_sum(1) zero_less_numeral)+
  have b: "?v < 16777216" "?v div 65536 mod 256 = a" using bytes3 [of a 0 0] 2 by simp_all
  show ?case using split4 [OF b(1)] m b(2) by (simp only: sextets.simps Let_def bytes_of.simps) simp
next
  case (3 a b)
  let ?v = "a * 65536 + b * 256 :: nat"
  have "?v = (a * 1024 + b * 4) * 64 + 0" by simp
  then have m: "?v mod 64 = 0" by (metis digit_of_sum(1) zero_less_numeral)
  have b: "?v < 16777216" "?v div 65536 mod 256 = a" "?v div 256 mod 256 = b" using bytes3 [of a b 0] 3 by simp_all
  show ?case using split4 [OF b(1)] m b(2,3) by (simp only: sextets.simps Let_def bytes_of.simps) simp
next
  case (4 a b c r)
  let ?v = "a * 65536 + b * 256 + c"
  have abc: "a < 256" "b < 256" "c < 256" and r: "bytes_of (sextets r) = Some r"
    using 4 by auto
  note s = split4 [OF bytes3(4) [OF abc]]
  show ?case
    by (simp only: sextets.simps Let_def append.simps bytes_of.simps s r option.map bytes3 [OF abc])
qed simp

lemma sextets_bound: "\<forall>s \<in> set (sextets bs). s < 64"
  by (induction bs rule: sextets.induct) (auto simp: Let_def)

lemma length_sextets: "length (sextets bs) = (4 * length bs + 2) div 3"
  by (induction bs rule: sextets.induct) (auto simp: Let_def)

subsection \<open>Encoding and decoding\<close>

definition RawURL_Encode :: "string \<Rightarrow> string" where
  "RawURL_Encode bs = map (b64_char True) (sextets (map of_char bs))"

definition no_breaks :: "string \<Rightarrow> string" where
  "no_breaks s = filter (\<lambda>c. of_char c \<noteq> (10 :: nat) \<and> of_char c \<noteq> (13 :: nat)) s"

fun digit_values :: "bool \<Rightarrow> string \<Rightarrow> nat list option" where
  "digit_values url [] = Some []"
| "digit_values url (c # cs) =
     (case b64_value url c of None \<Rightarrow> None | Some v \<Rightarrow> map_option (\<lambda>vs. v # vs) (digit_values url cs))"

definition decode_digits :: "bool \<Rightarrow> string \<Rightarrow> string option" where
  "decode_digits url s =
     (case digit_values url s of None \<Rightarrow> None | Some vs \<Rightarrow> map_option (map char_of) (bytes_of vs))"

definition RawURL_Decode :: "string \<Rightarrow> string option" where
  "RawURL_Decode s = decode_digits True (no_breaks s)"

text \<open>
  With padding the digits come in fours, and only the last four may end in one or two pad
  characters.
\<close>

definition Std_Decode :: "string \<Rightarrow> string option" where
  "Std_Decode s =
     (let cs = no_breaks s;
          pads = length (takeWhile (\<lambda>c. c = CHR ''='') (rev cs))
      in if length cs mod 4 = 0 \<and> pads \<le> 2 then decode_digits False (take (length cs - pads) cs) else None)"

definition Std_Encode :: "string \<Rightarrow> string" where
  "Std_Encode bs =
     (let ds = map (b64_char False) (sextets (map of_char bs))
      in ds @ replicate ((4 - length ds mod 4) mod 4) (CHR ''=''))"

lemma digit_values_map: "\<forall>v \<in> set vs. v < 64 \<Longrightarrow> digit_values url (map (b64_char url) vs) = Some vs"
  by (induction vs) auto

lemma Encode_digits: "c \<in> set (RawURL_Encode bs) \<Longrightarrow> b64_digit True c"
  using sextets_bound [of "map of_char bs"] by (auto simp: RawURL_Encode_def)

lemma no_breaks_Encode: "no_breaks (RawURL_Encode bs) = RawURL_Encode bs"
  unfolding no_breaks_def by (rule filter_True) (use Encode_digits b64_digit_url in fastforce)

lemma RawURL_roundtrip [simp]: "RawURL_Decode (RawURL_Encode bs) = Some bs"
proof -
  have "bytes_of (sextets (map of_char bs)) = Some (map of_char bs)"
    by (rule bytes_of_sextets) simp
  then show ?thesis
    unfolding RawURL_Decode_def no_breaks_Encode
    by (simp add: decode_digits_def RawURL_Encode_def digit_values_map sextets_bound comp_def)
qed

lemma RawURL_Encode_eq_iff: "RawURL_Encode a = RawURL_Encode b \<longleftrightarrow> a = b"
  by (metis RawURL_roundtrip option.inject)

lemma RawURL_Encode_empty [simp]: "RawURL_Encode bs = [] \<longleftrightarrow> bs = []"
  by (metis RawURL_Encode_eq_iff RawURL_Encode_def list.map(1) sextets.simps(1))

lemma length_RawURL_Encode: "length (RawURL_Encode bs) = (4 * length bs + 2) div 3"
  by (simp add: RawURL_Encode_def length_sextets)

lemma Std_roundtrip:
  "Std_Decode (Std_Encode bs) = Some bs"
proof -
  define ds where "ds = map (b64_char False) (sextets (map of_char bs))"
  define n where "n = (4 - length ds mod 4) mod 4"
  have dig: "b64_digit False c" if "c \<in> set ds" for c
    using that sextets_bound [of "map of_char bs"] by (auto simp: ds_def)
  have nobreak: "of_char c \<noteq> (10 :: nat) \<and> of_char c \<noteq> (13 :: nat)" if "b64_digit False c \<or> c = CHR ''=''" for c
    using that by (auto simp: b64_digit_def b64_value_def Let_def split: if_splits)
  have noeq: "c \<noteq> CHR ''=''" if "b64_digit False c" for c
    using that by (auto simp: b64_digit_def b64_value_def Let_def split: if_splits)
  have nb: "no_breaks (ds @ replicate n (CHR ''='')) = ds @ replicate n (CHR ''='')"
    unfolding no_breaks_def by (rule filter_True, rule ballI, rule nobreak) (use dig in auto)
  have pads: "takeWhile (\<lambda>c. c = CHR ''='') (rev (ds @ replicate n (CHR ''=''))) = replicate n (CHR ''='')"
    using dig noeq by (cases ds rule: rev_cases) (simp_all add: takeWhile_append)
  have len: "length ds = (4 * length bs + 2) div 3" by (simp add: ds_def length_sextets)
  obtain k m where bs: "length bs = 3 * k + m" "m < 3"
    by (metis mod_less_divisor mult_div_mod_eq zero_less_numeral)
  have l4: "length ds = (4 * m + 2) div 3 + k * 4"
  proof -
    have "4 * (3 * k + m) + 2 = 4 * m + 2 + 4 * k * 3" by simp
    then show ?thesis unfolding len bs(1) by (simp only: div_mult_self1 [of 3])
  qed
  then have r: "length ds mod 4 = (4 * m + 2) div 3 mod 4" by (simp only: mod_mult_self1)
  from bs(2) consider "m = 0" | "m = 1" | "m = 2" by linarith
  then have n: "n \<le> 2 \<and> (length ds + n) mod 4 = 0"
  proof cases
    case 1
    with r have "length ds mod 4 = 0" by simp
    then show ?thesis by (simp add: n_def)
  next
    case 2
    with r have "length ds mod 4 = 2" by simp
    then have "n = 2" by (simp add: n_def)
    with \<open>length ds mod 4 = 2\<close> show ?thesis by presburger
  next
    case 3
    with r have "length ds mod 4 = 3" by simp
    then have "n = 1" by (simp add: n_def)
    with \<open>length ds mod 4 = 3\<close> show ?thesis by presburger
  qed
  have "bytes_of (sextets (map of_char bs)) = Some (map of_char bs)" by (rule bytes_of_sextets) simp
  then have dec: "decode_digits False ds = Some bs"
    unfolding ds_def decode_digits_def by (simp add: digit_values_map sextets_bound comp_def)
  show ?thesis
    unfolding Std_Encode_def ds_def [symmetric] Let_def n_def [symmetric] Std_Decode_def nb pads
    using n dec by simp
qed

text \<open>Without its pad characters a text of another length is not standard base64.\<close>

lemma Std_Decode_length: "length (no_breaks s) mod 4 \<noteq> 0 \<Longrightarrow> Std_Decode s = None"
  by (simp add: Std_Decode_def Let_def)

end
