(* ===== verification/Licensing.thy ===== *)
theory Licensing
  imports Auth Base64 Strings
begin

text \<open>
  Self-hosted licenses: the token format and its verification (\<open>backend/internal/license/verify.go\<close>),
  the vendor's signing tool (\<open>backend/cmd/cooker-license/main.go\<close>), the service with its store
  (\<open>backend/internal/service/license.go\<close>, \<open>store/memory/license.go\<close>), the install at boot
  (\<open>backend/internal/server/server.go\<close>) and the feature gate (\<open>server/entitlement.go\<close>).

  Ed25519 and the JSON encoding of the claims are parameters: \<open>ed_verify key message signature\<close>,
  \<open>ed_sign\<close>, \<open>json_of\<close> and \<open>of_json\<close>.  Where a theorem needs what they promise, it says so: a
  signature verifies under the matching key and has 64 bytes, and JSON gives the claims back.
\<close>

subsection \<open>The token\<close>

record LicClaims =
  LC_Plan :: string
  LC_Seats :: int
  LC_Features :: "string list"
  LC_Customer :: string
  LC_IssuedAt :: int
  LC_ExpiresAt :: int

datatype license_err = ErrMalformed | ErrBadSignature | ErrBadKey

text \<open>\<open>time.Unix(sec, 0)\<close>: the seconds since year 1 are kept in 64 bits.\<close>

definition time_Unix :: "int \<Rightarrow> time" where
  "time_Unix sec = wrap64 (sec + 62135596800) * Second"

definition IssuedAtTime :: "LicClaims \<Rightarrow> time" where
  "IssuedAtTime c = (if LC_IssuedAt c = 0 then 0 else time_Unix (LC_IssuedAt c))"

definition ExpiresAtTime :: "LicClaims \<Rightarrow> time option" where
  "ExpiresAtTime c = (if LC_ExpiresAt c = 0 then None else Some (time_Unix (LC_ExpiresAt c)))"

definition LicClaims_IsExpired :: "time \<Rightarrow> LicClaims \<Rightarrow> bool" where
  "LicClaims_IsExpired now c = (case ExpiresAtTime c of None \<Rightarrow> False | Some t \<Rightarrow> \<not> t > now)"

definition License_Encode :: "string \<Rightarrow> string \<Rightarrow> string" where
  "License_Encode payloadJSON sig = RawURL_Encode payloadJSON @ CHR ''.'' # RawURL_Encode sig"

definition Verify :: "(string \<Rightarrow> string \<Rightarrow> string \<Rightarrow> bool) \<Rightarrow> (string \<Rightarrow> LicClaims option) \<Rightarrow>
    string \<Rightarrow> string \<Rightarrow> license_err + LicClaims" where
  "Verify ed_verify of_json token pubKey =
     (if length pubKey \<noteq> 32 then Inl ErrBadKey
      else
        (case split_at CHR ''.'' (TrimSpace token) of
           [p0, p1] \<Rightarrow>
             if p0 = [] \<or> p1 = [] then Inl ErrMalformed
             else (case RawURL_Decode p0 of
                 None \<Rightarrow> Inl ErrMalformed
               | Some payloadJSON \<Rightarrow>
                   (case RawURL_Decode p1 of
                      None \<Rightarrow> Inl ErrMalformed
                    | Some sig \<Rightarrow>
                        if length sig \<noteq> 64 then Inl ErrMalformed
                        else if \<not> ed_verify pubKey payloadJSON sig then Inl ErrBadSignature
                        else (case of_json payloadJSON of
                            None \<Rightarrow> Inl ErrMalformed
                          | Some claims \<Rightarrow> Inr claims)))
         | _ \<Rightarrow> Inl ErrMalformed))"

text \<open>The loop over the keys with its two flags.\<close>

fun VerifyAny_loop :: "(string \<Rightarrow> string \<Rightarrow> string \<Rightarrow> bool) \<Rightarrow> (string \<Rightarrow> LicClaims option) \<Rightarrow>
    string \<Rightarrow> string list \<Rightarrow> bool \<Rightarrow> bool \<Rightarrow> license_err + LicClaims" where
  "VerifyAny_loop ed_verify of_json token [] usable malformed =
     (if \<not> usable then Inl ErrBadKey else if malformed then Inl ErrMalformed else Inl ErrBadSignature)"
| "VerifyAny_loop ed_verify of_json token (k # ks) usable malformed =
     (case Verify ed_verify of_json token k of
        Inr claims \<Rightarrow> Inr claims
      | Inl ErrBadKey \<Rightarrow> VerifyAny_loop ed_verify of_json token ks usable malformed
      | Inl ErrMalformed \<Rightarrow> VerifyAny_loop ed_verify of_json token ks True True
      | Inl ErrBadSignature \<Rightarrow> VerifyAny_loop ed_verify of_json token ks True malformed)"

definition VerifyAny :: "(string \<Rightarrow> string \<Rightarrow> string \<Rightarrow> bool) \<Rightarrow> (string \<Rightarrow> LicClaims option) \<Rightarrow>
    string \<Rightarrow> string list \<Rightarrow> license_err + LicClaims" where
  "VerifyAny ed_verify of_json token ks =
     (if ks = [] then Inl ErrBadKey else VerifyAny_loop ed_verify of_json token ks False False)"

definition DecodePublicKey :: "string \<Rightarrow> license_err + string" where
  "DecodePublicKey s0 =
     (let s = TrimSpace s0 in
      if s = [] then Inl ErrBadKey
      else (case (case Std_Decode s of None \<Rightarrow> RawURL_Decode s | Some raw \<Rightarrow> Some raw) of
          None \<Rightarrow> Inl ErrBadKey
        | Some raw \<Rightarrow> if length raw \<noteq> 32 then Inl ErrBadKey else Inr raw))"

subsection \<open>What verification accepts\<close>

lemma RawURL_digit_space: "b64_digit True c \<Longrightarrow> \<not> is_space (of_char c) \<and> of_char c < (128 :: nat)"
  using b64_digit_url [of c] by (auto simp: is_space_def)

lemma Encode_no_dot: "CHR ''.'' \<notin> set (RawURL_Encode bs)"
  using Encode_digits b64_digit_url by fastforce

lemma Trim_License_Encode:
  assumes "p \<noteq> []" "sig \<noteq> []" "ascii_spaces a" "ascii_spaces b"
  shows "TrimSpace (a @ License_Encode p sig @ b) = License_Encode p sig"
proof (rule TrimSpace_between [OF assms(3,4)])
  have dig: "c \<in> set (RawURL_Encode x) \<Longrightarrow> \<not> is_space (of_char c) \<and> of_char c < (128 :: nat)" for c x
    using Encode_digits RawURL_digit_space by blast
  show "ascii (License_Encode p sig)" using dig by (auto simp: ascii_def License_Encode_def)
  show "License_Encode p sig \<noteq> []" by (simp add: License_Encode_def)
  have "hd (RawURL_Encode p) \<in> set (RawURL_Encode p)" "last (RawURL_Encode sig) \<in> set (RawURL_Encode sig)"
    using assms(1,2) by simp_all
  from dig [OF this(1)] dig [OF this(2)] assms(1,2) show "\<not> is_space (of_char (hd (License_Encode p sig)))"
    "\<not> is_space (of_char (last (License_Encode p sig)))"
    by (simp_all add: License_Encode_def)
qed

lemma Verify_Encode:
  assumes "length pubKey = 32" "length sig = 64" "p \<noteq> []" "ascii_spaces a" "ascii_spaces b"
  shows "Verify ed_verify of_json (a @ License_Encode p sig @ b) pubKey =
    (if \<not> ed_verify pubKey p sig then Inl ErrBadSignature
     else case of_json p of None \<Rightarrow> Inl ErrMalformed | Some claims \<Rightarrow> Inr claims)"
proof -
  have "sig \<noteq> []" using assms(2) by auto
  note trim = Trim_License_Encode [OF assms(3) this assms(4,5)]
  have split: "split_at CHR ''.'' (License_Encode p sig) = [RawURL_Encode p, RawURL_Encode sig]"
    unfolding License_Encode_def by (simp add: split_at_append split_at_notin Encode_no_dot)
  show ?thesis
    unfolding Verify_def trim split using assms(1-3) \<open>sig \<noteq> []\<close> by simp
qed

text \<open>A usable key says more than the shape of the token only when the signature is its own.\<close>

lemma Verify_accepts:
  "Verify ed_verify of_json token pubKey = Inr claims \<longleftrightarrow>
   length pubKey = 32 \<and>
   (\<exists>p0 p1 payload sig. TrimSpace token = p0 @ CHR ''.'' # p1 \<and> CHR ''.'' \<notin> set p0 \<and> CHR ''.'' \<notin> set p1 \<and>
      p0 \<noteq> [] \<and> p1 \<noteq> [] \<and> RawURL_Decode p0 = Some payload \<and> RawURL_Decode p1 = Some sig \<and>
      length sig = 64 \<and> ed_verify pubKey payload sig \<and> of_json payload = Some claims)"
  (is "?l \<longleftrightarrow> ?r")
proof
  assume ?l
  then show ?r
    by (auto simp: Verify_def split: if_splits list.splits option.splits dest!: split_at_two)
next
  assume ?r
  then obtain p0 p1 payload sig where t: "TrimSpace token = p0 @ CHR ''.'' # p1" "CHR ''.'' \<notin> set p0"
      "CHR ''.'' \<notin> set p1" "p0 \<noteq> []" "p1 \<noteq> []" "RawURL_Decode p0 = Some payload"
      "RawURL_Decode p1 = Some sig" "length sig = 64" "ed_verify pubKey payload sig"
      "of_json payload = Some claims" and k: "length pubKey = 32"
    by blast
  have "split_at CHR ''.'' (TrimSpace token) = [p0, p1]"
    unfolding t(1) by (simp only: split_at_append [OF t(2)] split_at_notin [OF t(3)])
  with t k show ?l by (simp add: Verify_def)
qed

lemma Verify_ErrBadKey: "Verify ed_verify of_json token k = Inl ErrBadKey \<longleftrightarrow> length k \<noteq> 32"
  by (auto simp: Verify_def split: list.splits option.splits)

text \<open>
  The keys are tried in order and the first that verifies decides; when none does, a broken
  token is reported before a foreign signature, and keys of a wrong length do not count.
\<close>

lemma VerifyAny_loop_result:
  "(malformed \<longrightarrow> usable) \<Longrightarrow> VerifyAny_loop ed_verify of_json token ks usable malformed =
   (case find (\<lambda>k. \<exists>c. Verify ed_verify of_json token k = Inr c) ks of
      Some k \<Rightarrow> Verify ed_verify of_json token k
    | None \<Rightarrow>
        if \<not> usable \<and> (\<forall>k \<in> set ks. length k \<noteq> 32) then Inl ErrBadKey
        else if malformed \<or> (\<exists>k \<in> set ks. Verify ed_verify of_json token k = Inl ErrMalformed) then Inl ErrMalformed
        else Inl ErrBadSignature)"
proof (induction ks arbitrary: usable malformed)
  case (Cons k ks)
  obtain r where r: "Verify ed_verify of_json token k = r" by simp
  consider (good) c where "r = Inr c" | (key) "r = Inl ErrBadKey" | (malf) "r = Inl ErrMalformed"
    | (sig) "r = Inl ErrBadSignature"
    by (cases r; cases "projl r") auto
  then show ?case
  proof cases
    case good
    with r show ?thesis by simp
  next
    case key
    with r have "length k \<noteq> 32" by (simp add: Verify_ErrBadKey)
    with r key Cons.prems show ?thesis by (simp add: Cons.IH split: option.split) blast
  next
    case malf
    with r have "length k = 32" using Verify_ErrBadKey [of ed_verify of_json token k] by auto
    with r malf show ?thesis by (simp add: Cons.IH split: option.split)
  next
    case sig
    with r have "length k = 32" using Verify_ErrBadKey [of ed_verify of_json token k] by auto
    with r sig show ?thesis by (simp add: Cons.IH split: option.split)
  qed
qed simp

lemma VerifyAny_Inr:
  "VerifyAny ed_verify of_json token ks = Inr c \<longleftrightarrow>
   (\<exists>k. find (\<lambda>k. \<exists>c. Verify ed_verify of_json token k = Inr c) ks = Some k \<and>
      Verify ed_verify of_json token k = Inr c)"
  by (auto simp: VerifyAny_def VerifyAny_loop_result split: option.splits)

lemma VerifyAny_key:
  assumes "VerifyAny ed_verify of_json token ks = Inr c"
  shows "\<exists>k \<in> set ks. Verify ed_verify of_json token k = Inr c"
  using assms find_member(1) unfolding VerifyAny_Inr by fastforce

text \<open>A well-formed token is accepted as soon as one key fits, whatever the other keys are.\<close>

lemma VerifyAny_Encode:
  assumes "k \<in> set ks" "length k = 32" "ed_verify k p sig" "length sig = 64" "p \<noteq> []"
    "of_json p = Some c" "ascii_spaces a" "ascii_spaces b"
  shows "VerifyAny ed_verify of_json (a @ License_Encode p sig @ b) ks = Inr c"
proof -
  let ?t = "a @ License_Encode p sig @ b" and ?P = "\<lambda>k. \<exists>c. Verify ed_verify of_json (a @ License_Encode p sig @ b) k = Inr c"
  have v: "length k' = 32 \<Longrightarrow> Verify ed_verify of_json ?t k' = (if ed_verify k' p sig then Inr c else Inl ErrBadSignature)" for k'
    using Verify_Encode [of k' sig p a b ed_verify of_json] assms(4-8) by simp
  have "?P k" using v [OF assms(2)] assms(3) by simp
  then obtain k' where k': "find ?P ks = Some k'" using assms(1) by (cases "find ?P ks") (auto simp: find_None_iff)
  then obtain c' where c': "Verify ed_verify of_json ?t k' = Inr c'" using find_member(2) by fastforce
  then have "length k' = 32" using Verify_ErrBadKey [of ed_verify of_json ?t k'] by auto
  with v [of k'] c' have "Verify ed_verify of_json ?t k' = Inr c" by (simp split: if_splits)
  with k' show ?thesis unfolding VerifyAny_Inr by blast
qed

subsection \<open>The vendor's tool\<close>

definition splitCSV :: "string \<Rightarrow> string list" where
  "splitCSV s0 =
     (let s = TrimSpace s0 in
      if s = [] then [] else filter (\<lambda>p. p \<noteq> []) (map TrimSpace (split_at CHR '','' s)))"

definition time_to_Unix :: "time \<Rightarrow> int" where
  "time_to_Unix t = t div Second - 62135596800"

text \<open>\<open>time.ParseDuration\<close> and \<open>time.Parse(time.RFC3339, _)\<close> are parameters.\<close>

definition parseExpiry :: "(string \<Rightarrow> duration option) \<Rightarrow> (string \<Rightarrow> time option) \<Rightarrow> string \<Rightarrow> time \<Rightarrow> int option" where
  "parseExpiry ParseDuration ParseRFC3339 s0 now =
     (let s = TrimSpace s0 in
      if s = [] \<or> s = ''0'' then Some 0
      else (case ParseDuration s of
          Some d \<Rightarrow> Some (time_to_Unix (now + d))
        | None \<Rightarrow> map_option time_to_Unix (ParseRFC3339 s)))"

datatype sign_err = MissingFlag | BadPrivateKey | BadExpiry

definition loadPrivateKey :: "string \<Rightarrow> string option" where
  "loadPrivateKey raw =
     (case Std_Decode (TrimSpace raw) of
        None \<Rightarrow> None
      | Some dec \<Rightarrow> if length dec \<noteq> 64 then None else Some dec)"

definition signed_claims :: "time \<Rightarrow> string \<Rightarrow> string \<Rightarrow> int \<Rightarrow> string \<Rightarrow> int \<Rightarrow> LicClaims" where
  "signed_claims now plan customer seats features exp =
     \<lparr>LC_Plan = plan, LC_Seats = seats, LC_Features = splitCSV features, LC_Customer = customer,
      LC_IssuedAt = time_to_Unix now, LC_ExpiresAt = exp\<rparr>"

text \<open>The flags and the content of the key file give the token.\<close>

definition cmdSign :: "(string \<Rightarrow> string \<Rightarrow> string) \<Rightarrow> (LicClaims \<Rightarrow> string) \<Rightarrow> (string \<Rightarrow> int option) \<Rightarrow> time \<Rightarrow>
    string \<Rightarrow> string \<Rightarrow> string \<Rightarrow> int \<Rightarrow> string \<Rightarrow> string \<Rightarrow> sign_err + string" where
  "cmdSign ed_sign json_of parse_expires now keyFile plan customer seats features expires =
     (if plan = [] \<or> customer = [] then Inl MissingFlag
      else (case loadPrivateKey keyFile of
          None \<Rightarrow> Inl BadPrivateKey
        | Some priv \<Rightarrow>
            (case parse_expires expires of
               None \<Rightarrow> Inl BadExpiry
             | Some exp \<Rightarrow>
                 (let payload = json_of (signed_claims now plan customer seats features exp)
                  in Inr (License_Encode payload (ed_sign priv payload))))))"

text \<open>The two files of \<open>keygen\<close>.\<close>

definition cmdKeygen :: "string \<Rightarrow> string \<Rightarrow> string \<times> string" where
  "cmdKeygen pub priv = (Std_Encode priv @ [CHR 0x0A], Std_Encode pub @ [CHR 0x0A])"

subsection \<open>The service and its store\<close>

text \<open>
  The configured keys: the list and the single one without blanks and repetitions, and of those
  the ones that decode.
\<close>

fun add_keys :: "string list \<Rightarrow> string list \<Rightarrow> string list" where
  "add_keys [] out = out"
| "add_keys (k # ks) out =
     (let k' = TrimSpace k in add_keys ks (if k' = [] \<or> k' \<in> set out then out else out @ [k']))"

definition licenseConfigFromEnv :: "string list \<Rightarrow> string \<Rightarrow> string list" where
  "licenseConfigFromEnv plural singular = add_keys [singular] (add_keys plural [])"

definition boot_keys :: "string list \<Rightarrow> string list" where
  "boot_keys cfg = List.map_filter (\<lambda>raw. case DecodePublicKey raw of Inl e \<Rightarrow> None | Inr pk \<Rightarrow> Some pk) cfg"

datatype install_err = LicenseEmpty | VerificationDisabled | LicenseInvalid license_err | LicenseExpired

text \<open>The memory store holds at most one license and normalises its id.\<close>

definition licenses_Set :: "time \<Rightarrow> License \<Rightarrow> License" where
  "licenses_Set now l =
     l\<lparr>License_ID := ''active'',
       License_InstalledAt := (if License_InstalledAt l = 0 then now else License_InstalledAt l)\<rparr>"

definition Install :: "(string \<Rightarrow> string \<Rightarrow> string \<Rightarrow> bool) \<Rightarrow> (string \<Rightarrow> LicClaims option) \<Rightarrow> string list \<Rightarrow> time \<Rightarrow>
    string \<Rightarrow> string \<Rightarrow> string \<Rightarrow> string \<Rightarrow> License option \<Rightarrow> (install_err + License) \<times> License option" where
  "Install ed_verify of_json pubKeys now uuid rawToken0 sub email st =
     (let rawToken = TrimSpace rawToken0 in
      if rawToken = [] then (Inl LicenseEmpty, st)
      else if pubKeys = [] then (Inl VerificationDisabled, st)
      else (case VerifyAny ed_verify of_json rawToken pubKeys of
          Inl e \<Rightarrow> (Inl (LicenseInvalid e), st)
        | Inr claims \<Rightarrow>
            if LicClaims_IsExpired now claims then (Inl LicenseExpired, st)
            else
              (let lic = licenses_Set now
                     \<lparr>License_ID = uuid, License_RawToken = rawToken, License_Plan = LC_Plan claims,
                      License_Seats = LC_Seats claims, License_Features = LC_Features claims,
                      License_Customer = LC_Customer claims, License_IssuedAt = IssuedAtTime claims,
                      License_ExpiresAt = ExpiresAtTime claims, License_InstalledAt = now,
                      License_InstalledBySub = sub, License_InstalledByEmail = email\<rparr>
               in (Inr lic, Some lic))))"

definition Current :: "time \<Rightarrow> License option \<Rightarrow> License option \<times> Entitlements" where
  "Current now st = (case st of None \<Rightarrow> (None, Free) | Some lic \<Rightarrow> (Some lic, FromLicense (Some lic) now))"

definition service_Entitlements :: "time \<Rightarrow> License option \<Rightarrow> Entitlements" where
  "service_Entitlements now st = snd (Current now st)"

text \<open>The install at boot from the environment.\<close>

definition boot_install :: "(string \<Rightarrow> string \<Rightarrow> string \<Rightarrow> bool) \<Rightarrow> (string \<Rightarrow> LicClaims option) \<Rightarrow> string list \<Rightarrow>
    time \<Rightarrow> string \<Rightarrow> string \<Rightarrow> License option \<Rightarrow> License option" where
  "boot_install ed_verify of_json pubKeys now uuid key st =
     (let envKey = TrimSpace key in
      if envKey = [] then st
      else (case fst (Current now st) of
          Some current \<Rightarrow>
            if License_RawToken current = envKey then st
            else snd (Install ed_verify of_json pubKeys now uuid envKey ''system:boot'' [] st)
        | None \<Rightarrow> snd (Install ed_verify of_json pubKeys now uuid envKey ''system:boot'' [] st)))"

text \<open>The gate in front of a paid feature; a server without a license service lets all pass.\<close>

definition entitlementGate :: "Entitlements option \<Rightarrow> string \<Rightarrow> gate" where
  "entitlementGate resolver feature =
     (case resolver of
        None \<Rightarrow> GateNext
      | Some ent \<Rightarrow> if \<not> Ent_Has ent feature then GateAbort 402 else GateNext)"

definition abortLicenseErr :: "install_err \<Rightarrow> nat" where
  "abortLicenseErr e =
     (case e of LicenseEmpty \<Rightarrow> 400 | LicenseExpired \<Rightarrow> 400 | LicenseInvalid _ \<Rightarrow> 400 | VerificationDisabled \<Rightarrow> 400)"

subsection \<open>Histories of a server\<close>

text \<open>
  The state outlives restarts: the installed license is in the database, the keys are read again
  at each boot.  The routes behind \<open>POST\<close> and \<open>DELETE\<close> require the role admin.
\<close>

record lic_server =
  LS_pubKeys :: "string list"
  LS_active :: "License option"

datatype lic_event =
    LicPost "Claims option" time string string
  | LicDelete "Claims option"
  | LicBoot "string list" string time string string

definition InstallLicense :: "(string \<Rightarrow> string \<Rightarrow> string \<Rightarrow> bool) \<Rightarrow> (string \<Rightarrow> LicClaims option) \<Rightarrow>
    Claims option \<Rightarrow> time \<Rightarrow> string \<Rightarrow> string \<Rightarrow> lic_server \<Rightarrow> nat \<times> lic_server" where
  "InstallLicense ed_verify of_json user now uuid token s =
     (case user of
        None \<Rightarrow> (401, s)
      | Some claims \<Rightarrow>
          (case Install ed_verify of_json (LS_pubKeys s) now uuid token (Claims_Subject claims)
                  (Claims_Email claims) (LS_active s) of
             (Inl e, st) \<Rightarrow> (abortLicenseErr e, s\<lparr>LS_active := st\<rparr>)
           | (Inr lic, st) \<Rightarrow> (201, s\<lparr>LS_active := st\<rparr>)))"

definition DeleteLicense :: "lic_server \<Rightarrow> nat \<times> lic_server" where
  "DeleteLicense s = (200, s\<lparr>LS_active := None\<rparr>)"

fun lic_step :: "(string \<Rightarrow> string \<Rightarrow> string \<Rightarrow> bool) \<Rightarrow> (string \<Rightarrow> LicClaims option) \<Rightarrow>
    lic_server \<Rightarrow> lic_event \<Rightarrow> nat \<times> lic_server" where
  "lic_step ed_verify of_json s (LicPost user now uuid token) =
     (case RequireRole [RoleAdmin] user of
        GateAbort n \<Rightarrow> (n, s)
      | GateNext \<Rightarrow> InstallLicense ed_verify of_json user now uuid token s)"
| "lic_step ed_verify of_json s (LicDelete user) =
     (case RequireRole [RoleAdmin] user of GateAbort n \<Rightarrow> (n, s) | GateNext \<Rightarrow> DeleteLicense s)"
| "lic_step ed_verify of_json s (LicBoot plural singular now uuid key) =
     (let ks = boot_keys (licenseConfigFromEnv plural singular)
      in (0, \<lparr>LS_pubKeys = ks, LS_active = boot_install ed_verify of_json ks now uuid key (LS_active s)\<rparr>))"

definition lic_run :: "(string \<Rightarrow> string \<Rightarrow> string \<Rightarrow> bool) \<Rightarrow> (string \<Rightarrow> LicClaims option) \<Rightarrow>
    lic_server \<Rightarrow> lic_event list \<Rightarrow> lic_server" where
  "lic_run ed_verify of_json s evs = foldl (\<lambda>s ev. snd (lic_step ed_verify of_json s ev)) s evs"

text \<open>The keys the server has been started with.\<close>

fun event_keys :: "lic_event \<Rightarrow> string set" where
  "event_keys (LicBoot plural singular now uuid key) = set (boot_keys (licenseConfigFromEnv plural singular))"
| "event_keys _ = {}"

definition trusted_keys :: "lic_server \<Rightarrow> lic_event list \<Rightarrow> string set" where
  "trusted_keys s evs = set (LS_pubKeys s) \<union> (\<Union>ev \<in> set evs. event_keys ev)"

text \<open>The fields of a license and the claims they were taken from.\<close>

definition license_from :: "LicClaims \<Rightarrow> License \<Rightarrow> bool" where
  "license_from c l \<longleftrightarrow> License_Plan l = LC_Plan c \<and> License_Seats l = LC_Seats c \<and>
     License_Features l = LC_Features c \<and> License_Customer l = LC_Customer c \<and>
     License_ExpiresAt l = ExpiresAtTime c"

lemma Install_cases:
  obtains (refused) e where "Install ed_verify of_json pubKeys now uuid raw sub email st = (Inl e, st)"
  | (installed) l c where "Install ed_verify of_json pubKeys now uuid raw sub email st = (Inr l, Some l)"
      "VerifyAny ed_verify of_json (TrimSpace raw) pubKeys = Inr c" "\<not> LicClaims_IsExpired now c"
      "license_from c l" "License_RawToken l = TrimSpace raw"
proof (cases "VerifyAny ed_verify of_json (TrimSpace raw) pubKeys")
  case (Inl e)
  then have "\<exists>e. Install ed_verify of_json pubKeys now uuid raw sub email st = (Inl e, st)"
    by (simp add: Install_def Let_def)
  with refused show ?thesis by blast
next
  case (Inr c)
  show ?thesis
  proof (cases "TrimSpace raw = [] \<or> pubKeys = [] \<or> LicClaims_IsExpired now c")
    case True
    with Inr have "\<exists>e. Install ed_verify of_json pubKeys now uuid raw sub email st = (Inl e, st)"
      by (auto simp: Install_def Let_def)
    with refused show ?thesis by blast
  next
    case False
    with Inr show ?thesis
      by (intro installed [of _ c])
        (auto simp: Install_def Let_def licenses_Set_def license_from_def)
  qed
qed

definition lic_inv :: "(string \<Rightarrow> string \<Rightarrow> string \<Rightarrow> bool) \<Rightarrow> (string \<Rightarrow> LicClaims option) \<Rightarrow> string set \<Rightarrow>
    License option \<Rightarrow> bool" where
  "lic_inv ed_verify of_json T st \<longleftrightarrow>
     (\<forall>l. st = Some l \<longrightarrow> (\<exists>k \<in> T. \<exists>c. Verify ed_verify of_json (License_RawToken l) k = Inr c \<and> license_from c l))"

lemma lic_inv_mono: "lic_inv ed_verify of_json T st \<Longrightarrow> T \<subseteq> T' \<Longrightarrow> lic_inv ed_verify of_json T' st"
  by (fastforce simp: lic_inv_def)

lemma Install_inv:
  assumes "lic_inv ed_verify of_json T st" "set pubKeys \<subseteq> T"
  shows "lic_inv ed_verify of_json T (snd (Install ed_verify of_json pubKeys now uuid raw sub email st))"
proof (cases rule: Install_cases [of ed_verify of_json pubKeys now uuid raw sub email st])
  case (refused e)
  with assms(1) show ?thesis by simp
next
  case (installed l c)
  from VerifyAny_key [OF installed(2)] assms(2) installed(4,5) show ?thesis
    unfolding installed(1) lic_inv_def by auto
qed

lemma boot_install_inv:
  assumes "lic_inv ed_verify of_json T st" "set pubKeys \<subseteq> T"
  shows "lic_inv ed_verify of_json T (boot_install ed_verify of_json pubKeys now uuid key st)"
  using assms Install_inv [OF assms] by (auto simp: boot_install_def Let_def split: option.split)

lemma lic_step_inv:
  assumes "lic_inv ed_verify of_json T (LS_active s)" "set (LS_pubKeys s) \<subseteq> T" "event_keys ev \<subseteq> T"
  shows "lic_inv ed_verify of_json T (LS_active (snd (lic_step ed_verify of_json s ev))) \<and>
    set (LS_pubKeys (snd (lic_step ed_verify of_json s ev))) \<subseteq> T"
proof (cases ev)
  case (LicPost user now uuid token)
  show ?thesis
  proof (cases "RequireRole [RoleAdmin] user")
    case GateNext
    then obtain c where user: "user = Some c" by (cases user) (auto simp: RequireRole_def)
    from Install_inv [OF assms(1,2), of now uuid token "Claims_Subject c" "Claims_Email c"] GateNext assms(2)
    show ?thesis unfolding LicPost user by (auto simp: InstallLicense_def split: prod.split sum.split)
  next
    case (GateAbort n)
    with assms show ?thesis by (simp add: LicPost)
  qed
next
  case (LicDelete user)
  with assms show ?thesis by (auto simp: DeleteLicense_def lic_inv_def split: gate.split)
next
  case (LicBoot plural singular now uuid key)
  with assms(1,3) boot_install_inv show ?thesis by (simp add: Let_def)
qed

lemma lic_run_inv:
  assumes "lic_inv ed_verify of_json T (LS_active s)" "trusted_keys s evs \<subseteq> T"
  shows "lic_inv ed_verify of_json T (LS_active (lic_run ed_verify of_json s evs))"
  using assms
proof (induction evs arbitrary: s)
  case (Cons ev evs)
  let ?s = "snd (lic_step ed_verify of_json s ev)"
  have "set (LS_pubKeys s) \<subseteq> T" "event_keys ev \<subseteq> T" using Cons.prems(2) by (auto simp: trusted_keys_def)
  note step = lic_step_inv [OF Cons.prems(1) this]
  then have "trusted_keys ?s evs \<subseteq> T" using Cons.prems(2) by (auto simp: trusted_keys_def)
  from Cons.IH [OF conjunct1 [OF step] this] show ?case by (simp add: lic_run_def)
qed (simp add: lic_run_def)

lemma FromLicense_active:
  "Ent_Has (FromLicense (Some l) t) f \<longleftrightarrow>
   (case License_ExpiresAt l of None \<Rightarrow> True | Some e \<Rightarrow> t < e) \<and>
   (f \<in> set (planFeatures (License_Plan l)) \<or> f \<noteq> [] \<and> f \<in> set (License_Features l))"
  by (auto simp: FromLicense_def License_IsActive_def License_IsExpired_def Ent_Has_def featureSet_def
      Free_def Let_def planFeatures_def split: option.splits)

text \<open>
  C31: in every history of installs, removals and restarts with changing keys, starting without a
  license, whatever is unlocked beyond the free plan comes from a token that verifies under a key
  the server has been started with, whose plan or own list names the feature and whose expiry
  lies ahead.
\<close>

theorem paid_features_signed:
  assumes "LS_active s = None"
    and "Ent_Has (service_Entitlements t (LS_active (lic_run ed_verify of_json s evs))) f"
  shows "\<exists>l c. \<exists>k \<in> trusted_keys s evs. LS_active (lic_run ed_verify of_json s evs) = Some l \<and>
    Verify ed_verify of_json (License_RawToken l) k = Inr c \<and>
    (f \<in> set (planFeatures (LC_Plan c)) \<or> f \<in> set (LC_Features c)) \<and> \<not> LicClaims_IsExpired t c"
proof -
  let ?s = "lic_run ed_verify of_json s evs"
  have inv: "lic_inv ed_verify of_json (trusted_keys s evs) (LS_active ?s)"
    using assms(1) by (intro lic_run_inv) (simp_all add: lic_inv_def)
  have "LS_active ?s \<noteq> None"
  proof
    assume "LS_active ?s = None"
    with assms(2) show False
      by (simp add: service_Entitlements_def Current_def Ent_Has_def Free_def featureSet_def planFeatures_def)
  qed
  then obtain l where l: "LS_active ?s = Some l" by blast
  with inv obtain k c where k: "k \<in> trusted_keys s evs" and
    v: "Verify ed_verify of_json (License_RawToken l) k = Inr c" "license_from c l"
    unfolding lic_inv_def by blast
  have "Ent_Has (FromLicense (Some l) t) f"
    using assms(2) l by (simp add: service_Entitlements_def Current_def)
  then have "(f \<in> set (planFeatures (LC_Plan c)) \<or> f \<in> set (LC_Features c)) \<and> \<not> LicClaims_IsExpired t c"
    using v(2) unfolding FromLicense_active license_from_def
    by (auto simp: LicClaims_IsExpired_def split: option.splits)
  with l k v(1) show ?thesis by blast
qed

subsection \<open>From the vendor's tool to the server\<close>

lemma add_keys_mono: "set out \<subseteq> set (add_keys ks out)"
proof (induction ks arbitrary: out)
  case (Cons k ks)
  show ?case
    using Cons.IH [of "if TrimSpace k = [] \<or> TrimSpace k \<in> set out then out else out @ [TrimSpace k]"]
    by (auto simp: Let_def split: if_splits)
qed simp

lemma add_keys_member: "k \<in> set ks \<Longrightarrow> TrimSpace k \<noteq> [] \<Longrightarrow> TrimSpace k \<in> set (add_keys ks out)"
proof (induction ks arbitrary: out)
  case (Cons k' ks)
  show ?case
  proof (cases "k = k'")
    case True
    with Cons.prems(2) add_keys_mono [of "if TrimSpace k \<in> set out then out else out @ [TrimSpace k]" ks]
    show ?thesis by (auto simp: Let_def split: if_splits)
  next
    case False
    with Cons show ?thesis by (simp add: Let_def)
  qed
qed simp

lemma configured_key:
  assumes "raw \<in> set plural" "TrimSpace raw \<noteq> []" "DecodePublicKey (TrimSpace raw) = Inr pk"
  shows "pk \<in> set (boot_keys (licenseConfigFromEnv plural singular))"
proof -
  have "TrimSpace raw \<in> set (licenseConfigFromEnv plural singular)"
    using add_keys_member [OF assms(1,2)] add_keys_mono unfolding licenseConfigFromEnv_def by blast
  with assms(3) show ?thesis unfolding boot_keys_def List.map_filter_def by force
qed

lemma Std_Encode_chars:
  assumes "c \<in> set (Std_Encode bs)"
  shows "of_char c < (128 :: nat) \<and> \<not> is_space (of_char c)"
proof -
  have "b64_digit False c \<or> c = CHR ''=''"
    using assms sextets_bound [of "map of_char bs"] by (auto simp: Std_Encode_def Let_def)
  then show ?thesis by (auto simp: b64_digit_def b64_value_def Let_def is_space_def split: if_splits)
qed

lemma Std_Encode_empty [simp]: "Std_Encode bs = [] \<longleftrightarrow> bs = []"
proof
  assume "Std_Encode bs = []"
  then have "Std_Decode (Std_Encode bs) = Some []" by (simp add: Std_Decode_def no_breaks_def decode_digits_def)
  then show "bs = []" by (simp add: Std_roundtrip)
qed (simp add: Std_Encode_def)

lemma Trim_Std_Encode:
  assumes "bs \<noteq> []" "ascii_spaces a" "ascii_spaces b"
  shows "TrimSpace (a @ Std_Encode bs @ b) = Std_Encode bs"
  using assms Std_Encode_chars Std_Encode_chars [of "hd (Std_Encode bs)" bs] Std_Encode_chars [of "last (Std_Encode bs)" bs]
  by (intro TrimSpace_between) (auto simp: ascii_def)

lemma newline_space: "ascii_spaces [CHR 0x0A]" "ascii_spaces []"
  by (simp_all add: ascii_spaces_def is_space_def)

text \<open>The files that \<open>keygen\<close> writes are read back, and the server takes either base64 form.\<close>

lemma keygen_roundtrip:
  assumes "length pub = 32" "length priv = 64" "cmdKeygen pub priv = (keyFile, pubFile)"
  shows "loadPrivateKey keyFile = Some priv" "DecodePublicKey pubFile = Inr pub"
    "TrimSpace pubFile \<noteq> []" "DecodePublicKey (TrimSpace pubFile) = Inr pub"
proof -
  have ne: "pub \<noteq> []" "priv \<noteq> []" using assms(1,2) by auto
  have f: "keyFile = Std_Encode priv @ [CHR 0x0A]" "pubFile = Std_Encode pub @ [CHR 0x0A]"
    using assms(3) by (simp_all add: cmdKeygen_def)
  note t = Trim_Std_Encode [OF _ newline_space(2,1), unfolded append.simps]
  note t0 = Trim_Std_Encode [OF _ newline_space(2,2), unfolded append.simps append_Nil2]
  show "loadPrivateKey keyFile = Some priv"
    unfolding loadPrivateKey_def f t [OF ne(2)] Std_roundtrip using assms(2) by simp
  show "DecodePublicKey pubFile = Inr pub"
    unfolding DecodePublicKey_def f t [OF ne(1)] Let_def Std_roundtrip using assms(1) ne(1) by simp
  show "TrimSpace pubFile \<noteq> []" unfolding f t [OF ne(1)] using ne(1) by simp
  show "DecodePublicKey (TrimSpace pubFile) = Inr pub"
    unfolding DecodePublicKey_def f t [OF ne(1)] t0 [OF ne(1)] Let_def Std_roundtrip using assms(1) ne(1) by simp
qed

lemma DecodePublicKey_url:
  assumes "length pub = 32"
  shows "DecodePublicKey (RawURL_Encode pub) = Inr pub"
proof -
  have ne: "pub \<noteq> []" using assms by auto
  have c: "c \<in> set (RawURL_Encode pub) \<Longrightarrow> of_char c < (128 :: nat) \<and> \<not> is_space (of_char c)" for c
    using Encode_digits RawURL_digit_space by blast
  have "TrimSpace ([] @ RawURL_Encode pub @ []) = RawURL_Encode pub"
    using ne c c [of "hd (RawURL_Encode pub)"] c [of "last (RawURL_Encode pub)"]
    by (intro TrimSpace_between) (auto simp: ascii_def ascii_spaces_def)
  moreover have "Std_Decode (RawURL_Encode pub) = None"
    by (rule Std_Decode_length) (simp add: no_breaks_Encode length_RawURL_Encode assms)
  ultimately show ?thesis using ne assms by (simp add: DecodePublicKey_def)
qed

text \<open>
  C30: a license the vendor signs works on a server that was given the public key of the same
  \<open>keygen\<close>: whatever other keys are configured and whatever white space surrounds the pasted
  token, it installs as long as it has not expired, carries the plan, seats, customer and features
  of the flags, and unlocks the features of its plan and its list exactly until it expires.
\<close>

theorem issued_license_works:
  assumes keys: "length pub = 32" "length priv = 64" "cmdKeygen pub priv = (keyFile, pubFile)"
    and ed25519: "\<And>m. ed_verify pub m (ed_sign priv m)" "\<And>m. length (ed_sign priv m) = 64"
    and sign: "cmdSign ed_sign json_of parse_expires now keyFile plan customer seats features expires = Inr token"
    and expires: "parse_expires expires = Some e"
    and json: "json_of (signed_claims now plan customer seats features e) \<noteq> []"
      "of_json (json_of (signed_claims now plan customer seats features e))
         = Some (signed_claims now plan customer seats features e)"
    and config: "pubFile \<in> set plural" "ascii_spaces a" "ascii_spaces b"
    and alive: "e = 0 \<or> now' < time_Unix e"
  shows "\<exists>l. Install ed_verify of_json (boot_keys (licenseConfigFromEnv plural singular)) now' uuid (a @ token @ b)
      sub email st = (Inr l, Some l) \<and>
    License_Plan l = plan \<and> License_Seats l = seats \<and> License_Customer l = customer \<and>
    License_Features l = splitCSV features \<and>
    (\<forall>t f. Ent_Has (service_Entitlements t (Some l)) f \<longleftrightarrow>
       (e = 0 \<or> t < time_Unix e) \<and> (f \<in> set (planFeatures plan) \<or> f \<in> set (splitCSV features)))"
proof -
  let ?ks = "boot_keys (licenseConfigFromEnv plural singular)"
  note kr = keygen_roundtrip [OF keys]
  define c where "c = signed_claims now plan customer seats features e"
  have c: "LC_Plan c = plan" "LC_Seats c = seats" "LC_Features c = splitCSV features" "LC_Customer c = customer"
      "LC_ExpiresAt c = e"
    by (simp_all add: c_def signed_claims_def)
  let ?p = "json_of c" and ?sig = "ed_sign priv (json_of c)"
  have token: "token = License_Encode ?p ?sig"
    using sign expires kr(1) by (simp add: cmdSign_def c_def Let_def split: if_splits)
  have json': "?p \<noteq> []" "of_json ?p = Some c" using json by (simp_all add: c_def)
  have sig: "?sig \<noteq> []" using ed25519(2) [of ?p] by auto
  have key: "pub \<in> set ?ks" by (rule configured_key [OF config(1) kr(3,4)])
  have v: "VerifyAny ed_verify of_json token ?ks = Inr c"
    using VerifyAny_Encode [where a = "[]" and b = "[]" and k = pub and ks = ?ks and sig = ?sig and p = ?p
        and c = c and ed_verify = ed_verify and of_json = of_json]
      key keys(1) ed25519 json' newline_space(2) by (simp add: token)
  have trim: "TrimSpace (a @ token @ b) = token"
    unfolding token by (rule Trim_License_Encode [OF json'(1) sig config(2,3)])
  have exp: "ExpiresAtTime c = (if e = 0 then None else Some (time_Unix e))" by (simp add: ExpiresAtTime_def c)
  have ne: "token \<noteq> []" "?ks \<noteq> []" using key by (auto simp: token License_Encode_def)
  have alive': "\<not> LicClaims_IsExpired now' c" using alive by (auto simp: LicClaims_IsExpired_def exp)
  let ?l = "licenses_Set now' \<lparr>License_ID = uuid, License_RawToken = token, License_Plan = LC_Plan c,
     License_Seats = LC_Seats c, License_Features = LC_Features c, License_Customer = LC_Customer c,
     License_IssuedAt = IssuedAtTime c, License_ExpiresAt = ExpiresAtTime c, License_InstalledAt = now',
     License_InstalledBySub = sub, License_InstalledByEmail = email\<rparr>"
  have i: "Install ed_verify of_json ?ks now' uuid (a @ token @ b) sub email st = (Inr ?l, Some ?l)"
    unfolding Install_def trim Let_def v using ne alive' by simp
  have fields: "License_Plan ?l = plan" "License_Seats ?l = seats" "License_Customer ?l = customer"
      "License_Features ?l = splitCSV features" "License_ExpiresAt ?l = (if e = 0 then None else Some (time_Unix e))"
    by (simp_all add: licenses_Set_def exp c)
  have nonempty: "f \<in> set (splitCSV features) \<Longrightarrow> f \<noteq> []" for f
    by (auto simp: splitCSV_def Let_def split: if_splits)
  have "Ent_Has (service_Entitlements t (Some ?l)) f \<longleftrightarrow>
      (e = 0 \<or> t < time_Unix e) \<and> (f \<in> set (planFeatures plan) \<or> f \<in> set (splitCSV features))" for t f
    unfolding service_Entitlements_def Current_def option.case snd_conv FromLicense_active fields
    using nonempty [of f] by auto
  with i fields show ?thesis by blast
qed

text \<open>A concrete key pair, signature and JSON encoding.\<close>

definition demo_pub :: string where "demo_pub = replicate 32 (CHR ''k'')"
definition demo_priv :: string where "demo_priv = replicate 64 (CHR ''p'')"
definition demo_sign :: "string \<Rightarrow> string \<Rightarrow> string" where "demo_sign priv m = replicate 64 (CHR ''s'')"
definition demo_verify :: "string \<Rightarrow> string \<Rightarrow> string \<Rightarrow> bool" where
  "demo_verify pub m sig \<longleftrightarrow> pub = demo_pub \<and> sig = demo_sign demo_priv m"
definition demo_claims :: LicClaims where
  "demo_claims = signed_claims 0 ''crew'' ''Acme'' 5 [] 0"
definition demo_of_json :: "string \<Rightarrow> LicClaims option" where
  "demo_of_json m = (if m = ''j'' then Some demo_claims else None)"
definition demo_token :: string where
  "demo_token = License_Encode ''j'' (demo_sign demo_priv ''j'')"

lemma demo_keygen: "cmdKeygen demo_pub demo_priv = (Std_Encode demo_priv @ [CHR 0x0A], Std_Encode demo_pub @ [CHR 0x0A])"
  by (simp add: cmdKeygen_def)

lemma demo_lengths: "length demo_pub = 32" "length demo_priv = 64" "length (demo_sign k m) = 64"
  by (simp_all add: demo_pub_def demo_priv_def demo_sign_def)

lemma demo_cmdSign:
  "cmdSign demo_sign (\<lambda>_. ''j'') (\<lambda>_. Some 0) 0 (Std_Encode demo_priv @ [CHR 0x0A]) ''crew'' ''Acme'' 5 [] ''0''
   = Inr demo_token"
  using keygen_roundtrip(1) [OF demo_lengths(1,2) demo_keygen]
  by (simp add: cmdSign_def demo_token_def Let_def)

lemma issued_license_works_witness:
  "\<exists>l. fst (Install demo_verify demo_of_json (boot_keys (licenseConfigFromEnv [Std_Encode demo_pub @ [CHR 0x0A]] []))
      7 ''u'' ('' '' @ demo_token @ []) ''admin'' ''a@x'' None) = Inr l \<and>
    Ent_Has (service_Entitlements 99 (Some l)) ''multi_replica''"
proof -
  have "\<exists>l. Install demo_verify demo_of_json (boot_keys (licenseConfigFromEnv [Std_Encode demo_pub @ [CHR 0x0A]] []))
      7 ''u'' ('' '' @ demo_token @ []) ''admin'' ''a@x'' None = (Inr l, Some l) \<and>
    License_Plan l = ''crew'' \<and> License_Seats l = 5 \<and> License_Customer l = ''Acme'' \<and>
    License_Features l = splitCSV [] \<and>
    (\<forall>t f. Ent_Has (service_Entitlements t (Some l)) f \<longleftrightarrow>
       ((0 :: int) = 0 \<or> t < time_Unix 0) \<and> (f \<in> set (planFeatures ''crew'') \<or> f \<in> set (splitCSV [])))"
    by (rule issued_license_works [OF demo_lengths(1,2) demo_keygen _ _ demo_cmdSign])
      (simp_all add: demo_verify_def demo_sign_def demo_of_json_def demo_claims_def newline_space ascii_spaces_def is_space_def)
  moreover have "''multi_replica'' \<in> set (planFeatures ''crew'')" by (simp add: planFeatures_def)
  ultimately show ?thesis by auto
qed

definition demo_boot :: lic_event where
  "demo_boot = LicBoot [Std_Encode demo_pub @ [CHR 0x0A]] [] 7 ''u'' demo_token"

definition demo_server :: lic_server where
  "demo_server = \<lparr>LS_pubKeys = [], LS_active = None\<rparr>"

definition demo_installed :: License where
  "demo_installed = \<lparr>License_ID = ''active'', License_RawToken = demo_token, License_Plan = ''crew'',
     License_Seats = 5, License_Features = splitCSV [], License_Customer = ''Acme'',
     License_IssuedAt = IssuedAtTime demo_claims, License_ExpiresAt = None, License_InstalledAt = 7,
     License_InstalledBySub = ''system:boot'', License_InstalledByEmail = []\<rparr>"

lemma demo_boot_installs:
  "lic_run demo_verify demo_of_json demo_server [demo_boot]
   = \<lparr>LS_pubKeys = [demo_pub], LS_active = Some demo_installed\<rparr>"
proof -
  have pub: "TrimSpace (Std_Encode demo_pub @ [CHR 0x0A]) = Std_Encode demo_pub"
    using Trim_Std_Encode [OF _ newline_space(2,1), of demo_pub] by (simp add: demo_pub_def)
  have nil: "TrimSpace [] = []" using TrimSpace_ascii [of "[]"] by (simp add: ascii_def)
  have cfg: "licenseConfigFromEnv [Std_Encode demo_pub @ [CHR 0x0A]] [] = [Std_Encode demo_pub]"
    by (simp add: licenseConfigFromEnv_def Let_def pub nil) (simp add: demo_pub_def)
  have ks: "boot_keys [Std_Encode demo_pub] = [demo_pub]"
    using keygen_roundtrip(4) [OF demo_lengths(1,2) demo_keygen, unfolded pub]
    by (simp add: boot_keys_def List.map_filter_def)
  have sig: "demo_sign demo_priv ''j'' \<noteq> []" by (simp add: demo_sign_def)
  have trim: "TrimSpace demo_token = demo_token"
    using Trim_License_Encode [of "''j''", OF _ sig newline_space(2,2)] by (simp add: demo_token_def)
  have v: "VerifyAny demo_verify demo_of_json demo_token [demo_pub] = Inr demo_claims"
    using VerifyAny_Encode [of demo_pub "[demo_pub]" demo_verify "''j''" "demo_sign demo_priv ''j''" demo_of_json
        demo_claims "[]" "[]"] demo_lengths newline_space(2)
    by (simp add: demo_token_def demo_verify_def demo_of_json_def)
  have "demo_token \<noteq> []" by (simp add: demo_token_def License_Encode_def)
  then have "Install demo_verify demo_of_json [demo_pub] 7 ''u'' demo_token ''system:boot'' [] None
      = (Inr demo_installed, Some demo_installed)"
    unfolding Install_def trim Let_def v
    by (simp add: LicClaims_IsExpired_def ExpiresAtTime_def demo_claims_def signed_claims_def licenses_Set_def
        demo_installed_def)
  with \<open>demo_token \<noteq> []\<close> show ?thesis
    by (simp add: lic_run_def demo_boot_def demo_server_def cfg ks boot_install_def trim Current_def Let_def)
qed

lemma demo_feature: "Ent_Has (service_Entitlements t (Some demo_installed)) ''multi_replica''"
  unfolding service_Entitlements_def Current_def option.case snd_conv FromLicense_active
  by (simp add: demo_installed_def planFeatures_def)

lemma paid_features_signed_witness:
  "\<exists>l :: License. \<exists>c. \<exists>k \<in> trusted_keys demo_server [demo_boot].
    Verify demo_verify demo_of_json (License_RawToken l) k = Inr c \<and>
    ''multi_replica'' \<in> set (planFeatures (LC_Plan c)) \<union> set (LC_Features c)"
proof -
  have "LS_active demo_server = None" by (simp add: demo_server_def)
  moreover have "Ent_Has (service_Entitlements 99 (LS_active (lic_run demo_verify demo_of_json demo_server [demo_boot])))
      ''multi_replica''"
    by (simp add: demo_boot_installs demo_feature)
  ultimately have "\<exists>l c. \<exists>k \<in> trusted_keys demo_server [demo_boot].
      LS_active (lic_run demo_verify demo_of_json demo_server [demo_boot]) = Some l \<and>
      Verify demo_verify demo_of_json (License_RawToken l) k = Inr c \<and>
      (''multi_replica'' \<in> set (planFeatures (LC_Plan c)) \<or> ''multi_replica'' \<in> set (LC_Features c)) \<and>
      \<not> LicClaims_IsExpired 99 c"
    by (rule paid_features_signed)
  then show ?thesis unfolding Un_iff by fast
qed

subsection \<open>A retired key\<close>

text \<open>
  The keys are consulted when a license is installed and never again: through any number of
  restarts with any keys, also when none of them verifies the token of the installed license, that
  license and everything it unlocks stay, as long as the environment brings no license of its own
  that verifies.
\<close>

theorem retired_key_still_grants:
  assumes "LS_active s = Some l"
    and "\<And>ev. ev \<in> set evs \<Longrightarrow> \<exists>plural singular now uuid key. ev = LicBoot plural singular now uuid key \<and>
      (TrimSpace key = [] \<or> TrimSpace key = License_RawToken l \<or>
       (\<exists>e. VerifyAny ed_verify of_json (TrimSpace key) (boot_keys (licenseConfigFromEnv plural singular)) = Inl e))"
  shows "LS_active (lic_run ed_verify of_json s evs) = Some l \<and>
    service_Entitlements t (LS_active (lic_run ed_verify of_json s evs)) = FromLicense (Some l) t"
proof -
  have "LS_active (lic_run ed_verify of_json s evs) = Some l"
    using assms
  proof (induction evs arbitrary: s)
    case (Cons ev evs)
    obtain plural singular now uuid key where ev: "ev = LicBoot plural singular now uuid key"
      and k: "TrimSpace key = [] \<or> TrimSpace key = License_RawToken l \<or>
        (\<exists>e. VerifyAny ed_verify of_json (TrimSpace key) (boot_keys (licenseConfigFromEnv plural singular)) = Inl e)"
      using Cons.prems(2) [of ev] by auto
    have "LS_active (snd (lic_step ed_verify of_json s ev)) = Some l"
    proof (cases "TrimSpace key = [] \<or> TrimSpace key = License_RawToken l")
      case True
      with Cons.prems(1) show ?thesis by (auto simp: ev boot_install_def Current_def Let_def)
    next
      case False
      with k Cons.prems(1) show ?thesis
        by (auto simp: ev boot_install_def Current_def Install_def TrimSpace_idem Let_def split: sum.split)
    qed
    from Cons.IH [OF this] Cons.prems(2) show ?case by (simp add: lic_run_def)
  qed (simp add: lic_run_def)
  then show ?thesis by (simp add: service_Entitlements_def Current_def)
qed

lemma retired_key_still_grants_witness:
  "VerifyAny demo_verify demo_of_json demo_token [] = Inl ErrBadKey \<and>
   Ent_Has (service_Entitlements 99 (LS_active (lic_run demo_verify demo_of_json
     (lic_run demo_verify demo_of_json demo_server [demo_boot]) [LicBoot [] [] 8 ''v'' []]))) ''multi_replica''"
proof -
  have nil: "TrimSpace [] = []" using TrimSpace_ascii [of "[]"] by (simp add: ascii_def)
  have "LS_active (lic_run demo_verify demo_of_json demo_server [demo_boot]) = Some demo_installed"
    by (simp add: demo_boot_installs)
  from conjunct2 [OF retired_key_still_grants [OF this, of "[LicBoot [] [] 8 ''v'' []]" demo_verify demo_of_json 99]] nil
  have "service_Entitlements 99 (LS_active (lic_run demo_verify demo_of_json
     (lic_run demo_verify demo_of_json demo_server [demo_boot]) [LicBoot [] [] 8 ''v'' []])) = FromLicense (Some demo_installed) 99"
    by auto
  moreover have "FromLicense (Some demo_installed) 99 = service_Entitlements 99 (Some demo_installed)"
    by (simp add: service_Entitlements_def Current_def)
  ultimately show ?thesis using demo_feature [of 99] by (simp add: VerifyAny_def)
qed

end
