(* ===== verification/ApiToken.thy ===== *)
theory ApiToken
  imports Auth Base64 Strings Gates "HOL-Library.Product_Lexorder"
begin

text \<open>
  API tokens: the model (\<open>backend/internal/model/apitoken.go\<close>, \<open>apitoken_gen.go\<close>), both stores
  (\<open>store/memory/apitoken.go\<close>, \<open>store/postgres/apitoken.go\<close>), the service with its rules
  (\<open>service/apitoken.go\<close>), the handlers (\<open>handler/apitoken.go\<close>) and the middleware that turns a
  request's credential into claims (\<open>auth/apitoken.go\<close>, \<open>auth/oidc.go\<close>).

  SHA-256 and the verifiers of the JWTs are parameters.  The PostgreSQL table is the list of its
  rows in the order of their insertion, and orders text by its bytes.
\<close>

subsection \<open>The token\<close>

record APIToken =
  Tok_ID :: string
  Tok_Name :: string
  Tok_DisplayPrefix :: string
  Tok_Hash :: string
  Tok_Role :: string
  Tok_CreatedBySub :: string
  Tok_CreatedByEmail :: string
  Tok_CreatedAt :: time
  Tok_ExpiresAt :: "time option"
  Tok_LastUsedAt :: "time option"

definition APIToken_Expired :: "time \<Rightarrow> APIToken \<Rightarrow> bool" where
  "APIToken_Expired now t = (case Tok_ExpiresAt t of None \<Rightarrow> False | Some e \<Rightarrow> \<not> e > now)"

abbreviation APITokenPrefix :: string where "APITokenPrefix \<equiv> ''ck_''"

definition hex_digit :: "nat \<Rightarrow> char" where
  "hex_digit v = char_of (if v < 10 then 48 + v else 87 + v)"

definition HashAPIToken :: "(string \<Rightarrow> string) \<Rightarrow> string \<Rightarrow> string" where
  "HashAPIToken sha256 plaintext =
     concat (map (\<lambda>c. [hex_digit (of_char c div 16), hex_digit (of_char c mod 16)]) (sha256 plaintext))"

text \<open>\<open>buf\<close> is what \<open>crypto/rand\<close> gives: 32 bytes, or \<open>None\<close> for an error.\<close>

definition GenerateAPIToken :: "(string \<Rightarrow> string) \<Rightarrow> string option \<Rightarrow> (string \<times> string \<times> string) option" where
  "GenerateAPIToken sha256 buf =
     (case buf of
        None \<Rightarrow> None
      | Some bytes \<Rightarrow>
          (let plaintext = APITokenPrefix @ RawURL_Encode bytes
           in Some (plaintext, HashAPIToken sha256 plaintext,
                    if length plaintext > 12 then take 12 plaintext else plaintext)))"

definition LooksLikeAPIToken :: "string \<Rightarrow> bool" where
  "LooksLikeAPIToken credential \<longleftrightarrow> take 3 credential = APITokenPrefix"

subsection \<open>The stores\<close>

definition sortTokensNewestFirst :: "APIToken list \<Rightarrow> APIToken list" where
  "sortTokensNewestFirst ts = sort_key (\<lambda>t. (- Tok_CreatedAt t, Tok_ID t)) ts"

text \<open>In memory: a map from ids, scanned in the order \<open>ks\<close>.\<close>

definition at_Create :: "string list \<Rightarrow> time \<Rightarrow> APIToken \<Rightarrow> (string \<rightharpoonup> APIToken) \<Rightarrow>
    (store_err + APIToken) \<times> (string \<rightharpoonup> APIToken)" where
  "at_Create ks now t m =
     (if list_ex (\<lambda>existing. Tok_Hash existing = Tok_Hash t) (map_values ks m) then (Inl ErrConflict, m)
      else (let t' = (if Tok_CreatedAt t = 0 then t\<lparr>Tok_CreatedAt := now\<rparr> else t)
            in (Inr t', m(Tok_ID t \<mapsto> t'))))"

definition at_ListByCreator :: "string list \<Rightarrow> string \<Rightarrow> (string \<rightharpoonup> APIToken) \<Rightarrow> APIToken list" where
  "at_ListByCreator ks sub m =
     sortTokensNewestFirst (filter (\<lambda>t. Tok_CreatedBySub t = sub) (map_values ks m))"

definition at_ListAll :: "string list \<Rightarrow> (string \<rightharpoonup> APIToken) \<Rightarrow> APIToken list" where
  "at_ListAll ks m = sortTokensNewestFirst (map_values ks m)"

definition at_GetByHash :: "string list \<Rightarrow> string \<Rightarrow> (string \<rightharpoonup> APIToken) \<Rightarrow> store_err + APIToken" where
  "at_GetByHash ks hash m =
     (case find (\<lambda>t. Tok_Hash t = hash) (map_values ks m) of None \<Rightarrow> Inl ErrNotFound | Some t \<Rightarrow> Inr t)"

definition at_Get :: "string \<Rightarrow> (string \<rightharpoonup> APIToken) \<Rightarrow> store_err + APIToken" where
  "at_Get i m = (case m i of None \<Rightarrow> Inl ErrNotFound | Some t \<Rightarrow> Inr t)"

definition at_Delete :: "string \<Rightarrow> (string \<rightharpoonup> APIToken) \<Rightarrow> (store_err + unit) \<times> (string \<rightharpoonup> APIToken)" where
  "at_Delete i m = (if m i = None then (Inl ErrNotFound, m) else (Inr (), m(i := None)))"

definition at_TouchLastUsed :: "string \<Rightarrow> time \<Rightarrow> (string \<rightharpoonup> APIToken) \<Rightarrow>
    (store_err + unit) \<times> (string \<rightharpoonup> APIToken)" where
  "at_TouchLastUsed i ts m =
     (case m i of None \<Rightarrow> (Inl ErrNotFound, m)
      | Some t \<Rightarrow> (Inr (), m(i \<mapsto> t\<lparr>Tok_LastUsedAt := Some ts\<rparr>)))"

text \<open>On PostgreSQL: the id is the primary key, the hash has a unique index.\<close>

definition pgt_Create :: "time \<Rightarrow> APIToken \<Rightarrow> APIToken list \<Rightarrow> (store_err + APIToken) \<times> APIToken list" where
  "pgt_Create now t rows =
     (if list_ex (\<lambda>r. Tok_Hash r = Tok_Hash t \<or> Tok_ID r = Tok_ID t) rows then (Inl ErrConflict, rows)
      else (let t' = t\<lparr>Tok_CreatedAt := now\<rparr> in (Inr t', rows @ [t'])))"

definition pgt_ListByCreator :: "string \<Rightarrow> APIToken list \<Rightarrow> APIToken list" where
  "pgt_ListByCreator sub rows = sortTokensNewestFirst (filter (\<lambda>t. Tok_CreatedBySub t = sub) rows)"

definition pgt_ListAll :: "APIToken list \<Rightarrow> APIToken list" where
  "pgt_ListAll rows = sortTokensNewestFirst rows"

definition pgt_GetByHash :: "string \<Rightarrow> APIToken list \<Rightarrow> store_err + APIToken" where
  "pgt_GetByHash hash rows =
     (case find (\<lambda>t. Tok_Hash t = hash) rows of None \<Rightarrow> Inl ErrNotFound | Some t \<Rightarrow> Inr t)"

definition pgt_Get :: "string \<Rightarrow> APIToken list \<Rightarrow> store_err + APIToken" where
  "pgt_Get i rows = (case find (\<lambda>t. Tok_ID t = i) rows of None \<Rightarrow> Inl ErrNotFound | Some t \<Rightarrow> Inr t)"

definition pgt_Delete :: "string \<Rightarrow> APIToken list \<Rightarrow> (store_err + unit) \<times> APIToken list" where
  "pgt_Delete i rows =
     (if list_ex (\<lambda>t. Tok_ID t = i) rows then (Inr (), filter (\<lambda>t. Tok_ID t \<noteq> i) rows)
      else (Inl ErrNotFound, rows))"

definition pgt_TouchLastUsed :: "string \<Rightarrow> time \<Rightarrow> APIToken list \<Rightarrow> (store_err + unit) \<times> APIToken list" where
  "pgt_TouchLastUsed i ts rows =
     (if list_ex (\<lambda>t. Tok_ID t = i) rows
      then (Inr (), map (\<lambda>t. if Tok_ID t = i then t\<lparr>Tok_LastUsedAt := Some ts\<rparr> else t) rows)
      else (Inl ErrNotFound, rows))"

subsection \<open>The two stores agree\<close>

definition table_ok :: "APIToken list \<Rightarrow> bool" where
  "table_ok rows \<longleftrightarrow> distinct (map Tok_ID rows) \<and> distinct (map Tok_Hash rows)"

definition table_map :: "APIToken list \<Rightarrow> string \<rightharpoonup> APIToken" where
  "table_map rows = map_of (map (\<lambda>t. (Tok_ID t, t)) rows)"

lemma table_map_Some: "table_ok rows \<Longrightarrow> table_map rows i = Some t \<longleftrightarrow> t \<in> set rows \<and> Tok_ID t = i"
  by (auto simp: table_map_def table_ok_def map_of_eq_Some_iff comp_def)

lemma table_map_self: "table_ok rows \<Longrightarrow> t \<in> set rows \<Longrightarrow> table_map rows (Tok_ID t) = Some t"
  by (simp add: table_map_Some)

lemma table_map_None: "table_map rows i = None \<longleftrightarrow> i \<notin> Tok_ID ` set rows"
  by (auto simp: table_map_def map_of_eq_None_iff image_image)

lemma table_values:
  assumes "table_ok rows" "iter_order ks (table_map rows)"
  shows "mset (map_values ks (table_map rows)) = mset rows"
proof (rule set_eq_iff_mset_eq_distinct [THEN iffD1])
  show "distinct rows" using assms(1) by (simp add: table_ok_def distinct_map)
  have ks: "distinct ks" "set ks = dom (table_map rows)" using assms(2) by auto
  have "inj_on (\<lambda>k. the (table_map rows k)) (set ks)"
    using assms(1) by (intro inj_onI) (auto simp: ks dom_def table_map_Some table_map_self)
  then show "distinct (map_values ks (table_map rows))"
    using ks by (auto simp: map_values_def List.map_filter_def distinct_map comp_def elim!: inj_on_subset)
  show "set (map_values ks (table_map rows)) = set rows"
    using set_map_values_order [OF assms(2)] by (auto simp: ran_def table_map_Some [OF assms(1)])
qed

lemma sort_unique:
  assumes "mset xs = mset ys" "distinct (map Tok_ID xs)"
  shows "sortTokensNewestFirst xs = sortTokensNewestFirst ys"
proof -
  let ?f = "\<lambda>t. (- Tok_CreatedAt t, Tok_ID t)"
  have one: "map ?f (sort_key ?f zs) = sort (map ?f zs)" for zs
    by (rule properties_for_sort [symmetric]) simp_all
  have "mset (map ?f xs) = mset (map ?f ys)" by (simp only: mset_map assms(1))
  then have "sort (map ?f xs) = sort (map ?f ys)" by (intro properties_for_sort) simp_all
  then have "map ?f (sort_key ?f xs) = map ?f (sort_key ?f ys)" unfolding one .
  moreover have "inj_on ?f (set (sort_key ?f xs) \<union> set (sort_key ?f ys))"
    using assms(2) mset_eq_setD [OF assms(1)] by (auto simp: distinct_map inj_on_def)
  ultimately have "sort_key ?f xs = sort_key ?f ys" by (rule map_inj_on)
  then show ?thesis by (simp add: sortTokensNewestFirst_def)
qed

lemma find_unique:
  assumes "mset xs = mset ys" "distinct (map g xs)"
  shows "find (\<lambda>t. g t = h) xs = find (\<lambda>t. g t = h) ys"
proof -
  have some: "find (\<lambda>t. g t = h) zs = Some t \<longleftrightarrow> t \<in> set zs \<and> g t = h"
    if "distinct (map g zs)" for zs t
    using that by (induction zs) auto
  have "distinct (map g ys)" using assms by (metis mset_eq_imp_distinct_iff mset_map)
  with some assms(2) mset_eq_setD [OF assms(1)] show ?thesis
    by (cases "find (\<lambda>t. g t = h) xs"; cases "find (\<lambda>t. g t = h) ys") (metis some option.distinct(1) option.inject)+
qed

text \<open>
  Seen through its ids the table is the map: the same lists, the same lookups, the same errors and
  the same updates, whatever order the map is scanned in, for a fresh id and a token without a
  creation time, which is how the service calls \<open>Create\<close>.
\<close>

lemma token_stores_agree:
  assumes "table_ok rows" "iter_order ks (table_map rows)"
  shows "at_ListAll ks (table_map rows) = pgt_ListAll rows"
    "at_ListByCreator ks sub (table_map rows) = pgt_ListByCreator sub rows"
    "at_GetByHash ks h (table_map rows) = pgt_GetByHash h rows"
    "at_Get i (table_map rows) = pgt_Get i rows"
    "at_Delete i (table_map rows) = map_prod id table_map (pgt_Delete i rows)"
    "at_TouchLastUsed i ts (table_map rows) = map_prod id table_map (pgt_TouchLastUsed i ts rows)"
    "table_map rows (Tok_ID t) = None \<Longrightarrow> Tok_CreatedAt t = 0 \<Longrightarrow>
     at_Create ks now t (table_map rows) = map_prod id table_map (pgt_Create now t rows)"
proof -
  note m = table_values [OF assms]
  have d: "distinct (map Tok_ID (map_values ks (table_map rows)))"
      "distinct (map Tok_Hash (map_values ks (table_map rows)))"
    using assms(1) unfolding table_ok_def by (metis m mset_eq_imp_distinct_iff mset_map)+
  have set_eq: "set (map_values ks (table_map rows)) = set rows" by (rule mset_eq_setD [OF m])
  show "at_ListAll ks (table_map rows) = pgt_ListAll rows"
    unfolding at_ListAll_def pgt_ListAll_def by (rule sort_unique [OF m d(1)])
  show "at_ListByCreator ks sub (table_map rows) = pgt_ListByCreator sub rows"
    unfolding at_ListByCreator_def pgt_ListByCreator_def using m d(1)
    by (intro sort_unique) (simp_all add: mset_filter distinct_map_filter)
  show "at_GetByHash ks h (table_map rows) = pgt_GetByHash h rows"
    unfolding at_GetByHash_def pgt_GetByHash_def find_unique [OF m d(2)] ..
  have get: "find (\<lambda>t. Tok_ID t = i) rows = table_map rows i" for i
    unfolding table_map_def by (induction rows) auto
  show "at_Get i (table_map rows) = pgt_Get i rows" by (simp add: at_Get_def pgt_Get_def get)
  have ex: "list_ex (\<lambda>t. Tok_ID t = i) rows \<longleftrightarrow> table_map rows i \<noteq> None" for i
    by (auto simp: list_ex_iff table_map_None image_iff)
  have del: "table_map (filter (\<lambda>t. Tok_ID t \<noteq> i) rows) = (table_map rows)(i := None)"
    unfolding table_map_def by (induction rows) auto
  show "at_Delete i (table_map rows) = map_prod id table_map (pgt_Delete i rows)"
    by (simp add: at_Delete_def pgt_Delete_def ex del)
  have upd: "table_map (map (\<lambda>t. if Tok_ID t = i then t\<lparr>Tok_LastUsedAt := Some ts\<rparr> else t) rows)
      = (case table_map rows i of None \<Rightarrow> table_map rows | Some t \<Rightarrow> (table_map rows)(i \<mapsto> t\<lparr>Tok_LastUsedAt := Some ts\<rparr>))"
    unfolding table_map_def by (induction rows) (auto split: option.split)
  show "at_TouchLastUsed i ts (table_map rows) = map_prod id table_map (pgt_TouchLastUsed i ts rows)"
    by (cases "table_map rows i") (simp_all add: at_TouchLastUsed_def pgt_TouchLastUsed_def ex upd)
  assume t: "table_map rows (Tok_ID t) = None" "Tok_CreatedAt t = 0"
  have "\<not> list_ex (\<lambda>r. Tok_ID r = Tok_ID t) rows" using t(1) ex by simp
  then have busy: "list_ex (\<lambda>r. Tok_Hash r = Tok_Hash t \<or> Tok_ID r = Tok_ID t) rows
      \<longleftrightarrow> list_ex (\<lambda>r. Tok_Hash r = Tok_Hash t) (map_values ks (table_map rows))"
    unfolding list_ex_iff set_eq by auto
  have "table_map (rows @ [t']) = (table_map rows)(Tok_ID t' \<mapsto> t')" if "table_map rows (Tok_ID t') = None" for t'
    using that unfolding table_map_def by (auto simp: map_of_append fun_eq_iff map_add_def split: option.split)
  then show "at_Create ks now t (table_map rows) = map_prod id table_map (pgt_Create now t rows)"
    unfolding at_Create_def pgt_Create_def busy using t by (simp add: Let_def)
qed

end
