(* ===== verification/TokenService.thy ===== *)
theory TokenService
  imports ApiToken
begin

text \<open>
  The rules of API tokens over the table: minting with its role cap, listing, revoking with the
  step-up gate (\<open>backend/internal/service/apitoken.go\<close>), the answers of the handlers
  (\<open>handler/apitoken.go\<close>), the authenticator (\<open>auth/apitoken.go\<close>) and the middleware
  (\<open>auth/oidc.go\<close>).
\<close>

subsection \<open>The role cap\<close>

definition roleRank :: "string \<Rightarrow> nat" where
  "roleRank role =
     (if role = RoleAdmin then 3 else if role = RoleOperator \<or> role = RoleApprover then 2
      else if role = RoleViewer then 1 else 0)"

definition validRole :: "string \<Rightarrow> bool" where
  "validRole role \<longleftrightarrow> role = RoleAdmin \<or> role = RoleOperator \<or> role = RoleApprover \<or> role = RoleViewer"

fun mint_loop :: "string list \<Rightarrow> nat \<Rightarrow> bool \<Rightarrow> bool \<Rightarrow> nat \<times> bool \<times> bool" where
  "mint_loop [] highest holdsAdmin holdsApprover = (highest, holdsAdmin, holdsApprover)"
| "mint_loop (r # rs) highest holdsAdmin holdsApprover =
     mint_loop rs (if roleRank r > highest then roleRank r else highest)
       (if r = RoleAdmin then True else holdsAdmin) (if r = RoleApprover then True else holdsApprover)"

definition canMintRole :: "string list \<Rightarrow> string \<Rightarrow> bool" where
  "canMintRole callerRoles requested =
     (let (highest, holdsAdmin, holdsApprover) = mint_loop callerRoles 0 False False in
      if holdsAdmin then True
      else if requested = RoleApprover then holdsApprover
      else roleRank requested \<le> highest)"

definition hasRole :: "string list \<Rightarrow> string \<Rightarrow> bool" where
  "hasRole roles want \<longleftrightarrow> (\<exists>r \<in> set roles. r = want)"

definition mfaSatisfied :: "string \<Rightarrow> string list \<Rightarrow> string list \<Rightarrow> bool" where
  "mfaSatisfied acr amr configured =
     (if configured = [] then True
      else (let allowed = set (filter (\<lambda>v. v \<noteq> []) configured)
            in acr \<in> allowed \<or> (\<exists>m \<in> set amr. m \<in> allowed)))"

lemma mint_loop_spec:
  "mint_loop rs h a p = (h', a', p') \<Longrightarrow>
   (\<forall>k. k \<le> h' \<longleftrightarrow> k \<le> h \<or> (\<exists>r \<in> set rs. k \<le> roleRank r)) \<and>
   a' = (a \<or> RoleAdmin \<in> set rs) \<and> p' = (p \<or> RoleApprover \<in> set rs)"
  by (induction rs arbitrary: h a p) (auto split: if_splits)

text \<open>The cap without its loop.\<close>

lemma canMintRole_iff:
  assumes "validRole requested"
  shows "canMintRole roles requested \<longleftrightarrow>
    RoleAdmin \<in> set roles \<or>
    (requested = RoleApprover \<and> RoleApprover \<in> set roles) \<or>
    (requested = RoleOperator \<and> (RoleOperator \<in> set roles \<or> RoleApprover \<in> set roles)) \<or>
    (requested = RoleViewer \<and> (\<exists>r \<in> set roles. validRole r))"
proof -
  obtain h a p where l: "mint_loop roles 0 False False = (h, a, p)" by (metis prod_cases3)
  note spec = mint_loop_spec [OF l]
  have rank: "k \<le> h \<longleftrightarrow> k = 0 \<or> (\<exists>r \<in> set roles. k \<le> roleRank r)" for k using spec by simp
  have "1 \<le> roleRank r \<longleftrightarrow> validRole r" "2 \<le> roleRank r \<longleftrightarrow> r \<in> {RoleAdmin, RoleOperator, RoleApprover}" for r
    by (auto simp: roleRank_def validRole_def)
  then have two: "2 \<le> h \<longleftrightarrow> RoleAdmin \<in> set roles \<or> RoleOperator \<in> set roles \<or> RoleApprover \<in> set roles"
    and one: "1 \<le> h \<longleftrightarrow> (\<exists>r \<in> set roles. validRole r)"
    unfolding rank by auto
  consider "requested = RoleAdmin" | "requested = RoleOperator" | "requested = RoleApprover" | "requested = RoleViewer"
    using assms by (auto simp: validRole_def)
  then show ?thesis
  proof cases
    case 1
    have "\<not> 3 \<le> h" if "RoleAdmin \<notin> set roles"
      unfolding rank using that by (auto simp: roleRank_def split: if_splits)
    with 1 spec show ?thesis by (auto simp: canMintRole_def l roleRank_def)
  next
    case 2
    with spec two show ?thesis by (auto simp: canMintRole_def l roleRank_def)
  next
    case 3
    with spec show ?thesis by (auto simp: canMintRole_def l)
  next
    case 4
    with spec one show ?thesis by (auto simp: canMintRole_def l roleRank_def validRole_def)
  qed
qed

text \<open>The step-up gate inside the service is the one of the routes.\<close>

lemma mfaSatisfied_RequireMFA:
  "mfaSatisfied (Claims_ACR c) (Claims_AMR c) vals \<longleftrightarrow> RequireMFA vals (Some c) = GateNext"
  by (simp add: mfaSatisfied_def RequireMFA_def Let_def)

text \<open>
  A token never allows what its minter may not do, except that an approver can mint an operator.
\<close>

lemma minted_permission:
  assumes "canMintRole (Claims_Roles m) role" "validRole role" "Claims_Roles c = [role]"
    and "Permission (Some c) r a"
  shows "Permission (Some m) r a \<or> role = RoleOperator \<and> RoleApprover \<in> set (Claims_Roles m)"
proof -
  obtain roles where row: "(r, a, roles) \<in> set defaultPolicy" "role \<in> set roles"
    using assms(3,4) unfolding Permission_row by auto
  note p = policy_row [OF row(1)]
  have perm: "Permission (Some m) r a" if "x \<in> set roles" "x \<in> set (Claims_Roles m)" for x
    unfolding Permission_row using that row(1) by blast
  have viewer: "validRole x \<Longrightarrow> RoleViewer \<in> set roles \<Longrightarrow> x \<in> set roles" for x
    using policy_viewer [OF row(1)] by (auto simp: validRole_def)
  show ?thesis
    using assms(1) unfolding canMintRole_iff [OF assms(2)] using perm p(1) row(2) viewer by auto
qed

subsection \<open>The service\<close>

datatype tok_err =
    TokenActorForbidden
  | NameRequired
  | InvalidRole
  | ExpiryInPast
  | RoleTooHigh
  | GenerateFailed
  | PersistFailed store_err
  | AdminOnly
  | NotOwner
  | MFARequired
  | TokStoreErr store_err

record createReq =
  CR_Name :: string
  CR_Role :: string
  CR_ExpiresAt :: "time option"

definition TokenSubjectPrefix :: string where "TokenSubjectPrefix = ''token:''"

definition callerIsToken :: "Claims option \<Rightarrow> bool" where
  "callerIsToken user =
     (case user of None \<Rightarrow> False
      | Some claims \<Rightarrow> take (length TokenSubjectPrefix) (Claims_Subject claims) = TokenSubjectPrefix)"

text \<open>\<open>Create\<close> gives the stored token and the plaintext; \<open>uuid\<close> and \<open>buf\<close> are drawn for the call.\<close>

definition TS_Create :: "(string \<Rightarrow> string) \<Rightarrow> time \<Rightarrow> string \<Rightarrow> string option \<Rightarrow> createReq \<Rightarrow> Claims \<Rightarrow>
    bool \<Rightarrow> APIToken list \<Rightarrow> (tok_err + APIToken \<times> string) \<times> APIToken list" where
  "TS_Create sha256 now uuid buf p caller isToken rows =
     (if isToken then (Inl TokenActorForbidden, rows)
      else if TrimSpace (CR_Name p) = [] then (Inl NameRequired, rows)
      else if \<not> validRole (CR_Role p) then (Inl InvalidRole, rows)
      else if (case CR_ExpiresAt p of None \<Rightarrow> False | Some e \<Rightarrow> \<not> e > now) then (Inl ExpiryInPast, rows)
      else if \<not> canMintRole (Claims_Roles caller) (CR_Role p) then (Inl RoleTooHigh, rows)
      else
        (case GenerateAPIToken sha256 buf of
           None \<Rightarrow> (Inl GenerateFailed, rows)
         | Some (plaintext, hash, displayPrefix) \<Rightarrow>
             (let tok = \<lparr>Tok_ID = uuid, Tok_Name = TrimSpace (CR_Name p), Tok_DisplayPrefix = displayPrefix,
                         Tok_Hash = hash, Tok_Role = CR_Role p, Tok_CreatedBySub = Claims_Subject caller,
                         Tok_CreatedByEmail = Claims_Email caller, Tok_CreatedAt = 0,
                         Tok_ExpiresAt = CR_ExpiresAt p, Tok_LastUsedAt = None\<rparr>
              in case pgt_Create now tok rows of
                   (Inl e, rows') \<Rightarrow> (Inl (PersistFailed e), rows')
                 | (Inr tok', rows') \<Rightarrow> (Inr (tok', plaintext), rows'))))"

definition TS_List :: "string \<Rightarrow> string list \<Rightarrow> bool \<Rightarrow> APIToken list \<Rightarrow> tok_err + APIToken list" where
  "TS_List callerSub callerRoles everyone rows =
     (if everyone
      then (if \<not> hasRole callerRoles RoleAdmin then Inl AdminOnly else Inr (pgt_ListAll rows))
      else Inr (pgt_ListByCreator callerSub rows))"

definition TS_Delete :: "string list \<Rightarrow> string \<Rightarrow> Claims \<Rightarrow> bool \<Rightarrow> APIToken list \<Rightarrow> tok_err option \<times> APIToken list" where
  "TS_Delete mfaValues i caller isToken rows =
     (if isToken then (Some TokenActorForbidden, rows)
      else
        (case pgt_Get i rows of
           Inl e \<Rightarrow> (Some (TokStoreErr e), rows)
         | Inr tok \<Rightarrow>
             (let isOwner = (Tok_CreatedBySub tok = Claims_Subject caller) in
              if \<not> isOwner \<and> \<not> hasRole (Claims_Roles caller) RoleAdmin then (Some NotOwner, rows)
              else if \<not> isOwner \<and> \<not> mfaSatisfied (Claims_ACR caller) (Claims_AMR caller) mfaValues
                then (Some MFARequired, rows)
              else (case pgt_Delete i rows of
                  (Inl e, rows') \<Rightarrow> (Some (TokStoreErr e), rows')
                | (Inr _, rows') \<Rightarrow> (None, rows')))))"

subsection \<open>The handlers\<close>

text \<open>
  What does not match a sentinel goes through \<open>abortStoreErr\<close>, which answers every error: the
  line after it in the source is never reached.
\<close>

definition abortStoreErr :: "store_err option \<Rightarrow> nat" where
  "abortStoreErr e = (case e of Some ErrNotFound \<Rightarrow> 404 | Some ErrConflict \<Rightarrow> 409 | None \<Rightarrow> 500)"

fun abortAPITokenErr :: "tok_err \<Rightarrow> nat" where
  "abortAPITokenErr TokenActorForbidden = 403"
| "abortAPITokenErr MFARequired = 403"
| "abortAPITokenErr RoleTooHigh = 403"
| "abortAPITokenErr InvalidRole = 400"
| "abortAPITokenErr ExpiryInPast = 400"
| "abortAPITokenErr AdminOnly = 403"
| "abortAPITokenErr NotOwner = 404"
| "abortAPITokenErr (PersistFailed e) = abortStoreErr (Some e)"
| "abortAPITokenErr (TokStoreErr e) = abortStoreErr (Some e)"
| "abortAPITokenErr NameRequired = abortStoreErr None"
| "abortAPITokenErr GenerateFailed = abortStoreErr None"

text \<open>A request body that is no JSON is \<open>None\<close>.  The answer is the status and, once, the plaintext.\<close>

definition CreateAPIToken :: "(string \<Rightarrow> string) \<Rightarrow> time \<Rightarrow> string \<Rightarrow> string option \<Rightarrow> Claims option \<Rightarrow>
    createReq option \<Rightarrow> APIToken list \<Rightarrow> (nat \<times> string option) \<times> APIToken list" where
  "CreateAPIToken sha256 now uuid buf user body rows =
     (case user of
        None \<Rightarrow> ((401, None), rows)
      | Some claims \<Rightarrow>
          (case body of
             None \<Rightarrow> ((400, None), rows)
           | Some req \<Rightarrow>
               (case TS_Create sha256 now uuid buf req claims (callerIsToken user) rows of
                  (Inl e, rows') \<Rightarrow> ((abortAPITokenErr e, None), rows')
                | (Inr (tok, plaintext), rows') \<Rightarrow> ((201, Some plaintext), rows'))))"

definition ListAPITokens :: "Claims option \<Rightarrow> string \<Rightarrow> APIToken list \<Rightarrow> nat \<times> APIToken list" where
  "ListAPITokens user allQuery rows =
     (case user of
        None \<Rightarrow> (401, [])
      | Some claims \<Rightarrow>
          (case TS_List (Claims_Subject claims) (Claims_Roles claims) (allQuery = ''true'') rows of
             Inl e \<Rightarrow> (abortAPITokenErr e, [])
           | Inr ts \<Rightarrow> (200, ts)))"

definition DeleteAPIToken :: "string list \<Rightarrow> Claims option \<Rightarrow> string \<Rightarrow> APIToken list \<Rightarrow> nat \<times> APIToken list" where
  "DeleteAPIToken mfaValues user i rows =
     (case user of
        None \<Rightarrow> (401, rows)
      | Some claims \<Rightarrow>
          (case TS_Delete mfaValues i claims (callerIsToken user) rows of
             (Some e, rows') \<Rightarrow> (abortAPITokenErr e, rows')
           | (None, rows') \<Rightarrow> (200, rows')))"

subsection \<open>Authentication\<close>

definition Authenticate :: "(string \<Rightarrow> string) \<Rightarrow> time \<Rightarrow> string \<Rightarrow> APIToken list \<Rightarrow> (string \<times> Claims) option" where
  "Authenticate sha256 now plaintext rows =
     (let hash = HashAPIToken sha256 plaintext in
      case pgt_GetByHash hash rows of
        Inl e \<Rightarrow> None
      | Inr tok \<Rightarrow>
          if Tok_Hash tok \<noteq> hash then None
          else if APIToken_Expired now tok then None
          else Some (Tok_ID tok,
                 \<lparr>Claims_Subject = TokenSubjectPrefix @ Tok_ID tok, Claims_Email = Tok_CreatedByEmail tok,
                  Claims_Name = Tok_Name tok, Claims_Groups = [], Claims_Roles = [Tok_Role tok],
                  Claims_ACR = [], Claims_AMR = []\<rparr>))"

text \<open>
  \<open>maybeTouch\<close>: the stamp of the last write is looked at and set in two steps of a \<open>sync.Map\<close>; the
  write that is due goes to a goroutine of its own.
\<close>

definition touch_due :: "time \<Rightarrow> string \<Rightarrow> (string \<rightharpoonup> time) \<Rightarrow> bool" where
  "touch_due now i lastTouched =
     (case lastTouched i of None \<Rightarrow> True | Some prev \<Rightarrow> \<not> now - prev < Minute)"

definition maybeTouch :: "time \<Rightarrow> string \<Rightarrow> (string \<rightharpoonup> time) \<Rightarrow> (string \<rightharpoonup> time) \<times> (string \<times> time) option" where
  "maybeTouch now i lastTouched =
     (if touch_due now i lastTouched then (lastTouched(i \<mapsto> now), Some (i, now)) else (lastTouched, None))"

text \<open>
  The middleware.  An \<open>oidc_answer\<close> is what discovery and the ID-token verifier give for a
  credential; of the local issuer the JWT library's unverified issuer claim and its verification
  are parameters.
\<close>

datatype oidc_answer =
    OidcUnavailable
  | OidcRejected
  | OidcIdentity string string string "string list" string "string list"

record local_issuer =
  LI_iss :: "string \<Rightarrow> string option"
  LI_verify :: "string \<Rightarrow> (string \<times> string \<times> string \<times> string) option"

record auth_cfg =
  AC_Enabled :: bool
  AC_GroupRoleMap :: "string \<rightharpoonup> string"
  AC_oidc :: "string \<Rightarrow> oidc_answer"
  AC_localIssuer :: "local_issuer option"
  AC_apiTokens :: bool

definition LooksLikeLocalToken :: "local_issuer \<Rightarrow> string \<Rightarrow> bool" where
  "LooksLikeLocalToken li raw \<longleftrightarrow> 3 \<le> length (split_at CHR ''.'' raw) \<and> LI_iss li raw = Some ''cooker-local''"

definition lower_ascii :: "char \<Rightarrow> char" where
  "lower_ascii c = (if 65 \<le> (of_char c :: nat) \<and> of_char c \<le> (90 :: nat) then char_of (of_char c + 32 :: nat) else c)"

text \<open>
  The header \<open>Authorization\<close> is cut at its first space; its first part must be \<open>bearer\<close> in any
  case of the letters.  No letter beyond ASCII folds to one of that word.
\<close>

definition header_credential :: "string \<Rightarrow> string option" where
  "header_credential h =
     (if CHR '' '' \<notin> set h then None
      else (let scheme = takeWhile (\<lambda>c. c \<noteq> CHR '' '') h; rest = tl (dropWhile (\<lambda>c. c \<noteq> CHR '' '') h)
            in if map lower_ascii scheme \<noteq> ''bearer'' then None else Some (TrimSpace rest)))"

definition rawBearer :: "string \<Rightarrow> string" where
  "rawBearer h = (case header_credential h of None \<Rightarrow> [] | Some cred \<Rightarrow> cred)"

definition bearerToken :: "string \<Rightarrow> string option" where
  "bearerToken h = (case header_credential h of None \<Rightarrow> None | Some cred \<Rightarrow> if cred = [] then None else Some cred)"

definition devUser :: Claims where
  "devUser = \<lparr>Claims_Subject = ''dev-user'', Claims_Email = ''dev@cooker.local'', Claims_Name = ''Developer'',
     Claims_Groups = [''cooker-admins''], Claims_Roles = [RoleAdmin], Claims_ACR = [], Claims_AMR = []\<rparr>"

text \<open>Claims with the id of the API token they come from, or a status.\<close>

datatype auth_outcome = AuthUser Claims "string option" | AuthAbort nat

definition token_outcome :: "(string \<times> Claims) option \<Rightarrow> auth_outcome" where
  "token_outcome r = (case r of None \<Rightarrow> AuthAbort 401 | Some (i, claims) \<Rightarrow> AuthUser claims (Some i))"

definition Middleware_Handler :: "auth_cfg \<Rightarrow> (string \<Rightarrow> (string \<times> Claims) option) \<Rightarrow> string \<Rightarrow> auth_outcome" where
  "Middleware_Handler cfg authenticate header =
     (if \<not> AC_Enabled cfg \<and> AC_localIssuer cfg = None then
        (if \<not> AC_apiTokens cfg then AuthUser devUser None
         else (let cred = rawBearer header in
               if cred \<noteq> [] \<and> LooksLikeAPIToken cred then token_outcome (authenticate cred)
               else AuthUser devUser None))
      else
        (case bearerToken header of
           None \<Rightarrow> AuthAbort 401
         | Some token \<Rightarrow>
             if AC_apiTokens cfg \<and> LooksLikeAPIToken token then token_outcome (authenticate token)
             else if (case AC_localIssuer cfg of None \<Rightarrow> False | Some li \<Rightarrow> LooksLikeLocalToken li token) then
               (case LI_verify (the (AC_localIssuer cfg)) token of
                  None \<Rightarrow> AuthAbort 401
                | Some (sub, email, name, role) \<Rightarrow>
                    AuthUser \<lparr>Claims_Subject = sub, Claims_Email = email, Claims_Name = name, Claims_Groups = [],
                              Claims_Roles = [role], Claims_ACR = [], Claims_AMR = []\<rparr> None)
             else if \<not> AC_Enabled cfg then AuthAbort 401
             else
               (case AC_oidc cfg token of
                  OidcUnavailable \<Rightarrow> AuthAbort 503
                | OidcRejected \<Rightarrow> AuthAbort 401
                | OidcIdentity sub email name gs acr amr \<Rightarrow>
                    AuthUser \<lparr>Claims_Subject = sub, Claims_Email = email, Claims_Name = name, Claims_Groups = gs,
                              Claims_Roles = MapGroupsToRolesWith gs (AC_GroupRoleMap cfg),
                              Claims_ACR = acr, Claims_AMR = amr\<rparr> None)))"

subsection \<open>A blank name\<close>

text \<open>The handler means to answer 400; \<open>abortStoreErr\<close> answers 500 before it gets there.\<close>

lemma blank_name_is_500:
  assumes "\<not> callerIsToken (Some claims)" "TrimSpace (CR_Name req) = []"
  shows "CreateAPIToken sha256 now uuid buf (Some claims) (Some req) rows = ((500, None), rows)"
  using assms by (simp add: CreateAPIToken_def TS_Create_def abortStoreErr_def)

subsection \<open>What each operation does\<close>

lemma TS_Create_cases:
  obtains (refused) e where "TS_Create sha256 now uuid buf p caller isToken rows = (Inl e, rows)"
  | (created) bytes t where "buf = Some bytes"
      "TS_Create sha256 now uuid buf p caller isToken rows = (Inr (t, APITokenPrefix @ RawURL_Encode bytes), rows @ [t])"
      "\<not> isToken" "validRole (CR_Role p)" "canMintRole (Claims_Roles caller) (CR_Role p)"
      "Tok_ID t = uuid" "Tok_Hash t = HashAPIToken sha256 (APITokenPrefix @ RawURL_Encode bytes)"
      "Tok_Role t = CR_Role p" "Tok_CreatedBySub t = Claims_Subject caller"
      "\<forall>r \<in> set rows. Tok_Hash r \<noteq> Tok_Hash t \<and> Tok_ID r \<noteq> Tok_ID t"
proof (cases "isToken \<or> TrimSpace (CR_Name p) = [] \<or> \<not> validRole (CR_Role p) \<or>
    (case CR_ExpiresAt p of None \<Rightarrow> False | Some e \<Rightarrow> \<not> e > now) \<or>
    \<not> canMintRole (Claims_Roles caller) (CR_Role p) \<or> buf = None")
  case True
  then have "\<exists>e. TS_Create sha256 now uuid buf p caller isToken rows = (Inl e, rows)"
    by (auto simp: TS_Create_def GenerateAPIToken_def)
  with refused show ?thesis by blast
next
  case False
  then obtain bytes where buf: "buf = Some bytes" by auto
  let ?plain = "APITokenPrefix @ RawURL_Encode bytes"
  let ?t = "\<lparr>Tok_ID = uuid, Tok_Name = TrimSpace (CR_Name p),
     Tok_DisplayPrefix = (if length ?plain > 12 then take 12 ?plain else ?plain),
     Tok_Hash = HashAPIToken sha256 ?plain, Tok_Role = CR_Role p, Tok_CreatedBySub = Claims_Subject caller,
     Tok_CreatedByEmail = Claims_Email caller, Tok_CreatedAt = 0, Tok_ExpiresAt = CR_ExpiresAt p,
     Tok_LastUsedAt = None\<rparr>"
  show ?thesis
  proof (cases "list_ex (\<lambda>r. Tok_Hash r = Tok_Hash ?t \<or> Tok_ID r = Tok_ID ?t) rows")
    case True
    with False buf have "TS_Create sha256 now uuid buf p caller isToken rows = (Inl (PersistFailed ErrConflict), rows)"
      by (simp add: TS_Create_def GenerateAPIToken_def pgt_Create_def Let_def)
    with refused show ?thesis by blast
  next
    case fresh: False
    with False buf have c: "TS_Create sha256 now uuid buf p caller isToken rows
        = (Inr (?t\<lparr>Tok_CreatedAt := now\<rparr>, ?plain), rows @ [?t\<lparr>Tok_CreatedAt := now\<rparr>])"
      by (simp add: TS_Create_def GenerateAPIToken_def pgt_Create_def Let_def)
    have f: "\<forall>r \<in> set rows. Tok_Hash r \<noteq> Tok_Hash ?t \<and> Tok_ID r \<noteq> Tok_ID ?t"
      using fresh unfolding list_ex_iff by blast
    show ?thesis
      by (rule created [OF buf c]) (use False f in simp_all)
  qed
qed

text \<open>
  Revoking: who may revoke what.  A token revokes nothing; somebody else's token looks to a plain
  user like one that does not exist; an admin needs the second factor for it, if one is configured;
  and a revocation takes exactly that row out.
\<close>

lemma DeleteAPIToken_outcome:
  "DeleteAPIToken mfaValues user i rows =
   (case user of
      None \<Rightarrow> (401, rows)
    | Some c \<Rightarrow>
        if callerIsToken user then (403, rows)
        else (case find (\<lambda>t. Tok_ID t = i) rows of
            None \<Rightarrow> (404, rows)
          | Some t \<Rightarrow>
              if Tok_CreatedBySub t = Claims_Subject c \<or>
                RoleAdmin \<in> set (Claims_Roles c) \<and> RequireMFA mfaValues user = GateNext
              then (200, filter (\<lambda>t. Tok_ID t \<noteq> i) rows)
              else if RoleAdmin \<in> set (Claims_Roles c) then (403, rows) else (404, rows)))"
proof (cases user)
  case (Some c)
  show ?thesis
  proof (cases "find (\<lambda>t. Tok_ID t = i) rows")
    case None
    then show ?thesis
      by (simp add: DeleteAPIToken_def TS_Delete_def pgt_Get_def abortStoreErr_def Some)
  next
    case f: (Some t)
    then have "list_ex (\<lambda>t. Tok_ID t = i) rows" using find_member [OF f] by (auto simp: list_ex_iff)
    with f show ?thesis
      by (simp add: DeleteAPIToken_def TS_Delete_def pgt_Get_def pgt_Delete_def hasRole_def
          mfaSatisfied_RequireMFA Some)
  qed
qed (simp add: DeleteAPIToken_def)

subsection \<open>Histories of requests\<close>

text \<open>
  The state of the token subsystem: the table, the stamps, the writes under way, and for each
  token the claims of the request that created it (which no operation reads).
\<close>

record tokSys =
  ts_rows :: "APIToken list"
  ts_touched :: "string \<rightharpoonup> time"
  ts_pending :: "(string \<times> time) list"
  ts_minter :: "string \<rightharpoonup> Claims"

definition tokSys_init :: tokSys where
  "tokSys_init = \<lparr>ts_rows = [], ts_touched = Map.empty, ts_pending = [], ts_minter = Map.empty\<rparr>"

text \<open>The token routes, and any route behind a permission.\<close>

datatype api_call =
    CallCreate "createReq option" string "string option"
  | CallList string
  | CallDelete string
  | CallOther string string

datatype tok_event = EvRequest string time api_call | EvWrite nat

definition touch_sys :: "time \<Rightarrow> string option \<Rightarrow> tokSys \<Rightarrow> tokSys" where
  "touch_sys now tid s =
     (case tid of None \<Rightarrow> s
      | Some i \<Rightarrow>
          (case maybeTouch now i (ts_touched s) of
             (touched, None) \<Rightarrow> s\<lparr>ts_touched := touched\<rparr>
           | (touched, Some w) \<Rightarrow> s\<lparr>ts_touched := touched, ts_pending := ts_pending s @ [w]\<rparr>))"

fun serve :: "(string \<Rightarrow> string) \<Rightarrow> string list \<Rightarrow> time \<Rightarrow> Claims \<Rightarrow> api_call \<Rightarrow> tokSys \<Rightarrow> (nat \<times> string option) \<times> tokSys" where
  "serve sha256 mfaValues now claims (CallCreate body uuid buf) s =
     (case CreateAPIToken sha256 now uuid buf (Some claims) body (ts_rows s) of
        ((st, Some plaintext), rows') \<Rightarrow>
          ((st, Some plaintext), s\<lparr>ts_rows := rows', ts_minter := (ts_minter s)(uuid \<mapsto> claims)\<rparr>)
      | ((st, None), rows') \<Rightarrow> ((st, None), s\<lparr>ts_rows := rows'\<rparr>))"
| "serve sha256 mfaValues now claims (CallList q) s = ((fst (ListAPITokens (Some claims) q (ts_rows s)), None), s)"
| "serve sha256 mfaValues now claims (CallDelete i) s =
     (case DeleteAPIToken mfaValues (Some claims) i (ts_rows s) of (st, rows') \<Rightarrow> ((st, None), s\<lparr>ts_rows := rows'\<rparr>))"
| "serve sha256 mfaValues now claims (CallOther resource action) s =
     (case RequirePermission resource action (Some claims) of
        GateNext \<Rightarrow> ((200, None), s)
      | GateAbort n \<Rightarrow> ((n, None), s))"

fun tok_step :: "(string \<Rightarrow> string) \<Rightarrow> auth_cfg \<Rightarrow> string list \<Rightarrow> tokSys \<Rightarrow> tok_event \<Rightarrow> (nat \<times> string option) \<times> tokSys" where
  "tok_step sha256 cfg mfaValues s (EvRequest header now call) =
     (case Middleware_Handler cfg (\<lambda>p. Authenticate sha256 now p (ts_rows s)) header of
        AuthAbort n \<Rightarrow> ((n, None), s)
      | AuthUser claims tid \<Rightarrow> serve sha256 mfaValues now claims call (touch_sys now tid s))"
| "tok_step sha256 cfg mfaValues s (EvWrite k) =
     (if k < length (ts_pending s)
      then ((0, None), s\<lparr>ts_rows := snd (pgt_TouchLastUsed (fst (ts_pending s ! k)) (snd (ts_pending s ! k)) (ts_rows s)),
                 ts_pending := take k (ts_pending s) @ drop (Suc k) (ts_pending s)\<rparr>)
      else ((0, None), s))"

definition tok_run :: "(string \<Rightarrow> string) \<Rightarrow> auth_cfg \<Rightarrow> string list \<Rightarrow> tokSys \<Rightarrow> tok_event list \<Rightarrow> tokSys" where
  "tok_run sha256 cfg mfaValues s evs = foldl (\<lambda>s ev. snd (tok_step sha256 cfg mfaValues s ev)) s evs"

end
