(* ===== verification/TokenAuthority.thy ===== *)
theory TokenAuthority
  imports TokenService
begin

text \<open>
  What API tokens can do, over every history of requests: the authority of a token comes from the
  person who minted it, a revoked token is dead, and the one way around the role cap.
\<close>

subsection \<open>The invariant of the table\<close>

definition minted_by :: "Claims \<Rightarrow> APIToken \<Rightarrow> bool" where
  "minted_by m t \<longleftrightarrow> \<not> callerIsToken (Some m) \<and> validRole (Tok_Role t) \<and>
     canMintRole (Claims_Roles m) (Tok_Role t) \<and> Tok_CreatedBySub t = Claims_Subject m"

definition tok_inv :: "tokSys \<Rightarrow> bool" where
  "tok_inv s \<longleftrightarrow> table_ok (ts_rows s) \<and>
     (\<forall>t \<in> set (ts_rows s). \<exists>m. ts_minter s (Tok_ID t) = Some m \<and> minted_by m t)"

lemma touch_sys_rows [simp]: "ts_rows (touch_sys now tid s) = ts_rows s" "ts_minter (touch_sys now tid s) = ts_minter s"
  by (auto simp: touch_sys_def split: option.split prod.split)

lemma touch_rows:
  "snd (pgt_TouchLastUsed i ts rows) = map (\<lambda>t. if Tok_ID t = i then t\<lparr>Tok_LastUsedAt := Some ts\<rparr> else t) rows"
proof (cases "list_ex (\<lambda>t. Tok_ID t = i) rows")
  case False
  then have "map (\<lambda>t. if Tok_ID t = i then t\<lparr>Tok_LastUsedAt := Some ts\<rparr> else t) rows = map id rows"
    by (intro map_cong) (auto simp: list_ex_iff)
  with False show ?thesis by (simp add: pgt_TouchLastUsed_def)
qed (simp add: pgt_TouchLastUsed_def)

text \<open>The three ways a table changes.\<close>

lemma serve_rows:
  obtains (same) "ts_rows (snd (serve sha256 mfaValues now claims call s)) = ts_rows s"
      "ts_minter (snd (serve sha256 mfaValues now claims call s)) = ts_minter s"
  | (created) body uuid bytes t where "call = CallCreate body uuid (Some bytes)"
      "ts_rows (snd (serve sha256 mfaValues now claims call s)) = ts_rows s @ [t]"
      "ts_minter (snd (serve sha256 mfaValues now claims call s)) = (ts_minter s)(Tok_ID t \<mapsto> claims)"
      "minted_by claims t" "Tok_Hash t = HashAPIToken sha256 (APITokenPrefix @ RawURL_Encode bytes)"
      "\<forall>r \<in> set (ts_rows s). Tok_Hash r \<noteq> Tok_Hash t \<and> Tok_ID r \<noteq> Tok_ID t"
  | (deleted) i where "call = CallDelete i"
      "ts_rows (snd (serve sha256 mfaValues now claims call s)) = filter (\<lambda>t. Tok_ID t \<noteq> i) (ts_rows s)"
      "ts_minter (snd (serve sha256 mfaValues now claims call s)) = ts_minter s"
proof (cases call)
  case (CallCreate body uuid buf)
  show ?thesis
  proof (cases body)
    case None
    then show ?thesis by (intro same) (simp_all add: CallCreate CreateAPIToken_def)
  next
    case (Some req)
    show ?thesis
    proof (cases rule: TS_Create_cases [of sha256 now uuid buf req claims "callerIsToken (Some claims)" "ts_rows s"])
      case (refused e)
      then show ?thesis by (intro same) (simp_all add: CallCreate CreateAPIToken_def Some)
    next
      case c: (created bytes t)
      show ?thesis
        by (rule created [of body uuid bytes t])
          (use c in \<open>simp_all add: CallCreate CreateAPIToken_def Some minted_by_def\<close>)
    qed
  qed
next
  case (CallList q)
  then show ?thesis by (intro same) simp_all
next
  case (CallDelete i)
  show ?thesis
  proof (cases "snd (DeleteAPIToken mfaValues (Some claims) i (ts_rows s)) = ts_rows s")
    case True
    then show ?thesis by (intro same) (auto simp: CallDelete split: prod.split)
  next
    case False
    then have "snd (DeleteAPIToken mfaValues (Some claims) i (ts_rows s)) = filter (\<lambda>t. Tok_ID t \<noteq> i) (ts_rows s)"
      unfolding DeleteAPIToken_outcome by (auto split: if_splits option.splits)
    then show ?thesis by (intro deleted) (auto simp: CallDelete split: prod.split)
  qed
next
  case (CallOther resource action)
  then show ?thesis by (intro same) (simp_all split: gate.split)
qed

lemma tok_step_inv:
  assumes "tok_inv s"
  shows "tok_inv (snd (tok_step sha256 cfg mfaValues s ev))"
proof (cases ev)
  case (EvRequest header now call)
  show ?thesis
  proof (cases "Middleware_Handler cfg (\<lambda>p. Authenticate sha256 now p (ts_rows s)) header")
    case (AuthAbort n)
    with assms show ?thesis by (simp add: EvRequest)
  next
    case (AuthUser claims tid)
    define s1 where "s1 = touch_sys now tid s"
    have "tok_inv s1" using assms by (simp add: s1_def tok_inv_def)
    then have inv: "table_ok (ts_rows s1)" "\<And>t. t \<in> set (ts_rows s1) \<Longrightarrow> \<exists>m. ts_minter s1 (Tok_ID t) = Some m \<and> minted_by m t"
      by (auto simp: tok_inv_def)
    have "tok_inv (snd (serve sha256 mfaValues now claims call s1))"
    proof (cases rule: serve_rows [of sha256 mfaValues now claims call s1])
      case same
      with inv show ?thesis by (simp add: tok_inv_def)
    next
      case (created body uuid bytes t)
      have "table_ok (ts_rows s1 @ [t])" using inv(1) created(6) by (auto simp: table_ok_def)
      moreover have "\<exists>m. ((ts_minter s1)(Tok_ID t \<mapsto> claims)) (Tok_ID t') = Some m \<and> minted_by m t'"
        if "t' \<in> set (ts_rows s1 @ [t])" for t'
      proof (cases "t' = t")
        case False
        with that have "t' \<in> set (ts_rows s1)" by simp
        with inv(2) created(6) show ?thesis by auto
      qed (use created(4) in simp)
      ultimately show ?thesis unfolding tok_inv_def created(2,3) by blast
    next
      case (deleted i)
      have "table_ok (filter (\<lambda>t. Tok_ID t \<noteq> i) (ts_rows s1))"
        using inv(1) by (simp add: table_ok_def distinct_map_filter)
      with inv(2) show ?thesis unfolding tok_inv_def deleted(2,3) by auto
    qed
    then show ?thesis by (simp add: EvRequest AuthUser s1_def)
  qed
next
  case (EvWrite k)
  show ?thesis
  proof (cases "k < length (ts_pending s)")
    case True
    let ?f = "\<lambda>t. if Tok_ID t = fst (ts_pending s ! k) then t\<lparr>Tok_LastUsedAt := Some (snd (ts_pending s ! k))\<rparr> else t"
    have ids: "map Tok_ID (map ?f rows) = map Tok_ID rows" "map Tok_Hash (map ?f rows) = map Tok_Hash rows" for rows
      by auto
    have "table_ok (map ?f (ts_rows s))" using assms unfolding tok_inv_def table_ok_def ids by blast
    moreover have "\<exists>m. ts_minter s (Tok_ID (?f t)) = Some m \<and> minted_by m (?f t)" if "t \<in> set (ts_rows s)" for t
      using assms that by (auto simp: tok_inv_def minted_by_def)
    then have "\<forall>t \<in> set (map ?f (ts_rows s)). \<exists>m. ts_minter s (Tok_ID t) = Some m \<and> minted_by m t"
      unfolding set_map ball_simps by blast
    ultimately show ?thesis unfolding tok_inv_def EvWrite tok_step.simps touch_rows using True by simp
  qed (use assms in \<open>simp add: EvWrite\<close>)
qed

lemma tok_run_inv: "tok_inv s \<Longrightarrow> tok_inv (tok_run sha256 cfg mfaValues s evs)"
proof (induction evs arbitrary: s)
  case (Cons ev evs)
  then show ?case using tok_step_inv by (simp add: tok_run_def)
qed (simp add: tok_run_def)

lemma tok_inv_init: "tok_inv tokSys_init"
  by (simp add: tok_inv_def tokSys_init_def table_ok_def)

subsection \<open>The authority of a token\<close>

lemma Authenticate_Some:
  assumes "Authenticate sha256 now plaintext rows = Some (i, c)"
  shows "\<exists>t \<in> set rows. Tok_ID t = i \<and> Tok_Hash t = HashAPIToken sha256 plaintext \<and> \<not> APIToken_Expired now t \<and>
    Claims_Subject c = TokenSubjectPrefix @ i \<and> Claims_Roles c = [Tok_Role t] \<and> Claims_ACR c = [] \<and> Claims_AMR c = []"
  using assms find_member
  by (fastforce simp: Authenticate_def pgt_GetByHash_def Let_def split: option.splits if_splits)

text \<open>
  C25: in every history of requests on the token routes and others, whoever authenticates with an
  API token holds a row of the table that is neither revoked nor expired and was minted by a
  person, not by a token; the claims carry its one role and no second factor.  They permit nothing
  that the claims of its minter did not permit, promotion approvals included, unless an operator
  token was minted by an approver; a step-up gate that is configured never opens for them; and they
  neither mint nor revoke tokens.
\<close>

theorem token_authority:
  assumes "s = tok_run sha256 cfg mfaValues tokSys_init evs"
    and "Authenticate sha256 now plaintext (ts_rows s) = Some (i, c)"
  shows "\<exists>t \<in> set (ts_rows s). \<exists>m. Tok_ID t = i \<and> Tok_Hash t = HashAPIToken sha256 plaintext \<and>
      \<not> APIToken_Expired now t \<and> ts_minter s i = Some m \<and> \<not> callerIsToken (Some m) \<and>
      Tok_CreatedBySub t = Claims_Subject m \<and> Claims_Roles c = [Tok_Role t] \<and>
      (\<forall>r a. Permission (Some c) r a \<longrightarrow>
         Permission (Some m) r a \<or> Tok_Role t = RoleOperator \<and> RoleApprover \<in> set (Claims_Roles m)) \<and>
      (CanApprovePromotion (Some c) \<longrightarrow> CanApprovePromotion (Some m)) \<and>
      (\<forall>vals. RequireMFA vals (Some c) = GateNext \<longleftrightarrow> vals = []) \<and>
      (\<forall>now' u b body rows. CreateAPIToken sha256 now' u b (Some c) (Some body) rows = ((403, None), rows)) \<and>
      (\<forall>j rows. DeleteAPIToken mfaValues (Some c) j rows = (403, rows))"
proof -
  have inv: "tok_inv s" unfolding assms(1) by (rule tok_run_inv [OF tok_inv_init])
  obtain t where t: "t \<in> set (ts_rows s)" "Tok_ID t = i" "Tok_Hash t = HashAPIToken sha256 plaintext"
      "\<not> APIToken_Expired now t"
    and c: "Claims_Subject c = TokenSubjectPrefix @ i" "Claims_Roles c = [Tok_Role t]" "Claims_ACR c = []" "Claims_AMR c = []"
    using Authenticate_Some [OF assms(2)] by blast
  obtain m where m: "ts_minter s i = Some m" "minted_by m t" using inv t(1,2) unfolding tok_inv_def by blast
  have mint: "\<not> callerIsToken (Some m)" "validRole (Tok_Role t)" "canMintRole (Claims_Roles m) (Tok_Role t)"
      "Tok_CreatedBySub t = Claims_Subject m"
    using m(2) by (simp_all add: minted_by_def)
  have tok: "callerIsToken (Some c)" by (simp add: callerIsToken_def c(1))
  have perm: "Permission (Some m) r a \<or> Tok_Role t = RoleOperator \<and> RoleApprover \<in> set (Claims_Roles m)"
    if "Permission (Some c) r a" for r a
    by (rule minted_permission [OF mint(3,2) c(2) that])
  have approve: "CanApprovePromotion (Some m)" if "CanApprovePromotion (Some c)"
  proof -
    have "Tok_Role t = RoleAdmin \<or> Tok_Role t = RoleApprover" using that by (simp add: CanApprovePromotion_def c(2))
    then have "RoleAdmin \<in> set (Claims_Roles m) \<or> RoleApprover \<in> set (Claims_Roles m)"
      using mint(3) unfolding canMintRole_iff [OF mint(2)] by (elim disjE) simp_all
    then show ?thesis unfolding CanApprovePromotion_def option.case by blast
  qed
  have mfa: "RequireMFA vals (Some c) = GateNext \<longleftrightarrow> vals = []" for vals
    by (simp add: RequireMFA_def c(3,4) Let_def)
  have no_create: "CreateAPIToken sha256 now' u b (Some c) (Some body) rows = ((403, None), rows)" for now' u b body rows
    by (simp add: CreateAPIToken_def TS_Create_def tok)
  have no_delete: "DeleteAPIToken mfaValues (Some c) j rows = (403, rows)" for j rows
    by (simp add: DeleteAPIToken_outcome tok)
  show ?thesis
    by (rule bexI [OF _ t(1)], rule exI [of _ m], intro conjI allI impI)
      (fact t(2-4) m(1) mint(1,4) c(2) mfa no_create no_delete | erule perm | erule approve)+
qed

subsection \<open>Requests with an API token\<close>

lemma token_header:
  assumes "header_credential header = Some p" "p \<noteq> []" "LooksLikeAPIToken p" "AC_apiTokens cfg"
  shows "Middleware_Handler cfg authenticate header = token_outcome (authenticate p)"
  using assms by (simp add: Middleware_Handler_def rawBearer_def bearerToken_def)

lemma Middleware_abort:
  "Middleware_Handler cfg authenticate header = AuthAbort n \<Longrightarrow> n = 401 \<or> n = 503"
  by (auto simp: Middleware_Handler_def token_outcome_def Let_def split: if_splits option.splits oidc_answer.splits)

lemma bearer_header:
  assumes "ascii p" "p \<noteq> []" "\<not> is_space (of_char (hd p))" "\<not> is_space (of_char (last p))"
  shows "header_credential (''Bearer '' @ p) = Some p"
proof -
  have "ascii_spaces []" by (simp add: ascii_spaces_def)
  from TrimSpace_between [OF this this assms] have "TrimSpace p = p" by simp
  moreover have "map lower_ascii ''Bearer'' = ''bearer''" by code_simp
  ultimately show ?thesis by (simp add: header_credential_def Let_def)
qed

lemma minted_plaintext:
  assumes "bytes \<noteq> []"
  shows "header_credential (''Bearer '' @ APITokenPrefix @ RawURL_Encode bytes) = Some (APITokenPrefix @ RawURL_Encode bytes)"
    "LooksLikeAPIToken (APITokenPrefix @ RawURL_Encode bytes)"
proof -
  have dig: "of_char c < (128 :: nat) \<and> \<not> is_space (of_char c)" if "c \<in> set (RawURL_Encode bytes)" for c
    using b64_digit_url [OF Encode_digits [OF that]] by (auto simp: is_space_def)
  have "ascii (APITokenPrefix @ RawURL_Encode bytes)" using dig by (auto simp: ascii_def)
  moreover have "last (RawURL_Encode bytes) \<in> set (RawURL_Encode bytes)" using assms by simp
  from dig [OF this] have "\<not> is_space (of_char (last (APITokenPrefix @ RawURL_Encode bytes)))" using assms by simp
  ultimately show "header_credential (''Bearer '' @ APITokenPrefix @ RawURL_Encode bytes) = Some (APITokenPrefix @ RawURL_Encode bytes)"
    by (intro bearer_header) (simp_all add: is_space_def)
  show "LooksLikeAPIToken (APITokenPrefix @ RawURL_Encode bytes)" by (simp add: LooksLikeAPIToken_def)
qed

subsection \<open>The way around the role cap\<close>

text \<open>
  An approver, who may not create a pipeline, mints a token with the role operator; requests
  with that token then pass wherever an operator passes, creating pipelines included.
\<close>

theorem approver_mints_operator:
  assumes "Middleware_Handler cfg (\<lambda>p. Authenticate sha256 now p (ts_rows s)) header = AuthUser a None"
    and "Claims_Roles a = [RoleApprover]" "\<not> callerIsToken (Some a)" "AC_apiTokens cfg"
    and "TrimSpace (CR_Name req) \<noteq> []" "CR_Role req = RoleOperator" "CR_ExpiresAt req = None"
    and "bytes \<noteq> []" "tok = APITokenPrefix @ RawURL_Encode bytes"
    and "\<forall>t \<in> set (ts_rows s). Tok_ID t \<noteq> uuid \<and> Tok_Hash t \<noteq> HashAPIToken sha256 tok"
    and "create = EvRequest header now (CallCreate (Some req) uuid (Some bytes))"
  shows "fst (tok_step sha256 cfg mfaValues s (EvRequest header now (CallOther ''pipeline'' ''create''))) = (403, None) \<and>
    fst (tok_step sha256 cfg mfaValues s create) = (201, Some tok) \<and>
    fst (tok_step sha256 cfg mfaValues (snd (tok_step sha256 cfg mfaValues s create))
      (EvRequest (''Bearer '' @ tok) now' (CallOther ''pipeline'' ''create''))) = (200, None) \<and>
    (\<forall>c r act. Claims_Roles c = [RoleOperator] \<and> Permission (Some c) r act \<longrightarrow>
       fst (tok_step sha256 cfg mfaValues (snd (tok_step sha256 cfg mfaValues s create))
         (EvRequest (''Bearer '' @ tok) now' (CallOther r act))) = (200, None))"
proof -
  let ?s = "snd (tok_step sha256 cfg mfaValues s create)"
  have create_row: "(''pipeline'', ''create'', roles) \<in> set defaultPolicy \<longleftrightarrow> roles = [RoleAdmin, RoleOperator]" for roles
    by (simp add: defaultPolicy_def)
  have "\<not> Permission (Some a) ''pipeline'' ''create''" unfolding Permission_row create_row using assms(2) by auto
  then have own: "fst (tok_step sha256 cfg mfaValues s (EvRequest header now (CallOther ''pipeline'' ''create''))) = (403, None)"
    using assms(1) by (simp add: RequirePermission_def)
  define t where "t = \<lparr>Tok_ID = uuid, Tok_Name = TrimSpace (CR_Name req),
     Tok_DisplayPrefix = (if length tok > 12 then take 12 tok else tok), Tok_Hash = HashAPIToken sha256 tok,
     Tok_Role = RoleOperator, Tok_CreatedBySub = Claims_Subject a, Tok_CreatedByEmail = Claims_Email a,
     Tok_CreatedAt = now, Tok_ExpiresAt = None, Tok_LastUsedAt = None\<rparr>"
  have mint: "canMintRole [RoleApprover] RoleOperator" "validRole RoleOperator"
    by (simp_all add: canMintRole_def roleRank_def validRole_def)
  have "\<not> list_ex (\<lambda>r. Tok_Hash r = HashAPIToken sha256 tok \<or> Tok_ID r = uuid) (ts_rows s)"
    using assms(10) by (auto simp: list_ex_iff)
  then have ts: "TS_Create sha256 now uuid (Some bytes) req a False (ts_rows s) = (Inr (t, tok), ts_rows s @ [t])"
    using assms(2,5-7,9) mint by (simp add: TS_Create_def GenerateAPIToken_def pgt_Create_def t_def Let_def)
  have minted: "fst (tok_step sha256 cfg mfaValues s create) = (201, Some tok)" "ts_rows ?s = ts_rows s @ [t]"
    using assms(1,3,11) ts by (simp_all add: CreateAPIToken_def touch_sys_def)
  have "find (\<lambda>t. Tok_Hash t = HashAPIToken sha256 tok) (ts_rows s @ [t]) = Some t"
    using assms(10) by (intro find_snoc) (simp_all add: t_def)
  then obtain c' where auth: "Authenticate sha256 now' tok (ts_rows ?s) = Some (uuid, c')" "Claims_Roles c' = [RoleOperator]"
    unfolding minted(2) by (simp add: Authenticate_def pgt_GetByHash_def t_def APIToken_Expired_def)
  have mw: "Middleware_Handler cfg (\<lambda>p. Authenticate sha256 now' p (ts_rows ?s)) (''Bearer '' @ tok) = AuthUser c' (Some uuid)"
    using token_header [OF minted_plaintext(1) [OF assms(8)] _ minted_plaintext(2) [OF assms(8)] assms(4)] auth(1)
    by (simp add: assms(9) token_outcome_def)
  have use: "fst (tok_step sha256 cfg mfaValues ?s (EvRequest (''Bearer '' @ tok) now' (CallOther r act))) = (200, None)"
    if "Claims_Roles c = [RoleOperator]" "Permission (Some c) r act" for c :: Claims and r act
  proof -
    have "Permission (Some c') r act" using that auth(2) unfolding Permission_row by auto
    with mw show ?thesis by (simp add: RequirePermission_def)
  qed
  have "Permission (Some c') ''pipeline'' ''create''" unfolding Permission_row create_row using auth(2) by auto
  from use [OF auth(2) this] use own minted(1) show ?thesis by blast
qed

subsection \<open>Revocation\<close>

text \<open>A later creation that draws the very bytes of the revoked token would revive its plaintext.\<close>

fun draws :: "(string \<Rightarrow> string) \<Rightarrow> string \<Rightarrow> tok_event \<Rightarrow> bool" where
  "draws sha256 h (EvRequest header now (CallCreate body uuid (Some bytes)))
     = (HashAPIToken sha256 (APITokenPrefix @ RawURL_Encode bytes) = h)"
| "draws sha256 h _ = False"

lemma tok_step_hashes:
  assumes "h \<notin> Tok_Hash ` set (ts_rows s)" "\<not> draws sha256 h ev"
  shows "h \<notin> Tok_Hash ` set (ts_rows (snd (tok_step sha256 cfg mfaValues s ev)))"
proof (cases ev)
  case (EvRequest header now call)
  show ?thesis
  proof (cases "Middleware_Handler cfg (\<lambda>p. Authenticate sha256 now p (ts_rows s)) header")
    case (AuthAbort n)
    with assms(1) show ?thesis by (simp add: EvRequest)
  next
    case (AuthUser claims tid)
    let ?s = "touch_sys now tid s"
    have "h \<notin> Tok_Hash ` set (ts_rows (snd (serve sha256 mfaValues now claims call ?s)))"
    proof (cases rule: serve_rows [of sha256 mfaValues now claims call ?s])
      case (created body uuid bytes t)
      with assms show ?thesis by (auto simp: EvRequest)
    qed (use assms(1) in auto)
    then show ?thesis by (simp add: EvRequest AuthUser)
  qed
next
  case (EvWrite k)
  have "Tok_Hash ` set (snd (pgt_TouchLastUsed i x rows)) = Tok_Hash ` set rows" for i x rows
  proof -
    have "map Tok_Hash (map (\<lambda>t. if Tok_ID t = i then t\<lparr>Tok_LastUsedAt := Some x\<rparr> else t) rows) = map Tok_Hash rows"
      by simp
    from arg_cong [OF this, of set] show ?thesis unfolding touch_rows by (simp only: set_map)
  qed
  with assms(1) show ?thesis by (simp add: EvWrite)
qed

lemma tok_run_hashes:
  assumes "h \<notin> Tok_Hash ` set (ts_rows s)" "\<forall>ev \<in> set evs. \<not> draws sha256 h ev"
  shows "h \<notin> Tok_Hash ` set (ts_rows (tok_run sha256 cfg mfaValues s evs))"
  using assms
proof (induction evs arbitrary: s)
  case (Cons ev evs)
  then show ?case using tok_step_hashes [of h s sha256 ev cfg mfaValues] by (simp add: tok_run_def)
qed (simp add: tok_run_def)

text \<open>
  Once a \<open>DELETE\<close> of a token has been answered with 200, its plaintext never authenticates
  again, at no time and after no later requests, and a request that carries it gets a 401, unless
  a later creation draws a secret with the same hash.
\<close>

theorem revoked_token_dead:
  assumes "s = tok_run sha256 cfg mfaValues tokSys_init evs" "t \<in> set (ts_rows s)"
    and "tok_step sha256 cfg mfaValues s (EvRequest header now (CallDelete (Tok_ID t))) = ((200, None), s1)"
    and "\<forall>ev \<in> set evs'. \<not> draws sha256 (Tok_Hash t) ev"
    and "HashAPIToken sha256 p = Tok_Hash t"
  shows "Authenticate sha256 now' p (ts_rows (tok_run sha256 cfg mfaValues s1 evs')) = None \<and>
    (AC_apiTokens cfg \<and> p \<noteq> [] \<and> LooksLikeAPIToken p \<and> header_credential h = Some p \<longrightarrow>
       Middleware_Handler cfg (\<lambda>q. Authenticate sha256 now' q (ts_rows (tok_run sha256 cfg mfaValues s1 evs'))) h
         = AuthAbort 401)"
proof -
  have ok: "table_ok (ts_rows s)" using tok_run_inv [OF tok_inv_init] unfolding assms(1) tok_inv_def by blast
  obtain claims tid where u: "Middleware_Handler cfg (\<lambda>p. Authenticate sha256 now p (ts_rows s)) header = AuthUser claims tid"
    using assms(3) Middleware_abort [of cfg "\<lambda>p. Authenticate sha256 now p (ts_rows s)" header 200]
    by (cases "Middleware_Handler cfg (\<lambda>p. Authenticate sha256 now p (ts_rows s)) header") auto
  obtain st rows' where d: "DeleteAPIToken mfaValues (Some claims) (Tok_ID t) (ts_rows s) = (st, rows')"
    by (cases "DeleteAPIToken mfaValues (Some claims) (Tok_ID t) (ts_rows s)")
  have st: "st = 200" "ts_rows s1 = rows'" using assms(3) by (auto simp: u d)
  have "rows' = filter (\<lambda>x. Tok_ID x \<noteq> Tok_ID t) (ts_rows s)"
    using d st(1) unfolding DeleteAPIToken_outcome by (auto split: if_splits option.splits)
  moreover have "Tok_Hash x \<noteq> Tok_Hash t" if "x \<in> set (ts_rows s)" "Tok_ID x \<noteq> Tok_ID t" for x
    using ok that assms(2) unfolding table_ok_def distinct_map inj_on_def by metis
  ultimately have "Tok_Hash t \<notin> Tok_Hash ` set (ts_rows s1)" unfolding st(2) by fastforce
  then have gone: "Tok_Hash t \<notin> Tok_Hash ` set (ts_rows (tok_run sha256 cfg mfaValues s1 evs'))"
    by (rule tok_run_hashes [OF _ assms(4)])
  have none: "Authenticate sha256 now' p (ts_rows (tok_run sha256 cfg mfaValues s1 evs')) = None"
  proof (rule ccontr)
    assume "Authenticate sha256 now' p (ts_rows (tok_run sha256 cfg mfaValues s1 evs')) \<noteq> None"
    then obtain i c where "Authenticate sha256 now' p (ts_rows (tok_run sha256 cfg mfaValues s1 evs')) = Some (i, c)"
      by auto
    from Authenticate_Some [OF this] obtain x
      where "x \<in> set (ts_rows (tok_run sha256 cfg mfaValues s1 evs'))" "Tok_Hash x = Tok_Hash t"
      unfolding assms(5) by blast
    with gone show False by (metis image_eqI)
  qed
  with token_header show ?thesis by (auto simp: token_outcome_def)
qed

subsection \<open>A concrete history\<close>

definition demo_identity :: "string \<Rightarrow> oidc_answer" where
  "demo_identity cred = (if cred = ''jwt'' then OidcIdentity ''ann'' ''a@x'' ''Ann'' [''cooker-approvers''] [] [] else OidcRejected)"

definition demo_cfg :: auth_cfg where
  "demo_cfg = \<lparr>AC_Enabled = True, AC_GroupRoleMap = Map.empty, AC_oidc = demo_identity, AC_localIssuer = None,
     AC_apiTokens = True\<rparr>"

definition demo_ann :: Claims where
  "demo_ann = \<lparr>Claims_Subject = ''ann'', Claims_Email = ''a@x'', Claims_Name = ''Ann'',
     Claims_Groups = [''cooker-approvers''], Claims_Roles = [RoleApprover], Claims_ACR = [], Claims_AMR = []\<rparr>"

definition demo_req :: createReq where
  "demo_req = \<lparr>CR_Name = ''ci'', CR_Role = RoleOperator, CR_ExpiresAt = None\<rparr>"

definition demo_tok :: string where "demo_tok = APITokenPrefix @ RawURL_Encode ''x''"

definition demo_create :: tok_event where
  "demo_create = EvRequest ''Bearer jwt'' 5 (CallCreate (Some demo_req) ''id'' (Some ''x''))"

definition demo_row :: APIToken where
  "demo_row = \<lparr>Tok_ID = ''id'', Tok_Name = ''ci'', Tok_DisplayPrefix = demo_tok, Tok_Hash = HashAPIToken id demo_tok,
     Tok_Role = RoleOperator, Tok_CreatedBySub = ''ann'', Tok_CreatedByEmail = ''a@x'', Tok_CreatedAt = 5,
     Tok_ExpiresAt = None, Tok_LastUsedAt = None\<rparr>"

lemma demo_ann_header: "Middleware_Handler demo_cfg authenticate ''Bearer jwt'' = AuthUser demo_ann None"
proof -
  have "header_credential (''Bearer '' @ ''jwt'') = Some ''jwt''"
    by (rule bearer_header) (simp_all add: ascii_def is_space_def)
  then have "bearerToken ''Bearer jwt'' = Some ''jwt''" by (simp add: bearerToken_def)
  moreover have "MapGroupsToRolesWith [''cooker-approvers''] Map.empty = [RoleApprover]"
    by (simp add: MapGroupsToRolesWith_def DefaultGroupRoleMap_def)
  ultimately show ?thesis
    by (simp add: Middleware_Handler_def demo_cfg_def LooksLikeAPIToken_def demo_identity_def demo_ann_def)
qed

lemma demo_name: "TrimSpace ''ci'' = ''ci''"
  using TrimSpace_between [of "[]" "[]" "''ci''"] by (simp add: ascii_spaces_def ascii_def is_space_def)

lemma demo_person: "\<not> callerIsToken (Some demo_ann)"
  by (simp add: callerIsToken_def TokenSubjectPrefix_def demo_ann_def)

lemma demo_minted: "ts_rows (tok_run id demo_cfg [] tokSys_init [demo_create]) = [demo_row]"
proof -
  have "canMintRole [RoleApprover] RoleOperator" by (simp add: canMintRole_def roleRank_def)
  moreover have "GenerateAPIToken id (Some ''x'') = Some (demo_tok, HashAPIToken id demo_tok, demo_tok)"
    unfolding GenerateAPIToken_def option.case demo_tok_def [symmetric] Let_def
    by (simp add: demo_tok_def length_RawURL_Encode)
  ultimately have "TS_Create id 5 ''id'' (Some ''x'') demo_req demo_ann False [] = (Inr (demo_row, demo_tok), [demo_row])"
    by (simp add: TS_Create_def demo_req_def demo_name validRole_def demo_ann_def pgt_Create_def demo_row_def Let_def)
  then show ?thesis
    using demo_person
    by (simp add: tok_run_def demo_create_def demo_ann_header CreateAPIToken_def touch_sys_def tokSys_init_def)
qed

lemma demo_auth:
  "\<exists>c. Authenticate id 9 demo_tok [demo_row] = Some (''id'', c)"
  by (simp add: Authenticate_def pgt_GetByHash_def demo_row_def APIToken_Expired_def)

lemma token_authority_witness:
  "\<exists>i c. Authenticate id 9 demo_tok (ts_rows (tok_run id demo_cfg [] tokSys_init [demo_create])) = Some (i, c) \<and>
     RequireMFA [''mfa''] (Some c) \<noteq> GateNext"
proof -
  obtain c where "Authenticate id 9 demo_tok (ts_rows (tok_run id demo_cfg [] tokSys_init [demo_create])) = Some (''id'', c)"
    using demo_auth by (auto simp: demo_minted)
  moreover from token_authority [OF refl this] have "RequireMFA [''mfa''] (Some c) \<noteq> GateNext" by auto
  ultimately show ?thesis by blast
qed

lemma approver_mints_operator_witness:
  "fst (tok_step id demo_cfg [] (snd (tok_step id demo_cfg [] tokSys_init demo_create))
     (EvRequest (''Bearer '' @ demo_tok) 9 (CallOther ''pipeline'' ''create''))) = (200, None)"
proof -
  note t = approver_mints_operator [where ?sha256.0 = id and s = tokSys_init and mfaValues = "[]" and now' = 9,
      OF demo_ann_header _ demo_person _ _ _ _ _ demo_tok_def _ demo_create_def]
  show ?thesis
    by (rule conjunct1 [OF conjunct2 [OF conjunct2 [OF t]]])
      (simp_all add: demo_ann_def demo_cfg_def demo_req_def demo_name tokSys_init_def)
qed

lemma revoked_token_dead_witness:
  "Authenticate id 9 demo_tok (ts_rows (tok_run id demo_cfg []
     (snd (tok_step id demo_cfg [] (tok_run id demo_cfg [] tokSys_init [demo_create])
        (EvRequest ''Bearer jwt'' 6 (CallDelete ''id'')))) [])) = None"
proof -
  let ?s = "tok_run id demo_cfg [] tokSys_init [demo_create]"
  let ?r = "tok_step id demo_cfg [] ?s (EvRequest ''Bearer jwt'' 6 (CallDelete (Tok_ID demo_row)))"
  have i: "Tok_ID demo_row = ''id''" "Tok_CreatedBySub demo_row = Claims_Subject demo_ann"
    by (simp_all add: demo_row_def demo_ann_def)
  have "fst ?r = (200, None)"
    using demo_person i
    by (simp add: demo_ann_header touch_sys_def DeleteAPIToken_outcome demo_minted)
  then have r: "?r = ((200, None), snd ?r)" by (metis prod.collapse)
  have t: "demo_row \<in> set (ts_rows ?s)" by (simp add: demo_minted)
  have h: "HashAPIToken id demo_tok = Tok_Hash demo_row" by (simp add: demo_row_def)
  show ?thesis
    using conjunct1 [OF revoked_token_dead [where evs' = "[]" and now' = 9, OF refl t r _ h]] i by simp
qed

end
