(* ===== verification/LocalAuth.thy ===== *)
theory LocalAuth
  imports TokenAuthority
begin

text \<open>
  Local accounts: e-mail and password (\<open>backend/internal/auth/local/local.go\<close>), the user store
  (\<open>store/memory/user.go\<close>) and the signup and signin requests (\<open>handler/auth_local.go\<close>), signups
  also interleaved.  bcrypt (with its salt), the JWT library and the case tables of Unicode are
  parameters.
\<close>

subsection \<open>The user store\<close>

record User =
  U_ID :: string
  U_Email :: string
  U_Name :: string
  U_PasswordHash :: string
  U_Role :: string
  U_CreatedAt :: time
  U_UpdatedAt :: time

record users =
  us_byID :: "string \<rightharpoonup> User"
  us_byEmail :: "string \<rightharpoonup> string"

definition users_empty :: users where
  "users_empty = \<lparr>us_byID = Map.empty, us_byEmail = Map.empty\<rparr>"

definition email_key :: "(string \<Rightarrow> string) \<Rightarrow> string \<Rightarrow> string" where
  "email_key ToLower email = ToLower (TrimSpace email)"

text \<open>A user that the id map does not hold is a nil pointer without an error.\<close>

definition users_GetByEmail :: "(string \<Rightarrow> string) \<Rightarrow> string \<Rightarrow> users \<Rightarrow> store_err + User option" where
  "users_GetByEmail ToLower email s =
     (case us_byEmail s (email_key ToLower email) of None \<Rightarrow> Inl ErrNotFound | Some i \<Rightarrow> Inr (us_byID s i))"

definition users_GetByID :: "string \<Rightarrow> users \<Rightarrow> store_err + User" where
  "users_GetByID i s = (case us_byID s i of None \<Rightarrow> Inl ErrNotFound | Some u \<Rightarrow> Inr u)"

definition users_Create :: "(string \<Rightarrow> string) \<Rightarrow> User \<Rightarrow> users \<Rightarrow> bool \<times> users" where
  "users_Create ToLower u s =
     (let key = email_key ToLower (U_Email u) in
      if us_byEmail s key \<noteq> None then (False, s)
      else (True, s\<lparr>us_byID := (us_byID s)(U_ID u \<mapsto> u), us_byEmail := (us_byEmail s)(key \<mapsto> U_ID u)\<rparr>))"

text \<open>\<open>EqualFold\<close> is a parameter like the case tables.\<close>

definition users_Update :: "(string \<Rightarrow> string) \<Rightarrow> (string \<Rightarrow> string \<Rightarrow> bool) \<Rightarrow> User \<Rightarrow> users \<Rightarrow>
    (store_err + unit) \<times> users" where
  "users_Update ToLower EqualFold u s =
     (case us_byID s (U_ID u) of
        None \<Rightarrow> (Inl ErrNotFound, s)
      | Some old \<Rightarrow>
          (let emails = (if \<not> EqualFold (U_Email old) (U_Email u)
                         then (us_byEmail s)(email_key ToLower (U_Email old) := None,
                                email_key ToLower (U_Email u) := Some (U_ID u))
                         else us_byEmail s)
           in (Inr (), s\<lparr>us_byID := (us_byID s)(U_ID u \<mapsto> u), us_byEmail := emails\<rparr>)))"

definition users_Count :: "users \<Rightarrow> nat" where
  "users_Count s = card (dom (us_byID s))"

subsection \<open>Passwords, e-mails, roles, sessions\<close>

definition MinPasswordLength :: nat where "MinPasswordLength = 8"

text \<open>A count that failed is \<open>None\<close>.\<close>

definition BootstrapRole :: "nat option \<Rightarrow> string" where
  "BootstrapRole n = (case n of None \<Rightarrow> RoleViewer | Some k \<Rightarrow> if k = 0 then RoleAdmin else RoleViewer)"

text \<open>\<open>bcrypt\<close> refuses a password it cannot hash, one of more than 72 bytes.\<close>

definition HashPassword :: "(string \<Rightarrow> string option) \<Rightarrow> string \<Rightarrow> string option" where
  "HashPassword bcrypt plaintext = (if length plaintext < MinPasswordLength then None else bcrypt plaintext)"

definition VerifyPassword :: "(string \<Rightarrow> string \<Rightarrow> bool) \<Rightarrow> string \<Rightarrow> string \<Rightarrow> bool" where
  "VerifyPassword bcrypt_ok hash plaintext = bcrypt_ok hash plaintext"

definition NormaliseEmail :: "(string \<Rightarrow> string) \<Rightarrow> string \<Rightarrow> string option" where
  "NormaliseEmail ToLower raw =
     (let e = ToLower (TrimSpace raw) in
      if e = [] then None
      else if CHR ''@'' \<notin> set e \<or> hd e = CHR ''@'' \<or> last e = CHR ''@'' then None
      else Some e)"

record LocalClaims =
  LoC_Issuer :: string
  LoC_Subject :: string
  LoC_Email :: string
  LoC_Name :: string
  LoC_Role :: string
  LoC_IssuedAt :: time
  LoC_ExpiresAt :: time

record Issuer =
  Is_signingKey :: string
  Is_ttl :: duration

definition NewIssuer :: "string \<Rightarrow> duration \<Rightarrow> Issuer option" where
  "NewIssuer signingKey ttl =
     (if length signingKey < 32 then None
      else Some \<lparr>Is_signingKey = signingKey, Is_ttl = (if ttl \<le> 0 then 12 * Hour else ttl)\<rparr>)"

definition session_claims :: "Issuer \<Rightarrow> time \<Rightarrow> string \<Rightarrow> string \<Rightarrow> string \<Rightarrow> string \<Rightarrow> LocalClaims" where
  "session_claims ir now userID email name role =
     \<lparr>LoC_Issuer = ''cooker-local'', LoC_Subject = userID, LoC_Email = email, LoC_Name = name,
      LoC_Role = role, LoC_IssuedAt = now, LoC_ExpiresAt = now + Is_ttl ir\<rparr>"

text \<open>\<open>sign key claims\<close> is the HS256 token of the JWT library, or \<open>None\<close> for its error.\<close>

definition Issuer_Issue :: "(string \<Rightarrow> LocalClaims \<Rightarrow> string option) \<Rightarrow> Issuer \<Rightarrow> time \<Rightarrow> string \<Rightarrow> string \<Rightarrow> string \<Rightarrow>
    string \<Rightarrow> (string \<times> time) option" where
  "Issuer_Issue sign ir now userID email name role =
     (case sign (Is_signingKey ir) (session_claims ir now userID email name role) of
        None \<Rightarrow> None
      | Some tok \<Rightarrow> Some (tok, now + Is_ttl ir))"

text \<open>
  \<open>parse key now raw\<close>: the claims of a token with a valid HS256 signature and issuer that has not
  expired.  With the unverified issuer it makes the issuer the middleware asks.
\<close>

definition Issuer_Verify :: "(string \<Rightarrow> time \<Rightarrow> string \<Rightarrow> LocalClaims option) \<Rightarrow> Issuer \<Rightarrow> time \<Rightarrow> string \<Rightarrow>
    LocalClaims option" where
  "Issuer_Verify parse ir now raw = parse (Is_signingKey ir) now raw"

definition issuer_for :: "(string \<Rightarrow> time \<Rightarrow> string \<Rightarrow> LocalClaims option) \<Rightarrow> (string \<Rightarrow> string option) \<Rightarrow> Issuer \<Rightarrow>
    time \<Rightarrow> local_issuer" where
  "issuer_for parse iss ir now =
     \<lparr>LI_iss = iss,
      LI_verify = (\<lambda>raw. map_option (\<lambda>c. (LoC_Subject c, LoC_Email c, LoC_Name c, LoC_Role c))
                       (Issuer_Verify parse ir now raw))\<rparr>"

subsection \<open>Signup, step by step\<close>

record signupRequest =
  SU_Email :: string
  SU_Password :: string
  SU_Name :: string

text \<open>Everything before the first call of the store; a body that does not bind is \<open>None\<close>.\<close>

definition Signup_check :: "(string \<Rightarrow> string) \<Rightarrow> (string \<Rightarrow> string option) \<Rightarrow> bool \<Rightarrow> signupRequest option \<Rightarrow>
    nat + string \<times> string \<times> string" where
  "Signup_check ToLower bcrypt allowSignup body =
     (if \<not> allowSignup then Inl 403
      else (case body of
          None \<Rightarrow> Inl 400
        | Some req \<Rightarrow>
            if SU_Email req = [] \<or> SU_Password req = [] then Inl 400
            else (case NormaliseEmail ToLower (SU_Email req) of
                None \<Rightarrow> Inl 400
              | Some email \<Rightarrow>
                  (case HashPassword bcrypt (SU_Password req) of
                     None \<Rightarrow> Inl 400
                   | Some hash \<Rightarrow> Inr (email, hash, TrimSpace (SU_Name req))))))"

definition new_user :: "string \<Rightarrow> time \<Rightarrow> string \<Rightarrow> string \<Rightarrow> string \<Rightarrow> string \<Rightarrow> User" where
  "new_user uuid now email hash name role =
     \<lparr>U_ID = uuid, U_Email = email, U_Name = name, U_PasswordHash = hash, U_Role = role,
      U_CreatedAt = now, U_UpdatedAt = now\<rparr>"

text \<open>
  Where a signup is: not begun, after its lookup of the address, after its count of the users, or
  answered.  The three calls of the store are three steps, and other signups act in between; a new
  id is one that no account has, and \<open>issued\<close> says whether the session could be signed.
\<close>

datatype su_pc =
    SuIdle
  | SuLooked string string string
  | SuCounted string string string string
  | SuDone nat

record la_sys =
  la_users :: users
  la_pc :: "nat \<Rightarrow> su_pc"

definition la_init :: la_sys where
  "la_init = \<lparr>la_users = users_empty, la_pc = (\<lambda>_. SuIdle)\<rparr>"

definition goto :: "nat \<Rightarrow> su_pc \<Rightarrow> la_sys \<Rightarrow> la_sys" where
  "goto c pc s = s\<lparr>la_pc := (la_pc s)(c := pc)\<rparr>"

inductive la_step :: "(string \<Rightarrow> string) \<Rightarrow> (string \<Rightarrow> string option) \<Rightarrow> bool \<Rightarrow> la_sys \<Rightarrow> la_sys \<Rightarrow> bool"
  for ToLower bcrypt allowSignup where
  refused: "la_pc s c = SuIdle \<Longrightarrow> Signup_check ToLower bcrypt allowSignup body = Inl st \<Longrightarrow>
     la_step ToLower bcrypt allowSignup s (goto c (SuDone st) s)"
| taken: "la_pc s c = SuIdle \<Longrightarrow> Signup_check ToLower bcrypt allowSignup body = Inr (email, hash, name) \<Longrightarrow>
     users_GetByEmail ToLower email (la_users s) = Inr (Some u) \<Longrightarrow>
     la_step ToLower bcrypt allowSignup s (goto c (SuDone 409) s)"
| looked: "la_pc s c = SuIdle \<Longrightarrow> Signup_check ToLower bcrypt allowSignup body = Inr (email, hash, name) \<Longrightarrow>
     \<not> (\<exists>u. users_GetByEmail ToLower email (la_users s) = Inr (Some u)) \<Longrightarrow>
     la_step ToLower bcrypt allowSignup s (goto c (SuLooked email hash name) s)"
| counted: "la_pc s c = SuLooked email hash name \<Longrightarrow> n = None \<or> n = Some (users_Count (la_users s)) \<Longrightarrow>
     la_step ToLower bcrypt allowSignup s (goto c (SuCounted email hash name (BootstrapRole n)) s)"
| created: "la_pc s c = SuCounted email hash name role \<Longrightarrow> us_byID (la_users s) uuid = None \<Longrightarrow>
     users_Create ToLower (new_user uuid now email hash name role) (la_users s) = (ok, us) \<Longrightarrow>
     la_step ToLower bcrypt allowSignup s
       (goto c (SuDone (if ok \<and> issued then 201 else 500)) (s\<lparr>la_users := us\<rparr>))"
| again: "la_pc s c = SuDone st \<Longrightarrow> la_step ToLower bcrypt allowSignup s (goto c SuIdle s)"

abbreviation la_reach :: "(string \<Rightarrow> string) \<Rightarrow> (string \<Rightarrow> string option) \<Rightarrow> bool \<Rightarrow> la_sys \<Rightarrow> la_sys \<Rightarrow> bool" where
  "la_reach ToLower bcrypt allowSignup \<equiv> (la_step ToLower bcrypt allowSignup)\<^sup>*\<^sup>*"

definition admins :: "la_sys \<Rightarrow> string set" where
  "admins s = {i. \<exists>u. us_byID (la_users s) i = Some u \<and> U_Role u = RoleAdmin}"

subsection \<open>The requests\<close>

record meUser =
  MU_ID :: string
  MU_Email :: string
  MU_Name :: string
  MU_Role :: string
  MU_Roles :: "string list"

definition newMeUser :: "User \<Rightarrow> meUser" where
  "newMeUser u = \<lparr>MU_ID = U_ID u, MU_Email = U_Email u, MU_Name = U_Name u, MU_Role = U_Role u, MU_Roles = [U_Role u]\<rparr>"

type_synonym tokenResponse = "string \<times> time \<times> meUser"

text \<open>A whole signup that nothing interrupts, over the memory store, where counting does not fail.\<close>

definition Signup :: "(string \<Rightarrow> string) \<Rightarrow> (string \<Rightarrow> string option) \<Rightarrow> (string \<Rightarrow> LocalClaims \<Rightarrow> string option) \<Rightarrow>
    Issuer \<Rightarrow> bool \<Rightarrow> time \<Rightarrow> string \<Rightarrow> signupRequest option \<Rightarrow> users \<Rightarrow> (nat \<times> tokenResponse option) \<times> users" where
  "Signup ToLower bcrypt sign ir allowSignup now uuid body us =
     (case Signup_check ToLower bcrypt allowSignup body of
        Inl st \<Rightarrow> ((st, None), us)
      | Inr (email, hash, name) \<Rightarrow>
          if (case users_GetByEmail ToLower email us of Inr (Some u) \<Rightarrow> True | _ \<Rightarrow> False) then ((409, None), us)
          else (let u = new_user uuid now email hash name (BootstrapRole (Some (users_Count us))) in
            case users_Create ToLower u us of
              (False, us') \<Rightarrow> ((500, None), us')
            | (True, us') \<Rightarrow>
                (case Issuer_Issue sign ir now (U_ID u) (U_Email u) (U_Name u) (U_Role u) of
                   None \<Rightarrow> ((500, None), us')
                 | Some (tok, exp) \<Rightarrow> ((201, Some (tok, exp, newMeUser u)), us'))))"

record signinRequest =
  SI_Email :: string
  SI_Password :: string

text \<open>A nil user without an error is a nil pointer panic, which the router's recovery answers with 500.\<close>

definition Signin :: "(string \<Rightarrow> string) \<Rightarrow> (string \<Rightarrow> string \<Rightarrow> bool) \<Rightarrow> (string \<Rightarrow> LocalClaims \<Rightarrow> string option) \<Rightarrow>
    Issuer \<Rightarrow> time \<Rightarrow> signinRequest option \<Rightarrow> users \<Rightarrow> nat \<times> tokenResponse option" where
  "Signin ToLower bcrypt_ok sign ir now body us =
     (case body of
        None \<Rightarrow> (400, None)
      | Some req \<Rightarrow>
          if SI_Email req = [] \<or> SI_Password req = [] then (400, None)
          else (case NormaliseEmail ToLower (SI_Email req) of
              None \<Rightarrow> (401, None)
            | Some email \<Rightarrow>
                (case users_GetByEmail ToLower email us of
                   Inl e \<Rightarrow> (if e = ErrNotFound then (401, None) else (500, None))
                 | Inr None \<Rightarrow> (500, None)
                 | Inr (Some u) \<Rightarrow>
                     if \<not> VerifyPassword bcrypt_ok (U_PasswordHash u) (SI_Password req) then (401, None)
                     else (case Issuer_Issue sign ir now (U_ID u) (U_Email u) (U_Name u) (U_Role u) of
                         None \<Rightarrow> (500, None)
                       | Some (tok, exp) \<Rightarrow> (200, Some (tok, exp, newMeUser u))))))"

definition primaryRole :: "string list \<Rightarrow> string" where
  "primaryRole roles = (if roles = [] then RoleViewer else hd roles)"

definition Me :: "Claims option \<Rightarrow> nat \<times> meUser option" where
  "Me claims = (case claims of
        None \<Rightarrow> (401, None)
      | Some c \<Rightarrow> (200, Some \<lparr>MU_ID = Claims_Subject c, MU_Email = Claims_Email c, MU_Name = Claims_Name c,
                              MU_Role = primaryRole (Claims_Roles c), MU_Roles = Claims_Roles c\<rparr>))"

subsection \<open>Accounts stay consistent\<close>

definition users_ok :: "(string \<Rightarrow> string) \<Rightarrow> users \<Rightarrow> bool" where
  "users_ok ToLower s \<longleftrightarrow> finite (dom (us_byID s)) \<and>
     (\<forall>i u. us_byID s i = Some u \<longrightarrow> U_ID u = i \<and> us_byEmail s (email_key ToLower (U_Email u)) = Some i \<and>
        (U_Role u = RoleAdmin \<or> U_Role u = RoleViewer)) \<and>
     (\<forall>k i. us_byEmail s k = Some i \<longrightarrow> (\<exists>u. us_byID s i = Some u \<and> email_key ToLower (U_Email u) = k))"

definition la_inv :: "(string \<Rightarrow> string) \<Rightarrow> la_sys \<Rightarrow> bool" where
  "la_inv ToLower s \<longleftrightarrow> users_ok ToLower (la_users s) \<and>
     (\<forall>c email hash name role. la_pc s c = SuCounted email hash name role \<longrightarrow> role = RoleAdmin \<or> role = RoleViewer)"

lemma goto_simps [simp]:
  "la_users (goto c pc s) = la_users s" "la_pc (goto c pc s) = (la_pc s)(c := pc)"
  by (simp_all add: goto_def)

lemma BootstrapRole_roles: "BootstrapRole n = RoleAdmin \<or> BootstrapRole n = RoleViewer"
  by (auto simp: BootstrapRole_def split: option.split)

lemma Create_ok:
  assumes "users_ok ToLower s" "us_byID s (U_ID u) = None" "U_Role u = RoleAdmin \<or> U_Role u = RoleViewer"
  shows "users_ok ToLower (snd (users_Create ToLower u s))"
proof (cases "us_byEmail s (email_key ToLower (U_Email u)) = None")
  case True
  have fresh: "us_byID s i = Some v \<Longrightarrow> i \<noteq> U_ID u \<and> email_key ToLower (U_Email v) \<noteq> email_key ToLower (U_Email u)" for i v
    using assms(1,2) True unfolding users_ok_def by (metis option.distinct(1))
  have old: "us_byEmail s k = Some i \<Longrightarrow> i \<noteq> U_ID u" for k i
    using assms(1,2) unfolding users_ok_def by (metis option.distinct(1))
  have c: "snd (users_Create ToLower u s) = s\<lparr>us_byID := (us_byID s)(U_ID u \<mapsto> u),
      us_byEmail := (us_byEmail s)(email_key ToLower (U_Email u) \<mapsto> U_ID u)\<rparr>"
    using True by (simp add: users_Create_def Let_def)
  show ?thesis
    using assms(1,3) fresh old unfolding c users_ok_def by (auto split: if_splits)
next
  case False
  with assms(1) show ?thesis by (simp add: users_Create_def Let_def)
qed

lemma la_step_inv:
  assumes "la_step ToLower bcrypt allowSignup s s'" "la_inv ToLower s"
  shows "la_inv ToLower s'"
  using assms
proof (cases rule: la_step.cases)
  case (counted c email hash name n)
  with assms(2) BootstrapRole_roles [of n] show ?thesis by (auto simp: la_inv_def)
next
  case (created c email hash name role uuid now ok us issued)
  have "users_ok ToLower us"
    using Create_ok [of ToLower "la_users s" "new_user uuid now email hash name role"] created assms(2)
    by (auto simp: la_inv_def new_user_def)
  with created assms(2) show ?thesis by (auto simp: la_inv_def)
qed (auto simp: la_inv_def)

lemma la_reach_inv:
  "la_reach ToLower bcrypt allowSignup s s' \<Longrightarrow> la_inv ToLower s \<Longrightarrow> la_inv ToLower s'"
  by (induction rule: rtranclp_induct) (auto intro: la_step_inv)

lemma la_init_inv: "la_inv ToLower la_init"
  by (simp add: la_inv_def la_init_def users_ok_def users_empty_def)

subsection \<open>Accounts are kept\<close>

text \<open>A signup whose three steps nothing interrupts is the function above.\<close>

lemma Signup_is_three_steps:
  assumes "la_pc s c = SuIdle" "us_byID (la_users s) uuid = None"
    "Signup ToLower bcrypt sign ir allowSignup now uuid body (la_users s) = ((st, r), us)"
  shows "la_reach ToLower bcrypt allowSignup s (goto c (SuDone st) (s\<lparr>la_users := us\<rparr>))"
proof (cases "Signup_check ToLower bcrypt allowSignup body")
  case (Inl e)
  then show ?thesis
    using la_step.refused [OF assms(1) Inl] assms(3) by (auto simp: Signup_def)
next
  case (Inr x)
  obtain email hash name where x: "x = (email, hash, name)" by (cases x)
  note chk = Inr [unfolded x]
  show ?thesis
  proof (cases "\<exists>u. users_GetByEmail ToLower email (la_users s) = Inr (Some u)")
    case True
    then obtain u where u: "users_GetByEmail ToLower email (la_users s) = Inr (Some u)" by blast
    then show ?thesis
      using la_step.taken [OF assms(1) chk u] assms(3) chk by (auto simp: Signup_def)
  next
    case False
    define role where "role = BootstrapRole (Some (users_Count (la_users s)))"
    define u where "u = new_user uuid now email hash name role"
    obtain ok us1 where cr: "users_Create ToLower u (la_users s) = (ok, us1)" by (cases "users_Create ToLower u (la_users s)")
    let ?issued = "Issuer_Issue sign ir now (U_ID u) (U_Email u) (U_Name u) (U_Role u) \<noteq> None"
    have res: "us1 = us \<and> st = (if ok \<and> ?issued then 201 else 500)"
      using assms(3) chk False cr unfolding Signup_def
      by (auto simp: u_def role_def Let_def split: sum.splits option.splits bool.splits if_splits)
    let ?s1 = "goto c (SuLooked email hash name) s" and ?s2 = "goto c (SuCounted email hash name role) (goto c (SuLooked email hash name) s)"
    have s1: "la_step ToLower bcrypt allowSignup s ?s1" by (rule la_step.looked [OF assms(1) chk False])
    have s2: "la_step ToLower bcrypt allowSignup ?s1 ?s2"
      unfolding role_def by (rule la_step.counted) simp_all
    have s3: "la_step ToLower bcrypt allowSignup ?s2
        (goto c (SuDone (if ok \<and> ?issued then 201 else 500)) (?s2\<lparr>la_users := us1\<rparr>))"
      by (rule la_step.created) (use cr assms(2) in \<open>simp_all add: u_def\<close>)
    have s4: "goto c (SuDone (if ok \<and> ?issued then 201 else 500)) (?s2\<lparr>la_users := us1\<rparr>)
        = goto c (SuDone st) (s\<lparr>la_users := us\<rparr>)"
      using res by (simp add: goto_def)
    show ?thesis
      using rtranclp.rtrancl_into_rtrancl [OF rtranclp.rtrancl_into_rtrancl [OF r_into_rtranclp [where r = "la_step ToLower bcrypt allowSignup", OF s1] s2] s3]
      unfolding s4 .
  qed
qed

lemma Create_kept:
  assumes "users_Create ToLower u s = (ok, s')" "us_byID s (U_ID u) = None"
  shows "us_byID s i = Some v \<Longrightarrow> us_byID s' i = Some v" "us_byEmail s k = Some i \<Longrightarrow> us_byEmail s' k = Some i"
  using assms by (auto simp: users_Create_def Let_def split: if_splits)

lemma Create_kept_new:
  assumes "users_Create ToLower (new_user uuid now email hash name role) s = (ok, s')" "us_byID s uuid = None"
  shows "us_byID s i = Some v \<Longrightarrow> us_byID s' i = Some v" "us_byEmail s k = Some i \<Longrightarrow> us_byEmail s' k = Some i"
  using Create_kept [OF assms(1)] assms(2) by (simp_all add: new_user_def)

lemma la_step_kept:
  assumes "la_step ToLower bcrypt allowSignup s s'"
  shows "us_byID (la_users s) i = Some v \<Longrightarrow> us_byID (la_users s') i = Some v"
    "us_byEmail (la_users s) k = Some i \<Longrightarrow> us_byEmail (la_users s') k = Some i"
  using assms
  by (cases rule: la_step.cases; auto simp: Create_kept_new)+

lemma la_reach_kept:
  assumes "la_reach ToLower bcrypt allowSignup s s'"
    "us_byID (la_users s) i = Some v" "us_byEmail (la_users s) k = Some i"
  shows "us_byID (la_users s') i = Some v \<and> us_byEmail (la_users s') k = Some i"
  using assms by (induction rule: rtranclp_induct) (auto dest: la_step_kept)

lemma Signup_created:
  assumes "Signup ToLower bcrypt sign ir allowSignup now uuid (Some req) us = ((201, r), us')"
  obtains email hash u where "allowSignup" "NormaliseEmail ToLower (SU_Email req) = Some email"
    "HashPassword bcrypt (SU_Password req) = Some hash"
    "u = new_user uuid now email hash (TrimSpace (SU_Name req)) (BootstrapRole (Some (users_Count us)))"
    "us_byID us' uuid = Some u" "us_byEmail us' (email_key ToLower email) = Some uuid"
  using assms that
  by (auto simp: Signup_def Signup_check_def users_Create_def Let_def new_user_def
      split: sum.splits option.splits if_splits bool.splits prod.splits)

subsection \<open>Who administers\<close>

definition la_closed :: "string \<Rightarrow> la_sys \<Rightarrow> bool" where
  "la_closed i s \<longleftrightarrow> finite (dom (us_byID (la_users s))) \<and> us_byID (la_users s) i \<noteq> None \<and>
     (\<forall>c email hash name. la_pc s c \<noteq> SuCounted email hash name RoleAdmin)"

lemma la_closedI:
  assumes "la_reach ToLower bcrypt allowSignup la_init s" "us_byID (la_users s) i \<noteq> None"
    "\<And>c email hash name. la_pc s c \<noteq> SuCounted email hash name RoleAdmin"
  shows "la_closed i s"
  using la_reach_inv [OF assms(1) la_init_inv] assms(2,3) by (simp add: la_closed_def la_inv_def users_ok_def)

lemma BootstrapRole_viewer:
  assumes "n = None \<or> n = Some (users_Count us)" "finite (dom (us_byID us))" "us_byID us i \<noteq> None"
  shows "BootstrapRole n = RoleViewer"
proof -
  have "dom (us_byID us) \<noteq> {}" using assms(3) by auto
  then have "users_Count us \<noteq> 0" using assms(2) by (simp add: users_Count_def)
  then show ?thesis using assms(1) by (auto simp: BootstrapRole_def)
qed

lemma Create_viewer_admins:
  assumes "users_Create ToLower (new_user uuid now email hash name role) (la_users s) = (ok, us)"
    "us_byID (la_users s) uuid = None" "role \<noteq> RoleAdmin" "la_users s' = us"
  shows "admins s' = admins s"
proof -
  let ?u = "new_user uuid now email hash name role"
  have "us_byID us = us_byID (la_users s) \<or> us_byID us = (us_byID (la_users s))(uuid \<mapsto> ?u)"
    using assms(1) unfolding users_Create_def Let_def by (cases "us_byEmail (la_users s) (email_key ToLower (U_Email ?u)) = None")
      (auto simp: new_user_def)
  moreover have "U_Role ?u \<noteq> RoleAdmin" using assms(3) by (simp add: new_user_def)
  ultimately show ?thesis using assms(2) unfolding admins_def assms(4) by (elim disjE) auto
qed

lemma la_closed_step:
  assumes "la_step ToLower bcrypt allowSignup s s'" "la_closed i s"
  shows "la_closed i s' \<and> admins s' = admins s"
  using assms(1)
proof (cases rule: la_step.cases)
  case (counted c email hash name n)
  have "BootstrapRole n = RoleViewer"
    by (rule BootstrapRole_viewer [where i = i, OF counted(3)]) (use assms(2) in \<open>simp_all add: la_closed_def\<close>)
  with counted assms(2) show ?thesis by (simp add: la_closed_def admins_def)
next
  case (created c email hash name role uuid now ok us issued)
  have "role \<noteq> RoleAdmin" using created(2) assms(2) by (auto simp: la_closed_def)
  then have "admins s' = admins s"
    by (rule Create_viewer_admins [OF created(4,3)]) (simp add: created(1))
  moreover have "finite (dom (us_byID us)) \<and> us_byID us i \<noteq> None"
    using created(3,4) assms(2) by (auto simp: users_Create_def la_closed_def Let_def split: if_splits)
  ultimately show ?thesis using created(1) assms(2) by (simp add: la_closed_def)
qed (use assms(2) in \<open>simp_all add: la_closed_def admins_def\<close>)

lemma la_closed_reach:
  "la_reach ToLower bcrypt allowSignup s s' \<Longrightarrow> la_closed i s \<Longrightarrow> la_closed i s' \<and> admins s' = admins s"
  by (induction rule: rtranclp_induct) (auto dest: la_closed_step)

text \<open>
  Counting the accounts and creating one are two calls of the store, so signups that count before any
  of them has created are all given the administrator's role.
\<close>

lemma counted_both_create:
  assumes "la_pc s c = SuCounted email hash name RoleAdmin" "la_pc s d = SuCounted email' hash' name' RoleAdmin"
    "c \<noteq> d" "la_users s = users_empty" "email_key ToLower email \<noteq> email_key ToLower email'" "uuid \<noteq> uuid'"
  shows "\<exists>s'. la_reach ToLower bcrypt allowSignup s s' \<and> admins s' = {uuid, uuid'} \<and>
           la_pc s' c = SuDone 201 \<and> la_pc s' d = SuDone 201"
proof -
  let ?u = "new_user uuid now email hash name RoleAdmin" and ?v = "new_user uuid' now email' hash' name' RoleAdmin"
  define us1 where "us1 = snd (users_Create ToLower ?u users_empty)"
  define us2 where "us2 = snd (users_Create ToLower ?v us1)"
  have c1: "users_Create ToLower ?u users_empty = (True, us1)"
    by (simp add: us1_def users_Create_def users_empty_def Let_def)
  have e: "us_byEmail us1 (email_key ToLower email') = None" "us_byID us1 uuid' = None"
    "us_byID us1 = [uuid \<mapsto> ?u]"
    using assms(5,6) by (simp_all add: us1_def users_Create_def users_empty_def Let_def new_user_def)
  have c2: "users_Create ToLower ?v us1 = (True, us2)"
    using e by (simp add: us2_def users_Create_def Let_def new_user_def)
  have d2: "us_byID us2 = [uuid \<mapsto> ?u, uuid' \<mapsto> ?v]"
    using e by (simp add: us2_def users_Create_def Let_def new_user_def)
  let ?s1 = "goto c (SuDone 201) (s\<lparr>la_users := us1\<rparr>)"
  let ?s2 = "goto d (SuDone 201) (?s1\<lparr>la_users := us2\<rparr>)"
  have "la_step ToLower bcrypt allowSignup s ?s1"
    using la_step.created [OF assms(1), where issued = True and ok = True and us = us1 and uuid = uuid and now = now] c1
    by (simp add: assms(4) users_empty_def)
  moreover have "la_step ToLower bcrypt allowSignup ?s1 ?s2"
    using la_step.created [where s = ?s1 and c = d and issued = True and ok = True and us = us2 and uuid = uuid' and now = now] c2
      assms(2,3) e by simp
  ultimately have "la_reach ToLower bcrypt allowSignup s ?s2" by (meson r_into_rtranclp rtranclp_trans)
  moreover have "admins ?s2 = {uuid, uuid'}"
    using assms(6) by (auto simp: admins_def d2 new_user_def)
  ultimately show ?thesis using assms(3) by (auto intro!: exI [of _ ?s2])
qed

lemma two_first_admins:
  assumes "Signup_check ToLower bcrypt allowSignup body = Inr (email, hash, name)"
    "Signup_check ToLower bcrypt allowSignup body' = Inr (email', hash', name')"
    "email_key ToLower email \<noteq> email_key ToLower email'" "uuid \<noteq> uuid'"
  shows "\<exists>s. la_reach ToLower bcrypt allowSignup la_init s \<and> admins s = {uuid, uuid'}"
proof -
  let ?R = "la_step ToLower bcrypt allowSignup"
  let ?s1 = "goto 0 (SuLooked email hash name) la_init"
  let ?s2 = "goto 1 (SuLooked email' hash' name') ?s1"
  let ?s3 = "goto 0 (SuCounted email hash name RoleAdmin) ?s2"
  let ?s4 = "goto 1 (SuCounted email' hash' name' RoleAdmin) ?s3"
  have none: "us_byID users_empty = Map.empty" "us_byEmail users_empty = Map.empty" "la_users la_init = users_empty"
    "la_pc la_init = (\<lambda>_. SuIdle)" by (simp_all add: users_empty_def la_init_def)
  have zero: "BootstrapRole (Some (users_Count users_empty)) = RoleAdmin"
    by (simp add: BootstrapRole_def users_Count_def none)
  have "?R la_init ?s1" by (rule la_step.looked [OF _ assms(1)]) (simp_all add: none users_GetByEmail_def)
  moreover have "?R ?s1 ?s2" by (rule la_step.looked [OF _ assms(2)]) (simp_all add: none users_GetByEmail_def)
  moreover have "?R ?s2 ?s3"
    using la_step.counted [of ?s2 0 email hash name "Some (users_Count (la_users ?s2))"] by (simp add: none zero)
  moreover have "?R ?s3 ?s4"
    using la_step.counted [of ?s3 1 email' hash' name' "Some (users_Count (la_users ?s3))"] by (simp add: none zero)
  ultimately have r: "la_reach ToLower bcrypt allowSignup la_init ?s4" by (meson r_into_rtranclp rtranclp_trans)
  have "\<exists>s'. la_reach ToLower bcrypt allowSignup ?s4 s' \<and> admins s' = {uuid, uuid'} \<and>
      la_pc s' 0 = SuDone 201 \<and> la_pc s' 1 = SuDone 201"
    by (rule counted_both_create [OF _ _ _ _ assms(3,4)]) (simp_all add: none)
  with r show ?thesis by (meson rtranclp_trans)
qed

subsection \<open>Sessions\<close>

text \<open>
  What the development uses of \<open>golang-jwt\<close>: a signed token is three segments of header characters
  that begin like the encoding of a JSON object, its issuer can be read, and it parses to the claims
  up to the last full second before it expires (expiry times have whole seconds).
\<close>

definition jwt_lib :: "(string \<Rightarrow> LocalClaims \<Rightarrow> string option) \<Rightarrow> (string \<Rightarrow> string option) \<Rightarrow>
    (string \<Rightarrow> time \<Rightarrow> string \<Rightarrow> LocalClaims option) \<Rightarrow> bool" where
  "jwt_lib sign iss parse \<longleftrightarrow> (\<forall>key c tok. sign key c = Some tok \<longrightarrow>
     take 3 tok = ''eyJ'' \<and> ascii tok \<and> (\<forall>x \<in> set tok. \<not> is_space (of_char x)) \<and>
     3 \<le> length (split_at CHR ''.'' tok) \<and> iss tok = Some (LoC_Issuer c) \<and>
     (LoC_Issuer c = ''cooker-local'' \<longrightarrow> (\<forall>t \<le> LoC_ExpiresAt c - Second. \<exists>c'. parse key t tok = Some c' \<and>
        LoC_Subject c' = LoC_Subject c \<and> LoC_Email c' = LoC_Email c \<and> LoC_Name c' = LoC_Name c \<and> LoC_Role c' = LoC_Role c)))"

lemma session_accepted:
  assumes "jwt_lib sign iss parse" "sign (Is_signingKey ir) (session_claims ir now uid email name role) = Some tok"
    "t \<le> now + Is_ttl ir - Second" "AC_localIssuer cfg = Some (issuer_for parse iss ir t)"
  shows "Middleware_Handler cfg authenticate (''Bearer '' @ tok)
     = AuthUser \<lparr>Claims_Subject = uid, Claims_Email = email, Claims_Name = name, Claims_Groups = [],
                 Claims_Roles = [role], Claims_ACR = [], Claims_AMR = []\<rparr> None"
proof -
  note l = assms(1) [unfolded jwt_lib_def, rule_format, OF assms(2)]
  have hd3: "take 3 tok = ''eyJ''" using l by blast
  then have ne: "tok \<noteq> []" by auto
  then have "hd tok \<in> set tok" "last tok \<in> set tok" by simp_all
  then have "header_credential (''Bearer '' @ tok) = Some tok"
    using l ne by (intro bearer_header) blast+
  moreover have "\<not> LooksLikeAPIToken tok" by (simp add: LooksLikeAPIToken_def hd3)
  moreover have "LooksLikeLocalToken (issuer_for parse iss ir t) tok"
    using l by (simp add: LooksLikeLocalToken_def issuer_for_def session_claims_def)
  moreover obtain c' where "parse (Is_signingKey ir) t tok = Some c'" "LoC_Subject c' = uid" "LoC_Email c' = email"
      "LoC_Name c' = name" "LoC_Role c' = role"
    using l assms(3) by (auto simp: session_claims_def)
  ultimately show ?thesis
    using assms(4) ne by (simp add: Middleware_Handler_def bearerToken_def issuer_for_def Issuer_Verify_def)
qed

text \<open>
  C26: The bootstrap closes.  Once an account exists and no signup that counted none is still on its
  way, the administrators are for good those there are: signups in any order and interleaving, also
  with a count that fails, add viewers only, and no request changes a role.
\<close>

theorem bootstrap_closes:
  assumes "la_reach ToLower bcrypt allowSignup la_init s"
    and "us_byID (la_users s) i \<noteq> None"
    and "\<And>c email hash name. la_pc s c \<noteq> SuCounted email hash name RoleAdmin"
    and "la_reach ToLower bcrypt allowSignup s s'"
  shows "admins s' = admins s"
proof -
  have "la_closed i s" by (rule la_closedI [OF assms(1,2)]) (simp add: assms(3))
  then show ?thesis using assms(4) by (simp add: la_closed_reach)
qed

text \<open>
  C27: A local account works.  After a signup that answered 201, whatever signups follow: signing in
  with the same address up to case and surrounding space and with the password gives a session,
  which the middleware accepts until its last second as that account with its role, \<open>Me\<close> shows that
  account, and a second signup with the address is refused with 409.  The laws used of bcrypt and of
  the JWT library are in \<open>jwt_lib\<close> and the third hypothesis.
\<close>

theorem signup_signin:
  assumes lib: "jwt_lib sign iss parse"
    and bc: "\<And>p h. bcrypt p = Some h \<Longrightarrow> bcrypt_ok h p"
    and up: "Signup ToLower bcrypt sign ir allowSignup now uuid (Some req) (la_users s) = ((201, r), us)"
    and new: "us_byID (la_users s) uuid = None"
    and later: "la_reach ToLower bcrypt allowSignup (s\<lparr>la_users := us\<rparr>) s'"
    and addr: "NormaliseEmail ToLower e = NormaliseEmail ToLower (SU_Email req)" "e \<noteq> []"
    and cfg: "\<And>t. AC_localIssuer (cfg t) = Some (issuer_for parse iss ir t)"
  shows "\<exists>u. us_byID us uuid = Some u \<and>
    (case sign (Is_signingKey ir) (session_claims ir now' uuid (U_Email u) (U_Name u) (U_Role u)) of
       None \<Rightarrow> Signin ToLower bcrypt_ok sign ir now' (Some \<lparr>SI_Email = e, SI_Password = SU_Password req\<rparr>) (la_users s')
                 = (500, None)
     | Some tok \<Rightarrow>
         Signin ToLower bcrypt_ok sign ir now' (Some \<lparr>SI_Email = e, SI_Password = SU_Password req\<rparr>) (la_users s')
           = (200, Some (tok, now' + Is_ttl ir, newMeUser u)) \<and>
         (\<forall>t \<le> now' + Is_ttl ir - Second. \<exists>c. Middleware_Handler (cfg t) authenticate (''Bearer '' @ tok) = AuthUser c None \<and>
            Claims_Roles c = [U_Role u] \<and> Me (Some c) = (200, Some (newMeUser u)))) \<and>
    Signup ToLower bcrypt sign ir allowSignup now' uuid' (Some (req\<lparr>SU_Email := e\<rparr>)) (la_users s')
      = ((409, None), la_users s')"
proof -
  obtain email hash u where u: "allowSignup" "NormaliseEmail ToLower (SU_Email req) = Some email"
      "HashPassword bcrypt (SU_Password req) = Some hash"
      "u = new_user uuid now email hash (TrimSpace (SU_Name req)) (BootstrapRole (Some (users_Count (la_users s))))"
      "us_byID us uuid = Some u" "us_byEmail us (email_key ToLower email) = Some uuid"
    by (rule Signup_created [OF up])
  have "us_byID (la_users s') uuid = Some u \<and> us_byEmail (la_users s') (email_key ToLower email) = Some uuid"
    by (rule la_reach_kept [OF later]) (simp_all add: u(5,6))
  then have get: "users_GetByEmail ToLower email (la_users s') = Inr (Some u)" by (simp add: users_GetByEmail_def)
  have pw: "bcrypt_ok hash (SU_Password req)" "SU_Password req \<noteq> []"
    using u(3) bc by (auto simp: HashPassword_def MinPasswordLength_def split: if_splits)
  have flds: "U_ID u = uuid" "U_Email u = email" "U_PasswordHash u = hash" by (simp_all add: u(4) new_user_def)
  let ?sg = "sign (Is_signingKey ir) (session_claims ir now' uuid (U_Email u) (U_Name u) (U_Role u))"
  have "Signin ToLower bcrypt_ok sign ir now' (Some \<lparr>SI_Email = e, SI_Password = SU_Password req\<rparr>) (la_users s')
      = (case ?sg of None \<Rightarrow> (500, None) | Some tok \<Rightarrow> (200, Some (tok, now' + Is_ttl ir, newMeUser u)))"
    using get pw addr u(2) by (cases ?sg) (simp_all add: Signin_def VerifyPassword_def Issuer_Issue_def flds)
  moreover have "\<exists>c. Middleware_Handler (cfg t) authenticate (''Bearer '' @ tok) = AuthUser c None \<and>
       Claims_Roles c = [U_Role u] \<and> Me (Some c) = (200, Some (newMeUser u))"
    if tok: "?sg = Some tok" and t: "t \<le> now' + Is_ttl ir - Second" for t tok
    by (rule exI, rule session_accepted [OF lib tok t cfg, THEN conjI])
      (simp add: Me_def newMeUser_def primaryRole_def flds)
  moreover have "Signup ToLower bcrypt sign ir allowSignup now' uuid' (Some (req\<lparr>SU_Email := e\<rparr>)) (la_users s')
      = ((409, None), la_users s')"
    using u(1,2,3) pw addr get by (simp add: Signup_def Signup_check_def)
  ultimately show ?thesis using u(5) by (auto split: option.split)
qed

subsection \<open>Examples\<close>

definition demo_users :: users where
  "demo_users = \<lparr>us_byID = [''a'' \<mapsto> new_user ''a'' 0 ''a@x'' ''12345678'' [] RoleAdmin], us_byEmail = [''a@x'' \<mapsto> ''a'']\<rparr>"

definition demo_su :: signupRequest where
  "demo_su = \<lparr>SU_Email = ''a@x'', SU_Password = ''12345678'', SU_Name = []\<rparr>"

definition demo_ir :: Issuer where
  "demo_ir = \<lparr>Is_signingKey = ''key'', Is_ttl = Hour\<rparr>"

definition demo_session :: LocalClaims where
  "demo_session = session_claims demo_ir 0 ''a'' ''a@x'' [] RoleAdmin"

definition demo_jwt :: string where "demo_jwt = ''eyJ.c.s''"

definition demo_jwt_sign :: "string \<Rightarrow> LocalClaims \<Rightarrow> string option" where
  "demo_jwt_sign key c = (if key = ''key'' \<and> c = demo_session then Some demo_jwt else None)"

definition demo_jwt_parse :: "string \<Rightarrow> time \<Rightarrow> string \<Rightarrow> LocalClaims option" where
  "demo_jwt_parse key t tok =
     (if key = ''key'' \<and> tok = demo_jwt \<and> t < LoC_ExpiresAt demo_session then Some demo_session else None)"

lemma demo_jwt_lib: "jwt_lib demo_jwt_sign (\<lambda>_. Some ''cooker-local'') demo_jwt_parse"
proof -
  have "ascii demo_jwt" "\<forall>x \<in> set demo_jwt. \<not> is_space (of_char x)" "take 3 demo_jwt = ''eyJ''"
    "3 \<le> length (split_at CHR ''.'' demo_jwt)"
    by (simp_all add: demo_jwt_def ascii_def is_space_def)
  then show ?thesis
    by (auto simp: jwt_lib_def demo_jwt_sign_def demo_jwt_parse_def demo_session_def session_claims_def)
qed

lemma demo_trim: "TrimSpace ''a@x'' = ''a@x''" "TrimSpace ''b@x'' = ''b@x''" "TrimSpace [] = []"
  using TrimSpace_between [of "[]" "[]" "''a@x''"] TrimSpace_between [of "[]" "[]" "''b@x''"] TrimSpace_ascii [of "[]"]
  by (simp_all add: ascii_def ascii_spaces_def is_space_def)

lemma demo_signup:
  "Signup id Some demo_jwt_sign demo_ir True 0 ''a'' (Some demo_su) users_empty
     = ((201, Some (demo_jwt, Hour, newMeUser (new_user ''a'' 0 ''a@x'' ''12345678'' [] RoleAdmin))), demo_users)"
  by (simp add: Signup_def Signup_check_def demo_su_def NormaliseEmail_def demo_trim HashPassword_def MinPasswordLength_def
      users_GetByEmail_def users_Create_def users_empty_def email_key_def BootstrapRole_def users_Count_def
      Issuer_Issue_def demo_jwt_sign_def demo_session_def demo_ir_def new_user_def demo_users_def Let_def)

text \<open>After the first account, a second one: still one administrator.\<close>

definition demo_su2 :: signupRequest where
  "demo_su2 = \<lparr>SU_Email = ''b@x'', SU_Password = ''87654321'', SU_Name = []\<rparr>"

definition demo_la :: la_sys where
  "demo_la = goto 0 (SuDone 201) (la_init\<lparr>la_users := demo_users\<rparr>)"

lemma demo_la_reach: "la_reach id Some True la_init demo_la"
  unfolding demo_la_def
  by (rule Signup_is_three_steps [where body = "Some demo_su" and now = 0 and sign = demo_jwt_sign and ir = demo_ir
        and uuid = "''a''" and r = "snd (fst (Signup id Some demo_jwt_sign demo_ir True 0 ''a'' (Some demo_su) users_empty))"])
    (simp_all add: la_init_def users_empty_def demo_signup [unfolded users_empty_def])

lemma bootstrap_closes_witness:
  "\<exists>s'. la_reach id Some True demo_la s' \<and> us_byID (la_users s') ''b'' \<noteq> None \<and> admins s' = {''a''}"
proof -
  let ?up = "Signup id Some demo_jwt_sign demo_ir True 0 ''b'' (Some demo_su2) demo_users"
  have up: "fst (fst ?up) = 500 \<and> us_byID (snd ?up) ''b'' \<noteq> None"
    by (simp add: Signup_def Signup_check_def demo_su2_def NormaliseEmail_def demo_trim HashPassword_def MinPasswordLength_def
        users_GetByEmail_def users_Create_def email_key_def BootstrapRole_def users_Count_def
        Issuer_Issue_def demo_jwt_sign_def demo_session_def session_claims_def demo_ir_def new_user_def demo_users_def Let_def)
  let ?s = "goto 1 (SuDone 500) (demo_la\<lparr>la_users := snd ?up\<rparr>)"
  have r: "la_reach id Some True demo_la ?s"
    by (rule Signup_is_three_steps [where body = "Some demo_su2" and now = 0 and sign = demo_jwt_sign and ir = demo_ir
          and uuid = "''b''" and r = "snd (fst ?up)"])
      (use up in \<open>simp_all add: demo_la_def la_init_def demo_users_def prod_eq_iff\<close>)
  have "admins ?s = admins demo_la"
    by (rule bootstrap_closes [where i = "''a''", OF demo_la_reach _ _ r])
      (simp_all add: demo_la_def la_init_def demo_users_def)
  moreover have "admins demo_la = {''a''}"
    by (auto simp: admins_def demo_la_def demo_users_def new_user_def split: if_splits)
  ultimately show ?thesis using r up by (intro exI [of _ ?s]) simp
qed

definition demo_local :: "time \<Rightarrow> auth_cfg" where
  "demo_local t = \<lparr>AC_Enabled = False, AC_GroupRoleMap = Map.empty, AC_oidc = (\<lambda>_. OidcRejected),
     AC_localIssuer = Some (issuer_for demo_jwt_parse (\<lambda>_. Some ''cooker-local'') demo_ir t), AC_apiTokens = True\<rparr>"

lemma demo_local_issuer: "AC_localIssuer (demo_local t) = Some (issuer_for demo_jwt_parse (\<lambda>_. Some ''cooker-local'') demo_ir t)"
  by (simp add: demo_local_def)

lemma signup_signin_witness:
  "\<exists>c. Middleware_Handler (demo_local 5) (\<lambda>_. None) (''Bearer '' @ demo_jwt) = AuthUser c None \<and> Claims_Roles c = [RoleAdmin]"
proof -
  note t = signup_signin [OF demo_jwt_lib, where bcrypt = Some and bcrypt_ok = "(=)" and ToLower = id and ir = demo_ir
      and allowSignup = True and now = 0 and now' = 0 and uuid = "''a''" and req = demo_su and s = la_init and us = demo_users
      and s' = "la_init\<lparr>la_users := demo_users\<rparr>" and e = "''a@x''" and cfg = demo_local and uuid' = "''b''"
      and authenticate = "\<lambda>_. None"]
  have u: "us_byID demo_users ''a'' = Some (new_user ''a'' 0 ''a@x'' ''12345678'' [] RoleAdmin)"
    by (simp add: demo_users_def)
  have sg: "demo_jwt_sign (Is_signingKey demo_ir) (session_claims demo_ir 0 ''a'' ''a@x'' [] RoleAdmin) = Some demo_jwt"
    by (simp add: demo_jwt_sign_def demo_ir_def demo_session_def)
  have "\<forall>t \<le> 0 + Is_ttl demo_ir - Second. \<exists>c. Middleware_Handler (demo_local t) (\<lambda>_. None) (''Bearer '' @ demo_jwt) = AuthUser c None \<and>
      Claims_Roles c = [RoleAdmin]"
    using t [OF _ _ _ _ _ _ demo_local_issuer] demo_signup sg
    by (auto simp: la_init_def u users_empty_def demo_su_def new_user_def)
  then show ?thesis by (simp add: demo_ir_def)
qed

end
