(* ===== verification/WsTicket.thy ===== *)
theory WsTicket
  imports Auth Base64 Strings
begin

text \<open>
  WebSocket tickets (\<open>backend/internal/server/wsticket.go\<close>): a browser trades its bearer token for
  a ticket of one path, and the ticket opens one connection.  The store in memory, the mint and the
  gate, and what any history of them guarantees.
\<close>

subsection \<open>The store\<close>

record ticketGrant =
  TG_Subject :: string
  TG_Roles :: "string list"
  TG_Path :: string

record wsTicket =
  WT_grant :: ticketGrant
  WT_expires :: time

record wsTicketStore =
  WS_ttl :: duration
  WS_tickets :: "string \<rightharpoonup> wsTicket"

definition newWSTicketStore :: "duration \<Rightarrow> wsTicketStore" where
  "newWSTicketStore ttl = \<lparr>WS_ttl = ttl, WS_tickets = Map.empty\<rparr>"

text \<open>\<open>buf\<close>: the 32 random bytes, or \<open>None\<close> when the system has none to give.\<close>

definition WS_Issue :: "string option \<Rightarrow> time \<Rightarrow> ticketGrant \<Rightarrow> wsTicketStore \<Rightarrow> (string \<times> time) option \<times> wsTicketStore" where
  "WS_Issue buf now grant s =
     (case buf of
        None \<Rightarrow> (None, s)
      | Some bytes \<Rightarrow>
          (let tok = RawURL_Encode bytes; expires = now + WS_ttl s
           in (Some (tok, expires),
               s\<lparr>WS_tickets := (WS_tickets s)(tok \<mapsto> \<lparr>WT_grant = grant, WT_expires = expires\<rparr>)\<rparr>)))"

definition WS_Consume :: "string \<Rightarrow> time \<Rightarrow> wsTicketStore \<Rightarrow> ticketGrant option \<times> wsTicketStore" where
  "WS_Consume tok now s =
     (case WS_tickets s tok of
        None \<Rightarrow> (None, s)
      | Some t \<Rightarrow>
          (if now > WT_expires t then None else Some (WT_grant t), s\<lparr>WS_tickets := (WS_tickets s)(tok := None)\<rparr>))"

text \<open>One tick of the collector; deleting does not depend on the order of the map.\<close>

definition WS_gc :: "time \<Rightarrow> wsTicketStore \<Rightarrow> wsTicketStore" where
  "WS_gc now s =
     s\<lparr>WS_tickets := (\<lambda>k. case WS_tickets s k of None \<Rightarrow> None
                      | Some t \<Rightarrow> if now > WT_expires t then None else Some t)\<rparr>"

subsection \<open>Paths and roles\<close>

definition trim_slash :: "string \<Rightarrow> string" where
  "trim_slash s = rev (dropWhile (\<lambda>c. c = CHR ''/'') (rev (dropWhile (\<lambda>c. c = CHR ''/'') s)))"

definition wsWriteRoles :: "string list" where "wsWriteRoles = [RoleOperator, RoleAdmin]"

definition has_prefix :: "string \<Rightarrow> string \<Rightarrow> bool" where
  "has_prefix s p \<longleftrightarrow> take (length p) s = p"

definition routeRoleRequirement :: "string \<Rightarrow> string list" where
  "routeRoleRequirement path =
     (if path = ''/ws/kubernetes/watch'' then wsWriteRoles
      else if has_prefix path ''/ws/runtime/'' then wsWriteRoles
      else [])"

definition routeRoleAllowed :: "string \<Rightarrow> string list \<Rightarrow> bool" where
  "routeRoleAllowed path roles =
     (let required = routeRoleRequirement path in
      required = [] \<or> (\<exists>req \<in> set required. \<exists>have \<in> set roles. have = req))"

definition hasAnyRole :: "Claims option \<Rightarrow> string list \<Rightarrow> bool" where
  "hasAnyRole claims roles =
     (case claims of None \<Rightarrow> False
      | Some c \<Rightarrow> \<exists>req \<in> set roles. \<exists>have \<in> set (Claims_Roles c). have = req)"

definition validWSPaths :: "string list" where
  "validWSPaths =
     [''/ws/pipeline-run/:runId'', ''/ws/app-run/:runId'', ''/ws/docker/build/:buildId'',
      ''/ws/runs/:runId/stages/:stageId/logs'', ''/ws/runtime/:appId/:serviceId/logs'',
      ''/ws/kubernetes/watch'']"

definition seg_matches :: "string \<Rightarrow> string \<Rightarrow> bool" where
  "seg_matches ps seg = (if has_prefix ps '':'' then seg \<noteq> [] else ps = seg)"

definition matchWSPath :: "string \<Rightarrow> bool" where
  "matchWSPath path =
     (let reqSegs = split_at CHR ''/'' (trim_slash path) in
      list_ex (\<lambda>pattern.
        let patSegs = split_at CHR ''/'' (trim_slash pattern)
        in length patSegs = length reqSegs \<and> list_all2 seg_matches patSegs reqSegs) validWSPaths)"

subsection \<open>The mint and the gate\<close>

text \<open>
  An outcome is a status, a ticket that was issued with its grant and its time of expiry, or a
  connection that was opened with a ticket on a path.
\<close>

datatype ws_outcome =
    WsStatus nat
  | WsIssued string ticketGrant time
  | WsOpened string ticketGrant string time

definition issueWSTicket :: "Claims option \<Rightarrow> string option \<Rightarrow> string option \<Rightarrow> time \<Rightarrow> wsTicketStore \<Rightarrow>
    ws_outcome \<times> wsTicketStore" where
  "issueWSTicket user body buf now s =
     (case user of
        None \<Rightarrow> (WsStatus 401, s)
      | Some claims \<Rightarrow>
          (case body of
             None \<Rightarrow> (WsStatus 400, s)
           | Some p \<Rightarrow>
               if p = [] then (WsStatus 400, s)
               else
                 (let path = takeWhile (\<lambda>c. c \<noteq> CHR ''?'') p in
                  if \<not> matchWSPath path then (WsStatus 400, s)
                  else if routeRoleRequirement path \<noteq> [] \<and> \<not> hasAnyRole user (routeRoleRequirement path)
                    then (WsStatus 403, s)
                  else
                    (let grant = \<lparr>TG_Subject = Claims_Subject claims, TG_Roles = Claims_Roles claims, TG_Path = path\<rparr>
                     in case WS_Issue buf now grant s of
                          (None, s') \<Rightarrow> (WsStatus 500, s')
                        | (Some (tok, exp), s') \<Rightarrow> (WsIssued tok grant exp, s')))))"

definition wsTicketGate :: "string \<Rightarrow> string \<Rightarrow> time \<Rightarrow> wsTicketStore \<Rightarrow> ws_outcome \<times> wsTicketStore" where
  "wsTicketGate tok urlPath now s =
     (if tok = [] then (WsStatus 401, s)
      else
        (case WS_Consume tok now s of
           (None, s') \<Rightarrow> (WsStatus 401, s')
         | (Some grant, s') \<Rightarrow>
             if TG_Path grant \<noteq> urlPath then (WsStatus 403, s')
             else if \<not> routeRoleAllowed urlPath (TG_Roles grant) then (WsStatus 403, s')
             else (WsOpened tok grant urlPath now, s')))"

subsection \<open>Histories\<close>

datatype ws_event =
    EvIssue "Claims option" "string option" "string option" time
  | EvConnect string string time
  | EvGC time

fun ws_step :: "wsTicketStore \<Rightarrow> ws_event \<Rightarrow> ws_outcome \<times> wsTicketStore" where
  "ws_step s (EvIssue user body buf now) = issueWSTicket user body buf now s"
| "ws_step s (EvConnect tok urlPath now) = wsTicketGate tok urlPath now s"
| "ws_step s (EvGC now) = (WsStatus 0, WS_gc now s)"

fun ws_trace :: "wsTicketStore \<Rightarrow> ws_event list \<Rightarrow> ws_outcome list" where
  "ws_trace s [] = []"
| "ws_trace s (ev # evs) = fst (ws_step s ev) # ws_trace (snd (ws_step s ev)) evs"

fun issued :: "string \<Rightarrow> ws_outcome \<Rightarrow> bool" where
  "issued tok (WsIssued t g e) = (t = tok)"
| "issued tok _ = False"

fun opened :: "string \<Rightarrow> ws_outcome \<Rightarrow> bool" where
  "opened tok (WsOpened t g p now) = (t = tok)"
| "opened tok _ = False"

definition tally :: "(ws_outcome \<Rightarrow> bool) \<Rightarrow> ws_outcome list \<Rightarrow> nat" where
  "tally P tr = length (filter P tr)"

text \<open>How a step changes the tickets that are held.\<close>

lemma ws_step_cases:
  obtains (quiet) "\<And>tok. \<not> issued tok (fst (ws_step s ev))" "\<And>tok. \<not> opened tok (fst (ws_step s ev))"
      "\<And>k t. WS_tickets (snd (ws_step s ev)) k = Some t \<Longrightarrow> WS_tickets s k = Some t"
  | (issue) user claims p buf bytes now where "ev = EvIssue user (Some p) buf now" "user = Some claims" "buf = Some bytes"
      "matchWSPath (takeWhile (\<lambda>c. c \<noteq> CHR ''?'') p)"
      "fst (ws_step s ev) = WsIssued (RawURL_Encode bytes) \<lparr>TG_Subject = Claims_Subject claims,
         TG_Roles = Claims_Roles claims, TG_Path = takeWhile (\<lambda>c. c \<noteq> CHR ''?'') p\<rparr> (now + WS_ttl s)"
      "WS_tickets (snd (ws_step s ev)) = (WS_tickets s)(RawURL_Encode bytes \<mapsto> \<lparr>WT_grant = \<lparr>TG_Subject = Claims_Subject claims,
         TG_Roles = Claims_Roles claims, TG_Path = takeWhile (\<lambda>c. c \<noteq> CHR ''?'') p\<rparr>, WT_expires = now + WS_ttl s\<rparr>)"
  | (connect) tok t now where "ev = EvConnect tok (TG_Path (WT_grant t)) now" "WS_tickets s tok = Some t" "now \<le> WT_expires t"
      "routeRoleAllowed (TG_Path (WT_grant t)) (TG_Roles (WT_grant t))"
      "fst (ws_step s ev) = WsOpened tok (WT_grant t) (TG_Path (WT_grant t)) now"
      "WS_tickets (snd (ws_step s ev)) = (WS_tickets s)(tok := None)"
proof (cases ev)
  case (EvIssue user body buf now)
  show ?thesis
  proof (cases "\<exists>st. fst (ws_step s ev) = WsStatus st")
    case True
    then have "snd (ws_step s ev) = s"
      by (auto simp: EvIssue issueWSTicket_def WS_Issue_def Let_def split: option.splits if_splits)
    with True show ?thesis by (intro quiet) auto
  next
    case False
    then obtain claims p bytes where "user = Some claims" "body = Some p" "buf = Some bytes"
      by (auto simp: EvIssue issueWSTicket_def WS_Issue_def Let_def split: option.splits if_splits)
    with False show ?thesis
      by (intro issue [of user p buf now claims bytes])
        (auto simp: EvIssue issueWSTicket_def WS_Issue_def Let_def split: if_splits)
  qed
next
  case (EvConnect tok urlPath now)
  show ?thesis
  proof (cases "\<exists>st. fst (ws_step s ev) = WsStatus st")
    case True
    have "WS_tickets s k = Some t" if "WS_tickets (snd (ws_step s ev)) k = Some t" for k t
      using that by (auto simp: EvConnect wsTicketGate_def WS_Consume_def split: option.splits if_splits)
    with True show ?thesis by (intro quiet) auto
  next
    case False
    then obtain t where "WS_tickets s tok = Some t"
      by (auto simp: EvConnect wsTicketGate_def WS_Consume_def split: option.splits if_splits)
    with False show ?thesis
      by (intro connect [of tok t now])
        (auto simp: EvConnect wsTicketGate_def WS_Consume_def split: if_splits)
  qed
next
  case (EvGC now)
  show ?thesis by (intro quiet) (auto simp: EvGC WS_gc_def split: option.splits if_splits)
qed

text \<open>
  Every ticket held or redeemed stems from an issue, one issue for each: \<open>tr\<close> is the trace up to
  the state with the tickets \<open>m\<close>.
\<close>

definition ws_inv :: "ws_outcome list \<Rightarrow> (string \<rightharpoonup> wsTicket) \<Rightarrow> bool" where
  "ws_inv tr m \<longleftrightarrow>
     (\<forall>tok. tally (opened tok) tr + (if m tok = None then 0 else 1) \<le> tally (issued tok) tr) \<and>
     (\<forall>tok t. m tok = Some t \<longrightarrow> WsIssued tok (WT_grant t) (WT_expires t) \<in> set tr)"

lemma tally_snoc: "tally P (tr @ [x]) = tally P tr + (if P x then 1 else 0)"
  by (simp add: tally_def)

lemma ws_step_inv:
  assumes "ws_inv tr (WS_tickets s)"
  shows "ws_inv (tr @ [fst (ws_step s ev)]) (WS_tickets (snd (ws_step s ev)))"
proof (cases rule: ws_step_cases [of s ev])
  case quiet
  have "(if WS_tickets (snd (ws_step s ev)) tok = None then 0 else 1) \<le> (if WS_tickets s tok = None then 0 else 1 :: nat)" for tok
    using quiet(3) [of tok] by (cases "WS_tickets (snd (ws_step s ev)) tok") auto
  moreover have "tally (opened tok) tr + (if WS_tickets s tok = None then 0 else 1) \<le> tally (issued tok) tr" for tok
    using assms by (simp add: ws_inv_def)
  ultimately have "tally (opened tok) tr + (if WS_tickets (snd (ws_step s ev)) tok = None then 0 else 1) \<le> tally (issued tok) tr" for tok
    by (meson add_left_mono le_trans)
  then show ?thesis using assms quiet unfolding ws_inv_def by (simp add: tally_snoc)
next
  case (issue user claims p buf bytes now)
  have "tally (opened tok) tr \<le> tally (issued tok) tr" for tok
    using assms unfolding ws_inv_def by (meson add_leD1)
  with assms show ?thesis unfolding ws_inv_def issue(5,6) by (auto simp: tally_snoc)
next
  case (connect tok t now)
  have step: "tally (opened k) tr + (if WS_tickets s k = None then 0 else 1) \<le> tally (issued k) tr" for k
    using assms unfolding ws_inv_def by blast
  have "tally (opened k) (tr @ [fst (ws_step s ev)]) + (if ((WS_tickets s)(tok := None)) k = None then 0 else 1)
      \<le> tally (issued k) (tr @ [fst (ws_step s ev)])" for k
    using step [of k] connect(2) by (cases "k = tok") (simp_all add: connect(5) tally_snoc)
  with assms show ?thesis unfolding ws_inv_def connect(6) by (auto split: if_splits)
qed

lemma ws_trace_split:
  assumes "ws_inv tr (WS_tickets s)" "ws_trace s evs = pre @ x # post"
  shows "\<exists>s' ev. ws_inv (tr @ pre) (WS_tickets s') \<and> WS_ttl s' = WS_ttl s \<and> x = fst (ws_step s' ev)"
  using assms
proof (induction evs arbitrary: tr s pre)
  case (Cons ev evs)
  have ttl: "WS_ttl (snd (ws_step s ev)) = WS_ttl s"
    by (cases ev) (auto simp: issueWSTicket_def WS_Issue_def wsTicketGate_def WS_Consume_def WS_gc_def Let_def
        split: option.split)
  show ?case
  proof (cases pre)
    case Nil
    with Cons.prems show ?thesis by auto
  next
    case (Cons y ys)
    with Cons.prems(2) have "y = fst (ws_step s ev)" "ws_trace (snd (ws_step s ev)) evs = ys @ x # post" by auto
    from Cons.IH [OF ws_step_inv [OF Cons.prems(1)] this(2)] this(1) ttl show ?thesis by (simp add: Cons)
  qed
qed simp

lemma ws_trace_inv:
  "ws_inv tr (WS_tickets s) \<Longrightarrow> \<exists>m. ws_inv (tr @ ws_trace s evs) m"
proof (induction evs arbitrary: tr s)
  case (Cons ev evs)
  from Cons.IH [OF ws_step_inv [OF Cons.prems]] show ?case by simp
qed auto

lemma ws_inv_new: "ws_inv [] (WS_tickets (newWSTicketStore ttl))"
  by (simp add: ws_inv_def newWSTicketStore_def tally_def)

text \<open>
  C29: in every history of mints, connections and ticks of the collector a ticket opens at most as
  many connections as it was issued, so at most one when its bytes were drawn once.
\<close>

theorem ticket_opens_once:
  "tally (opened tok) (ws_trace (newWSTicketStore ttl) evs) \<le> tally (issued tok) (ws_trace (newWSTicketStore ttl) evs)"
  using ws_trace_inv [OF ws_inv_new [of ttl], of evs] unfolding ws_inv_def by (auto intro: add_leD1)

text \<open>
  C28: a connection is only ever opened with a ticket that was issued before for that very path and
  has not expired, and, where the route asks for a role, with a grant that holds one.
\<close>

theorem ticket_scope:
  assumes "ws_trace (newWSTicketStore ttl) evs = pre @ WsOpened tok g path now # post"
  shows "\<exists>e. WsIssued tok g e \<in> set pre \<and> now \<le> e \<and> TG_Path g = path \<and>
    (routeRoleRequirement path \<noteq> [] \<longrightarrow> RoleOperator \<in> set (TG_Roles g) \<or> RoleAdmin \<in> set (TG_Roles g))"
proof -
  obtain s ev where inv: "ws_inv pre (WS_tickets s)" and x: "WsOpened tok g path now = fst (ws_step s ev)"
    using ws_trace_split [OF ws_inv_new assms] by auto
  show ?thesis
  proof (cases rule: ws_step_cases [of s ev])
    case quiet
    from quiet(2) [of tok] show ?thesis unfolding x [symmetric] by simp
  next
    case (issue user claims p buf bytes now')
    from issue(5) show ?thesis unfolding x [symmetric] by simp
  next
    case (connect tok' t now')
    from connect(5) have eq: "tok' = tok" "WT_grant t = g" "path = TG_Path g" "now' = now"
      unfolding x [symmetric] by simp_all
    have "WsIssued tok g (WT_expires t) \<in> set pre" using inv connect(2) eq unfolding ws_inv_def by auto
    moreover have "RoleOperator \<in> set (TG_Roles g) \<or> RoleAdmin \<in> set (TG_Roles g)"
      if "routeRoleRequirement path \<noteq> []"
    proof -
      have "routeRoleRequirement path = wsWriteRoles"
        using that unfolding routeRoleRequirement_def by (simp split: if_splits)
      then show ?thesis using connect(4) by (auto simp: eq routeRoleAllowed_def wsWriteRoles_def Let_def)
    qed
    ultimately show ?thesis using connect(3) eq by auto
  qed
qed

subsection \<open>Concrete tickets\<close>

definition demo_viewer :: Claims where
  "demo_viewer = \<lparr>Claims_Subject = ''v'', Claims_Email = [], Claims_Name = [], Claims_Groups = [],
     Claims_Roles = [RoleViewer], Claims_ACR = [], Claims_AMR = []\<rparr>"

definition demo_ws_events :: "ws_event list" where
  "demo_ws_events =
     [EvIssue (Some demo_viewer) (Some ''/ws/app-run/7'') (Some ''r'') 10,
      EvConnect (RawURL_Encode ''r'') ''/ws/app-run/7'' 11,
      EvConnect (RawURL_Encode ''r'') ''/ws/app-run/7'' 12]"

lemma demo_match: "matchWSPath ''/ws/app-run/7''" "matchWSPath ''/ws/kubernetes/watch/''"
  by code_simp+

lemma demo_ws_trace:
  "ws_trace (newWSTicketStore 60) demo_ws_events =
   [WsIssued (RawURL_Encode ''r'') \<lparr>TG_Subject = ''v'', TG_Roles = [RoleViewer], TG_Path = ''/ws/app-run/7''\<rparr> 70,
    WsOpened (RawURL_Encode ''r'') \<lparr>TG_Subject = ''v'', TG_Roles = [RoleViewer], TG_Path = ''/ws/app-run/7''\<rparr>
      ''/ws/app-run/7'' 11,
    WsStatus 401]"
  using demo_match(1)
  by (simp add: demo_ws_events_def issueWSTicket_def demo_viewer_def routeRoleRequirement_def has_prefix_def
      WS_Issue_def newWSTicketStore_def wsTicketGate_def WS_Consume_def routeRoleAllowed_def Let_def)

lemma ticket_scope_witness:
  "\<exists>e. WsIssued (RawURL_Encode ''r'') \<lparr>TG_Subject = ''v'', TG_Roles = [RoleViewer], TG_Path = ''/ws/app-run/7''\<rparr> e
     \<in> set (ws_trace (newWSTicketStore 60) demo_ws_events) \<and> 11 \<le> e"
proof -
  have "ws_trace (newWSTicketStore 60) demo_ws_events =
     [WsIssued (RawURL_Encode ''r'') \<lparr>TG_Subject = ''v'', TG_Roles = [RoleViewer], TG_Path = ''/ws/app-run/7''\<rparr> 70] @
     WsOpened (RawURL_Encode ''r'') \<lparr>TG_Subject = ''v'', TG_Roles = [RoleViewer], TG_Path = ''/ws/app-run/7''\<rparr>
      ''/ws/app-run/7'' 11 # [WsStatus 401]"
    by (simp add: demo_ws_trace)
  from ticket_scope [OF this] show ?thesis by (auto simp: demo_ws_trace)
qed

text \<open>
  The mint looks for the role of the literal path, but accepts a path with slashes around it: a
  viewer gets a ticket for the cluster watch with a slash at its end.  (No route has that path, and
  the redirect to the one without the slash does not fit the ticket, so the gate still refuses.)
\<close>

lemma viewer_gets_watch_ticket:
  "(\<exists>tok g e. fst (issueWSTicket (Some demo_viewer) (Some ''/ws/kubernetes/watch/'') (Some ''r'') 0 s) = WsIssued tok g e) \<and>
   fst (issueWSTicket (Some demo_viewer) (Some ''/ws/kubernetes/watch'') (Some ''r'') 0 s) \<in> {WsStatus 400, WsStatus 403}"
  using demo_match(2)
  by (simp add: issueWSTicket_def demo_viewer_def routeRoleRequirement_def has_prefix_def WS_Issue_def hasAnyRole_def
      wsWriteRoles_def Let_def)

end
