(* ===== verification/Governance.thy ===== *)
theory Governance
  imports Execution RunStore TokenService AppModel
begin

text \<open>
  The deploy gate of an outside governance service: the client (\<open>backend/internal/governance/client.go\<close>),
  the admission middleware of the app routes (\<open>auth/governance_middleware.go\<close>, \<open>governance/extractor.go\<close>)
  and the hook of the executor's deploy stages (\<open>governance/executor_hook.go\<close>), which is put into
  the model of the executor.  The service is a parameter that answers requests and may change the world.
\<close>

subsection \<open>The client\<close>

record Decision =
  D_Decision :: string
  D_Reason :: string
  D_PolicyID :: string
  D_AuditID :: string
  D_Enforced :: bool
  D_EnforcementMode :: string

definition Decision_Allowed :: "Decision \<Rightarrow> bool" where
  "Decision_Allowed d \<longleftrightarrow> D_Decision d = ''allow''"

text \<open>An attribute is its name with the JSON text of its value; an absent flag is \<open>None\<close>.\<close>

record AuthorizeContext =
  AzC_BreakGlass :: "bool option"
  AzC_ChangeWindow :: "bool option"
  AzC_Attributes :: "(string \<times> string) list"

definition firstContext :: "AuthorizeContext list \<Rightarrow> AuthorizeContext" where
  "firstContext opts = (case opts of [] \<Rightarrow> \<lparr>AzC_BreakGlass = None, AzC_ChangeWindow = None, AzC_Attributes = []\<rparr> | a # _ \<Rightarrow> a)"

record PreresolvedActor =
  PA_Kind :: string
  PA_ID :: string
  PA_Groups :: "string list"
  PA_Scopes :: "string list"

record authorizeRequest =
  AR_Token :: string
  AR_Preresolved :: "PreresolvedActor option"
  AR_Action :: string
  AR_Service :: string
  AR_Env :: string
  AR_RequestID :: string
  AR_Context :: AuthorizeContext

definition applyContext :: "AuthorizeContext \<Rightarrow> authorizeRequest \<Rightarrow> authorizeRequest" where
  "applyContext actx r = r\<lparr>AR_Context := actx\<rparr>"

record Client =
  Gv_BaseURL :: string
  Gv_BootstrapServices :: "string set"
  Gv_FailOpenEnvs :: "string set"
  Gv_CallerToken :: string
  Gv_DelegateToken :: string

text \<open>The case tables of Unicode (\<open>ToLower\<close>) are a parameter.\<close>

definition toSet :: "(string \<Rightarrow> string) \<Rightarrow> string list \<Rightarrow> string set" where
  "toSet ToLower s = {v \<in> set (map (\<lambda>v. ToLower (TrimSpace v)) s). v \<noteq> []}"

definition TrimRightSlash :: "string \<Rightarrow> string" where
  "TrimRightSlash s = rev (dropWhile (\<lambda>c. c = CHR ''/'') (rev s))"

definition New_Client :: "(string \<Rightarrow> string) \<Rightarrow> string \<Rightarrow> string list \<Rightarrow> string list \<Rightarrow> Client" where
  "New_Client ToLower baseURL bootstrap failOpen =
     \<lparr>Gv_BaseURL = TrimRightSlash baseURL, Gv_BootstrapServices = toSet ToLower bootstrap,
      Gv_FailOpenEnvs = toSet ToLower failOpen, Gv_CallerToken = [], Gv_DelegateToken = []\<rparr>"

definition WithCallerToken :: "string \<Rightarrow> Client option \<Rightarrow> Client option" where
  "WithCallerToken tok c = map_option (\<lambda>c. c\<lparr>Gv_CallerToken := TrimSpace tok\<rparr>) c"

definition WithDelegateToken :: "string \<Rightarrow> Client option \<Rightarrow> Client option" where
  "WithDelegateToken tok c = map_option (\<lambda>c. c\<lparr>Gv_DelegateToken := TrimSpace tok\<rparr>) c"

definition Client_Enabled :: "Client option \<Rightarrow> bool" where
  "Client_Enabled c = (case c of None \<Rightarrow> False | Some c \<Rightarrow> Gv_BaseURL c \<noteq> [])"

definition DelegationEnabled :: "Client option \<Rightarrow> bool" where
  "DelegationEnabled c = (case c of None \<Rightarrow> False | Some c \<Rightarrow> Gv_BaseURL c \<noteq> [] \<and> Gv_DelegateToken c \<noteq> [])"

text \<open>Why a client lets every deploy pass, for a warning at start.\<close>

datatype inert = NilClient | EmptyURL | BothTokensEmpty | DelegateTokenEmpty | CallerTokenEmpty

definition InertReason :: "Client option \<Rightarrow> bool \<Rightarrow> bool \<Rightarrow> inert option" where
  "InertReason c configured isProduction =
     (case c of
        None \<Rightarrow> if configured then Some NilClient else None
      | Some c \<Rightarrow>
          if Gv_BaseURL c = [] then (if configured then Some EmptyURL else None)
          else if isProduction then None
          else if Gv_CallerToken c = [] \<and> Gv_DelegateToken c = [] then Some BothTokensEmpty
          else if Gv_DelegateToken c = [] then Some DelegateTokenEmpty
          else if Gv_CallerToken c = [] then Some CallerTokenEmpty
          else None)"

text \<open>
  The service gets a URL, an authorization header and a request.  The request may not be built
  (its URL or attributes), get no response, or get a status with a body that decodes or not.
\<close>

datatype gate_answer = NotSent | NoResponse | Response nat "Decision option"

type_synonym 'w gate = "string \<Rightarrow> string option \<Rightarrow> authorizeRequest \<Rightarrow> 'w \<Rightarrow> gate_answer \<times> 'w"

datatype gov_err = GovernanceUnreachable | GovernanceFailed

definition cooker_allow :: "string \<Rightarrow> Decision" where
  "cooker_allow policy = \<lparr>D_Decision = ''allow'', D_Reason = [], D_PolicyID = policy, D_AuditID = [],
     D_Enforced = False, D_EnforcementMode = []\<rparr>"

text \<open>The text of the reason is left out.\<close>

definition transportFallback :: "(string \<Rightarrow> string) \<Rightarrow> Client \<Rightarrow> string \<Rightarrow> gov_err + Decision" where
  "transportFallback ToLower c env =
     (if ToLower env \<in> Gv_FailOpenEnvs c then Inr (cooker_allow ''cooker.governance.fail_open'')
      else Inl GovernanceUnreachable)"

definition decode_answer :: "(string \<Rightarrow> string) \<Rightarrow> Client \<Rightarrow> string \<Rightarrow> gate_answer \<Rightarrow> gov_err + Decision" where
  "decode_answer ToLower c env ans =
     (case ans of
        NotSent \<Rightarrow> Inl GovernanceFailed
      | NoResponse \<Rightarrow> transportFallback ToLower c env
      | Response code body \<Rightarrow>
          if code \<noteq> 200 then transportFallback ToLower c env
          else (case body of
              None \<Rightarrow> Inl GovernanceFailed
            | Some d \<Rightarrow> if D_Decision d \<noteq> ''allow'' \<and> D_Decision d \<noteq> ''deny'' then Inl GovernanceFailed else Inr d))"

definition token_payload :: "string \<Rightarrow> string \<Rightarrow> string \<Rightarrow> string \<Rightarrow> AuthorizeContext list \<Rightarrow> authorizeRequest" where
  "token_payload token service env requestID actx = applyContext (firstContext actx)
     \<lparr>AR_Token = token, AR_Preresolved = None, AR_Action = ''deploy'', AR_Service = service, AR_Env = env,
      AR_RequestID = requestID, AR_Context = firstContext []\<rparr>"

definition Authorize :: "(string \<Rightarrow> string) \<Rightarrow> 'w gate \<Rightarrow> Client option \<Rightarrow> string \<Rightarrow> string \<Rightarrow> string \<Rightarrow> string \<Rightarrow>
    AuthorizeContext list \<Rightarrow> 'w \<Rightarrow> (gov_err + Decision) \<times> 'w" where
  "Authorize ToLower post client token service env requestID actx w =
     (if \<not> Client_Enabled client then (Inr (cooker_allow ''cooker.governance.disabled''), w)
      else (let c = the client in
        if ToLower service \<in> Gv_BootstrapServices c then (Inr (cooker_allow ''cooker.governance.bootstrap''), w)
        else (let (ans, w') = post (Gv_BaseURL c @ ''/authorize'')
                (if Gv_CallerToken c \<noteq> [] then Some (''Bearer '' @ Gv_CallerToken c) else None)
                (token_payload token service env requestID actx) w
              in (decode_answer ToLower c env ans, w'))))"

definition actor_payload :: "PreresolvedActor \<Rightarrow> string \<Rightarrow> string \<Rightarrow> string \<Rightarrow> AuthorizeContext list \<Rightarrow> authorizeRequest" where
  "actor_payload actor service env requestID actx = applyContext (firstContext actx)
     \<lparr>AR_Token = [], AR_Preresolved = Some actor, AR_Action = ''deploy'', AR_Service = service, AR_Env = env,
      AR_RequestID = requestID, AR_Context = firstContext []\<rparr>"

definition AuthorizeOnBehalf :: "(string \<Rightarrow> string) \<Rightarrow> 'w gate \<Rightarrow> Client option \<Rightarrow> PreresolvedActor \<Rightarrow> string \<Rightarrow> string \<Rightarrow>
    string \<Rightarrow> AuthorizeContext list \<Rightarrow> 'w \<Rightarrow> (gov_err + Decision) \<times> 'w" where
  "AuthorizeOnBehalf ToLower post client actor service env requestID actx w =
     (if \<not> DelegationEnabled client then (Inr (cooker_allow ''cooker.governance.delegation_disabled''), w)
      else (let c = the client in
        if ToLower service \<in> Gv_BootstrapServices c then (Inr (cooker_allow ''cooker.governance.bootstrap''), w)
        else (let (ans, w') = post (Gv_BaseURL c @ ''/authorize'') (Some (''Bearer '' @ Gv_DelegateToken c))
                (actor_payload actor service env requestID actx) w
              in (decode_answer ToLower c env ans, w'))))"

subsection \<open>The middleware of the app routes\<close>

text \<open>What a \<open>Get\<close> of a store gives: a row, a nil without an error, no row, or another error.\<close>

datatype 'a lookup = Got 'a | GotNil | LookupNotFound | LookupErr

text \<open>
  The service and the environment a request is about; \<open>Inl\<close> is an error and \<open>Inr None\<close> a request
  the gate is not asked about.  An environment is seen through its name.
\<close>

definition AppDeployExtractor :: "(string \<Rightarrow> string) \<Rightarrow> (string \<Rightarrow> App lookup) \<Rightarrow> (string \<Rightarrow> string lookup) \<Rightarrow> string \<Rightarrow>
    unit + (string \<times> string) option" where
  "AppDeployExtractor ToLower apps envs i =
     (if i = [] then Inr None
      else (case apps i of
          LookupNotFound \<Rightarrow> Inr None
        | LookupErr \<Rightarrow> Inl ()
        | GotNil \<Rightarrow> Inr None
        | Got app \<Rightarrow>
            if App_EnvironmentID app = [] then Inr None
            else (case envs (App_EnvironmentID app) of
                LookupNotFound \<Rightarrow> Inr None
              | LookupErr \<Rightarrow> Inl ()
              | GotNil \<Rightarrow> Inr None
              | Got name \<Rightarrow> Inr (Some (ToLower (App_Name app), ToLower name)))))"

text \<open>What the middleware reads of a request; a missing header or context value is empty.\<close>

record gin_request =
  GR_Authorization :: string
  GR_Justification :: string
  GR_XRequestID :: string
  GR_request_id :: string
  GR_RequestID :: string
  GR_user_sub :: string

definition requestID :: "gin_request \<Rightarrow> string" where
  "requestID c = (if GR_XRequestID c \<noteq> [] then GR_XRequestID c
                  else if GR_request_id c \<noteq> [] then GR_request_id c
                  else GR_RequestID c)"

definition extractBearer :: "gin_request \<Rightarrow> string option" where
  "extractBearer c = (case header_credential (GR_Authorization c) of
        None \<Rightarrow> None
      | Some tok \<Rightarrow> if tok \<noteq> [] then Some tok else None)"

definition breakGlassJustification :: "gin_request \<Rightarrow> string option" where
  "breakGlassJustification c = (let v = TrimSpace (GR_Justification c) in if v \<noteq> [] then Some v else None)"

text \<open>
  A request goes on: not asked about, with the ids of a decision (and whether it was an advisory
  denial), or by break-glass with the justification and the requester of the log.  Or it is
  answered with a status.
\<close>

datatype gov_outcome =
    GovNext
  | GovDecided string string bool
  | GovBreakGlass string string
  | GovAbort nat

definition RequireGovernanceAllow :: "(string \<Rightarrow> string) \<Rightarrow> 'w gate \<Rightarrow> Client option \<Rightarrow>
    (unit + (string \<times> string) option) \<Rightarrow> bool \<Rightarrow> gin_request \<Rightarrow> 'w \<Rightarrow> gov_outcome \<times> 'w" where
  "RequireGovernanceAllow ToLower post client extract bg c w =
     (if \<not> Client_Enabled client then (GovNext, w)
      else (case extract of
          Inl _ \<Rightarrow> (GovAbort 502, w)
        | Inr None \<Rightarrow> (GovNext, w)
        | Inr (Some (service, env)) \<Rightarrow>
            (case extractBearer c of
               None \<Rightarrow> (GovAbort 401, w)
             | Some token \<Rightarrow>
                 (let actx = (if breakGlassJustification c \<noteq> None
                              then (firstContext [])\<lparr>AzC_BreakGlass := Some True\<rparr> else firstContext []);
                      (res, w') = Authorize ToLower post client token service env (requestID c) [actx] w
                  in case res of
                       Inl e \<Rightarrow>
                         if e = GovernanceUnreachable then
                           (case breakGlassJustification c of
                              Some just \<Rightarrow> if bg then (GovBreakGlass just (GR_user_sub c), w') else (GovAbort 503, w')
                            | None \<Rightarrow> (GovAbort 503, w'))
                         else (GovAbort 502, w')
                     | Inr d \<Rightarrow>
                         if \<not> Decision_Allowed d then
                           (if \<not> D_Enforced d then (GovDecided (D_AuditID d) (D_PolicyID d) True, w')
                            else (GovAbort 403, w'))
                         else (GovDecided (D_AuditID d) (D_PolicyID d) False, w')))))"

subsection \<open>The hook of the executor\<close>

definition lookupEnvName :: "(string \<Rightarrow> string) \<Rightarrow> (string \<Rightarrow> string lookup) option \<Rightarrow> string \<Rightarrow> unit + string" where
  "lookupEnvName ToLower envs envID =
     (case envs of
        None \<Rightarrow> Inr []
      | Some get \<Rightarrow>
          (case get envID of
             LookupNotFound \<Rightarrow> Inr []
           | LookupErr \<Rightarrow> Inl ()
           | GotNil \<Rightarrow> Inr []
           | Got name \<Rightarrow> Inr (ToLower name)))"

text \<open>The name of a pipeline as the server looks it up: a nil pipeline has the empty name.\<close>

definition pipelineNameFor :: "(string \<Rightarrow> string lookup) \<Rightarrow> string \<Rightarrow> unit + string" where
  "pipelineNameFor pipelines i = (case pipelines i of Got name \<Rightarrow> Inr name | GotNil \<Rightarrow> Inr [] | _ \<Rightarrow> Inl ())"

datatype hook_err =
    HookEnvLookup
  | HookNameLookup
  | HookUnreachable string string
  | HookAuthorize
  | HookDenied string string string string string

definition hook_actor :: "RunRow \<Rightarrow> PreresolvedActor" where
  "hook_actor run = \<lparr>PA_Kind = ''human'', PA_ID = Run_StartedByUserSub run, PA_Groups = Run_StartedByGroups run,
     PA_Scopes = []\<rparr>"

definition hook_verdict :: "string \<Rightarrow> string \<Rightarrow> gov_err + Decision \<Rightarrow> hook_err option" where
  "hook_verdict svc envName res =
     (case res of
        Inl e \<Rightarrow> if e = GovernanceUnreachable then Some (HookUnreachable svc envName) else Some HookAuthorize
      | Inr d \<Rightarrow>
          if \<not> Decision_Allowed d then
            (if \<not> D_Enforced d then None
             else Some (HookDenied svc envName (D_Reason d) (D_PolicyID d) (D_AuditID d)))
          else None)"

definition PipelineDeployHook :: "(string \<Rightarrow> string) \<Rightarrow> 'w gate \<Rightarrow> Client option \<Rightarrow> (string \<Rightarrow> string lookup) option \<Rightarrow>
    (string \<Rightarrow> unit + string) \<Rightarrow> (RunRow option \<Rightarrow> Stage \<Rightarrow> 'w \<Rightarrow> hook_err option \<times> 'w) option" where
  "PipelineDeployHook ToLower post client envs nameFor =
     (if \<not> DelegationEnabled client then None
      else Some (\<lambda>run stage w.
        case run of None \<Rightarrow> (None, w)
        | Some run \<Rightarrow>
            if Run_StartedByUserSub run = [] then (None, w)
            else if Stage_EnvironmentID stage = [] then (None, w)
            else (case lookupEnvName ToLower envs (Stage_EnvironmentID stage) of
                Inl _ \<Rightarrow> (Some HookEnvLookup, w)
              | Inr envName \<Rightarrow>
                  if envName = [] then (None, w)
                  else (case nameFor (Run_PipelineID run) of
                      Inl _ \<Rightarrow> (Some HookNameLookup, w)
                    | Inr name \<Rightarrow>
                        if name = [] then (Some HookNameLookup, w)
                        else (let svc = ToLower name;
                                  (res, w') = AuthorizeOnBehalf ToLower post client (hook_actor run) svc envName (Run_ID run) [] w
                              in (hook_verdict svc envName res, w'))))))"

text \<open>
  The hook as the executor of the model takes it: the run is the one in execution, and an error is
  put into the errors of the adapters.
\<close>

definition executor_hook :: "(hook_err \<Rightarrow> 'e) \<Rightarrow> RunRow \<Rightarrow> (RunRow option \<Rightarrow> Stage \<Rightarrow> 'w \<Rightarrow> hook_err option \<times> 'w) option \<Rightarrow>
    (string \<Rightarrow> Stage \<Rightarrow> 'w \<Rightarrow> 'e option \<times> 'w) option" where
  "executor_hook err run hook = map_option (\<lambda>h. \<lambda>runID stage w. map_prod (map_option err) id (h (Some run) stage w)) hook"

subsection \<open>What lets a request pass\<close>

text \<open>The answers of the service under which a deploy goes on without break-glass.\<close>

definition lets :: "(string \<Rightarrow> string) \<Rightarrow> Client \<Rightarrow> string \<Rightarrow> gate_answer \<Rightarrow> bool" where
  "lets ToLower c env ans =
     (case ans of
        NotSent \<Rightarrow> False
      | NoResponse \<Rightarrow> ToLower env \<in> Gv_FailOpenEnvs c
      | Response code body \<Rightarrow>
          (if code \<noteq> 200 then ToLower env \<in> Gv_FailOpenEnvs c
           else (\<exists>d. body = Some d \<and> (D_Decision d = ''allow'' \<or> D_Decision d = ''deny'' \<and> \<not> D_Enforced d))))"

definition no_verdict :: "gate_answer \<Rightarrow> bool" where
  "no_verdict ans = (case ans of NotSent \<Rightarrow> False | NoResponse \<Rightarrow> True | Response code _ \<Rightarrow> code \<noteq> 200)"

definition passes :: "gov_outcome \<Rightarrow> bool" where
  "passes out \<longleftrightarrow> (\<forall>st. out \<noteq> GovAbort st)"

lemma decode_answer_cases:
  "(case decode_answer ToLower c env ans of
      Inl e \<Rightarrow> \<not> lets ToLower c env ans \<and> (e = GovernanceUnreachable \<longleftrightarrow> no_verdict ans)
    | Inr d \<Rightarrow> lets ToLower c env ans = (Decision_Allowed d \<or> \<not> D_Enforced d) \<and>
               (no_verdict ans \<longrightarrow> Decision_Allowed d))"
  by (auto simp: decode_answer_def lets_def no_verdict_def transportFallback_def cooker_allow_def Decision_Allowed_def
      split: gate_answer.splits option.splits)

lemma hook_verdict_lets: "hook_verdict svc envName (decode_answer ToLower c env ans) = None \<longleftrightarrow> lets ToLower c env ans"
  using decode_answer_cases [of ToLower c env ans]
  by (auto simp: hook_verdict_def split: sum.splits)


subsection \<open>Deploy stages\<close>

lemma interpolate_keeps:
  "interpolateStageConfig bo eo s r = Inr s' \<Longrightarrow> Stage_EnvironmentID s' = Stage_EnvironmentID s \<and> Stage_Type s' = Stage_Type s"
  unfolding interpolateStageConfig_def Let_def
  by (auto simp: ebind_def split: sum.splits)

lemma exec_stage_keeps:
  "exec_stage ex p stage i runs = Inr s' \<Longrightarrow> Stage_EnvironmentID s' = Stage_EnvironmentID stage \<and> Stage_Type s' = Stage_Type stage"
  unfolding exec_stage_def by (auto split: if_splits dest: interpolate_keeps)

lemma failing_attempts:
  assumes "\<And>st. \<exists>e st'. f st = Some (Some e, st')"
  shows "\<exists>e st'. attempt_at f st k = Some (Some e, st')"
proof (induction k)
  case (Suc k)
  then show ?case using assms by (auto split: option.split prod.split)
qed (use assms in simp)

lemma failing_retry:
  assumes "\<And>st. \<exists>e st'. f st = Some (Some e, st')" "retry_stage tp policy f st = Some (r, st')"
  shows "r \<noteq> None"
proof -
  define op where "op = (\<lambda>k. case attempt_at f st (nat (k - 1)) of None \<Rightarrow> None | Some (r, _) \<Rightarrow> r)"
  obtain r' calls waits where d: "Do policy op (tp_ctxErr tp) (tp_ctxWait tp) (tp_rnd tp) = (r', calls, waits)"
    by (cases "Do policy op (tp_ctxErr tp) (tp_ctxWait tp) (tp_rnd tp)")
  have "op k \<noteq> None" for k
    using failing_attempts [where f = f and st = st and k = "nat (k - 1)", OF assms(1)] by (auto simp: op_def)
  with Do_calls [OF d] have "r' \<noteq> None" by auto
  moreover have "r = r'"
    using assms(2) unfolding retry_stage_def Let_def op_def [symmetric] d by (auto split: if_splits option.splits)
  ultimately show ?thesis by simp
qed

text \<open>A run that the gate refuses whatever the world is.\<close>

definition refused_by :: "(string \<Rightarrow> string) \<Rightarrow> 'w gate \<Rightarrow> Client \<Rightarrow> RunRow \<Rightarrow> string \<Rightarrow> string \<Rightarrow> bool" where
  "refused_by ToLower post c run svc envName \<longleftrightarrow>
     (\<forall>w. \<not> lets ToLower c envName
        (fst (post (Gv_BaseURL c @ ''/authorize'') (Some (''Bearer '' @ Gv_DelegateToken c))
               (actor_payload (hook_actor run) svc envName (Run_ID run) []) w)))"

lemma refused_hook:
  assumes "DelegationEnabled (Some c)" "PipelineDeployHook ToLower post (Some c) envs nameFor = Some h"
    and "Run_StartedByUserSub run \<noteq> []" "Stage_EnvironmentID stage \<noteq> []"
    and "lookupEnvName ToLower envs (Stage_EnvironmentID stage) = Inr envName" "envName \<noteq> []"
    and "nameFor (Run_PipelineID run) = Inr name" "name \<noteq> []"
    and "ToLower (ToLower name) \<notin> Gv_BootstrapServices c" "refused_by ToLower post c run (ToLower name) envName"
  shows "fst (h (Some run) stage w) \<noteq> None"
proof -
  define pq where "pq = post (Gv_BaseURL c @ ''/authorize'') (Some (''Bearer '' @ Gv_DelegateToken c))
      (actor_payload (hook_actor run) (ToLower name) envName (Run_ID run) []) w"
  have "AuthorizeOnBehalf ToLower post (Some c) (hook_actor run) (ToLower name) envName (Run_ID run) [] w
      = (decode_answer ToLower c envName (fst pq), snd pq)"
    using assms(1,9) by (simp add: AuthorizeOnBehalf_def Let_def pq_def split_def)
  then have "h (Some run) stage w = (hook_verdict (ToLower name) envName (decode_answer ToLower c envName (fst pq)), snd pq)"
    using assms by (auto simp: PipelineDeployHook_def Let_def)
  moreover have "\<not> lets ToLower c envName (fst pq)" using assms(10) by (simp add: refused_by_def pq_def)
  ultimately show ?thesis by (simp add: hook_verdict_lets)
qed

definition other_deployers ::
  "(deployer_Request, deployer_Result, 'e, 'w) adapter \<Rightarrow> (deployer_Request, deployer_Result, 'e, 'w) adapter option \<Rightarrow>
   (deployer_Request, deployer_Result, 'e, 'w) adapter option \<Rightarrow> (Stage, unit, 'e, 'w) adapter \<Rightarrow>
   ('e, 'w, 's) Executor \<Rightarrow> ('e, 'w, 's) Executor" where
  "other_deployers d docker compose cloud ex =
     ex\<lparr>ex_deployer := d, ex_dockerDeployer := docker, ex_composeDeployer := compose, ex_cloudDeploy := cloud\<rparr>"

lemma refused_dispatch:
  assumes "ex_govHook ex = Some hk" "Stage_Type stage = ''deploy''" "\<And>w. fst (hk runID stage w) \<noteq> None"
  shows "\<exists>e st'. dispatch ex runID stage st = Some (Some e, st')"
    "dispatch (other_deployers d docker compose cloud ex) runID stage st = dispatch ex runID stage st"
proof -
  obtain e w where "hk runID stage (se_world st) = (Some e, w)"
    using assms(3) [of "se_world st"] by (cases "hk runID stage (se_world st)") auto
  then show "\<exists>e st'. dispatch ex runID stage st = Some (Some e, st')"
    "dispatch (other_deployers d docker compose cloud ex) runID stage st = dispatch ex runID stage st"
    using assms(1,2) by (simp_all add: dispatch_def other_deployers_def)
qed

lemma other_deployers_rest:
  "skip_stage (other_deployers d docker compose cloud ex) = skip_stage ex"
  "start_stage (other_deployers d docker compose cloud ex) = start_stage ex"
  "end_stage (other_deployers d docker compose cloud ex) = end_stage ex"
  "exec_stage (other_deployers d docker compose cloud ex) = exec_stage ex"
  by (simp_all add: fun_eq_iff skip_stage_def start_stage_def end_stage_def exec_stage_def broadcastStatus_def
      other_deployers_def)

text \<open>
  C33: a refused run never deploys.  When the hook is on, the run has an actor, the stage an
  environment with a name, the pipeline a name that is not exempt, and the service refuses (in
  whatever state the world is: an enforced denial, or no answer where the environment does not fail
  open), then the task of the stage does exactly the same with every other deployer, so it never
  calls one, however often it retries; and it does not end as done.
\<close>

theorem refused_stage_never_deploys:
  assumes hook: "DelegationEnabled (Some c)"
      "ex_govHook ex = executor_hook err run (PipelineDeployHook ToLower post (Some c) envs nameFor)"
    and run: "Run_StartedByUserSub run \<noteq> []" "nameFor (Run_PipelineID run) = Inr name" "name \<noteq> []"
    and stage: "stageMap p i = Some stage" "Stage_Type stage = ''deploy''" "Stage_EnvironmentID stage \<noteq> []"
      "lookupEnvName ToLower envs (Stage_EnvironmentID stage) = Inr envName" "envName \<noteq> []"
    and refused: "ToLower (ToLower name) \<notin> Gv_BootstrapServices c" "refused_by ToLower post c run (ToLower name) envName"
  shows "taskFunc (other_deployers d docker compose cloud ex) tp p runID i st = taskFunc ex tp p runID i st \<and>
    (\<forall>out st'. taskFunc ex tp p runID i st = Some (out, st') \<longrightarrow> out \<noteq> TaskDone)"
proof -
  obtain h where h: "PipelineDeployHook ToLower post (Some c) envs nameFor = Some h"
    using hook(1) by (simp add: PipelineDeployHook_def)
  have hk: "ex_govHook ex = Some (\<lambda>runID stage w. map_prod (map_option err) id (h (Some run) stage w))"
    using hook(2) h by (simp add: executor_hook_def)
  have deny: "fst (map_prod (map_option err) id (h (Some run) s' w)) \<noteq> None"
    if "exec_stage ex p stage i runs = Inr s'" for s' runs w
  proof -
    have k: "Stage_EnvironmentID s' = Stage_EnvironmentID stage" using exec_stage_keeps [OF that] by simp
    have "fst (h (Some run) s' w) \<noteq> None"
      by (rule refused_hook [OF hook(1) h run(1) _ _ stage(5) run(2,3) refused]) (use stage(3,4) in \<open>simp_all add: k\<close>)
    then show ?thesis by (cases "h (Some run) s' w") simp
  qed
  have t: "Stage_Type s' = ''deploy''" if "exec_stage ex p stage i runs = Inr s'" for s' runs
    using exec_stage_keeps [OF that] stage(2) by simp
  have same: "dispatch (other_deployers d docker compose cloud ex) runID s' = dispatch ex runID s'"
    if "exec_stage ex p stage i runs = Inr s'" for s' runs
    by (rule ext) (rule refused_dispatch(2) [OF hk t [OF that] deny [OF that]])
  have fails: False
    if "exec_stage ex p stage i runs = Inr s'" "retry_stage tp pol (dispatch ex runID s') env = Some (None, env')"
    for s' runs pol env env'
    using failing_retry [OF refused_dispatch(1) [OF hk t [OF that(1)] deny [OF that(1)]] that(2)] by simp
  have "taskFunc (other_deployers d docker compose cloud ex) tp p runID i st = taskFunc ex tp p runID i st"
    unfolding taskFunc_def other_deployers_rest stage(1) option.case
    by (cases "es_runs st i"; cases "exec_stage ex p stage i (es_runs st)") (simp_all add: same Let_def)
  moreover have "out \<noteq> TaskDone" if "taskFunc ex tp p runID i st = Some (out, st')" for out st'
    using that stage(1) unfolding taskFunc_def Let_def
    by (auto split: option.splits sum.splits if_splits dest: fails)
  ultimately show ?thesis by blast
qed

text \<open>
  A run without an actor is not governed: the comment calls such rows old ones, but a push to the
  branch of an app that deploys automatically starts one too.
\<close>

lemma no_actor_not_governed:
  assumes "PipelineDeployHook ToLower post client envs nameFor = Some h" "Run_StartedByUserSub run = []"
  shows "h (Some run) stage w = (None, w)"
  using assms by (auto simp: PipelineDeployHook_def split: if_splits)

text \<open>
  An answer of the service that is not 200 counts as no answer: where the environment fails open, a
  refusal of the actor's token by the service lets the deploy pass.
\<close>

lemma refused_token_fails_open:
  assumes "Client_Enabled (Some c)" "ToLower service \<notin> Gv_BootstrapServices c" "ToLower env \<in> Gv_FailOpenEnvs c"
    "extractBearer r = Some token" "\<And>url hdr q w. post url hdr q w = (Response 403 None, w)"
  shows "passes (fst (RequireGovernanceAllow ToLower post (Some c) (Inr (Some (service, env))) bg r w))"
  using assms
  by (simp add: RequireGovernanceAllow_def Authorize_def decode_answer_def transportFallback_def cooker_allow_def
      Decision_Allowed_def passes_def Let_def split_def)

text \<open>
  A denial without the field \<open>enforced\<close> decodes as an advisory one: a gate that does not know the
  field is never obeyed.
\<close>

lemma unenforced_denial_passes:
  assumes "Client_Enabled (Some c)" "ToLower service \<notin> Gv_BootstrapServices c" "extractBearer r = Some token"
    "\<And>url hdr q w. post url hdr q w = (Response 200 (Some d), w)" "D_Decision d = ''deny''" "\<not> D_Enforced d"
  shows "RequireGovernanceAllow ToLower post (Some c) (Inr (Some (service, env))) bg r w
       = (GovDecided (D_AuditID d) (D_PolicyID d) True, w)"
  using assms
  by (simp add: RequireGovernanceAllow_def Authorize_def decode_answer_def Decision_Allowed_def Let_def split_def)

subsection \<open>An example\<close>

definition gov_client :: Client where
  "gov_client = \<lparr>Gv_BaseURL = ''https://gov'', Gv_BootstrapServices = {''grovernance''}, Gv_FailOpenEnvs = {''dev''},
     Gv_CallerToken = [], Gv_DelegateToken = ''t''\<rparr>"

definition gov_denies :: "nat gate" where
  "gov_denies url hdr q w = (Response 200 (Some \<lparr>D_Decision = ''deny'', D_Reason = ''freeze'', D_PolicyID = ''p'',
     D_AuditID = ''a'', D_Enforced = True, D_EnforcementMode = ''enforce''\<rparr>), w + 1)"

definition gov_run :: RunRow where
  "gov_run = \<lparr>Run_ID = ''r'', Run_Status = ''running'', Run_StageRuns = [], Run_StartedAt = None, Run_FinishedAt = None,
     Run_Error = [], Run_PipelineID = ''p'', Run_Variables = Map.empty, Run_CreatedAt = 0, Run_HeartbeatAt = None,
     Run_StartedByUserSub = ''ann'', Run_StartedByEmail = [], Run_StartedByGroups = [], Run_StartedByTokenHash = [],
     Run_PipelineVersion = 1\<rparr>"

definition gov_stage :: Stage where
  "gov_stage = deploy_stage\<lparr>Stage_EnvironmentID := ''e''\<rparr>"

definition gov_executor :: "(string, nat, unit) Executor" where
  "gov_executor = demo_executor\<lparr>ex_govHook := executor_hook (\<lambda>_. ''denied'') gov_run
     (PipelineDeployHook id gov_denies (Some gov_client) (Some (\<lambda>_. Got ''prod'')) (\<lambda>_. Inr ''shop''))\<rparr>"

definition gov_request :: gin_request where
  "gov_request = \<lparr>GR_Authorization = ''Bearer tok'', GR_Justification = ''incident'', GR_XRequestID = [], GR_request_id = ''q'',
     GR_RequestID = [], GR_user_sub = []\<rparr>"


lemma refused_stage_never_deploys_witness:
  "taskFunc (other_deployers (\<lambda>q w. ([], Inl ''no'', w)) None None (\<lambda>q w. ([], Inl ''no'', w)) gov_executor)
      (demo_params False) (demo_pipeline\<lparr>Pipeline_Stages := [gov_stage]\<rparr>) ''r'' ''d'' demo_state
   = taskFunc gov_executor (demo_params False) (demo_pipeline\<lparr>Pipeline_Stages := [gov_stage]\<rparr>) ''r'' ''d'' demo_state"
  by (rule refused_stage_never_deploys [where c = gov_client and ex = gov_executor and err = "\<lambda>_. ''denied''" and run = gov_run
        and ToLower = id and post = gov_denies and envs = "Some (\<lambda>_. Got ''prod'')" and nameFor = "\<lambda>_. Inr ''shop''"
        and name = "''shop''" and stage = gov_stage and envName = "''prod''", THEN conjunct1])
    (simp_all add: DelegationEnabled_def gov_client_def gov_executor_def gov_run_def gov_stage_def deploy_stage_def
      stageMap_def lookupEnvName_def refused_by_def gov_denies_def lets_def)

end
