(* ===== verification/Paths.thy ===== *)
theory Paths
  imports Strings
begin

text \<open>
  What the code uses of Go's \<open>path/filepath\<close> on Unix (\<open>Clean\<close>, \<open>Join\<close>, \<open>IsAbs\<close>), the check of
  relative paths (\<open>safeRelativePath\<close> of \<open>backend/internal/service/app_inspection.go\<close>), and the proof
  that a checked path joined to a directory stays inside it.
\<close>

subsection \<open>Cleaning a path\<close>

definition IsAbs :: "string \<Rightarrow> bool" where
  "IsAbs p \<longleftrightarrow> p \<noteq> [] \<and> hd p = CHR ''/''"

text \<open>The elements of a path are pushed on a stack; an element \<open>..\<close> takes one away.\<close>

definition clean_step :: "bool \<Rightarrow> string list \<Rightarrow> string \<Rightarrow> string list" where
  "clean_step rooted st c =
     (if c = [] \<or> c = ''.'' then st
      else if c = ''..'' then
        (case st of
           [] \<Rightarrow> if rooted then [] else [c]
         | x # xs \<Rightarrow> if x = ''..'' then c # st else xs)
      else c # st)"

definition path_elems :: "string \<Rightarrow> string list" where
  "path_elems p = rev (foldl (clean_step (IsAbs p)) [] (split_at CHR ''/'' p))"

fun join_slash :: "string list \<Rightarrow> string" where
  "join_slash [] = []"
| "join_slash [c] = c"
| "join_slash (c # cs) = c @ CHR ''/'' # join_slash cs"

definition Clean :: "string \<Rightarrow> string" where
  "Clean p =
     (let r = join_slash (path_elems p) in
      if IsAbs p then CHR ''/'' # r else if r = [] then ''.'' else r)"

definition Join :: "string list \<Rightarrow> string" where
  "Join elem = (case dropWhile (\<lambda>e. e = []) elem of [] \<Rightarrow> [] | es \<Rightarrow> Clean (join_slash es))"

definition safeRelativePath :: "string \<Rightarrow> bool" where
  "safeRelativePath p =
     (let p = Clean p in
      p \<noteq> ''..'' \<and> \<not> IsAbs p \<and> take 3 p \<noteq> ''../'' \<and>
      CHR 0x00 \<notin> set p \<and> CHR 0x0D \<notin> set p \<and> CHR 0x0A \<notin> set p)"

subsection \<open>Elements\<close>

definition plain :: "string \<Rightarrow> bool" where
  "plain c \<longleftrightarrow> c \<noteq> [] \<and> c \<noteq> ''.'' \<and> c \<noteq> ''..'' \<and> CHR ''/'' \<notin> set c"

lemma split_elems_sep: "e \<in> set (split_at c s) \<Longrightarrow> c \<notin> set e"
  by (induction s arbitrary: e) (auto split: if_splits list.splits)

lemma split_join:
  "cs \<noteq> [] \<Longrightarrow> \<forall>e \<in> set cs. CHR ''/'' \<notin> set e \<Longrightarrow> split_at CHR ''/'' (join_slash cs) = cs"
  by (induction cs rule: join_slash.induct) (simp_all add: split_at_notin split_at_append)

lemma split_two: "split_at c (a @ c # b) = split_at c a @ split_at c b"
  by (induction a) (auto split: list.splits)

text \<open>A stack holds plain elements above those \<open>..\<close> that nothing could take away.\<close>

definition stack_ok :: "bool \<Rightarrow> string list \<Rightarrow> bool" where
  "stack_ok rooted st \<longleftrightarrow> (\<exists>cs n. st = cs @ replicate n ''..'' \<and> (\<forall>c \<in> set cs. plain c) \<and> (rooted \<longrightarrow> n = 0))"

lemma stack_step:
  assumes "stack_ok rooted st" "CHR ''/'' \<notin> set c"
  shows "stack_ok rooted (clean_step rooted st c)"
proof -
  obtain cs n where st: "st = cs @ replicate n ''..''" "\<forall>c \<in> set cs. plain c" "rooted \<longrightarrow> n = 0"
    using assms(1) by (auto simp: stack_ok_def)
  show ?thesis
  proof (cases "c = ''..''")
    case False
    have "stack_ok rooted (c # st)" if "c \<noteq> []" "c \<noteq> ''.''"
      unfolding stack_ok_def using st that False assms(2) by (intro exI [of _ "c # cs"] exI [of _ n]) (simp add: plain_def)
    then show ?thesis using False assms(1) by (simp add: clean_step_def)
  next
    case up: True
    show ?thesis
    proof (cases cs)
      case Nil
      then have "clean_step rooted st c = (if rooted then [] else replicate (Suc n) ''..'')"
        using st up by (cases n) (simp_all add: clean_step_def)
      then show ?thesis unfolding stack_ok_def by (intro exI [of _ "[]"] exI [of _ "if rooted then 0 else Suc n"]) simp
    next
      case (Cons x xs)
      then have "clean_step rooted st c = xs @ replicate n ''..''"
        using st up by (auto simp: clean_step_def plain_def)
      then show ?thesis unfolding stack_ok_def using st Cons by (intro exI [of _ xs] exI [of _ n]) simp
    qed
  qed
qed

lemma stack_fold:
  "stack_ok rooted st \<Longrightarrow> \<forall>c \<in> set cs. CHR ''/'' \<notin> set c \<Longrightarrow> stack_ok rooted (foldl (clean_step rooted) st cs)"
  by (induction cs arbitrary: st) (auto intro: stack_step)

lemma fold_plain:
  "\<forall>c \<in> set cs. plain c \<Longrightarrow> foldl (clean_step rooted) st cs = rev cs @ st"
  by (induction cs arbitrary: st) (auto simp: clean_step_def plain_def)

lemma path_elems_form:
  obtains n cs where "path_elems p = replicate n ''..'' @ cs" "\<forall>c \<in> set cs. plain c" "IsAbs p \<longrightarrow> n = 0"
proof -
  have "stack_ok (IsAbs p) (foldl (clean_step (IsAbs p)) [] (split_at CHR ''/'' p))"
    by (rule stack_fold) (auto simp: stack_ok_def dest: split_elems_sep)
  then obtain cs n where "foldl (clean_step (IsAbs p)) [] (split_at CHR ''/'' p) = cs @ replicate n ''..''"
    "\<forall>c \<in> set cs. plain c" "IsAbs p \<longrightarrow> n = 0"
    by (auto simp: stack_ok_def)
  then show thesis by (intro that [of n "rev cs"]) (simp_all add: path_elems_def)
qed

text \<open>The cleaned path of a checked one is \<open>.\<close> or consists of plain elements.\<close>

lemma join_slash_hd: "cs \<noteq> [] \<Longrightarrow> hd cs \<noteq> [] \<Longrightarrow> join_slash cs \<noteq> [] \<and> hd (join_slash cs) = hd (hd cs)"
  by (induction cs rule: join_slash.induct) auto

lemma Clean_rel:
  assumes "\<not> IsAbs p"
  shows "Clean p = (if path_elems p = [] then ''.'' else join_slash (path_elems p))"
proof -
  obtain n cs where e: "path_elems p = replicate n ''..'' @ cs" "\<forall>c \<in> set cs. plain c" by (rule path_elems_form [of p]) auto
  have "join_slash (path_elems p) \<noteq> []" if "path_elems p \<noteq> []"
    using join_slash_hd [OF that] e that by (cases n; cases cs) (auto simp: plain_def)
  then show ?thesis using assms by (auto simp: Clean_def Let_def)
qed

lemma plain_elems_clean:
  assumes "cs \<noteq> []" "\<forall>c \<in> set cs. plain c"
  shows "path_elems (join_slash cs) = cs" "\<not> IsAbs (join_slash cs)"
proof -
  have h: "hd cs \<in> set cs" using assms(1) by simp
  then have "hd cs \<noteq> []" "CHR ''/'' \<notin> set (hd cs)" using assms(2) by (auto simp: plain_def)
  moreover have "hd (hd cs) \<in> set (hd cs)" using calculation(1) by simp
  ultimately show "\<not> IsAbs (join_slash cs)" using join_slash_hd [OF assms(1)] unfolding IsAbs_def by metis
  have "split_at CHR ''/'' (join_slash cs) = cs" using assms by (intro split_join) (auto simp: plain_def)
  then show "path_elems (join_slash cs) = cs" using assms(2) by (simp add: path_elems_def fold_plain)
qed

subsection \<open>Staying inside\<close>

lemma safe_elems:
  assumes "safeRelativePath p"
  shows "\<not> IsAbs p" "\<forall>c \<in> set (path_elems p). plain c"
proof -
  have na: "\<not> IsAbs (Clean p)" using assms by (simp add: safeRelativePath_def Let_def)
  then show rel: "\<not> IsAbs p" by (auto simp: Clean_def Let_def IsAbs_def split: if_splits)
  obtain n cs where e: "path_elems p = replicate n ''..'' @ cs" "\<forall>c \<in> set cs. plain c" by (rule path_elems_form [of p]) auto
  have "n = 0"
  proof (rule ccontr)
    assume "n \<noteq> 0"
    then obtain m where m: "path_elems p = ''..'' # replicate m ''..'' @ cs" using e(1) by (cases n) auto
    then have c: "Clean p = join_slash (''..'' # replicate m ''..'' @ cs)" using Clean_rel [OF rel] by simp
    have "Clean p = ''..'' \<or> take 3 (Clean p) = ''../''"
      unfolding c by (cases "replicate m ''..'' @ cs") simp_all
    then show False using assms by (simp add: safeRelativePath_def Let_def)
  qed
  then show "\<forall>c \<in> set (path_elems p). plain c" using e by simp
qed

lemma up_stays: "''..'' \<in> set st \<Longrightarrow> stack_ok False st \<Longrightarrow> \<forall>c \<in> set cs. CHR ''/'' \<notin> set c \<Longrightarrow>
    ''..'' \<in> set (foldl (clean_step False) st cs)"
proof (induction cs arbitrary: st)
  case (Cons c cs)
  have "''..'' \<in> set (clean_step False st c)"
  proof -
    obtain xs n where st: "st = xs @ replicate n ''..''" "\<forall>x \<in> set xs. plain x"
      using Cons.prems(2) by (auto simp: stack_ok_def)
    with Cons.prems(1) have n: "n \<noteq> 0" by (auto simp: plain_def)
    then show ?thesis using st by (cases xs; cases n) (auto simp: clean_step_def plain_def)
  qed
  with Cons show ?case by (simp add: stack_step)
qed simp

lemma fold_above:
  "foldl (clean_step False) s cs = s' \<Longrightarrow> ''..'' \<notin> set s' \<Longrightarrow> \<forall>c \<in> set s. plain c \<Longrightarrow>
   \<forall>c \<in> set cs. CHR ''/'' \<notin> set c \<Longrightarrow> foldl (clean_step True) (s @ st) cs = s' @ st"
proof (induction cs arbitrary: s)
  case (Cons c cs)
  have ok: "stack_ok False s" unfolding stack_ok_def using Cons.prems(3) by (intro exI [of _ s] exI [of _ 0]) simp
  show ?case
  proof (cases "c = ''..'' \<and> s = []")
    case True
    have up: "clean_step False s c = [''..'']" using True by (simp add: clean_step_def)
    have "''..'' \<in> set (foldl (clean_step False) (clean_step False s c) cs)"
      by (rule up_stays) (use up stack_step [OF ok, of c] Cons.prems(4) in simp_all)
    then have "''..'' \<in> set s'" using Cons.prems(1) by simp
    with Cons.prems(2) show ?thesis by simp
  next
    case False
    have n: "clean_step True (s @ st) c = clean_step False s c @ st"
      using False Cons.prems(3) by (auto simp: clean_step_def plain_def split: list.splits)
    have "\<forall>x \<in> set (clean_step False s c). plain x"
      using False Cons.prems(3,4) by (auto simp: clean_step_def plain_def split: list.splits)
    then show ?thesis using Cons.IH [of "clean_step False s c"] Cons.prems by (simp add: n)
  qed
qed simp

lemma IsAbs_append: "IsAbs a \<Longrightarrow> IsAbs (a @ b)"
  by (simp add: IsAbs_def)

lemma join_elems:
  assumes "IsAbs root" "safeRelativePath q"
  shows "path_elems (root @ CHR ''/'' # q) = path_elems root @ path_elems q"
proof -
  have ns: "\<forall>c \<in> set (split_at CHR ''/'' q). CHR ''/'' \<notin> set c" by (auto dest: split_elems_sep)
  define s' where "s' = foldl (clean_step False) [] (split_at CHR ''/'' q)"
  have q: "path_elems q = rev s'" using safe_elems(1) [OF assms(2)] by (simp add: path_elems_def s'_def)
  then have "''..'' \<notin> set s'" using safe_elems(2) [OF assms(2)] by (auto simp: plain_def)
  from fold_above [OF s'_def [symmetric] this _ ns, of "foldl (clean_step True) [] (split_at CHR ''/'' root)"]
  show ?thesis using assms(1) by (simp add: path_elems_def IsAbs_append split_two q [unfolded path_elems_def])
qed

text \<open>
  Joining a checked relative path to an absolute directory never leaves it: the result is the
  directory's cleaned path followed by elements none of which is empty, \<open>.\<close> or \<open>..\<close>.
\<close>

lemma safe_path_inside:
  assumes "IsAbs root" "safeRelativePath q" "q \<noteq> []"
  shows "\<exists>rest. Join [root, q] = CHR ''/'' # join_slash (path_elems root @ rest) \<and> (\<forall>c \<in> set rest. plain c)"
proof -
  have "Join [root, q] = Clean (root @ CHR ''/'' # q)"
    using assms(1) by (auto simp: Join_def IsAbs_def)
  also have "\<dots> = CHR ''/'' # join_slash (path_elems root @ path_elems q)"
    using join_elems [OF assms(1,2)] assms(1) by (simp add: Clean_def Let_def IsAbs_append)
  finally show ?thesis using safe_elems(2) [OF assms(2)] by blast
qed

lemma safeRelativePath_examples:
  "safeRelativePath ''a/../b''" "\<not> safeRelativePath ''a/../../b''" "\<not> safeRelativePath ''/etc''"
  by code_simp+

end
