(* ===== verification/AppSynth.thy ===== *)
theory AppSynth
  imports AppModel Paths Stages RunLifecycle
begin

text \<open>
  The pipelines that deploying an app synthesizes (\<open>backend/internal/service/app_deployer.go\<close>,
  \<open>proxy_manifest.go\<close>, \<open>mergeEnv\<close> of \<open>envresolve.go\<close>, \<open>DeploymentViewPipeline\<close> of \<open>app_targets.go\<close>): one chain of
  stages for a Dockerfile, one per service for a Compose file (\<open>model/compose.go\<close>).  The YAML text of
  an environment (\<open>yaml\<close>) and the quoting of \<open>fmt\<close> (\<open>quote\<close>) are parameters.
\<close>

subsection \<open>Compose services and options\<close>

record ComposeBuild =
  CB_Target :: string
  CB_Context :: string
  CB_Dockerfile :: string
  CB_Args :: "string \<rightharpoonup> string"

record ComposeService =
  CSv_Name :: string
  CSv_Image :: string
  CSv_Build :: "ComposeBuild option"
  CSv_Ports :: "string list"
  CSv_Environment :: "string \<rightharpoonup> string"
  CSv_DependsOn :: "string list"
  CSv_CommandArgs :: "string list"
  CSv_HealthCheck :: "ContainerHealthCheck option"
  CSv_Group :: string
  CSv_Resources :: "ResourceLimits option"
  CSv_External :: bool

record ProxyConfig =
  PxC_Domain :: string
  PxC_Scheme :: string
  PxC_IngressClass :: string
  PxC_Network :: string

definition hostFor :: "ProxyConfig \<Rightarrow> string \<Rightarrow> string" where
  "hostFor p slug = (if PxC_Domain p = [] \<or> slug = [] then [] else slug @ ''.'' @ PxC_Domain p)"

record synthOpts =
  so_appEnv :: "string \<rightharpoonup> string"
  so_proxy :: ProxyConfig
  so_composeFile :: string

text \<open>A nil map is the empty one.\<close>

definition mergeEnv :: "(string \<rightharpoonup> string) \<Rightarrow> (string \<rightharpoonup> string) \<Rightarrow> string \<rightharpoonup> string" where
  "mergeEnv base override = base ++ override"

subsection \<open>Manifests\<close>

abbreviation NL :: string where "NL \<equiv> [CHR 0x0A]"

definition trim_newlines :: "string \<Rightarrow> string" where
  "trim_newlines s = rev (dropWhile (\<lambda>c. c = CHR 0x0A) (rev s))"

text \<open>
  What the text of an environment needs: its keys in order, and the YAML text of its pairs.
\<close>

type_synonym env_text = "((string \<rightharpoonup> string) \<Rightarrow> string list) \<times> ((string \<times> string) list \<Rightarrow> string)"

definition envYAMLBlock :: "env_text \<Rightarrow> (string \<rightharpoonup> string) \<Rightarrow> string \<Rightarrow> string" where
  "envYAMLBlock yaml env indent =
     (if fst yaml env = [] then []
      else (let raw = snd yaml (map (\<lambda>k. (k, the (env k))) (fst yaml env))
            in indent @ ''env:'' @ NL @
               concat (map (\<lambda>line. indent @ ''  '' @ line @ NL) (split_at CHR 0x0A (trim_newlines raw)))))"

definition lines_of :: "string list \<Rightarrow> string" where
  "lines_of ls = concat (map (\<lambda>l. l @ NL) ls)"

definition ingressYAML :: "string \<Rightarrow> string \<Rightarrow> string \<Rightarrow> nat \<Rightarrow> string \<Rightarrow> string" where
  "ingressYAML name host serviceName port ingressClass =
     lines_of ([''apiVersion: networking.k8s.io/v1'', ''kind: Ingress'', ''metadata:'', ''  name: '' @ name, ''spec:''] @
       (if ingressClass \<noteq> [] then [''  ingressClassName: '' @ ingressClass] else []) @
       [''  rules:'', ''    - host: '' @ host, ''      http:'', ''        paths:'', ''          - path: /'',
        ''            pathType: Prefix'', ''            backend:'', ''              service:'',
        ''                name: '' @ serviceName, ''                port: {number: '' @ show_decimal port @ ''}''])"

definition workload_yaml :: "string \<Rightarrow> string \<Rightarrow> nat \<Rightarrow> string \<Rightarrow> string \<Rightarrow> string" where
  "workload_yaml name img port resources envBlock =
     lines_of [''apiVersion: apps/v1'', ''kind: Deployment'', ''metadata:'', ''  name: '' @ name, ''spec:'',
       ''  replicas: 1'', ''  selector:'', ''    matchLabels: {app: '' @ name @ ''}'', ''  template:'', ''    metadata:'',
       ''      labels: {app: '' @ name @ ''}'', ''    spec:'', ''      containers:'', ''        - name: '' @ name,
       ''          image: '' @ img, ''          ports: [{containerPort: '' @ show_decimal port @ ''}]'' @ resources] @
     envBlock @
     lines_of [''---'', ''apiVersion: v1'', ''kind: Service'', ''metadata:'', ''  name: '' @ name, ''spec:'',
       ''  selector: {app: '' @ name @ ''}'',
       ''  ports: [{port: '' @ show_decimal port @ '', targetPort: '' @ show_decimal port @ ''}]'']"

definition defaultKubernetesManifest :: "env_text \<Rightarrow> App \<Rightarrow> string \<Rightarrow> (string \<rightharpoonup> string) \<Rightarrow>
    string \<Rightarrow> string \<Rightarrow> string" where
  "defaultKubernetesManifest yaml app img env proxyHost ingressClass =
     (let name = AppPrefix app; m = workload_yaml name img 80 [] (envYAMLBlock yaml env (replicate 10 CHR '' '')) in
      if proxyHost \<noteq> [] then m @ ''---'' @ NL @ ingressYAML name proxyHost name 80 ingressClass else m)"

definition has_suffix :: "string \<Rightarrow> string \<Rightarrow> bool" where
  "has_suffix s suf \<longleftrightarrow> length suf \<le> length s \<and> drop (length s - length suf) s = suf"

definition trim_suffix :: "string \<Rightarrow> string \<Rightarrow> string" where
  "trim_suffix s suf = (if has_suffix s suf then take (length s - length suf) s else s)"

definition k8sMemory :: "(string \<Rightarrow> string) \<Rightarrow> string \<Rightarrow> string" where
  "k8sMemory ToLower s =
     (let low = ToLower (TrimSpace s) in
      if has_suffix low ''gb'' \<or> has_suffix low ''g'' then trim_suffix (trim_suffix low ''b'') ''g'' @ ''Gi''
      else if has_suffix low ''mb'' \<or> has_suffix low ''m'' then trim_suffix (trim_suffix low ''b'') ''m'' @ ''Mi''
      else if has_suffix low ''kb'' \<or> has_suffix low ''k'' then trim_suffix (trim_suffix low ''b'') ''k'' @ ''Ki''
      else s)"

definition k8sResourceBlock :: "(string \<Rightarrow> string) \<Rightarrow> (string \<Rightarrow> string) \<Rightarrow> ResourceLimits option \<Rightarrow> string" where
  "k8sResourceBlock ToLower quote r =
     (case r of None \<Rightarrow> []
      | Some r \<Rightarrow>
          if RL_Memory r = [] \<and> RL_CPUs r = [] then []
          else NL @ ''          resources:'' @ NL @ ''            limits:'' @
            (if RL_Memory r \<noteq> [] then NL @ ''              memory: '' @ quote (k8sMemory ToLower (RL_Memory r)) else []) @
            (if RL_CPUs r \<noteq> [] then NL @ ''              cpu: '' @ quote (RL_CPUs r) else []))"

definition composeServiceManifest :: "env_text \<Rightarrow> (string \<Rightarrow> string) \<Rightarrow> (string \<Rightarrow> string) \<Rightarrow>
    ComposeService \<Rightarrow> string \<Rightarrow> (string \<rightharpoonup> string) \<Rightarrow> string \<Rightarrow> string \<Rightarrow> string" where
  "composeServiceManifest yaml ToLower quote svc img env proxyHost ingressClass =
     (let name = sanitize (CSv_Name svc); port = firstContainerPort (CSv_Ports svc);
          m = workload_yaml name img port (k8sResourceBlock ToLower quote (CSv_Resources svc))
                (envYAMLBlock yaml env (replicate 10 CHR '' ''))
      in if proxyHost \<noteq> [] then m @ ''---'' @ NL @ ingressYAML name proxyHost name port ingressClass else m)"

subsection \<open>One image\<close>

definition deployRuntimeFor :: "string \<Rightarrow> string" where
  "deployRuntimeFor kind =
     (if kind = ''docker-host'' then ''docker''
      else if kind = ''kubernetes'' then ''kubernetes''
      else if kind = ''ecs'' then ''ecs''
      else if kind = ''cloud-run'' then ''cloud-run''
      else [])"

text \<open>The cache of build stages, from the configured repository.\<close>

definition cacheSpec :: "string \<Rightarrow> CacheSpec option" where
  "cacheSpec ref = (if ref = [] then None else Some \<lparr>CacheSpec_Mode = ''registry'', CacheSpec_Ref = ref, CacheSpec_Inline = False\<rparr>)"

definition plain_stage :: "string \<Rightarrow> string \<Rightarrow> string \<Rightarrow> string \<Rightarrow> StageConfig \<Rightarrow> Stage" where
  "plain_stage i name typ grp cfg = \<lparr>Stage_ID = i, Stage_Name = name, Stage_Type = typ, Stage_Config = cfg,
     Stage_EnvironmentID = [], Stage_Group = grp\<rparr>"

definition plain_edge :: "string \<Rightarrow> string \<Rightarrow> string \<Rightarrow> Edge" where
  "plain_edge i src tgt = \<lparr>Edge_ID = i, Edge_Source = src, Edge_Target = tgt, Edge_Condition = []\<rparr>"

text \<open>A run of a synthesized pipeline; the fields the code does not set have their zero values.\<close>

definition synth_run :: "string \<Rightarrow> string \<Rightarrow> Stage list \<Rightarrow> RunRow" where
  "synth_run runID pipelineID stages =
     \<lparr>Run_ID = runID, Run_Status = ''pending'', Run_StageRuns = map pending_stage stages,
      Run_StartedAt = None, Run_FinishedAt = None, Run_Error = [], Run_PipelineID = pipelineID,
      Run_Variables = Map.empty, Run_CreatedAt = 0, Run_HeartbeatAt = None, Run_StartedByUserSub = [],
      Run_StartedByEmail = [], Run_StartedByGroups = [], Run_StartedByTokenHash = [], Run_PipelineVersion = 0\<rparr>"

definition plan_dockerfile :: "BuildPlan option \<Rightarrow> string" where
  "plan_dockerfile plan =
     (case plan of None \<Rightarrow> ''Dockerfile''
      | Some p \<Rightarrow>
          if BP_Kind p = ''dockerfile'' \<and> BP_Path p \<noteq> [] then
            (let clean = Clean (BP_Path p) in
             if \<not> IsAbs clean \<and> clean \<noteq> ''..'' \<and> take 3 clean \<noteq> ''../'' then clean else ''Dockerfile'')
          else ''Dockerfile'')"

definition synthesizePipeline :: "env_text \<Rightarrow> string \<Rightarrow> App \<Rightarrow> BuildPlan option \<Rightarrow> string \<Rightarrow> string \<Rightarrow>
    CacheSpec option \<Rightarrow> synthOpts \<Rightarrow> Pipeline \<times> RunRow" where
  "synthesizePipeline yaml uuid app plan workdir tag cache opts =
     (let build = plain_stage ''build'' ''Build'' ''build'' []
            (empty_config\<lparr>sc_Dockerfile := plan_dockerfile plan,
               sc_BuildArgs := (case plan of None \<Rightarrow> Map.empty | Some p \<Rightarrow> BP_Args p),
               sc_Context := workdir, sc_Tags := [tag], sc_Cache := cache\<rparr>);
          push = plain_stage ''push'' ''Push'' ''push'' [] (empty_config\<lparr>sc_Image := tag, sc_Repository := tag\<rparr>);
          deploy = plain_stage ''deploy'' ''Deploy'' ''deploy'' []
            (if App_Kind app = ''kubernetes'' then
               (let proxyHost = hostFor (so_proxy opts) (AppPrefix app) in
                empty_config\<lparr>sc_Namespace := App_Namespace app,
                  sc_ManifestPath := defaultKubernetesManifest yaml app tag (so_appEnv opts) proxyHost (PxC_IngressClass (so_proxy opts)),
                  sc_Env := mergeEnv (so_appEnv opts) Map.empty, sc_ProxyHost := proxyHost\<rparr>)
             else empty_config\<lparr>sc_DeployRuntime := deployRuntimeFor (App_Kind app), sc_RuntimeName := AppPrefix app,
                    sc_Image := tag, sc_Env := mergeEnv (so_appEnv opts) Map.empty\<rparr>);
          stages = [build, push, deploy]
      in (\<lparr>Pipeline_ID = ''app-'' @ App_ID app, Pipeline_Stages = stages,
           Pipeline_Edges = [plain_edge ''e1'' ''build'' ''push'', plain_edge ''e2'' ''push'' ''deploy''],
           Pipeline_RunDeadline = []\<rparr>,
          synth_run uuid (''app-'' @ App_ID app) stages))"

definition ComposePipelineID :: "string \<Rightarrow> string \<Rightarrow> int \<Rightarrow> string" where
  "ComposePipelineID runID appID ts =
     (if runID \<noteq> [] then ''app-'' @ appID @ ''-'' @ runID else ''app-'' @ appID @ ''-'' @ show_int ts)"

text \<open>A pipeline and its run without their deploy stages.\<close>

definition stripDeployStage :: "Pipeline \<Rightarrow> RunRow \<Rightarrow> Pipeline \<times> RunRow" where
  "stripDeployStage p run =
     (let dropped = {Stage_ID s | s. s \<in> set (Pipeline_Stages p) \<and> Stage_Type s = ''deploy''} in
      (p\<lparr>Pipeline_Stages := filter (\<lambda>s. Stage_Type s \<noteq> ''deploy'') (Pipeline_Stages p),
         Pipeline_Edges := filter (\<lambda>e. Edge_Source e \<notin> dropped \<and> Edge_Target e \<notin> dropped) (Pipeline_Edges p)\<rparr>,
       run\<lparr>Run_StageRuns := filter (\<lambda>sr. SR_StageID sr \<notin> dropped) (Run_StageRuns run)\<rparr>))"

subsection \<open>One chain for each service\<close>

text \<open>
  The loop that looks for a free slug visits the base and then the base with 2, 3 and so on; one more
  candidate than there are used slugs is enough.
\<close>

definition slug_candidates :: "string \<Rightarrow> nat \<Rightarrow> string list" where
  "slug_candidates base n = base # map (\<lambda>i. base @ ''-'' @ show_decimal i) [2..<n + 2]"

definition pick_slug :: "string list \<Rightarrow> string \<Rightarrow> string option" where
  "pick_slug used base = find (\<lambda>s. s \<notin> set used) (slug_candidates base (length used))"

fun assign_slugs :: "ComposeService list \<Rightarrow> string list \<Rightarrow> (string \<rightharpoonup> string) \<Rightarrow> (string \<rightharpoonup> string) option" where
  "assign_slugs [] used slugOf = Some slugOf"
| "assign_slugs (svc # svcs) used slugOf =
     (case pick_slug used (sanitize (CSv_Name svc)) of
        None \<Rightarrow> None
      | Some slug \<Rightarrow> assign_slugs svcs (slug # used) (slugOf(CSv_Name svc \<mapsto> slug)))"

datatype synth_err =
    UnsupportedTarget string
  | InvalidContext string
  | InvalidDockerfile string
  | InvalidGraph "pipe_err list"

definition compose_runtime :: "App \<Rightarrow> synthOpts \<Rightarrow> string" where
  "compose_runtime app opts =
     (let rt = deployRuntimeFor (App_Kind app) in
      if rt = ''docker'' \<and> so_composeFile opts \<noteq> [] then ''compose'' else rt)"

text \<open>The context and the Dockerfile of a build, cleaned.\<close>

definition build_paths :: "string \<Rightarrow> ComposeBuild \<Rightarrow> synth_err + string \<times> string" where
  "build_paths name b =
     (let cleanCtx = Clean (if CB_Context b \<noteq> [] then CB_Context b else ''.'');
          cleanDf = Clean (if CB_Dockerfile b \<noteq> [] then CB_Dockerfile b else ''Dockerfile'')
      in if \<not> safeRelativePath cleanCtx then Inl (InvalidContext name)
         else if \<not> safeRelativePath (Join [cleanCtx, cleanDf]) \<or> IsAbs cleanDf then Inl (InvalidDockerfile name)
         else Inr (cleanCtx, cleanDf))"

record synth_env =
  sn_yaml :: env_text
  sn_ToLower :: "string \<Rightarrow> string"
  sn_quote :: "string \<Rightarrow> string"
  sn_app :: App
  sn_workdir :: string
  sn_registry :: string
  sn_ts :: int
  sn_cache :: "CacheSpec option"
  sn_opts :: synthOpts

definition service_image :: "synth_env \<Rightarrow> string \<Rightarrow> string" where
  "service_image en slug =
     sn_registry en @ ''/'' @ AppPrefix (sn_app en) @ ''-'' @ slug @ '':'' @ show_int (sn_ts en)"

definition deploy_config :: "synth_env \<Rightarrow> ComposeService \<Rightarrow> string \<Rightarrow> StageConfig" where
  "deploy_config en svc deployImage =
     (let app = sn_app en; opts = sn_opts en; rt = compose_runtime app opts;
          name = RuntimeServiceName app (CSv_Name svc);
          svcEnv = mergeEnv (so_appEnv opts) (CSv_Environment svc);
          proxyHost = hostFor (so_proxy opts) name;
          cfg = empty_config\<lparr>sc_Command := CSv_CommandArgs svc, sc_HealthCheck := CSv_HealthCheck svc,
                  sc_DeployRuntime := rt, sc_RuntimeName := name, sc_ComposeServiceName := CSv_Name svc,
                  sc_Resources := CSv_Resources svc, sc_Image := deployImage, sc_ComposePorts := CSv_Ports svc,
                  sc_Env := svcEnv, sc_ProxyHost := proxyHost\<rparr>;
          cfg = (if rt = ''compose'' then
                   cfg\<lparr>sc_ManifestPath := so_composeFile opts, sc_ComposeProject := AppPrefix app,
                       sc_RuntimeName := AppPrefix app @ ''-'' @ CSv_Name svc @ ''-1''\<rparr>
                 else cfg)
      in if rt = ''kubernetes'' then
           cfg\<lparr>sc_Namespace := App_Namespace app,
               sc_ManifestPath := composeServiceManifest (sn_yaml en) (sn_ToLower en) (sn_quote en)
                 (svc\<lparr>CSv_Name := name\<rparr>) deployImage svcEnv proxyHost (PxC_IngressClass (so_proxy opts))\<rparr>
         else cfg)"

text \<open>The stages of a service and the pairs of stages its own edges join; none for an external one.\<close>

definition svc_synth :: "synth_env \<Rightarrow> (string \<rightharpoonup> string) \<Rightarrow> ComposeService \<Rightarrow>
    synth_err + Stage list \<times> (string \<times> string) list" where
  "svc_synth en slugOf svc =
     (let slug = the (slugOf (CSv_Name svc)); name = CSv_Name svc; grp = CSv_Group svc in
      if CSv_External svc then Inr ([], [])
      else (case CSv_Build svc of
          None \<Rightarrow>
            Inr ([plain_stage (''deploy-'' @ slug) (''Deploy '' @ name) ''deploy'' grp
                    (deploy_config en svc (CSv_Image svc))], [])
        | Some b \<Rightarrow>
            (case build_paths name b of
               Inl e \<Rightarrow> Inl e
             | Inr (cleanCtx, cleanDf) \<Rightarrow>
                 (let img = service_image en slug in
                  Inr ([plain_stage (''build-'' @ slug) (''Build '' @ name) ''build'' grp
                          (empty_config\<lparr>sc_Dockerfile := cleanDf, sc_BuildArgs := CB_Args b, sc_BuildTarget := CB_Target b,
                             sc_Context := Join [sn_workdir en, cleanCtx], sc_Tags := [img], sc_Cache := sn_cache en,
                             sc_ComposeServiceName := name, sc_ComposeBuildContext := cleanCtx,
                             sc_ComposeDockerfile := cleanDf\<rparr>),
                        plain_stage (''push-'' @ slug) (''Push '' @ name) ''push'' grp
                          (empty_config\<lparr>sc_Image := img, sc_Repository := img, sc_ComposeServiceName := name\<rparr>),
                        plain_stage (''deploy-'' @ slug) (''Deploy '' @ name) ''deploy'' grp (deploy_config en svc img)],
                       [(''build-'' @ slug, ''push-'' @ slug), (''push-'' @ slug, ''deploy-'' @ slug)])))))"

fun svc_loop :: "synth_env \<Rightarrow> (string \<rightharpoonup> string) \<Rightarrow> ComposeService list \<Rightarrow>
    synth_err + Stage list \<times> (string \<times> string) list" where
  "svc_loop en slugOf [] = Inr ([], [])"
| "svc_loop en slugOf (svc # svcs) =
     (case svc_synth en slugOf svc of
        Inl e \<Rightarrow> Inl e
      | Inr (stages, pairs) \<Rightarrow>
          (case svc_loop en slugOf svcs of
             Inl e \<Rightarrow> Inl e
           | Inr (stages', pairs') \<Rightarrow> Inr (stages @ stages', pairs @ pairs')))"

text \<open>The deploy stage of a service that is not external, and the edges of \<open>depends_on\<close>.\<close>

definition deploy_ids :: "(string \<rightharpoonup> string) \<Rightarrow> ComposeService list \<Rightarrow> string \<rightharpoonup> string" where
  "deploy_ids slugOf svcs =
     map_of (rev (map (\<lambda>svc. (CSv_Name svc, ''deploy-'' @ the (slugOf (CSv_Name svc)))) (filter (\<lambda>s. \<not> CSv_External s) svcs)))"

definition dep_pairs :: "(string \<rightharpoonup> string) \<Rightarrow> ComposeService list \<Rightarrow> (string \<times> string) list" where
  "dep_pairs ids svcs =
     concat (map (\<lambda>svc. concat (map (\<lambda>dep. case ids dep of None \<Rightarrow> [] | Some d \<Rightarrow> [(d, the (ids (CSv_Name svc)))])
                                  (CSv_DependsOn svc)))
        (filter (\<lambda>s. \<not> CSv_External s) svcs))"

definition number_edges :: "(string \<times> string) list \<Rightarrow> Edge list" where
  "number_edges pairs = map (\<lambda>(k, src, tgt). plain_edge (''e'' @ show_decimal k) src tgt) (zip [1..<Suc (length pairs)] pairs)"

text \<open>\<open>visit\<close> gives the orders in which the validation of a pipeline visits its maps.\<close>

definition compose_pipeline :: "synth_env \<Rightarrow> ComposeService list \<Rightarrow> string \<Rightarrow> synth_err + Pipeline" where
  "compose_pipeline en svcs pipelineID =
     (if compose_runtime (sn_app en) (sn_opts en) = [] then Inl (UnsupportedTarget (App_Kind (sn_app en)))
      else (let slugOf = the (assign_slugs svcs [] Map.empty) in
        case svc_loop en slugOf svcs of
          Inl e \<Rightarrow> Inl e
        | Inr (stages, pairs) \<Rightarrow>
            Inr \<lparr>Pipeline_ID = pipelineID, Pipeline_Stages = stages,
                 Pipeline_Edges = number_edges (pairs @ dep_pairs (deploy_ids slugOf svcs) svcs),
                 Pipeline_RunDeadline = []\<rparr>))"

definition synthesizePipelineFromCompose ::
  "(Pipeline \<Rightarrow> (pipe_err list + DAG) option) \<Rightarrow> synth_env \<Rightarrow> ComposeService list \<Rightarrow> string \<Rightarrow> string \<Rightarrow> string \<Rightarrow>
    (synth_err + Pipeline \<times> RunRow) option" where
  "synthesizePipelineFromCompose dagOf en svcs pipelineID runID uuid =
     (case compose_pipeline en svcs pipelineID of
        Inl e \<Rightarrow> Some (Inl e)
      | Inr p \<Rightarrow>
          (case dagOf p of
             None \<Rightarrow> None
           | Some (Inl errs) \<Rightarrow> Some (Inl (InvalidGraph errs))
           | Some (Inr _) \<Rightarrow>
               Some (Inr (p, synth_run (if runID = [] then uuid else runID) pipelineID (Pipeline_Stages p)))))"

subsection \<open>Slugs\<close>

definition decimal_value :: "string \<Rightarrow> nat" where
  "decimal_value s = foldl (\<lambda>a c. 10 * a + (of_char c - 48)) 0 s"

lemma decimal_value_show: "decimal_value (show_decimal n) = n"
proof (induction n rule: less_induct)
  case (less n)
  show ?case
  proof (cases "n < 10")
    case True
    then show ?thesis by (subst show_decimal.simps) (simp add: decimal_value_def)
  next
    case False
    have "decimal_value (show_decimal (n div 10)) = n div 10" using False by (intro less) simp
    then show ?thesis
      using False by (subst show_decimal.simps) (simp add: decimal_value_def)
  qed
qed

lemma show_decimal_inj: "show_decimal m = show_decimal n \<longleftrightarrow> m = n"
  by (metis decimal_value_show)

lemma slug_candidates_distinct: "distinct (slug_candidates base n)"
  by (auto simp: slug_candidates_def distinct_map inj_on_def show_decimal_inj)

lemma pick_slug_fresh:
  obtains slug where "pick_slug used base = Some slug" "slug \<notin> set used"
proof -
  have "\<not> set (slug_candidates base (length used)) \<subseteq> set used"
  proof
    assume "set (slug_candidates base (length used)) \<subseteq> set used"
    then have "card (set (slug_candidates base (length used))) \<le> length used"
      using order_trans [OF card_mono [OF finite_set] card_length] by blast
    then show False
      unfolding distinct_card [OF slug_candidates_distinct] by (simp add: slug_candidates_def del: upt_Suc)
  qed
  then have "pick_slug used base \<noteq> None" by (auto simp: pick_slug_def find_None_iff)
  then show thesis using that by (auto simp: pick_slug_def find_Some_iff)
qed

lemma assign_slugs_spec:
  "distinct (map CSv_Name svcs) \<Longrightarrow> inj_on slugOf A \<Longrightarrow> the ` slugOf ` A \<subseteq> set used \<Longrightarrow> None \<notin> slugOf ` A \<Longrightarrow>
   A \<inter> CSv_Name ` set svcs = {} \<Longrightarrow>
   \<exists>f. assign_slugs svcs used slugOf = Some f \<and> inj_on f (A \<union> CSv_Name ` set svcs) \<and>
       None \<notin> f ` (A \<union> CSv_Name ` set svcs)"
proof (induction svcs arbitrary: used slugOf A)
  case (Cons svc svcs)
  obtain slug where s: "pick_slug used (sanitize (CSv_Name svc)) = Some slug" "slug \<notin> set used"
    by (rule pick_slug_fresh)
  let ?n = "CSv_Name svc"
  have n: "?n \<notin> A" using Cons.prems(5) by auto
  have eq: "(slugOf(?n \<mapsto> slug)) ` A = slugOf ` A" using n by (auto simp: image_iff)
  have ni: "Some slug \<notin> slugOf ` A" 
  proof
    assume "Some slug \<in> slugOf ` A"
    then have "the (Some slug) \<in> the ` slugOf ` A" by (rule imageI)
    then show False using s(2) Cons.prems(3) by auto
  qed
  have "\<exists>f. assign_slugs svcs (slug # used) (slugOf(?n \<mapsto> slug)) = Some f \<and>
      inj_on f (insert ?n A \<union> CSv_Name ` set svcs) \<and> None \<notin> f ` (insert ?n A \<union> CSv_Name ` set svcs)"
  proof (rule Cons.IH)
    show "inj_on (slugOf(?n \<mapsto> slug)) (insert ?n A)"
    proof (rule inj_onI)
      fix x y assume xy: "x \<in> insert ?n A" "y \<in> insert ?n A" "(slugOf(?n \<mapsto> slug)) x = (slugOf(?n \<mapsto> slug)) y"
      show "x = y"
      proof (cases "x = ?n \<or> y = ?n")
        case True
        with xy ni show ?thesis by (metis fun_upd_apply imageI insertE)
      next
        case False
        with xy inj_onD [OF Cons.prems(2)] show ?thesis by simp
      qed
    qed
    show "the ` (slugOf(?n \<mapsto> slug)) ` insert ?n A \<subseteq> set (slug # used)"
      using Cons.prems(3) eq by auto
    show "None \<notin> (slugOf(?n \<mapsto> slug)) ` insert ?n A" using Cons.prems(4) eq by auto
  qed (use Cons.prems in auto)
  then show ?case using s by simp
qed auto

lemma slugs_distinct:
  assumes "distinct (map CSv_Name svcs)"
  obtains f where "assign_slugs svcs [] Map.empty = Some f"
    "\<And>a b. a \<in> set svcs \<Longrightarrow> b \<in> set svcs \<Longrightarrow> the (f (CSv_Name a)) = the (f (CSv_Name b)) \<longleftrightarrow> CSv_Name a = CSv_Name b"
proof -
  obtain f where f: "assign_slugs svcs [] Map.empty = Some f" "inj_on f (CSv_Name ` set svcs)" "None \<notin> f ` CSv_Name ` set svcs"
    using assign_slugs_spec [OF assms, of Map.empty "{}" "[]"] by auto
  have "the (f (CSv_Name a)) = the (f (CSv_Name b)) \<longleftrightarrow> CSv_Name a = CSv_Name b" if "a \<in> set svcs" "b \<in> set svcs" for a b
  proof
    assume e: "the (f (CSv_Name a)) = the (f (CSv_Name b))"
    have "f (CSv_Name a) \<noteq> None" "f (CSv_Name b) \<noteq> None" using f(3) that by force+
    then have "f (CSv_Name a) = f (CSv_Name b)" using e by (metis option.expand)
    then show "CSv_Name a = CSv_Name b" using inj_onD [OF f(2), of "CSv_Name a" "CSv_Name b"] that by blast
  qed simp
  with f(1) show thesis by (rule that)
qed

subsection \<open>The order of a Compose deployment\<close>

lemma svc_loop_parts:
  assumes "svc_loop en f svcs = Inr (ss, ps)" "svc \<in> set svcs"
  obtains st pr where "svc_synth en f svc = Inr (st, pr)" "set st \<subseteq> set ss" "set pr \<subseteq> set ps"
  using assms
proof (induction svcs arbitrary: ss ps thesis)
  case (Cons s svcs)
  obtain st pr ss' ps' where e: "svc_synth en f s = Inr (st, pr)" "svc_loop en f svcs = Inr (ss', ps')" "ss = st @ ss'" "ps = pr @ ps'"
    using Cons.prems(2) by (auto split: sum.splits)
  show thesis
  proof (cases "svc = s")
    case True
    with e Cons.prems(1) [of st pr] show thesis by auto
  next
    case False
    then have "svc \<in> set svcs" using Cons.prems(3) by simp
    from Cons.IH [OF _ e(2) this] obtain st' pr' where "svc_synth en f svc = Inr (st', pr')" "set st' \<subseteq> set ss'" "set pr' \<subseteq> set ps'"
      by blast
    with e Cons.prems(1) [of st' pr'] show thesis by auto
  qed
qed simp

lemma svc_synth_stages:
  assumes "svc_synth en f svc = Inr (st, pr)" "\<not> CSv_External svc"
  shows "''deploy-'' @ the (f (CSv_Name svc)) \<in> Stage_ID ` set st"
    "CSv_Build svc \<noteq> None \<Longrightarrow>
       (''build-'' @ the (f (CSv_Name svc)), ''push-'' @ the (f (CSv_Name svc))) \<in> set pr \<and>
       (''push-'' @ the (f (CSv_Name svc)), ''deploy-'' @ the (f (CSv_Name svc))) \<in> set pr"
  using assms by (auto simp: svc_synth_def plain_stage_def Let_def split: option.splits sum.splits)

lemma number_edges_pair:
  assumes "(a, b) \<in> set pairs"
  shows "\<exists>e \<in> set (number_edges pairs). Edge_Source e = a \<and> Edge_Target e = b"
proof -
  obtain n where n: "n < length pairs" "pairs ! n = (a, b)" using assms by (auto simp: in_set_conv_nth)
  then have "(Suc n, a, b) \<in> set (zip [1..<Suc (length pairs)] pairs)"
    unfolding in_set_zip by (intro exI [of _ n]) (simp add: nth_upt del: upt_Suc)
  then have "plain_edge (''e'' @ show_decimal (Suc n)) a b \<in> set (number_edges pairs)"
    unfolding number_edges_def set_map by (rule rev_image_eqI) simp
  then show ?thesis by (rule rev_bexI) (simp add: plain_edge_def)
qed

lemma deploy_ids_Some:
  assumes "distinct (map CSv_Name svcs)" "svc \<in> set svcs" "\<not> CSv_External svc"
  shows "deploy_ids f svcs (CSv_Name svc) = Some (''deploy-'' @ the (f (CSv_Name svc)))"
proof -
  let ?l = "map (\<lambda>svc. (CSv_Name svc, ''deploy-'' @ the (f (CSv_Name svc)))) (filter (\<lambda>s. \<not> CSv_External s) svcs)"
  have "distinct (map fst (rev ?l))"
    using assms(1) by (auto simp: rev_map [symmetric] comp_def distinct_map inj_on_def)
  moreover have "(CSv_Name svc, ''deploy-'' @ the (f (CSv_Name svc))) \<in> set (rev ?l)" using assms by auto
  ultimately show ?thesis unfolding deploy_ids_def by (rule map_of_is_SomeI)
qed

lemma dep_pairs_in:
  assumes "distinct (map CSv_Name svcs)" "svc \<in> set svcs" "\<not> CSv_External svc"
    and "dep \<in> set svcs" "\<not> CSv_External dep" "CSv_Name dep \<in> set (CSv_DependsOn svc)"
  shows "(''deploy-'' @ the (f (CSv_Name dep)), ''deploy-'' @ the (f (CSv_Name svc))) \<in> set (dep_pairs (deploy_ids f svcs) svcs)"
  unfolding dep_pairs_def
  using assms deploy_ids_Some [OF assms(1-3), of f] deploy_ids_Some [OF assms(1,4,5), of f]
  by (auto intro!: bexI [of _ svc] bexI [of _ "CSv_Name dep"])

lemma synth_parts:
  assumes "synthesizePipelineFromCompose (\<lambda>p. BuildDAGFromPipeline bo eo (k0 p) (k1 p) (k2 p) p) en svcs pid runID uuid
      = Some (Inr (p, run))"
  obtains ss ps where "svc_loop en (the (assign_slugs svcs [] Map.empty)) svcs = Inr (ss, ps)"
    "p = \<lparr>Pipeline_ID = pid, Pipeline_Stages = ss,
         Pipeline_Edges = number_edges (ps @ dep_pairs (deploy_ids (the (assign_slugs svcs [] Map.empty)) svcs) svcs),
         Pipeline_RunDeadline = []\<rparr>"
    "ValidatePipelineDAG bo eo (k0 p) (k1 p) (k2 p) p = Some []"
    "run = synth_run (if runID = [] then uuid else runID) pid ss"
  using assms that
  by (auto simp: synthesizePipelineFromCompose_def compose_pipeline_def BuildDAGFromPipeline_def Let_def
      split: sum.splits option.splits if_splits)

lemma service_order:
  assumes slug: "\<And>svc. slug svc = the (f (CSv_Name svc))"
    and names: "distinct (map CSv_Name svcs)" and loop: "svc_loop en f svcs = Inr (ss, ps)"
    and before: "\<And>a b k. (a, b) \<in> set (ps @ dep_pairs (deploy_ids f svcs) svcs) \<Longrightarrow> k < length levels \<Longrightarrow> b \<in> set (levels ! k) \<Longrightarrow>
        \<exists>j < k. a \<in> set (levels ! j)"
    and levels: "set (concat levels) = Stage_ID ` set ss" and svc: "svc \<in> set svcs" "\<not> CSv_External svc"
  shows "\<exists>k < length levels. ''deploy-'' @ slug svc \<in> set (levels ! k) \<and>
        (CSv_Build svc \<noteq> None \<longrightarrow> (\<exists>j < k. \<exists>i < j. ''build-'' @ slug svc \<in> set (levels ! i) \<and> ''push-'' @ slug svc \<in> set (levels ! j))) \<and>
        (\<forall>dep \<in> set svcs. \<not> CSv_External dep \<and> CSv_Name dep \<in> set (CSv_DependsOn svc) \<longrightarrow>
           (\<exists>j < k. ''deploy-'' @ slug dep \<in> set (levels ! j)))"
proof -
  obtain st pr where sp: "svc_synth en f svc = Inr (st, pr)" "set st \<subseteq> set ss" "set pr \<subseteq> set ps"
    by (rule svc_loop_parts [OF loop svc(1)])
  have "''deploy-'' @ slug svc \<in> set (concat levels)"
    unfolding levels slug using svc_synth_stages(1) [OF sp(1) svc(2)] sp(2) by blast
  then obtain k where k: "k < length levels" "''deploy-'' @ slug svc \<in> set (levels ! k)"
    by (auto simp: in_set_conv_nth [of _ levels])
  have "\<exists>j < k. \<exists>i < j. ''build-'' @ slug svc \<in> set (levels ! i) \<and> ''push-'' @ slug svc \<in> set (levels ! j)"
    if "CSv_Build svc \<noteq> None"
  proof -
    note pr = svc_synth_stages(2) [OF sp(1) svc(2) that, folded slug]
    obtain j where j: "j < k" "''push-'' @ slug svc \<in> set (levels ! j)"
      using before [OF _ k] pr sp(3) by auto
    then obtain i where "i < j" "''build-'' @ slug svc \<in> set (levels ! i)"
      using before [of "''build-'' @ slug svc" "''push-'' @ slug svc" j] pr sp(3) k(1) by auto
    with j show ?thesis by blast
  qed
  moreover have "\<exists>j < k. ''deploy-'' @ slug dep \<in> set (levels ! j)"
    if "dep \<in> set svcs" "\<not> CSv_External dep \<and> CSv_Name dep \<in> set (CSv_DependsOn svc)" for dep
    using before [OF _ k, of "''deploy-'' @ slug dep"] dep_pairs_in [OF names svc that(1), of f] that(2) by (auto simp: slug)
  ultimately show ?thesis using k by blast
qed

text \<open>
  C34: the deployment of a Compose file has the right order.  When the synthesis succeeds, its graph
  is valid and sorts into levels that hold every stage once; stages of different services never share
  an id, whatever their names are cleaned to; a service that is built is built, pushed and deployed in
  this order, and it is deployed after each service it depends on that is not external.
\<close>

theorem compose_deploy_order:
  assumes "\<And>p. dag_orders (pipeline_dag p) (k0 p) (k1 p) (k2 p)" and names: "distinct (map CSv_Name svcs)"
    and synth: "synthesizePipelineFromCompose (\<lambda>p. BuildDAGFromPipeline bo eo (k0 p) (k1 p) (k2 p) p) en svcs pid runID uuid
      = Some (Inr (p, run))"
  shows "\<exists>levels slug. TopologicalSort (k1 p) (k2 p) (pipeline_dag p) = Some (Inr levels) \<and>
    distinct (concat levels) \<and> set (concat levels) = Stage_ID ` set (Pipeline_Stages p) \<and>
    (\<forall>a \<in> set svcs. \<forall>b \<in> set svcs. slug a = slug b \<longleftrightarrow> CSv_Name a = CSv_Name b) \<and>
    (\<forall>svc \<in> set svcs. \<not> CSv_External svc \<longrightarrow>
      (\<exists>k < length levels. ''deploy-'' @ slug svc \<in> set (levels ! k) \<and>
        (CSv_Build svc \<noteq> None \<longrightarrow> (\<exists>j < k. \<exists>i < j. ''build-'' @ slug svc \<in> set (levels ! i) \<and> ''push-'' @ slug svc \<in> set (levels ! j))) \<and>
        (\<forall>dep \<in> set svcs. \<not> CSv_External dep \<and> CSv_Name dep \<in> set (CSv_DependsOn svc) \<longrightarrow>
           (\<exists>j < k. ''deploy-'' @ slug dep \<in> set (levels ! j)))))"
proof -
  obtain f where f: "assign_slugs svcs [] Map.empty = Some f"
    "\<And>a b. a \<in> set svcs \<Longrightarrow> b \<in> set svcs \<Longrightarrow> the (f (CSv_Name a)) = the (f (CSv_Name b)) \<longleftrightarrow> CSv_Name a = CSv_Name b"
    by (rule slugs_distinct [OF names]) blast
  let ?slug = "\<lambda>svc. the (f (CSv_Name svc))"
  obtain ss ps where p: "svc_loop en f svcs = Inr (ss, ps)" "Pipeline_Stages p = ss"
      "Pipeline_Edges p = number_edges (ps @ dep_pairs (deploy_ids f svcs) svcs)"
    and valid: "ValidatePipelineDAG bo eo (k0 p) (k1 p) (k2 p) p = Some []"
    by (rule synth_parts [OF synth]) (simp add: f(1))
  obtain levels where l: "TopologicalSort (k1 p) (k2 p) (pipeline_dag p) = Some (Inr levels)" "distinct (concat levels)"
      "set (concat levels) = Stage_ID ` set (Pipeline_Stages p)"
      "\<And>k e. k < length levels \<Longrightarrow> e \<in> set (Pipeline_Edges p) \<Longrightarrow> Edge_Target e \<in> set (levels ! k) \<Longrightarrow>
         \<exists>j < k. Edge_Source e \<in> set (levels ! j)"
    using valid_pipeline_levels [OF assms(1) valid] by blast
  have before: "\<exists>j < k. a \<in> set (levels ! j)"
    if "(a, b) \<in> set (ps @ dep_pairs (deploy_ids f svcs) svcs)" "k < length levels" "b \<in> set (levels ! k)" for a b k
    using number_edges_pair [OF that(1)] l(4) [OF that(2)] that(3) unfolding p(3) by blast
  have "\<exists>k < length levels. ''deploy-'' @ ?slug svc \<in> set (levels ! k) \<and>
        (CSv_Build svc \<noteq> None \<longrightarrow> (\<exists>j < k. \<exists>i < j. ''build-'' @ ?slug svc \<in> set (levels ! i) \<and> ''push-'' @ ?slug svc \<in> set (levels ! j))) \<and>
        (\<forall>dep \<in> set svcs. \<not> CSv_External dep \<and> CSv_Name dep \<in> set (CSv_DependsOn svc) \<longrightarrow>
           (\<exists>j < k. ''deploy-'' @ ?slug dep \<in> set (levels ! j)))"
    if svc: "svc \<in> set svcs" "\<not> CSv_External svc" for svc
    by (rule service_order [OF refl names p(1) before l(3) [unfolded p(2)] svc])
  then show ?thesis using l f(2) by (intro exI [of _ levels] exI [of _ ?slug]) blast
qed

subsection \<open>Build contexts\<close>

lemma Clean_nonempty: "Clean p \<noteq> []"
  by (simp add: Clean_def Let_def)

lemma Join_nonempty: "Join [Clean a, b] \<noteq> []"
  using Clean_nonempty [of a] Clean_nonempty by (simp add: Join_def)

lemma svc_synth_build:
  assumes "svc_synth en f svc = Inr (st, pr)" "s \<in> set st" "Stage_Type s = ''build''"
  obtains b ctx df where "CSv_Build svc = Some b" "build_paths (CSv_Name svc) b = Inr (ctx, df)"
    "sc_Context (Stage_Config s) = Join [sn_workdir en, ctx]" "sc_Dockerfile (Stage_Config s) = df"
    "sc_ComposeBuildContext (Stage_Config s) = ctx"
  using assms by (auto simp: svc_synth_def plain_stage_def Let_def split: option.splits sum.splits if_splits)

lemma svc_loop_stage:
  assumes "svc_loop en f svcs = Inr (ss, ps)" "s \<in> set ss"
  shows "\<exists>svc \<in> set svcs. \<exists>st pr. svc_synth en f svc = Inr (st, pr) \<and> s \<in> set st"
  using assms by (induction svcs arbitrary: ss ps) (fastforce split: sum.splits)+

text \<open>
  C35: a Compose file cannot make a build read outside the checkout by its paths.  In a pipeline the
  synthesis accepts, the context of every build stage is the checkout or lies below it, and the
  Dockerfile is relative and, taken from that context, lies there too.
\<close>

theorem build_context_inside:
  assumes "synthesizePipelineFromCompose (\<lambda>p. BuildDAGFromPipeline bo eo (k0 p) (k1 p) (k2 p) p) en svcs pid runID uuid
      = Some (Inr (p, run))"
    and "IsAbs (sn_workdir en)" "s \<in> set (Pipeline_Stages p)" "Stage_Type s = ''build''"
  shows "\<exists>below. sc_Context (Stage_Config s) = CHR ''/'' # join_slash (path_elems (sn_workdir en) @ below) \<and>
      (\<forall>c \<in> set below. plain c) \<and> \<not> IsAbs (sc_Dockerfile (Stage_Config s)) \<and>
      (\<exists>file. Join [sn_workdir en, Join [sc_ComposeBuildContext (Stage_Config s), sc_Dockerfile (Stage_Config s)]]
          = CHR ''/'' # join_slash (path_elems (sn_workdir en) @ file) \<and> (\<forall>c \<in> set file. plain c))"
proof -
  obtain f ss ps where l: "svc_loop en f svcs = Inr (ss, ps)" "Pipeline_Stages p = ss"
    by (rule synth_parts [OF assms(1)]) simp
  have "s \<in> set ss" using assms(3) l(2) by simp
  from svc_loop_stage [OF l(1) this] obtain svc st pr where sp: "svc_synth en f svc = Inr (st, pr)" "s \<in> set st"
    by blast
  obtain b ctx df where b: "build_paths (CSv_Name svc) b = Inr (ctx, df)" "sc_Context (Stage_Config s) = Join [sn_workdir en, ctx]"
      "sc_Dockerfile (Stage_Config s) = df" "sc_ComposeBuildContext (Stage_Config s) = ctx"
    by (rule svc_synth_build [OF sp assms(4)])
  have ok: "safeRelativePath ctx" "safeRelativePath (Join [ctx, df])" "\<not> IsAbs df" "\<exists>c. ctx = Clean c"
    using b(1) by (auto simp: build_paths_def Let_def split: if_splits)
  then have ne: "ctx \<noteq> []" "Join [ctx, df] \<noteq> []" using Clean_nonempty Join_nonempty by auto
  show ?thesis
    using safe_path_inside [OF assms(2) ok(1) ne(1)] safe_path_inside [OF assms(2) ok(2) ne(2)] ok(3) b by auto
qed

subsection \<open>The saved graph\<close>

text \<open>The copy through JSON is the pipeline itself.\<close>

definition mask_values :: "(string \<rightharpoonup> string) \<Rightarrow> string \<rightharpoonup> string" where
  "mask_values m = (\<lambda>k. map_option (\<lambda>_. ''[configured]'') (m k))"

definition view_stage :: "Stage \<Rightarrow> Stage" where
  "view_stage s = s\<lparr>Stage_Config := (Stage_Config s)\<lparr>sc_ReviewOnly := True,
     sc_Env := mask_values (sc_Env (Stage_Config s)), sc_BuildArgs := mask_values (sc_BuildArgs (Stage_Config s)),
     sc_ManifestPath := (if sc_ManifestPath (Stage_Config s) \<noteq> [] then ''[resolved during app deployment]''
                         else sc_ManifestPath (Stage_Config s)),
     sc_Command := [],
     sc_HealthCheck := map_option (\<lambda>h. h\<lparr>HC_Command := [''[configured]'']\<rparr>) (sc_HealthCheck (Stage_Config s))\<rparr>\<rparr>"

definition DeploymentViewPipeline :: "Pipeline \<Rightarrow> Pipeline" where
  "DeploymentViewPipeline p = p\<lparr>Pipeline_Stages := map view_stage (Pipeline_Stages p)\<rparr>"

lemma mask_dom:
  assumes "dom m = dom m'"
  shows "mask_values m = mask_values m'"
proof
  fix k
  have "m k = None \<longleftrightarrow> m' k = None" using assms by (metis domIff)
  then show "mask_values m k = mask_values m' k" by (cases "m k"; cases "m' k") (simp_all add: mask_values_def)
qed

lemma mask_merge: "dom a = dom a' \<Longrightarrow> mask_values (mergeEnv a b) = mask_values (mergeEnv a' b)"
  by (rule mask_dom) (auto simp: mergeEnv_def)

lemma workload_nonempty: "workload_yaml name img port resources envBlock \<noteq> []"
  by (simp add: workload_yaml_def lines_of_def)

abbreviation with_env :: "synth_env \<Rightarrow> (string \<rightharpoonup> string) \<Rightarrow> synth_env" where
  "with_env en env \<equiv> en\<lparr>sn_opts := (sn_opts en)\<lparr>so_appEnv := env\<rparr>\<rparr>"

lemma with_env_simps:
  "compose_runtime (sn_app (with_env en env)) (sn_opts (with_env en env)) = compose_runtime (sn_app en) (sn_opts en)"
  "service_image (with_env en env) = service_image en"
  by (simp_all add: compose_runtime_def service_image_def fun_eq_iff)

lemma deploy_config_view:
  assumes "dom env = dom (so_appEnv (sn_opts en))"
  shows "view_stage (plain_stage i n t g (deploy_config (with_env en env) svc img)) = view_stage (plain_stage i n t g (deploy_config en svc img))"
proof -
  have e: "mask_values (mergeEnv env (CSv_Environment svc)) = mask_values (mergeEnv (so_appEnv (sn_opts en)) (CSv_Environment svc))"
    by (rule mask_merge [OF assms])
  have m: "composeServiceManifest y l q v im en' ph ic \<noteq> []" for y l q v im en' ph ic
    by (simp add: composeServiceManifest_def Let_def workload_nonempty)
  show ?thesis
    unfolding deploy_config_def Let_def with_env_simps by (simp add: view_stage_def plain_stage_def e m)
qed

lemma plain_stage_ID: "Stage_ID (plain_stage i n t g c) = i"
  by (simp add: plain_stage_def)

lemma svc_synth_view:
  assumes "dom env = dom (so_appEnv (sn_opts en))" "svc_synth en f svc = Inr (st, pr)"
  shows "\<exists>st'. svc_synth (with_env en env) f svc = Inr (st', pr) \<and> map view_stage st' = map view_stage st \<and>
    map Stage_ID st' = map Stage_ID st"
  using assms(2)
  by (auto simp: svc_synth_def Let_def with_env_simps deploy_config_view [OF assms(1)] plain_stage_ID
      split: if_splits option.splits sum.splits)

lemma svc_loop_view:
  assumes "dom env = dom (so_appEnv (sn_opts en))"
  shows "svc_loop en f svcs = Inr (ss, ps) \<Longrightarrow>
    \<exists>ss'. svc_loop (with_env en env) f svcs = Inr (ss', ps) \<and> map view_stage ss' = map view_stage ss \<and>
      map Stage_ID ss' = map Stage_ID ss"
proof (induction svcs arbitrary: ss ps)
  case (Cons svc svcs)
  obtain st pr ss1 ps1 where e: "svc_synth en f svc = Inr (st, pr)" "svc_loop en f svcs = Inr (ss1, ps1)" "ss = st @ ss1" "ps = pr @ ps1"
    using Cons.prems by (auto split: sum.splits)
  obtain st' where "svc_synth (with_env en env) f svc = Inr (st', pr)" "map view_stage st' = map view_stage st" "map Stage_ID st' = map Stage_ID st"
    using svc_synth_view [OF assms e(1)] by blast
  moreover obtain ss1' where "svc_loop (with_env en env) f svcs = Inr (ss1', ps1)" "map view_stage ss1' = map view_stage ss1"
      "map Stage_ID ss1' = map Stage_ID ss1"
    using Cons.IH [OF e(2)] by blast
  ultimately show ?case using e(3,4) by simp
qed simp


subsection \<open>Examples\<close>

definition id_order :: "Pipeline \<Rightarrow> string list" where
  "id_order p = remdups (map Stage_ID (Pipeline_Stages p))"

lemma id_orders: "dag_orders (pipeline_dag p) (id_order p) (id_order p) (id_order p)"
  by (simp add: dag_orders_def iter_order_def id_order_def pipeline_dag_dom)

definition demo_web :: ComposeService where
  "demo_web = \<lparr>CSv_Name = ''web'', CSv_Image = [], CSv_Build = Some \<lparr>CB_Target = [], CB_Context = ''app'', CB_Dockerfile = [],
     CB_Args = Map.empty\<rparr>, CSv_Ports = [], CSv_Environment = Map.empty, CSv_DependsOn = [''db''], CSv_CommandArgs = [],
     CSv_HealthCheck = None, CSv_Group = [], CSv_Resources = None, CSv_External = False\<rparr>"

definition demo_db :: ComposeService where
  "demo_db = \<lparr>CSv_Name = ''db'', CSv_Image = ''postgres'', CSv_Build = None, CSv_Ports = [], CSv_Environment = Map.empty,
     CSv_DependsOn = [], CSv_CommandArgs = [], CSv_HealthCheck = None, CSv_Group = [], CSv_Resources = None, CSv_External = False\<rparr>"

definition demo_shop :: App where
  "demo_shop = \<lparr>App_ID = ''a1'', App_Name = ''shop'', App_GitHubRepo = ''acme/shop'', App_Branch = ''main'', App_BuildPlan = None,
     App_DeployTarget = \<lparr>DT_Kind = ''docker-host'', DT_HostID = [], DT_Namespace = [], DT_Region = [], DT_Service = [], DT_Prefix = [],
       DT_ExternalServices = []\<rparr>, App_RegistryRef = [], App_EnvironmentID = [], App_WebhookSecret = [], App_HasWebhook = False,
     App_AutoDeploy = False, App_Canary = \<lparr>CC_Strategy = [], CC_Weight = 0, CC_AutoPromote = False, CC_HealthWindowSeconds = 0\<rparr>,
     App_CreatedAt = 0, App_UpdatedAt = 0, App_Version = 1, App_DeployedURL = []\<rparr>"

definition demo_synth :: "string \<Rightarrow> synth_env" where
  "demo_synth secret = \<lparr>sn_yaml = (\<lambda>_. [], \<lambda>_. []), sn_ToLower = id, sn_quote = id, sn_app = demo_shop, sn_workdir = ''/tmp/w'', sn_registry = ''r'', sn_ts = 7,
     sn_cache = None, sn_opts = \<lparr>so_appEnv = [''KEY'' \<mapsto> secret], so_proxy = \<lparr>PxC_Domain = [], PxC_Scheme = [], PxC_IngressClass = [],
       PxC_Network = []\<rparr>, so_composeFile = ''f''\<rparr>\<rparr>"

abbreviation demo_dag :: "Pipeline \<Rightarrow> (pipe_err list + DAG) option" where
  "demo_dag p \<equiv> BuildDAGFromPipeline (\<lambda>_. []) (\<lambda>_. [''KEY'']) (id_order p) (id_order p) (id_order p) p"

definition demo_compose :: "string \<Rightarrow> Pipeline" where
  "demo_compose secret = (case compose_pipeline (demo_synth secret) [demo_db, demo_web] ''p'' of Inr p \<Rightarrow> p)"

lemma demo_compose_valid:
  "ValidatePipelineDAG (\<lambda>_. []) (\<lambda>_. [''KEY'']) (id_order (demo_compose ''x'')) (id_order (demo_compose ''x''))
     (id_order (demo_compose ''x'')) (demo_compose ''x'') = Some []"
  "ValidatePipelineDAG (\<lambda>_. []) (\<lambda>_. [''KEY'']) (id_order (demo_compose ''y'')) (id_order (demo_compose ''y''))
     (id_order (demo_compose ''y'')) (demo_compose ''y'') = Some []"
  by code_simp+

lemma demo_compose_Inr: "compose_pipeline (demo_synth k) [demo_db, demo_web] ''p'' = Inr (demo_compose k)"
proof -
  have "\<not> isl (compose_pipeline (demo_synth k) [demo_db, demo_web] ''p'')" by code_simp
  then show ?thesis unfolding demo_compose_def by (cases "compose_pipeline (demo_synth k) [demo_db, demo_web] ''p''") simp_all
qed

lemma demo_synth_ok:
  assumes "k = ''x'' \<or> k = ''y''"
  shows "synthesizePipelineFromCompose demo_dag (demo_synth k) [demo_db, demo_web] ''p'' [] ''u''
     = Some (Inr (demo_compose k, synth_run ''u'' ''p'' (Pipeline_Stages (demo_compose k))))"
  using assms demo_compose_valid
  by (elim disjE) (simp_all add: synthesizePipelineFromCompose_def demo_compose_Inr BuildDAGFromPipeline_def)

lemma compose_deploy_order_witness:
  "\<exists>levels slug. TopologicalSort (id_order (demo_compose ''x'')) (id_order (demo_compose ''x'')) (pipeline_dag (demo_compose ''x''))
       = Some (Inr levels) \<and>
     (\<exists>k < length levels. ''deploy-'' @ slug demo_web \<in> set (levels ! k) \<and> (\<exists>j < k. ''deploy-'' @ slug demo_db \<in> set (levels ! j)))"
proof -
  have d: "distinct (map CSv_Name [demo_db, demo_web])" by (simp add: demo_db_def demo_web_def)
  have e: "\<not> CSv_External demo_web" "\<not> CSv_External demo_db" "CSv_Name demo_db \<in> set (CSv_DependsOn demo_web)"
    by (simp_all add: demo_db_def demo_web_def)
  from compose_deploy_order [where ?k0.0 = id_order and ?k1.0 = id_order and ?k2.0 = id_order, OF id_orders d demo_synth_ok [of "''x''"]]
  obtain levels slug where l: "TopologicalSort (id_order (demo_compose ''x'')) (id_order (demo_compose ''x'')) (pipeline_dag (demo_compose ''x''))
       = Some (Inr levels)"
    and svc: "\<forall>svc \<in> set [demo_db, demo_web]. \<not> CSv_External svc \<longrightarrow>
      (\<exists>k < length levels. ''deploy-'' @ slug svc \<in> set (levels ! k) \<and>
        (CSv_Build svc \<noteq> None \<longrightarrow> (\<exists>j < k. \<exists>i < j. ''build-'' @ slug svc \<in> set (levels ! i) \<and> ''push-'' @ slug svc \<in> set (levels ! j))) \<and>
        (\<forall>dep \<in> set [demo_db, demo_web]. \<not> CSv_External dep \<and> CSv_Name dep \<in> set (CSv_DependsOn svc) \<longrightarrow>
           (\<exists>j < k. ''deploy-'' @ slug dep \<in> set (levels ! j))))"
    by blast
  have "demo_web \<in> set [demo_db, demo_web]" "demo_db \<in> set [demo_db, demo_web]" by simp_all
  with svc e l show ?thesis by blast
qed

lemma demo_build_stage:
  "\<exists>s \<in> set (Pipeline_Stages (demo_compose ''x'')). Stage_Type s = ''build'' \<and> sc_Context (Stage_Config s) = ''/tmp/w/app''"
  by code_simp

lemma build_context_inside_witness:
  "\<exists>s \<in> set (Pipeline_Stages (demo_compose ''x'')). sc_Context (Stage_Config s) = ''/tmp/w/app'' \<and>
     (\<exists>below. sc_Context (Stage_Config s) = CHR ''/'' # join_slash (path_elems ''/tmp/w'' @ below) \<and> (\<forall>c \<in> set below. plain c))"
proof -
  obtain s where s: "s \<in> set (Pipeline_Stages (demo_compose ''x''))" "Stage_Type s = ''build''" "sc_Context (Stage_Config s) = ''/tmp/w/app''"
    using demo_build_stage by blast
  have w: "sn_workdir (demo_synth ''x'') = ''/tmp/w''" by (simp add: demo_synth_def)
  have "IsAbs (sn_workdir (demo_synth ''x''))" by (simp add: demo_synth_def IsAbs_def)
  from build_context_inside [where ?k0.0 = id_order and ?k1.0 = id_order and ?k2.0 = id_order, OF demo_synth_ok [of "''x''"] this s(1,2)] s(1,3)
  show ?thesis unfolding w by blast
qed


end
