(* ===== verification/AppChecks.thy ===== *)
theory AppChecks
  imports AppSynth Environments Validate
begin

text \<open>
  What is checked before an app is deployed (\<open>ValidateAppDeployment\<close> and \<open>CheckAppTarget\<close> of
  \<open>backend/internal/service/app_targets.go\<close>, \<open>ValidCommit\<close> of \<open>source/github/clone.go\<close>), and the
  environment that is put into its workloads (\<open>Resolve\<close> of \<open>service/envresolve.go\<close>).  The parser of image
  references and the registered cloud adapters are parameters; \<open>keys\<close> gives the order in which a
  loop visits a map.
\<close>

subsection \<open>The environment of an app\<close>

text \<open>A store gives an environment or an error; a secrets manager lists the keys and gives the values.\<close>

type_synonym env_store = "string \<Rightarrow> Environment option"
type_synonym secrets_manager = "(string \<Rightarrow> string list option) \<times> (string \<Rightarrow> string \<Rightarrow> string option)"

datatype resolve_err = NoEnvironmentRow | NoSecretList | NoSecret string

fun fetch_secrets :: "(string \<Rightarrow> string option) \<Rightarrow> string list \<Rightarrow> (string \<rightharpoonup> string) \<Rightarrow> resolve_err + (string \<rightharpoonup> string)" where
  "fetch_secrets get [] out = Inr out"
| "fetch_secrets get (k # ks) out =
     (case get k of None \<Rightarrow> Inl (NoSecret k) | Some v \<Rightarrow> fetch_secrets get ks (out(k \<mapsto> v)))"

definition Resolve :: "env_store option \<Rightarrow> secrets_manager option \<Rightarrow> App \<Rightarrow> resolve_err + (string \<rightharpoonup> string)" where
  "Resolve envs secrets app =
     (case envs of
        None \<Rightarrow> Inr Map.empty
      | Some get \<Rightarrow>
          if App_EnvironmentID app = [] then Inr Map.empty
          else (case get (App_EnvironmentID app) of
              None \<Rightarrow> Inl NoEnvironmentRow
            | Some env \<Rightarrow>
                (let env = NormalisePlainVars env; out = the (Env_PlainVars env) in
                 case secrets of
                   None \<Rightarrow> Inr out
                 | Some (list, value) \<Rightarrow>
                     (case list (Env_ID env) of
                        None \<Rightarrow> Inl NoSecretList
                      | Some ks \<Rightarrow> fetch_secrets (value (Env_ID env)) (sort ks) out))))"

subsection \<open>The checks of a configuration\<close>

definition label_char :: "char \<Rightarrow> bool" where
  "label_char c \<longleftrightarrow> is_lower c \<or> is_digit c \<or> c = CHR ''-''"

text \<open>Both name patterns: a letter or digit, then at most \<open>n\<close> label characters and a letter or digit.\<close>

definition label_re :: "nat \<Rightarrow> rx" where
  "label_re n = RSeq (RCls (\<lambda>c. is_lower c \<or> is_digit c))
     (ROpt (RSeq (RUpTo n (RCls label_char)) (RCls (\<lambda>c. is_lower c \<or> is_digit c))))"

definition prefixPattern :: rx where "prefixPattern = label_re 38"

definition namespacePattern :: rx where "namespacePattern = label_re 61"

definition variablePattern :: rx where
  "variablePattern = RSeq (RCls (\<lambda>c. is_upper c \<or> is_lower c \<or> c = CHR ''_''))
     (RStar (RCls (\<lambda>c. is_alnum c \<or> c = CHR ''_'')))"

text \<open>The pattern of forty hexadecimal digits, as its length and its class.\<close>

definition ValidCommit :: "string \<Rightarrow> bool" where
  "ValidCommit s \<longleftrightarrow> length s = 40 \<and> list_all (\<lambda>c. is_digit c \<or> c \<in> set ''abcdef'') s"

datatype app_err =
    BadRegistry
  | BadNamespace
  | NeedsComposePlan
  | NamespaceNotKubernetes
  | RegionOrService
  | BadPrefix
  | BadCloudRunPrefix
  | UnknownPlan
  | BadCommit
  | BadInstallation
  | TooManyInputs
  | PathOutside
  | BadVariable string
  | CommitAutoDeploy
  | BindingNotUnique
  | BindingProvider
  | BindingResource
  | BindingEmpty string
  | BindingValues
  | BindingNoEnvironment
  | HostNotWired
  | TargetUnsupported string
  | AdapterRefuses string

definition check_plan :: "((string \<rightharpoonup> string) \<Rightarrow> string list) \<Rightarrow> bool \<Rightarrow> BuildPlan \<Rightarrow> app_err option" where
  "check_plan keys autoDeploy p =
     (if BP_Kind p \<notin> {''compose'', ''dockerfile'', ''buildpack''} then Some UnknownPlan
      else if BP_Commit p \<noteq> [] \<and> \<not> ValidCommit (BP_Commit p) then Some BadCommit
      else if BP_InstallationID p < 0 then Some BadInstallation
      else if length (BP_Files p) > 8 \<or> length (BP_Profiles p) > 32 \<or> length (keys (BP_Variables p)) > 128
      then Some TooManyInputs
      else if list_ex (\<lambda>path. path \<noteq> [] \<and> \<not> safeRelativePath path) (BP_Files p @ [BP_Path p]) then Some PathOutside
      else (case find (\<lambda>k. \<not> MatchString variablePattern k \<or> length (the (BP_Variables p k)) > 8192) (keys (BP_Variables p)) of
          Some k \<Rightarrow> Some (BadVariable k)
        | None \<Rightarrow> if BP_Commit p \<noteq> [] \<and> autoDeploy then Some CommitAutoDeploy else None))"

fun check_bindings :: "((string \<rightharpoonup> string) \<Rightarrow> string list) \<Rightarrow> string \<Rightarrow> string list \<Rightarrow> ExternalServiceBinding list \<Rightarrow>
    app_err option" where
  "check_bindings keys envID seen [] = None"
| "check_bindings keys envID seen (b # bs) =
     (if XB_Service b = [] \<or> XB_Service b \<in> set seen then Some BindingNotUnique
      else if XB_Provider b \<noteq> ''gcp-cloud-sql'' \<and> XB_Provider b \<noteq> ''external'' then Some BindingProvider
      else if TrimSpace (XB_Resource b) = [] \<or> length (XB_Resource b) > 256 then Some BindingResource
      else if XB_Consumers b = [] \<or> keys (XB_Environment b) = [] then Some (BindingEmpty (XB_Service b))
      else if list_ex (\<lambda>k. \<not> MatchString variablePattern k \<or> \<not> MatchString variablePattern (the (XB_Environment b k)))
                (keys (XB_Environment b)) then Some BindingValues
      else if envID = [] then Some BindingNoEnvironment
      else check_bindings keys envID (XB_Service b # seen) bs)"

definition bad_cloud_run_prefix :: "string \<Rightarrow> bool" where
  "bad_cloud_run_prefix p \<longleftrightarrow>
     \<not> MatchString namespacePattern p \<or> length p \<ge> 50 \<or> \<not> is_lower (hd p)"

definition ValidateAppDeployment :: "(string \<Rightarrow> bool) \<Rightarrow> ((string \<rightharpoonup> string) \<Rightarrow> string list) \<Rightarrow> App \<Rightarrow> app_err option" where
  "ValidateAppDeployment parses keys app =
     (let t = App_DeployTarget app in
      if App_RegistryRef app \<noteq> [] \<and> \<not> parses (App_RegistryRef app @ ''/cooker-preview:review'') then Some BadRegistry
      else if DT_Namespace t \<noteq> [] \<and> \<not> MatchString namespacePattern (DT_Namespace t) then Some BadNamespace
      else if (case App_BuildPlan app of None \<Rightarrow> False | Some p \<Rightarrow> BP_Kind p \<noteq> ''compose'') \<and> DT_ExternalServices t \<noteq> []
      then Some NeedsComposePlan
      else if DT_Namespace t \<noteq> [] \<and> DT_Kind t \<noteq> ''kubernetes'' then Some NamespaceNotKubernetes
      else if DT_Region t \<noteq> [] \<or> DT_Service t \<noteq> [] then Some RegionOrService
      else if DT_Prefix t \<noteq> [] \<and> \<not> MatchString prefixPattern (DT_Prefix t) then Some BadPrefix
      else if DT_Kind t = ''cloud-run'' \<and> bad_cloud_run_prefix (AppPrefix app) then Some BadCloudRunPrefix
      else (case (case App_BuildPlan app of None \<Rightarrow> None | Some p \<Rightarrow> check_plan keys (App_AutoDeploy app) p) of
          Some e \<Rightarrow> Some e
        | None \<Rightarrow> check_bindings keys (App_EnvironmentID app) [] (DT_ExternalServices t)))"

text \<open>\<open>adapter\<close> is the answer for a cloud target: the error of its lookup or of its own check.\<close>

definition CheckAppTarget :: "(string \<Rightarrow> string option) \<Rightarrow> App \<Rightarrow> app_err option" where
  "CheckAppTarget adapter app =
     (let kind = App_Kind app in
      if kind = ''docker-host'' then (if DT_HostID (App_DeployTarget app) \<noteq> [] then Some HostNotWired else None)
      else if kind = ''kubernetes'' then None
      else if kind = ''ecs'' \<or> kind = ''cloud-run'' then map_option AdapterRefuses (adapter kind)
      else Some (TargetUnsupported kind))"

record TargetCapability =
  TC_Kind :: string
  TC_Available :: bool
  TC_Reason :: "app_err option"

definition kind_only :: "string \<Rightarrow> App" where
  "kind_only kind = \<lparr>App_ID = [], App_Name = [], App_GitHubRepo = [], App_Branch = [], App_BuildPlan = None,
     App_DeployTarget = \<lparr>DT_Kind = kind, DT_HostID = [], DT_Namespace = [], DT_Region = [], DT_Service = [], DT_Prefix = [],
       DT_ExternalServices = []\<rparr>, App_RegistryRef = [], App_EnvironmentID = [], App_WebhookSecret = [], App_HasWebhook = False,
     App_AutoDeploy = False, App_Canary = \<lparr>CC_Strategy = [], CC_Weight = 0, CC_AutoPromote = False, CC_HealthWindowSeconds = 0\<rparr>,
     App_CreatedAt = 0, App_UpdatedAt = 0, App_Version = 0, App_DeployedURL = []\<rparr>"

definition AppTargetCapabilities :: "(string \<Rightarrow> string option) \<Rightarrow> TargetCapability list" where
  "AppTargetCapabilities adapter =
     map (\<lambda>kind. let err = CheckAppTarget adapter (kind_only kind)
                 in \<lparr>TC_Kind = kind, TC_Available = (err = None), TC_Reason = err\<rparr>)
       [''docker-host'', ''kubernetes'', ''ecs'', ''cloud-run'']"

subsection \<open>What the environment of an app holds\<close>

lemma fetch_secrets_spec:
  "fetch_secrets get ks out =
     (case find (\<lambda>k. get k = None) ks of
        Some k \<Rightarrow> Inl (NoSecret k)
      | None \<Rightarrow> Inr (\<lambda>k. if k \<in> set ks then get k else out k))"
  by (induction ks arbitrary: out) (auto split: option.splits)

text \<open>
  The resolution of a linked environment gives all of it or an error: the secrets, and of the plain
  variables those that no secret replaces.
\<close>

lemma Resolve_linked:
  assumes "App_EnvironmentID app \<noteq> []" "get (App_EnvironmentID app) = Some env" "list (Env_ID env) = Some ks"
  shows "Resolve (Some get) (Some (list, value)) app =
    (case find (\<lambda>k. value (Env_ID env) k = None) (sort ks) of
       Some k \<Rightarrow> Inl (NoSecret k)
     | None \<Rightarrow> Inr (the (Env_PlainVars (NormalisePlainVars env)) ++ (\<lambda>k. if k \<in> set ks then value (Env_ID env) k else None)))"
proof -
  have i: "Env_ID (NormalisePlainVars env) = Env_ID env" by (simp add: NormalisePlainVars_def Let_def)
  have "(\<lambda>k. if k \<in> set ks then value (Env_ID env) k else the (Env_PlainVars (NormalisePlainVars env)) k) =
      the (Env_PlainVars (NormalisePlainVars env)) ++ (\<lambda>k. if k \<in> set ks then value (Env_ID env) k else None)"
    if "find (\<lambda>k. value (Env_ID env) k = None) (sort ks) = None"
    using that by (auto simp: find_None_iff map_add_def fun_eq_iff split: option.splits)
  then show ?thesis
    using assms by (auto simp: Resolve_def Let_def i fetch_secrets_spec split: option.splits)
qed


subsection \<open>What an accepted configuration is\<close>

definition dns_label :: "nat \<Rightarrow> string \<Rightarrow> bool" where
  "dns_label n s \<longleftrightarrow> s \<noteq> [] \<and> length s \<le> n \<and> (\<forall>c \<in> set s. label_char c) \<and> hd s \<noteq> CHR ''-'' \<and> last s \<noteq> CHR ''-''"

definition variable_name :: "string \<Rightarrow> bool" where
  "variable_name s \<longleftrightarrow> s \<noteq> [] \<and> \<not> is_digit (hd s) \<and> (\<forall>c \<in> set s. is_alnum c \<or> c = CHR ''_'')"

lemma edge_char: "is_lower c \<or> is_digit c \<Longrightarrow> label_char c \<and> c \<noteq> CHR ''-''"
  by (auto simp: label_char_def is_lower_def is_digit_def)

lemma match_ROpt:
  assumes "rx_match (ROpt r) s"
  shows "s = [] \<or> rx_match r s"
proof -
  have none: "rx_match (RUpTo 0 r) t \<Longrightarrow> t = []" for t by (erule RUpToE) auto
  from assms show ?thesis by (rule RUpToE) (auto dest: none)
qed

lemma label_re_accept:
  assumes "MatchString (label_re n) s"
  shows "dns_label (n + 2) s"
proof -
  obtain c t where s: "s = c # t" "is_lower c \<or> is_digit c"
      "rx_match (ROpt (RSeq (RUpTo n (RCls label_char)) (RCls (\<lambda>c. is_lower c \<or> is_digit c)))) t"
    using assms by (auto simp: MatchString_iff label_re_def elim!: RSeqE RClsE)
  have "t = [] \<or> (\<exists>u e. t = u @ [e] \<and> (\<forall>c \<in> set u. label_char c) \<and> length u \<le> n \<and> (is_lower e \<or> is_digit e))"
  proof (cases "t = []")
    case False
    then have "rx_match (RSeq (RUpTo n (RCls label_char)) (RCls (\<lambda>c. is_lower c \<or> is_digit c))) t"
      using match_ROpt [OF s(3)] by simp
    then obtain u e where t: "t = u @ [e]" "rx_match (RUpTo n (RCls label_char)) u" "is_lower e \<or> is_digit e"
      by (elim RSeqE RClsE) blast
    have "\<forall>c \<in> set u. label_char c" by (rule match_chars [OF t(2)]) simp
    then show ?thesis using t match_upto_length [OF t(2)] by blast
  qed simp
  then show ?thesis using s(1,2) edge_char by (auto simp: dns_label_def)
qed

lemma variable_accept:
  assumes "MatchString variablePattern s"
  shows "variable_name s"
proof -
  obtain c t where s: "s = c # t" "is_upper c \<or> is_lower c \<or> c = CHR ''_''" "rx_match (RStar (RCls (\<lambda>c. is_alnum c \<or> c = CHR ''_''))) t"
    using assms by (auto simp: MatchString_iff variablePattern_def elim!: RSeqE RClsE)
  have "\<forall>c \<in> set t. is_alnum c \<or> c = CHR ''_''" by (rule match_chars [OF s(3)]) simp
  moreover have "\<not> is_digit c" using s(2) by (auto simp: is_upper_def is_lower_def is_digit_def)
  ultimately show ?thesis using s(1,2) by (auto simp: variable_name_def is_alnum_def)
qed

lemma check_bindings_None:
  "check_bindings keys envID seen bs = None \<Longrightarrow>
     distinct (map XB_Service bs) \<and> set (map XB_Service bs) \<inter> set seen = {} \<and> (bs \<noteq> [] \<longrightarrow> envID \<noteq> []) \<and>
     (\<forall>b \<in> set bs. XB_Service b \<noteq> [] \<and> XB_Consumers b \<noteq> [] \<and>
        (\<forall>k \<in> set (keys (XB_Environment b)). variable_name k \<and> variable_name (the (XB_Environment b k))))"
proof (induction bs arbitrary: seen)
  case (Cons b bs)
  then have "check_bindings keys envID (XB_Service b # seen) bs = None" by (auto split: if_splits)
  from Cons.IH [OF this] Cons.prems show ?case by (auto simp: list_ex_iff intro: variable_accept split: if_splits)
qed simp

lemma check_plan_None:
  assumes "check_plan keys auto p = None"
  shows "BP_Commit p \<noteq> [] \<Longrightarrow> ValidCommit (BP_Commit p) \<and> \<not> auto"
    and "path \<in> set (BP_Path p # BP_Files p) \<Longrightarrow> path \<noteq> [] \<Longrightarrow> safeRelativePath path"
    and "k \<in> set (keys (BP_Variables p)) \<Longrightarrow> variable_name k \<and> length (the (BP_Variables p k)) \<le> 8192"
  using assms
  by (auto simp: check_plan_def list_ex_iff find_None_iff intro: variable_accept split: if_splits option.splits)

lemma safe_dockerfile:
  assumes "BP_Path p = [] \<or> safeRelativePath (BP_Path p)" "BP_Kind p = ''dockerfile''" "BP_Path p \<noteq> []"
  shows "plan_dockerfile (Some p) = Clean (BP_Path p)"
  using assms by (auto simp: plan_dockerfile_def safeRelativePath_def Let_def)

lemma accepted_plan:
  assumes "check_plan keys auto p = None" "set (keys (BP_Variables p)) = dom (BP_Variables p)"
  shows "(BP_Commit p \<noteq> [] \<longrightarrow> length (BP_Commit p) = 40 \<and> (\<forall>c \<in> set (BP_Commit p). is_digit c \<or> c \<in> set ''abcdef'') \<and> \<not> auto) \<and>
    (\<forall>root. \<forall>path \<in> set (BP_Path p # BP_Files p). IsAbs root \<and> path \<noteq> [] \<longrightarrow>
       (\<exists>rest. Join [root, path] = CHR ''/'' # join_slash (path_elems root @ rest) \<and> (\<forall>c \<in> set rest. plain c))) \<and>
    (BP_Kind p = ''dockerfile'' \<and> BP_Path p \<noteq> [] \<longrightarrow> plan_dockerfile (Some p) = Clean (BP_Path p)) \<and>
    (\<forall>k v. BP_Variables p k = Some v \<longrightarrow> variable_name k \<and> length v \<le> 8192)"
proof (intro conjI [OF _ conjI [OF _ conjI]] allI ballI impI)
  assume "BP_Commit p \<noteq> []"
  from check_plan_None(1) [OF assms(1) this]
  show "length (BP_Commit p) = 40 \<and> (\<forall>c \<in> set (BP_Commit p). is_digit c \<or> c \<in> set ''abcdef'') \<and> \<not> auto"
    unfolding ValidCommit_def list_all_iff by blast
next
  fix root path assume "path \<in> set (BP_Path p # BP_Files p)" "IsAbs root \<and> path \<noteq> []"
  then show "\<exists>rest. Join [root, path] = CHR ''/'' # join_slash (path_elems root @ rest) \<and> (\<forall>c \<in> set rest. plain c)"
    using safe_path_inside [of root path] check_plan_None(2) [OF assms(1), of path] by blast
next
  assume "BP_Kind p = ''dockerfile'' \<and> BP_Path p \<noteq> []"
  then show "plan_dockerfile (Some p) = Clean (BP_Path p)"
    using check_plan_None(2) [OF assms(1), of "BP_Path p"] by (intro safe_dockerfile) auto
next
  fix k v assume "BP_Variables p k = Some v"
  then show "variable_name k \<and> length v \<le> 8192" using check_plan_None(3) [OF assms(1), of k] assms(2) by auto
qed

lemma accepted_bindings:
  assumes "check_bindings keys envID [] bs = None" "\<And>b. b \<in> set bs \<Longrightarrow> set (keys (XB_Environment b)) = dom (XB_Environment b)"
  shows "distinct (map XB_Service bs)" "bs \<noteq> [] \<longrightarrow> envID \<noteq> []"
    "\<forall>b \<in> set bs. \<forall>k v. XB_Environment b k = Some v \<longrightarrow> variable_name k \<and> variable_name v"
proof -
  note b = check_bindings_None [OF assms(1)]
  then show "distinct (map XB_Service bs)" "bs \<noteq> [] \<longrightarrow> envID \<noteq> []" by blast+
  have "variable_name k \<and> variable_name v" if "b \<in> set bs" "XB_Environment b k = Some v" for b k v
  proof -
    have "k \<in> set (keys (XB_Environment b))" using assms(2) [OF that(1)] that(2) by auto
    with b that(1) have "variable_name k \<and> variable_name (the (XB_Environment b k))" by blast
    then show ?thesis unfolding that(2) option.sel .
  qed
  then show "\<forall>b \<in> set bs. \<forall>k v. XB_Environment b k = Some v \<longrightarrow> variable_name k \<and> variable_name v" by blast
qed


text \<open>
  The cleaned name of an app, its prefix where none is configured, need not be a DNS label: it keeps a
  leading hyphen and any length, and only a configured prefix and Cloud Run are checked.
\<close>

lemma sanitize_not_label: "sanitize ''_shop'' = ''-shop''" "\<not> dns_label n (sanitize ''_shop'')"
proof -
  show e: "sanitize ''_shop'' = ''-shop''" by code_simp
  show "\<not> dns_label n (sanitize ''_shop'')" unfolding e by (simp add: dns_label_def)
qed

definition demo_bound :: App where
  "demo_bound = demo_shop\<lparr>App_EnvironmentID := ''e'', App_BuildPlan := Some \<lparr>BP_Kind = ''compose'', BP_Path = ''ops/compose.yml'',
       BP_Args = Map.empty, BP_Buildpacks = [], BP_Commit = replicate 40 CHR ''a'', BP_InstallationID = 3, BP_Files = [],
       BP_Profiles = [], BP_Variables = Map.empty\<rparr>,
     App_DeployTarget := (App_DeployTarget demo_shop)\<lparr>DT_Prefix := ''s'', DT_ExternalServices := [\<lparr>XB_Service = ''db'',
       XB_Provider = ''external'', XB_Resource = ''pg'', XB_Consumers = [''web''], XB_Environment = [''DB'' \<mapsto> ''PG'']\<rparr>]\<rparr>\<rparr>"

definition demo_keys :: "(string \<rightharpoonup> string) \<Rightarrow> string list" where
  "demo_keys m = (if m ''DB'' = None then [] else [''DB''])"

lemma demo_bound_trim: "TrimSpace ''pg'' = ''pg''"
proof -
  have "ascii ''pg''" by code_simp
  from TrimSpace_ascii [OF this] show ?thesis by (simp add: is_space_def)
qed

lemma demo_matches: "MatchString prefixPattern ''s''" "MatchString variablePattern ''DB''" "MatchString variablePattern ''PG''"
  by code_simp+

lemma demo_plan_ok: "check_plan demo_keys False (the (App_BuildPlan demo_bound)) = None"
  by code_simp

lemma demo_bindings_ok: "check_bindings demo_keys ''e'' [] (DT_ExternalServices (App_DeployTarget demo_bound)) = None"
  by (simp add: demo_bound_def demo_keys_def demo_bound_trim demo_matches)

lemma demo_bound_fields:
  "App_RegistryRef demo_bound = []" "App_Namespace demo_bound = []" "App_Kind demo_bound = ''docker-host''"
  "App_BuildPlan demo_bound \<noteq> None" "BP_Kind (the (App_BuildPlan demo_bound)) = ''compose''"
  "DT_Region (App_DeployTarget demo_bound) = []" "DT_Service (App_DeployTarget demo_bound) = []" "App_Prefix demo_bound = ''s''"
  "App_AutoDeploy demo_bound = False" "App_EnvironmentID demo_bound = ''e''"
  by (simp_all add: demo_bound_def demo_shop_def)

lemma demo_bound_ok: "ValidateAppDeployment (\<lambda>_. True) demo_keys demo_bound = None"
proof -
  obtain p where p: "App_BuildPlan demo_bound = Some p" using demo_bound_fields(4) by blast
  then have "BP_Kind p = ''compose''" "check_plan demo_keys False p = None" using demo_bound_fields(5) demo_plan_ok by simp_all
  with p show ?thesis
    by (simp add: ValidateAppDeployment_def demo_bound_fields demo_matches demo_bindings_ok)
qed


end
