(* ===== verification/AppDeployer.thy ===== *)
theory AppDeployer
  imports AppChecks
begin

text \<open>
  A deployment of an app from the checks to the history row (\<open>Deploy\<close>, \<open>DeployImage\<close> and
  \<open>BuildAndPushImage\<close> of \<open>backend/internal/service/app_deployer.go\<close>, \<open>NotifyDeployOutcome\<close> of
  \<open>service/notify.go\<close>).  What the deployer does to the world is the list of its calls, in order; the
  answers of git, of the file system, of the Compose loader, of the stores and of the executor are
  parameters.  Log lines are left out, and the failures of the calls whose errors are only logged.
\<close>

subsection \<open>Calls and parameters\<close>

record CloneOptions =
  CO_Repo :: string
  CO_Branch :: string
  CO_Depth :: nat
  CO_Commit :: string
  CO_InstallationID :: int

datatype dep_call =
    DvClone CloneOptions
  | DvWriteCompose string
  | DvSavePipeline Pipeline
  | DvSaveRun RunRow
  | DvExecute Pipeline RunRow
  | DvRecord AppDeploy
  | DvNotify string string string
  | DvURL string string
  | DvRemove string
  | DvRemoveAll string

datatype dep_err =
    DepInvalid app_err
  | DepNotExecutable string
  | DepNoRepo
  | DepResolve resolve_err
  | DepClone
  | DepCommitMismatch
  | DepComposeLoad string
  | DepNeedsReview string
  | DepRuntimeFile
  | DepSynth synth_err
  | DepBuildpack
  | DepPath
  | DepSaveGraph
  | DepSaveRun
  | DepExecute run_err
  | DepNotKubernetes string
  | DepNoImage
  | DepComposeCanary

text \<open>
  A nil hook is \<open>None\<close>; \<open>da_SavePipeline\<close> and \<open>da_SaveRun\<close> say whether the write succeeds.  \<open>da_load\<close> gives
  the services and the diagnostics of the Compose files in a checkout, \<open>da_runtime\<close> the file written for
  the Docker host, \<open>da_path\<close> whether a path is inside the checkout once its links are followed.  \<open>da_uuid\<close>
  is the fresh id of a run and \<open>da_recID\<close> that of a history row.  \<open>da_clone\<close> is the clone of the deployer
  (injected, of the App client, or plain), \<open>da_github_clone\<close> the plain one.  \<open>da_dag\<close> is \<open>BuildDAGFromPipeline\<close>
  under some visiting orders, which always answers.
\<close>

record app_deployer =
  da_synth :: synth_env
  da_parses :: "string \<Rightarrow> bool"
  da_keys :: "(string \<rightharpoonup> string) \<Rightarrow> string list"
  da_adapter :: "string \<Rightarrow> string option"
  da_CheckExecution :: "(App \<Rightarrow> bool \<Rightarrow> string option) option"
  da_envs :: "env_store option"
  da_secrets :: "secrets_manager option"
  da_clone :: "CloneOptions \<Rightarrow> string option"
  da_github_clone :: "CloneOptions \<Rightarrow> string option"
  da_HeadCommit :: "string \<Rightarrow> string option"
  da_Detect :: "string \<Rightarrow> BuildPlan"
  da_load :: "string \<Rightarrow> App \<Rightarrow> (string \<rightharpoonup> string) \<Rightarrow> string + ComposeService list \<times> string list"
  da_runtime :: "ComposeService list \<Rightarrow> App \<Rightarrow> string \<Rightarrow> (string \<rightharpoonup> string) \<Rightarrow> string option"
  da_path :: "string \<Rightarrow> string \<Rightarrow> bool"
  da_dag :: "Pipeline \<Rightarrow> pipe_err list + DAG"
  da_SavePipeline :: "(Pipeline \<Rightarrow> bool) option"
  da_SaveRun :: "(RunRow \<Rightarrow> bool) option"
  da_Execute :: "Pipeline \<Rightarrow> RunRow \<Rightarrow> RunRow \<times> run_err option"
  da_Deploys :: bool
  da_Notifier :: bool
  da_Apps :: bool
  da_Registry :: string
  da_CacheRef :: string
  da_Proxy :: ProxyConfig
  da_now :: time
  da_uuid :: string
  da_recID :: string

subsection \<open>History, notification and URL\<close>

definition last_digest :: "StageRun list \<Rightarrow> string" where
  "last_digest srs =
     foldl (\<lambda>d a. if Artifact_Type a = ''oci-image'' \<and> Artifact_Digest a \<noteq> [] then Artifact_Digest a else d) []
       (concat (map SR_Artifacts srs))"

definition deployRecordFromRun :: "string \<Rightarrow> App \<Rightarrow> Pipeline \<Rightarrow> RunRow \<Rightarrow> string \<Rightarrow> string \<Rightarrow> AppDeploy" where
  "deployRecordFromRun recID app p run imageRef kind =
     \<lparr>AD_ID = recID, AD_AppID = App_ID app, AD_RunID = Run_ID run, AD_PipelineID = Pipeline_ID p, AD_ImageRef = imageRef,
      AD_Digest = last_digest (Run_StageRuns run), AD_Status = Run_Status run, AD_Kind = kind, AD_CreatedAt = 0\<rparr>"

definition recordDeploy :: "app_deployer \<Rightarrow> AppDeploy \<Rightarrow> dep_call list" where
  "recordDeploy d rec = (if da_Deploys d then [DvRecord rec] else [])"

definition NotifyDeployOutcome :: "app_deployer \<Rightarrow> App \<Rightarrow> string \<Rightarrow> string \<Rightarrow> bool \<Rightarrow> bool \<Rightarrow> dep_call list" where
  "NotifyDeployOutcome d app runID errMsg success buildFailed =
     (if \<not> da_Notifier d then []
      else [DvNotify (if success then ''deploy.succeeded'' else if buildFailed then ''build.failed'' else ''deploy.failed'')
              runID errMsg])"

definition before_char :: "char \<Rightarrow> string \<Rightarrow> string" where
  "before_char c s = takeWhile (\<lambda>x. x \<noteq> c) s"

fun firstHostPort :: "string list \<Rightarrow> string" where
  "firstHostPort [] = []"
| "firstHostPort (p # ps) =
     (let host = before_char CHR ''/'' (before_char CHR '':'' (TrimSpace p)) in
      if host \<noteq> [] then host else firstHostPort ps)"

fun url_of :: "string \<Rightarrow> Stage list \<Rightarrow> string" where
  "url_of scheme [] = []"
| "url_of scheme (st # sts) =
     (let cfg = Stage_Config st in
      if Stage_Type st \<noteq> ''deploy'' then url_of scheme sts
      else if sc_ProxyHost cfg \<noteq> [] then scheme @ ''://'' @ sc_ProxyHost cfg
      else if sc_DeployRuntime cfg = ''docker'' \<and> firstHostPort (sc_ComposePorts cfg) \<noteq> []
      then ''http://localhost:'' @ firstHostPort (sc_ComposePorts cfg)
      else url_of scheme sts)"

definition deployedURLFor :: "Pipeline \<Rightarrow> ProxyConfig \<Rightarrow> string" where
  "deployedURLFor p proxy = url_of (if PxC_Scheme proxy = [] then ''http'' else PxC_Scheme proxy) (Pipeline_Stages p)"

definition persistDeployedURL :: "app_deployer \<Rightarrow> App \<Rightarrow> Pipeline \<Rightarrow> dep_call list" where
  "persistDeployedURL d app p =
     (let url = deployedURLFor p (da_Proxy d) in
      if url = [] \<or> \<not> da_Apps d then [] else [DvURL (App_ID app) url])"


subsection \<open>A deployment\<close>

type_synonym dep_result = "Pipeline option \<times> RunRow option \<times> dep_err option"

abbreviation dep_failed :: "dep_err \<Rightarrow> dep_result" where
  "dep_failed e \<equiv> (None, None, Some e)"

definition clone_opts :: "App \<Rightarrow> CloneOptions" where
  "clone_opts app = \<lparr>CO_Repo = App_GitHubRepo app, CO_Branch = App_Branch app, CO_Depth = 1,
     CO_Commit = (case App_BuildPlan app of None \<Rightarrow> [] | Some p \<Rightarrow> BP_Commit p),
     CO_InstallationID = (case App_BuildPlan app of None \<Rightarrow> 0 | Some p \<Rightarrow> BP_InstallationID p)\<rparr>"

definition deploy_registry :: "app_deployer \<Rightarrow> App \<Rightarrow> string" where
  "deploy_registry d app = (if App_RegistryRef app = [] then da_Registry d else App_RegistryRef app)"

definition image_tag :: "app_deployer \<Rightarrow> App \<Rightarrow> int \<Rightarrow> string" where
  "image_tag d app ts = deploy_registry d app @ ''/'' @ AppPrefix app @ '':'' @ show_int ts"

definition synth_for :: "app_deployer \<Rightarrow> App \<Rightarrow> string \<Rightarrow> (string \<rightharpoonup> string) \<Rightarrow> string \<Rightarrow> synth_env" where
  "synth_for d app workdir appEnv file =
     (da_synth d)\<lparr>sn_app := app, sn_workdir := workdir, sn_registry := deploy_registry d app, sn_ts := da_now d,
       sn_cache := cacheSpec (da_CacheRef d),
       sn_opts := \<lparr>so_appEnv = appEnv, so_proxy = da_Proxy d, so_composeFile = file\<rparr>\<rparr>"

definition compose_graph :: "app_deployer \<Rightarrow> App \<Rightarrow> string \<Rightarrow> string \<Rightarrow> (string \<rightharpoonup> string) \<Rightarrow> BuildPlan \<Rightarrow>
    (dep_err + Pipeline \<times> RunRow) \<times> string list" where
  "compose_graph d app runID workdir appEnv plan =
     (case da_load d workdir (app\<lparr>App_BuildPlan := Some plan\<rparr>) appEnv of
        Inl e \<Rightarrow> (Inl (DepComposeLoad e), [])
      | Inr (svcs, diagnostics) \<Rightarrow>
          if diagnostics \<noteq> [] then (Inl (DepNeedsReview (hd diagnostics)), [])
          else (case (if App_Kind app = ''docker-host'' then map_option (\<lambda>f. [f]) (da_runtime d svcs app workdir appEnv)
                      else Some []) of
              None \<Rightarrow> (Inl DepRuntimeFile, [])
            | Some files \<Rightarrow>
                (case the (synthesizePipelineFromCompose (Some \<circ> da_dag d) (synth_for d app workdir appEnv (concat files)) svcs
                        (ComposePipelineID runID (App_ID app) (da_now d)) runID (da_uuid d)) of
                   Inl e \<Rightarrow> (Inl (DepSynth e), files)
                 | Inr pr \<Rightarrow> (Inr pr, files))))"

definition image_graph :: "app_deployer \<Rightarrow> App \<Rightarrow> string \<Rightarrow> string \<Rightarrow> (string \<rightharpoonup> string) \<Rightarrow> BuildPlan \<Rightarrow>
    dep_err + Pipeline \<times> RunRow" where
  "image_graph d app runID workdir appEnv plan =
     (if BP_Kind plan = ''buildpack'' then Inl DepBuildpack
      else if \<not> da_path d workdir (if BP_Path plan = [] then ''Dockerfile'' else BP_Path plan) then Inl DepPath
      else (let (p, run) = synthesizePipeline (sn_yaml (da_synth d)) (da_uuid d) app (Some plan) workdir
                  (image_tag d app (da_now d)) (cacheSpec (da_CacheRef d))
                  \<lparr>so_appEnv = appEnv, so_proxy = da_Proxy d, so_composeFile = []\<rparr>
            in Inr (p, if runID \<noteq> [] then run\<lparr>Run_ID := runID\<rparr> else run)))"

text \<open>The execution with what is recorded of it; \<open>ref\<close> is the image of the history row.\<close>

definition run_graph :: "app_deployer \<Rightarrow> App \<Rightarrow> Pipeline \<Rightarrow> RunRow \<Rightarrow> string \<Rightarrow> dep_result \<times> dep_call list" where
  "run_graph d app p run ref =
     (let (run', err) = da_Execute d p run;
          rec = recordDeploy d (deployRecordFromRun (da_recID d) app p run' ref ''deploy'')
      in case err of
           Some e \<Rightarrow> ((Some p, Some run', Some (DepExecute e)),
             DvExecute p run # rec @ NotifyDeployOutcome d app (Run_ID run') (snd e) False False)
         | None \<Rightarrow> ((Some p, Some run', None),
             DvExecute p run # rec @
             NotifyDeployOutcome d app (Run_ID run') (Run_Error run') (Run_Status run' = ''success'') False @
             (if Run_Status run' = ''success'' then persistDeployedURL d app p else [])))"

definition has_build :: "Pipeline \<Rightarrow> bool" where
  "has_build p = list_ex (\<lambda>s. Stage_Type s = ''build'') (Pipeline_Stages p)"

definition check_execution :: "app_deployer \<Rightarrow> App \<Rightarrow> bool \<Rightarrow> string option" where
  "check_execution d app build = (case da_CheckExecution d of None \<Rightarrow> None | Some check \<Rightarrow> check app build)"

definition save_and_run :: "app_deployer \<Rightarrow> App \<Rightarrow> string \<Rightarrow> Pipeline \<Rightarrow> RunRow \<Rightarrow> string \<Rightarrow> dep_result \<times> dep_call list" where
  "save_and_run d app runID p0 run0 ref =
     (let p = p0\<lparr>Pipeline_ID := ComposePipelineID runID (App_ID app) (da_now d)\<rparr>;
          run1 = run0\<lparr>Run_PipelineID := Pipeline_ID p\<rparr>
      in case check_execution d app (has_build p) of
           Some e \<Rightarrow> (dep_failed (DepNotExecutable e), [])
         | None \<Rightarrow>
             (let saved = (case da_SavePipeline d of None \<Rightarrow> [] | Some _ \<Rightarrow> [DvSavePipeline (DeploymentViewPipeline p)]) in
              if (case da_SavePipeline d of None \<Rightarrow> False | Some save \<Rightarrow> \<not> save (DeploymentViewPipeline p))
              then ((Some p, None, Some DepSaveGraph), saved)
              else (case da_SaveRun d of
                  None \<Rightarrow> (let (res, calls) = run_graph d app p run1 ref in (res, saved @ calls))
                | Some save \<Rightarrow>
                    (let run = run1\<lparr>Run_Status := ''running'', Run_StartedAt := Some (da_now d)\<rparr> in
                     if \<not> save run then ((Some p, None, Some DepSaveRun), saved @ [DvSaveRun run])
                     else (let (res, calls) = run_graph d app p run ref in (res, saved @ DvSaveRun run # calls))))))"

definition deploy_plan :: "app_deployer \<Rightarrow> App \<Rightarrow> string \<Rightarrow> BuildPlan" where
  "deploy_plan d app workdir = (case App_BuildPlan app of None \<Rightarrow> da_Detect d workdir | Some p \<Rightarrow> p)"

definition deploy_checkout :: "app_deployer \<Rightarrow> App \<Rightarrow> string \<Rightarrow> string \<Rightarrow> (string \<rightharpoonup> string) \<Rightarrow> dep_result \<times> dep_call list" where
  "deploy_checkout d app runID workdir appEnv =
     (let plan = deploy_plan d app workdir in
      if BP_Kind plan = ''compose'' then
        (case compose_graph d app runID workdir appEnv plan of
           (Inl e, files) \<Rightarrow> (dep_failed e, map DvWriteCompose files @ map DvRemove files)
         | (Inr (p, run), files) \<Rightarrow>
             (let (res, calls) = save_and_run d app runID p run []
              in (res, map DvWriteCompose files @ calls @ map DvRemove files)))
      else
        (case image_graph d app runID workdir appEnv plan of
           Inl e \<Rightarrow> (dep_failed e, [])
         | Inr (p, run) \<Rightarrow> save_and_run d app runID p run (image_tag d app (da_now d))))"

definition Deploy :: "app_deployer \<Rightarrow> App \<Rightarrow> string \<Rightarrow> dep_result \<times> dep_call list" where
  "Deploy d app runID =
     (case ValidateAppDeployment (da_parses d) (da_keys d) app of
        Some e \<Rightarrow> (dep_failed (DepInvalid e), [])
      | None \<Rightarrow>
     (case CheckAppTarget (da_adapter d) app of
        Some e \<Rightarrow> (dep_failed (DepInvalid e), [])
      | None \<Rightarrow>
     (case check_execution d app False of
        Some e \<Rightarrow> (dep_failed (DepNotExecutable e), [])
      | None \<Rightarrow>
     if App_GitHubRepo app = [] then (dep_failed DepNoRepo, [])
     else
     (case Resolve (da_envs d) (da_secrets d) app of
        Inl e \<Rightarrow> (dep_failed (DepResolve e), [])
      | Inr appEnv \<Rightarrow>
          (let opts = clone_opts app in
           case da_clone d opts of
             None \<Rightarrow> (dep_failed DepClone, [DvClone opts])
           | Some workdir \<Rightarrow>
               (let (res, calls) =
                  (if CO_Commit opts \<noteq> [] \<and> da_HeadCommit d workdir \<noteq> Some (CO_Commit opts)
                   then (dep_failed DepCommitMismatch, [])
                   else deploy_checkout d app runID workdir appEnv)
                in (res, DvClone opts # calls @ [DvRemoveAll workdir])))))))"

subsection \<open>A rollback\<close>

definition rollback_pipeline :: "app_deployer \<Rightarrow> App \<Rightarrow> string \<Rightarrow> string \<Rightarrow> (string \<rightharpoonup> string) \<Rightarrow> Pipeline" where
  "rollback_pipeline d app imageRef runID appEnv =
     (let proxyHost = hostFor (da_Proxy d) (AppPrefix app) in
      \<lparr>Pipeline_ID = ''app-'' @ App_ID app @ ''-rollback-'' @ runID,
       Pipeline_Stages = [plain_stage ''deploy'' ''Deploy'' ''deploy'' []
         (empty_config\<lparr>sc_Namespace := App_Namespace app,
            sc_ManifestPath := defaultKubernetesManifest (sn_yaml (da_synth d)) app imageRef appEnv proxyHost
              (PxC_IngressClass (da_Proxy d)),
            sc_Env := mergeEnv appEnv Map.empty, sc_ProxyHost := proxyHost\<rparr>)],
       Pipeline_Edges = [], Pipeline_RunDeadline = []\<rparr>)"

definition DeployImage :: "app_deployer \<Rightarrow> App \<Rightarrow> string \<Rightarrow> string \<Rightarrow> dep_result \<times> dep_call list" where
  "DeployImage d app imageRef runID =
     (if App_Kind app \<noteq> ''kubernetes'' then (dep_failed (DepNotKubernetes (App_Kind app)), [])
      else if imageRef = [] then (dep_failed DepNoImage, [])
      else (case Resolve (da_envs d) (da_secrets d) app of
          Inl e \<Rightarrow> (dep_failed (DepResolve e), [])
        | Inr appEnv \<Rightarrow>
            (let p = rollback_pipeline d app imageRef runID appEnv;
                 run = synth_run (if runID = [] then da_uuid d else runID) (Pipeline_ID p) (Pipeline_Stages p);
                 (run', err) = da_Execute d p run
             in ((Some p, Some run', map_option DepExecute err),
                 DvExecute p run # recordDeploy d (deployRecordFromRun (da_recID d) app p run' imageRef ''rollback'')))))"

subsection \<open>The image of a canary\<close>

text \<open>\<open>seconds\<close> is the clock in seconds; the tag of a canary has them in place of nanoseconds.\<close>

definition BuildAndPushImage :: "app_deployer \<Rightarrow> int \<Rightarrow> App \<Rightarrow> string \<Rightarrow> (string \<times> dep_result) \<times> dep_call list" where
  "BuildAndPushImage d seconds app runID =
     (if App_GitHubRepo app = [] then (([], dep_failed DepNoRepo), [])
      else (let opts = \<lparr>CO_Repo = App_GitHubRepo app, CO_Branch = App_Branch app, CO_Depth = 1, CO_Commit = [],
                  CO_InstallationID = 0\<rparr>
            in case da_github_clone d opts of
                 None \<Rightarrow> (([], dep_failed DepClone), [DvClone opts])
               | Some workdir \<Rightarrow>
                   (let plan = deploy_plan d app workdir; tag = image_tag d app seconds in
                    if BP_Kind plan = ''compose'' then (([], dep_failed DepComposeCanary), [DvClone opts, DvRemoveAll workdir])
                    else (let no_proxy = \<lparr>PxC_Domain = [], PxC_Scheme = [], PxC_IngressClass = [], PxC_Network = []\<rparr>;
                              (p0, run0) = synthesizePipeline (sn_yaml (da_synth d)) (da_uuid d) app (Some plan) workdir tag
                                (cacheSpec (da_CacheRef d)) \<lparr>so_appEnv = Map.empty, so_proxy = no_proxy, so_composeFile = []\<rparr>;
                              (p, run1) = stripDeployStage p0 run0;
                              run = (if runID \<noteq> [] then run1\<lparr>Run_ID := runID\<rparr> else run1);
                              (run', err) = da_Execute d p run
                          in ((case err of Some e \<Rightarrow> [] | None \<Rightarrow> tag, Some p, Some run', map_option DepExecute err),
                              [DvClone opts, DvExecute p run, DvRemoveAll workdir])))))"


subsection \<open>What a deployment does\<close>

text \<open>The calls that only an execution makes.\<close>

fun acts :: "dep_call \<Rightarrow> bool" where
  "acts (DvExecute p run) = True"
| "acts (DvRecord rec) = True"
| "acts (DvNotify event runID msg) = True"
| "acts (DvURL appID url) = True"
| "acts _ = False"

definition save_calls :: "app_deployer \<Rightarrow> Pipeline \<Rightarrow> RunRow \<Rightarrow> dep_call list" where
  "save_calls d p run =
     (if da_SavePipeline d = None then [] else [DvSavePipeline (DeploymentViewPipeline p)]) @
     (if da_SaveRun d = None then [] else [DvSaveRun run])"

definition saves_ok :: "app_deployer \<Rightarrow> Pipeline \<Rightarrow> RunRow \<Rightarrow> bool" where
  "saves_ok d p run \<longleftrightarrow> (\<forall>save. da_SavePipeline d = Some save \<longrightarrow> save (DeploymentViewPipeline p)) \<and>
     (\<forall>save. da_SaveRun d = Some save \<longrightarrow> save run \<and> Run_Status run = ''running'')"

definition stopped :: "dep_result \<times> dep_call list \<Rightarrow> bool" where
  "stopped x \<longleftrightarrow> fst (snd (fst x)) = None \<and> snd (snd (fst x)) \<noteq> None \<and> (\<forall>c \<in> set (snd x). \<not> acts c)"

fun tidies :: "dep_call \<Rightarrow> bool" where
  "tidies (DvClone q) = True"
| "tidies (DvWriteCompose f) = True"
| "tidies (DvRemove f) = True"
| "tidies (DvRemoveAll w) = True"
| "tidies _ = False"

lemma save_and_run_cases:
  obtains "stopped (save_and_run d app runID p0 run0 ref)"
    "\<forall>c \<in> set (snd (save_and_run d app runID p0 run0 ref)). \<not> tidies c"
  | p run where "p = p0\<lparr>Pipeline_ID := ComposePipelineID runID (App_ID app) (da_now d)\<rparr>"
    "Run_ID run = Run_ID run0" "Run_PipelineID run = Pipeline_ID p"
    "check_execution d app (has_build p) = None" "saves_ok d p run"
    "save_and_run d app runID p0 run0 ref = (fst (run_graph d app p run ref), save_calls d p run @ snd (run_graph d app p run ref))"
proof -
  let ?p = "p0\<lparr>Pipeline_ID := ComposePipelineID runID (App_ID app) (da_now d)\<rparr>"
  let ?run = "(run0\<lparr>Run_PipelineID := Pipeline_ID ?p\<rparr>)"
  let ?run = "if da_SaveRun d = None then ?run else ?run\<lparr>Run_Status := ''running'', Run_StartedAt := Some (da_now d)\<rparr>"
  show thesis
  proof (cases "check_execution d app (has_build ?p) = None \<and> saves_ok d ?p ?run")
    case True
    then have "save_and_run d app runID p0 run0 ref
        = (fst (run_graph d app ?p ?run ref), save_calls d ?p ?run @ snd (run_graph d app ?p ?run ref))"
      by (auto simp: save_and_run_def saves_ok_def save_calls_def Let_def split_def split: option.splits)
    moreover have "Run_ID ?run = Run_ID run0" "Run_PipelineID ?run = Pipeline_ID ?p" by simp_all
    ultimately show thesis using True by (intro that(2) [of ?p ?run]) auto
  next
    case False
    then show thesis
      by (intro that(1); auto simp: save_and_run_def saves_ok_def stopped_def Let_def split_def split: option.splits if_splits)
  qed
qed


lemma run_graph_quiet: "\<forall>c \<in> set (snd (run_graph d app p run ref)). \<not> tidies c"
  by (auto simp: run_graph_def recordDeploy_def NotifyDeployOutcome_def persistDeployedURL_def Let_def split: prod.splits option.splits)

lemma save_calls_quiet: "\<forall>c \<in> set (save_calls d p run). \<not> tidies c \<and> \<not> acts c"
  by (auto simp: save_calls_def)

text \<open>The graph of a checkout, with the image of its history row.\<close>

definition synthesized :: "app_deployer \<Rightarrow> App \<Rightarrow> string \<Rightarrow> string \<Rightarrow> (string \<rightharpoonup> string) \<Rightarrow> Pipeline \<Rightarrow> RunRow \<Rightarrow> string \<Rightarrow> bool" where
  "synthesized d app runID workdir appEnv p run ref =
     (let plan = deploy_plan d app workdir in
      if BP_Kind plan = ''compose'' then ref = [] \<and> fst (compose_graph d app runID workdir appEnv plan) = Inr (p, run)
      else ref = image_tag d app (da_now d) \<and> image_graph d app runID workdir appEnv plan = Inr (p, run))"

lemma deploy_checkout_cases:
  obtains files calls where "stopped (deploy_checkout d app runID workdir appEnv)"
    "snd (deploy_checkout d app runID workdir appEnv) = map DvWriteCompose files @ calls @ map DvRemove files"
    "\<forall>c \<in> set calls. \<not> tidies c"
  | files p0 run0 ref p run where "synthesized d app runID workdir appEnv p0 run0 ref"
    "p = p0\<lparr>Pipeline_ID := ComposePipelineID runID (App_ID app) (da_now d)\<rparr>"
    "Run_ID run = Run_ID run0" "Run_PipelineID run = Pipeline_ID p"
    "check_execution d app (has_build p) = None" "saves_ok d p run"
    "deploy_checkout d app runID workdir appEnv = (fst (run_graph d app p run ref),
       map DvWriteCompose files @ save_calls d p run @ snd (run_graph d app p run ref) @ map DvRemove files)"
proof -
  note outcome = that
  define plan where "plan = deploy_plan d app workdir"
  have wrapped: thesis
    if g: "synthesized d app runID workdir appEnv p0 run0 ref"
      and e: "deploy_checkout d app runID workdir appEnv = (fst (save_and_run d app runID p0 run0 ref),
        map DvWriteCompose files @ snd (save_and_run d app runID p0 run0 ref) @ map DvRemove files)" for p0 run0 ref files
  proof (cases rule: save_and_run_cases [of d app runID p0 run0 ref])
    case 1
    then show thesis by (intro outcome(1) [OF _ _ 1(2)]) (auto simp: e stopped_def)
  next
    case (2 p run)
    then show thesis by (intro outcome(2) [OF g 2(1-5)]) (simp_all add: e)
  qed
  show thesis
  proof (cases "BP_Kind plan = ''compose''")
    case True
    obtain r files where c: "compose_graph d app runID workdir appEnv plan = (r, files)" by fastforce
    show thesis
    proof (cases r)
      case (Inl e)
      then show thesis
        using True c by (intro that(1) [of files "[]"]) (auto simp: deploy_checkout_def stopped_def Let_def plan_def [symmetric])
    next
      case (Inr pr)
      then show thesis
        using True c by (cases pr) (intro wrapped [of _ _ "[]" files];
          simp add: deploy_checkout_def synthesized_def Let_def plan_def [symmetric] split_def)
    qed
  next
    case False
    show thesis
    proof (cases "image_graph d app runID workdir appEnv plan")
      case (Inl e)
      then show thesis
        using False by (intro that(1) [of "[]" "[]"]) (auto simp: deploy_checkout_def stopped_def Let_def plan_def [symmetric])
    next
      case (Inr pr)
      then show thesis
        using False by (cases pr) (intro wrapped [of _ _ "image_tag d app (da_now d)" "[]"];
          simp add: deploy_checkout_def synthesized_def Let_def plan_def [symmetric] split_def)
    qed
  qed
qed

text \<open>What was checked when a checkout is deployed.\<close>

definition admitted :: "app_deployer \<Rightarrow> App \<Rightarrow> string \<Rightarrow> (string \<rightharpoonup> string) \<Rightarrow> bool" where
  "admitted d app workdir appEnv \<longleftrightarrow>
     ValidateAppDeployment (da_parses d) (da_keys d) app = None \<and> CheckAppTarget (da_adapter d) app = None \<and>
     check_execution d app False = None \<and> App_GitHubRepo app \<noteq> [] \<and>
     Resolve (da_envs d) (da_secrets d) app = Inr appEnv \<and> da_clone d (clone_opts app) = Some workdir \<and>
     (CO_Commit (clone_opts app) \<noteq> [] \<longrightarrow> da_HeadCommit d workdir = Some (CO_Commit (clone_opts app)))"

lemma Deploy_cases:
  obtains e calls where "Deploy d app runID = (dep_failed e, calls)"
    "calls = [] \<or> calls = [DvClone (clone_opts app)] \<and> da_clone d (clone_opts app) = None \<or>
     (\<exists>w. calls = [DvClone (clone_opts app), DvRemoveAll w] \<and> da_clone d (clone_opts app) = Some w)"
  | workdir appEnv where "admitted d app workdir appEnv"
    "Deploy d app runID = (fst (deploy_checkout d app runID workdir appEnv),
       DvClone (clone_opts app) # snd (deploy_checkout d app runID workdir appEnv) @ [DvRemoveAll workdir])"
proof (cases "\<exists>workdir appEnv. admitted d app workdir appEnv")
  case True
  then obtain workdir appEnv where a: "admitted d app workdir appEnv" by blast
  then have "Deploy d app runID = (fst (deploy_checkout d app runID workdir appEnv),
       DvClone (clone_opts app) # snd (deploy_checkout d app runID workdir appEnv) @ [DvRemoveAll workdir])"
    by (auto simp: admitted_def Deploy_def Let_def split_def)
  with a show thesis by (rule that(2))
next
  case False
  then have "\<exists>e calls. Deploy d app runID = (dep_failed e, calls) \<and>
      (calls = [] \<or> calls = [DvClone (clone_opts app)] \<and> da_clone d (clone_opts app) = None \<or>
       (\<exists>w. calls = [DvClone (clone_opts app), DvRemoveAll w] \<and> da_clone d (clone_opts app) = Some w))"
    by (auto simp: Deploy_def admitted_def Let_def split: option.splits sum.splits if_splits)
  then show thesis using that(1) by blast
qed


text \<open>The history row and the notification of an execution.\<close>

definition account :: "app_deployer \<Rightarrow> App \<Rightarrow> Pipeline \<Rightarrow> RunRow \<Rightarrow> run_err option \<Rightarrow> string \<Rightarrow> dep_call list" where
  "account d app p run' err ref =
     (if da_Deploys d then [DvRecord (deployRecordFromRun (da_recID d) app p run' ref ''deploy'')] else []) @
     (if da_Notifier d then [DvNotify (if err = None \<and> Run_Status run' = ''success'' then ''deploy.succeeded'' else ''deploy.failed'')
        (Run_ID run') (case err of None \<Rightarrow> Run_Error run' | Some e \<Rightarrow> snd e)] else [])"

lemma run_graph_effects:
  assumes "da_Execute d p run = (run', err)"
  obtains urls where "fst (run_graph d app p run ref) = (Some p, Some run', map_option DepExecute err)"
    "snd (run_graph d app p run ref) = DvExecute p run # account d app p run' err ref @ urls"
    "urls = (if err = None \<and> Run_Status run' = ''success'' then persistDeployedURL d app p else [])"
  using assms by (cases err) (auto simp: run_graph_def account_def recordDeploy_def NotifyDeployOutcome_def)



lemma executed_parts:
  assumes "DvExecute p run \<in> set (snd (Deploy d app runID))"
  obtains workdir appEnv files p0 run0 ref run' err urls where
    "admitted d app workdir appEnv" "synthesized d app runID workdir appEnv p0 run0 ref"
    "p = p0\<lparr>Pipeline_ID := ComposePipelineID runID (App_ID app) (da_now d)\<rparr>"
    "Run_ID run = Run_ID run0" "Run_PipelineID run = Pipeline_ID p"
    "check_execution d app (has_build p) = None" "saves_ok d p run" "da_Execute d p run = (run', err)"
    "snd (Deploy d app runID) = (DvClone (clone_opts app) # map DvWriteCompose files @ save_calls d p run) @
        DvExecute p run # account d app p run' err ref @ urls @ map DvRemove files @ [DvRemoveAll workdir]"
    "urls = (if err = None \<and> Run_Status run' = ''success'' then persistDeployedURL d app p else [])"
proof (cases rule: Deploy_cases [of d app runID])
  case (1 e calls)
  then show thesis using assms by auto
next
  case deployed: (2 workdir appEnv)
  show thesis
  proof (cases rule: deploy_checkout_cases [of d app runID workdir appEnv])
    case (1 files calls)
    have "DvExecute p run \<in> set (snd (deploy_checkout d app runID workdir appEnv))" using assms deployed(2) by auto
    with 1(1) have "\<not> acts (DvExecute p run)" unfolding stopped_def by blast
    then show thesis by simp
  next
    case (2 files p0 run0 ref p1 run1)
    obtain run' err where ex: "da_Execute d p1 run1 = (run', err)" by fastforce
    obtain urls where g: "snd (run_graph d app p1 run1 ref) = DvExecute p1 run1 # account d app p1 run' err ref @ urls"
      "urls = (if err = None \<and> Run_Status run' = ''success'' then persistDeployedURL d app p1 else [])"
      by (rule run_graph_effects [OF ex])
    have calls: "snd (Deploy d app runID) = (DvClone (clone_opts app) # map DvWriteCompose files @ save_calls d p1 run1) @
        DvExecute p1 run1 # account d app p1 run' err ref @ urls @ map DvRemove files @ [DvRemoveAll workdir]"
      by (simp add: deployed(2) 2(7) g(1))
    have "DvExecute p run \<notin> set (save_calls d p1 run1)" using save_calls_quiet [of d p1 run1] acts.simps(1) by blast
    then have same: "p = p1 \<and> run = run1"
      using assms unfolding calls
      by (auto simp: account_def g(2) persistDeployedURL_def Let_def split: if_splits)
    show thesis
      by (rule that [unfolded same [THEN conjunct1] same [THEN conjunct2], OF deployed(1) 2(1-6) ex calls g(2)])
  qed
qed

lemma synthesized_run:
  assumes "synthesized d app runID workdir appEnv p run ref" "runID \<noteq> []"
  shows "Run_ID run = runID"
proof (cases "BP_Kind (deploy_plan d app workdir) = ''compose''")
  case True
  obtain files where "compose_graph d app runID workdir appEnv (deploy_plan d app workdir) = (Inr (p, run), files)"
    using assms(1) True by (cases "compose_graph d app runID workdir appEnv (deploy_plan d app workdir)") (auto simp: synthesized_def Let_def)
  then obtain en svcs pid where "the (synthesizePipelineFromCompose (Some \<circ> da_dag d) en svcs pid runID (da_uuid d)) = Inr (p, run)"
    by (auto simp: compose_graph_def split: sum.splits option.splits if_splits)
  then show ?thesis
    using assms(2) by (auto simp: synthesizePipelineFromCompose_def synth_run_def split: sum.splits)
next
  case False
  then show ?thesis using assms by (auto simp: synthesized_def image_graph_def Let_def split: if_splits prod.splits)
qed

text \<open>
  C38: nothing is executed unchecked.  What a deployment hands to the executor was synthesized from a
  checkout made with the app's options, whose head is the reviewed commit when there is one; the
  configuration, the target, the repository and the linked environment were accepted, and so was the
  execution, before the checkout and again for the graph; the graph and the run carry the ids that the
  answer to the request named; and both were saved before, the graph with its values masked and the run as
  running.
\<close>

theorem deploy_checked:
  assumes "DvExecute p run \<in> set (snd (Deploy d app runID))"
  shows "\<exists>workdir appEnv p0 run0 ref pre post.
    ValidateAppDeployment (da_parses d) (da_keys d) app = None \<and> CheckAppTarget (da_adapter d) app = None \<and>
    App_GitHubRepo app \<noteq> [] \<and> Resolve (da_envs d) (da_secrets d) app = Inr appEnv \<and>
    (\<forall>check. da_CheckExecution d = Some check \<longrightarrow> check app False = None \<and> check app (has_build p) = None) \<and>
    da_clone d (clone_opts app) = Some workdir \<and>
    (\<forall>plan. App_BuildPlan app = Some plan \<and> BP_Commit plan \<noteq> [] \<longrightarrow> da_HeadCommit d workdir = Some (BP_Commit plan)) \<and>
    synthesized d app runID workdir appEnv p0 run0 ref \<and>
    p = p0\<lparr>Pipeline_ID := ComposePipelineID runID (App_ID app) (da_now d)\<rparr> \<and>
    Run_PipelineID run = Pipeline_ID p \<and> (runID \<noteq> [] \<longrightarrow> Run_ID run = runID) \<and>
    snd (Deploy d app runID) = pre @ DvExecute p run # post \<and>
    (\<forall>save. da_SavePipeline d = Some save \<longrightarrow> DvSavePipeline (DeploymentViewPipeline p) \<in> set pre \<and> save (DeploymentViewPipeline p)) \<and>
    (\<forall>save. da_SaveRun d = Some save \<longrightarrow> DvSaveRun run \<in> set pre \<and> save run \<and> Run_Status run = ''running'')"
proof -
  obtain workdir appEnv files p0 run0 ref run' err urls where e:
    "admitted d app workdir appEnv" "synthesized d app runID workdir appEnv p0 run0 ref"
    "p = p0\<lparr>Pipeline_ID := ComposePipelineID runID (App_ID app) (da_now d)\<rparr>"
    "Run_ID run = Run_ID run0" "Run_PipelineID run = Pipeline_ID p"
    "check_execution d app (has_build p) = None" "saves_ok d p run" "da_Execute d p run = (run', err)"
    "snd (Deploy d app runID) = (DvClone (clone_opts app) # map DvWriteCompose files @ save_calls d p run) @
        DvExecute p run # account d app p run' err ref @ urls @ map DvRemove files @ [DvRemoveAll workdir]"
    by (rule executed_parts [OF assms]) blast
  have i: "runID \<noteq> [] \<Longrightarrow> Run_ID run = runID" using synthesized_run [OF e(2)] e(4) by simp
  define pre where "pre = DvClone (clone_opts app) # map DvWriteCompose files @ save_calls d p run"
  define post where "post = account d app p run' err ref @ urls @ map DvRemove files @ [DvRemoveAll workdir]"
  note a = e(1) [unfolded admitted_def]
  have commit: "\<forall>plan. App_BuildPlan app = Some plan \<and> BP_Commit plan \<noteq> [] \<longrightarrow> da_HeadCommit d workdir = Some (BP_Commit plan)"
    using a by (auto simp: clone_opts_def)
  have checks: "\<forall>check. da_CheckExecution d = Some check \<longrightarrow> check app False = None \<and> check app (has_build p) = None"
    using a e(6) by (auto simp: check_execution_def)
  have saved: "\<forall>save. da_SavePipeline d = Some save \<longrightarrow> DvSavePipeline (DeploymentViewPipeline p) \<in> set pre \<and> save (DeploymentViewPipeline p)"
    "\<forall>save. da_SaveRun d = Some save \<longrightarrow> DvSaveRun run \<in> set pre \<and> save run \<and> Run_Status run = ''running''"
    using e(7) unfolding saves_ok_def by (auto simp: pre_def save_calls_def)
  have calls: "snd (Deploy d app runID) = pre @ DvExecute p run # post" unfolding e(9) pre_def post_def by simp
  show ?thesis
    using a commit checks e(2,3,5) i calls saved
    by (intro exI [of _ workdir] exI [of _ appEnv] exI [of _ p0] exI [of _ run0] exI [of _ ref] exI [of _ pre] exI [of _ post]) blast
qed


subsection \<open>The URL of an app\<close>

lemma url_of_found:
  "url_of scheme sts \<noteq> [] \<Longrightarrow> \<exists>st \<in> set sts. Stage_Type st = ''deploy'' \<and>
     (sc_ProxyHost (Stage_Config st) \<noteq> [] \<and> url_of scheme sts = scheme @ ''://'' @ sc_ProxyHost (Stage_Config st) \<or>
      sc_DeployRuntime (Stage_Config st) = ''docker'' \<and> sc_ComposePorts (Stage_Config st) \<noteq> [])"
proof (induction sts)
  case (Cons st sts)
  have ports: "firstHostPort [] = []" by simp
  show ?case
  proof (cases "Stage_Type st = ''deploy'' \<and> (sc_ProxyHost (Stage_Config st) \<noteq> [] \<or>
      sc_DeployRuntime (Stage_Config st) = ''docker'' \<and> firstHostPort (sc_ComposePorts (Stage_Config st)) \<noteq> [])")
    case True
    then have "sc_ProxyHost (Stage_Config st) \<noteq> [] \<or>
      sc_DeployRuntime (Stage_Config st) = ''docker'' \<and> sc_ComposePorts (Stage_Config st) \<noteq> []" using ports by metis
    then show ?thesis using True by (intro bexI [of _ st]) (auto simp: Let_def)
  next
    case False
    then have "url_of scheme (st # sts) = url_of scheme sts" by (auto simp: Let_def)
    with Cons show ?thesis by auto
  qed
qed simp

definition proxy_name :: "ProxyConfig \<Rightarrow> string \<Rightarrow> bool" where
  "proxy_name proxy host \<longleftrightarrow> PxC_Domain proxy \<noteq> [] \<and> (\<exists>slug. slug \<noteq> [] \<and> host = slug @ ''.'' @ PxC_Domain proxy)"

lemma hostFor_name: "hostFor proxy slug \<noteq> [] \<Longrightarrow> proxy_name proxy (hostFor proxy slug)"
  by (auto simp: hostFor_def proxy_name_def split: if_splits)

lemma image_deploy_stage:
  assumes "st \<in> set (Pipeline_Stages (fst (synthesizePipeline yaml uuid app plan w tag cache opts)))" "Stage_Type st = ''deploy''"
  shows "sc_ComposePorts (Stage_Config st) = [] \<and>
    (sc_ProxyHost (Stage_Config st) \<noteq> [] \<longrightarrow> sc_ProxyHost (Stage_Config st) = hostFor (so_proxy opts) (AppPrefix app))"
  using assms by (auto simp: synthesizePipeline_def plain_stage_def empty_config_def Let_def)

lemma image_graph_stages:
  assumes "image_graph d app runID workdir appEnv plan = Inr (p, run)"
  shows "\<exists>tag opts. so_proxy opts = da_Proxy d \<and>
    p = fst (synthesizePipeline (sn_yaml (da_synth d)) (da_uuid d) app (Some plan) workdir tag (cacheSpec (da_CacheRef d)) opts)"
proof -
  let ?opts = "\<lparr>so_appEnv = appEnv, so_proxy = da_Proxy d, so_composeFile = []\<rparr>"
  obtain p' run' where g: "synthesizePipeline (sn_yaml (da_synth d)) (da_uuid d) app (Some plan) workdir (image_tag d app (da_now d))
      (cacheSpec (da_CacheRef d)) ?opts = (p', run')" by fastforce
  have "p = p'" using assms by (simp add: image_graph_def g split: if_splits)
  then show ?thesis using g by (intro exI [of _ "image_tag d app (da_now d)"] exI [of _ ?opts]) simp
qed

text \<open>
  No deploy stage that the deployer synthesizes runs on plain Docker with published ports, and the host
  names of all of them come from the proxy.
\<close>

lemma deploy_stage_urls:
  assumes "\<forall>svcs a w env. da_runtime d svcs a w env \<noteq> Some []"
    and "synthesized d app runID workdir appEnv p run ref" "st \<in> set (Pipeline_Stages p)" "Stage_Type st = ''deploy''"
  shows "(sc_DeployRuntime (Stage_Config st) = ''docker'' \<longrightarrow> sc_ComposePorts (Stage_Config st) = []) \<and>
    (sc_ProxyHost (Stage_Config st) \<noteq> [] \<longrightarrow> proxy_name (da_Proxy d) (sc_ProxyHost (Stage_Config st)))"
proof (cases "BP_Kind (deploy_plan d app workdir) = ''compose''")
  case True
  obtain files where "compose_graph d app runID workdir appEnv (deploy_plan d app workdir) = (Inr (p, run), files)"
    using assms(2) True by (cases "compose_graph d app runID workdir appEnv (deploy_plan d app workdir)") (auto simp: synthesized_def Let_def)
  then obtain svcs pid where fl: "App_Kind app = ''docker-host'' \<longrightarrow> concat files \<noteq> []"
    and "the (synthesizePipelineFromCompose (Some \<circ> da_dag d) (synth_for d app workdir appEnv (concat files)) svcs pid runID (da_uuid d))
        = Inr (p, run)"
    using assms(1) by (cases "App_Kind app = ''docker-host''")
      (auto simp: compose_graph_def split: sum.splits option.splits if_splits, blast)
  then obtain f ps where "svc_loop (synth_for d app workdir appEnv (concat files)) f svcs = Inr (Pipeline_Stages p, ps)"
    by (auto simp: synthesizePipelineFromCompose_def compose_pipeline_def Let_def split: sum.splits if_splits)
  from svc_loop_stage [OF this assms(3)] obtain svc sts pr where
    svc: "svc_synth (synth_for d app workdir appEnv (concat files)) f svc = Inr (sts, pr)" "st \<in> set sts" by blast
  obtain img where cfg: "Stage_Config st = deploy_config (synth_for d app workdir appEnv (concat files)) svc img"
    using svc assms(4) by (auto simp: svc_synth_def plain_stage_def Let_def split: option.splits sum.splits if_splits)
  have "compose_runtime app (sn_opts (synth_for d app workdir appEnv (concat files))) \<noteq> ''docker''"
    using fl by (auto simp: compose_runtime_def deployRuntimeFor_def synth_for_def Let_def)
  then show ?thesis
    by (auto simp: cfg deploy_config_def Let_def synth_for_def intro: hostFor_name)
next
  case False
  then have "image_graph d app runID workdir appEnv (deploy_plan d app workdir) = Inr (p, run)"
    using assms(2) by (simp add: synthesized_def Let_def)
  from image_graph_stages [OF this] obtain tag opts where o: "so_proxy opts = da_Proxy d"
    "p = fst (synthesizePipeline (sn_yaml (da_synth d)) (da_uuid d) app (Some (deploy_plan d app workdir)) workdir tag (cacheSpec (da_CacheRef d)) opts)"
    by blast
  from image_deploy_stage [of st, OF assms(3) [unfolded o(2)] assms(4)] show ?thesis
    using hostFor_name [of "da_Proxy d" "AppPrefix app"] o(1) by auto
qed



subsection \<open>What the comments promise otherwise\<close>

text \<open>
  The image of a canary is built from the head of the branch: the clone ignores the reviewed commit and
  the installation of the app, which \<open>Deploy\<close> insists on.
\<close>

lemma canary_ignores_commit:
  assumes "DvClone q \<in> set (snd (BuildAndPushImage d seconds app runID))"
  shows "CO_Commit q = [] \<and> CO_InstallationID q = 0"
  using assms by (auto simp: BuildAndPushImage_def Let_def split_def split: option.splits if_splits)

text \<open>A failed build is reported as a failed deployment, and a rollback is not reported at all.\<close>

lemma no_build_failed_event:
  assumes "DvNotify event i msg \<in> set (snd (Deploy d app runID))"
  shows "event \<in> {''deploy.succeeded'', ''deploy.failed''}"
proof (cases rule: Deploy_cases [of d app runID])
  case 1
  then show ?thesis using assms by auto
next
  case deployed: (2 workdir appEnv)
  have n: "DvNotify event i msg \<in> set (snd (deploy_checkout d app runID workdir appEnv))" using assms deployed(2) by auto
  show ?thesis
  proof (cases rule: deploy_checkout_cases [of d app runID workdir appEnv])
    case 1
    then have "\<not> acts (DvNotify event i msg)" using n unfolding stopped_def by blast
    then show ?thesis by simp
  next
    case (2 files p0 run0 ref p run)
    have "DvNotify event i msg \<notin> set (save_calls d p run)" using save_calls_quiet [of d p run] acts.simps(3) by blast
    then have "DvNotify event i msg \<in> set (snd (run_graph d app p run ref))" using n 2(7) by auto
    then show ?thesis
      by (auto simp: run_graph_def recordDeploy_def NotifyDeployOutcome_def persistDeployedURL_def Let_def
          split: prod.splits option.splits if_splits)
  qed
qed

lemma rollback_not_notified:
  "DvNotify event i msg \<notin> set (snd (DeployImage d app imageRef runID))"
  by (auto simp: DeployImage_def recordDeploy_def Let_def split: sum.splits prod.splits if_splits)


subsection \<open>An example\<close>

lemma chain_run:
  assumes "0 < Runner_maxParallel r"
  shows "run_reachable r L s \<Longrightarrow> rs_result s = None \<Longrightarrow> \<not> rs_active s \<Longrightarrow> rs_ctx s = None \<Longrightarrow> rs_errCh s = None \<Longrightarrow>
     rs_firstErr s = None \<Longrightarrow> rs_next s \<le> length L \<Longrightarrow> \<forall>k < length L. \<exists>i. L ! k = [i] \<Longrightarrow>
     \<exists>t. run_reachable r L t \<and> rs_result t = Some None"
proof (induction "length L - rs_next s" arbitrary: s)
  case 0
  then have "run_reachable r L (s\<lparr>rs_result := Some (rs_firstErr s)\<rparr>)" by (intro run_next [OF 0(2) all_done]) simp_all
  then show ?case using 0 by (intro exI [of _ "s\<lparr>rs_result := Some (rs_firstErr s)\<rparr>"]) simp
next
  case (Suc n)
  then have lvl: "rs_next s < length L" by simp
  then obtain i where "L ! rs_next s = [i]" using Suc.prems(8) by blast
  from run_one_node(2) [OF Suc.prems(1-4) lvl this assms Suc.prems(5)] obtain t where
    t: "run_reachable r L t" "rs_result t = None" "\<not> rs_active t" "rs_ctx t = None" "rs_next t = Suc (rs_next s)"
      "rs_errCh t = None" "rs_firstErr t = None" using Suc.prems(6) by auto
  show ?case
    using Suc.hyps(2) lvl t(5) Suc.prems(8) by (intro Suc.hyps(1) [OF _ t(1-4,6,7)]) simp_all
qed

definition demo_pinned :: App where
  "demo_pinned = demo_shop\<lparr>App_BuildPlan := Some \<lparr>BP_Kind = ''dockerfile'', BP_Path = ''ops/Dockerfile'', BP_Args = Map.empty,
       BP_Buildpacks = [], BP_Commit = replicate 40 CHR ''a'', BP_InstallationID = 3, BP_Files = [], BP_Profiles = [],
       BP_Variables = Map.empty\<rparr>,
     App_DeployTarget := (App_DeployTarget demo_shop)\<lparr>DT_Kind := ''kubernetes'', DT_Namespace := ''prod''\<rparr>\<rparr>"

definition demo_proxy :: ProxyConfig where
  "demo_proxy = \<lparr>PxC_Domain = ''ex.com'', PxC_Scheme = ''https'', PxC_IngressClass = [], PxC_Network = []\<rparr>"

definition demo_deployer :: app_deployer where
  "demo_deployer = \<lparr>da_synth = demo_synth [], da_parses = (\<lambda>_. True), da_keys = (\<lambda>_. []), da_adapter = (\<lambda>_. None),
     da_CheckExecution = Some (\<lambda>_ _. None), da_envs = None, da_secrets = None, da_clone = (\<lambda>_. Some ''/tmp/w''),
     da_github_clone = (\<lambda>_. Some ''/tmp/w''), da_HeadCommit = (\<lambda>_. Some (replicate 40 CHR ''a'')),
     da_Detect = (\<lambda>_. \<lparr>BP_Kind = ''buildpack'', BP_Path = [], BP_Args = Map.empty, BP_Buildpacks = [], BP_Commit = [],
        BP_InstallationID = 0, BP_Files = [], BP_Profiles = [], BP_Variables = Map.empty\<rparr>),
     da_load = (\<lambda>_ _ _. Inl []), da_runtime = (\<lambda>_ _ _ _. None), da_path = (\<lambda>_ _. True),
     da_dag = (\<lambda>p. the (demo_dag p)), da_SavePipeline = Some (\<lambda>_. True), da_SaveRun = Some (\<lambda>_. True),
     da_Execute = (\<lambda>p run. (run\<lparr>Run_Status := ''success''\<rparr>, None)), da_Deploys = True, da_Notifier = True, da_Apps = True,
     da_Registry = ''reg'', da_CacheRef = [], da_Proxy = demo_proxy, da_now = 7, da_uuid = ''u'', da_recID = ''h''\<rparr>"

definition demo_image :: "Pipeline \<times> RunRow" where
  "demo_image = synthesizePipeline (sn_yaml (demo_synth [])) ''u'' demo_pinned (App_BuildPlan demo_pinned) ''/tmp/w''
     (image_tag demo_deployer demo_pinned 7) None \<lparr>so_appEnv = Map.empty, so_proxy = demo_proxy, so_composeFile = []\<rparr>"

definition demo_graph :: Pipeline where
  "demo_graph = (fst demo_image)\<lparr>Pipeline_ID := ''app-a1-r''\<rparr>"

definition demo_image_run :: RunRow where
  "demo_image_run = (snd demo_image)\<lparr>Run_ID := ''r'', Run_PipelineID := ''app-a1-r'', Run_Status := ''running'', Run_StartedAt := Some 7\<rparr>"

lemma demo_checks:
  "ValidateAppDeployment (da_parses demo_deployer) (da_keys demo_deployer) demo_pinned = None"
  "CheckAppTarget (da_adapter demo_deployer) demo_pinned = None"
  by code_simp+

lemma demo_image_graph:
  "image_graph demo_deployer demo_pinned ''r'' ''/tmp/w'' Map.empty (the (App_BuildPlan demo_pinned))
     = Inr (fst demo_image, (snd demo_image)\<lparr>Run_ID := ''r''\<rparr>)"
  by (simp add: image_graph_def demo_image_def demo_deployer_def demo_pinned_def cacheSpec_def split_def Let_def)

lemma demo_url: "deployedURLFor demo_graph demo_proxy = ''https://shop.ex.com''"
  by code_simp

lemma demo_fields:
  "da_now demo_deployer = 7" "da_Execute demo_deployer p run = (run\<lparr>Run_Status := ''success''\<rparr>, None)" "da_Proxy demo_deployer = demo_proxy"
  "da_Apps demo_deployer" "da_CheckExecution demo_deployer = Some (\<lambda>_ _. None)" "da_SavePipeline demo_deployer = Some (\<lambda>_. True)"
  "da_SaveRun demo_deployer = Some (\<lambda>_. True)" "da_clone demo_deployer q = Some ''/tmp/w''" "da_envs demo_deployer = None"
  "da_HeadCommit demo_deployer w = Some (replicate 40 CHR ''a'')" "da_runtime demo_deployer svcs a w env = None"
  "App_ID demo_pinned = ''a1''" "App_GitHubRepo demo_pinned = ''acme/shop''" "CO_Commit (clone_opts demo_pinned) = replicate 40 CHR ''a''"
  "deploy_plan demo_deployer demo_pinned w = the (App_BuildPlan demo_pinned)" "BP_Kind (the (App_BuildPlan demo_pinned)) = ''dockerfile''"
  by (simp_all add: demo_deployer_def demo_pinned_def demo_shop_def clone_opts_def deploy_plan_def)

lemma demo_run_graph:
  "run_graph demo_deployer demo_pinned demo_graph demo_image_run ref =
     ((Some demo_graph, Some (demo_image_run\<lparr>Run_Status := ''success''\<rparr>), None),
      DvExecute demo_graph demo_image_run # account demo_deployer demo_pinned demo_graph (demo_image_run\<lparr>Run_Status := ''success''\<rparr>) None ref @
      [DvURL ''a1'' ''https://shop.ex.com''])"
  by (simp add: run_graph_def recordDeploy_def NotifyDeployOutcome_def persistDeployedURL_def account_def demo_url demo_fields Let_def)

lemma demo_save_and_run:
  "save_and_run demo_deployer demo_pinned ''r'' (fst demo_image) ((snd demo_image)\<lparr>Run_ID := ''r''\<rparr>) ref =
     (let (res, calls) = run_graph demo_deployer demo_pinned demo_graph demo_image_run ref
      in (res, DvSavePipeline (DeploymentViewPipeline demo_graph) # DvSaveRun demo_image_run # calls))"
  by (simp add: save_and_run_def check_execution_def demo_fields ComposePipelineID_def demo_graph_def demo_image_run_def Let_def split_def)

lemma demo_deploy:
  "\<exists>ref. Deploy demo_deployer demo_pinned ''r'' =
     ((Some demo_graph, Some (demo_image_run\<lparr>Run_Status := ''success''\<rparr>), None),
      DvClone (clone_opts demo_pinned) # DvSavePipeline (DeploymentViewPipeline demo_graph) # DvSaveRun demo_image_run #
      DvExecute demo_graph demo_image_run # account demo_deployer demo_pinned demo_graph (demo_image_run\<lparr>Run_Status := ''success''\<rparr>) None ref @
      [DvURL ''a1'' ''https://shop.ex.com'', DvRemoveAll ''/tmp/w''])"
  by (simp add: Deploy_def deploy_checkout_def Resolve_def check_execution_def demo_checks demo_fields demo_image_graph
      demo_save_and_run demo_run_graph Let_def) blast



lemma deploy_checked_witness:
  "\<exists>workdir pre post. da_HeadCommit demo_deployer workdir = Some (replicate 40 CHR ''a'') \<and>
     snd (Deploy demo_deployer demo_pinned ''r'') = pre @ DvExecute demo_graph demo_image_run # post \<and> DvSaveRun demo_image_run \<in> set pre"
proof -
  have "DvExecute demo_graph demo_image_run \<in> set (snd (Deploy demo_deployer demo_pinned ''r''))" using demo_deploy by auto
  from deploy_checked [OF this] obtain pre post where
    "snd (Deploy demo_deployer demo_pinned ''r'') = pre @ DvExecute demo_graph demo_image_run # post"
    "\<forall>save. da_SaveRun demo_deployer = Some save \<longrightarrow> DvSaveRun demo_image_run \<in> set pre \<and> save demo_image_run \<and>
       Run_Status demo_image_run = ''running''"
    by blast
  with demo_fields(7,10) show ?thesis by blast
qed

definition image_xp :: execute_params where
  "image_xp = \<lparr>xp_lf = looplab_ref, xp_orders = (run_keys, run_groups), xp_edgeConditions = False,
     xp_maxParallel = 1, xp_bo = (\<lambda>_. []), xp_eo = (\<lambda>_. []), xp_ks0 = id_order demo_graph, xp_ks1 = id_order demo_graph,
     xp_ks2 = id_order demo_graph, xp_startedAt = 1, xp_finishTime = 2, xp_info = (\<lambda>_. (False, ''failed'')),
     xp_render = (\<lambda>_. [])\<rparr>"

lemma image_execute_ok: "execute_ok image_xp demo_graph"
  by (simp add: execute_ok_def image_xp_def looplab_ref_ok run_build_orders id_orders)

lemma demo_graph_shape:
  "map Stage_ID (Pipeline_Stages demo_graph) = [''build'', ''push'', ''deploy'']"
  "Pipeline_Edges demo_graph = [plain_edge ''e1'' ''build'' ''push'', plain_edge ''e2'' ''push'' ''deploy'']"
  "\<forall>s \<in> set (Pipeline_Stages demo_graph). \<not> sc_ReviewOnly (Stage_Config s)"
  by (simp_all add: demo_graph_def demo_image_def synthesizePipeline_def plain_stage_def empty_config_def Let_def)

lemma References_plain:
  assumes "CHR ''$'' \<notin> set s"
  shows "References s = []"
proof -
  have "tokens s = map Lit s"
    using assms
  proof (induction s rule: tokens.induct)
    case (1 s)
    have "hd ref_open = CHR ''$''" by (simp add: ref_open_def)
    then have m: "match_ref s = None"
      using 1(3) by (cases s) (auto simp: match_ref_def ref_open_def)
    show ?case
    proof (cases s)
      case (Cons c cs)
      with 1(1) [OF m Cons] 1(3) show ?thesis by (subst tokens.simps) (simp add: m [unfolded Cons])
    next
      case Nil
      with m show ?thesis by (subst tokens.simps) simp
    qed
  qed
  moreover have "collect_ids (map Lit s) ids = ids" for ids by (induction s) simp_all
  ultimately show ?thesis by (simp add: References_def)
qed

lemma demo_graph_strings:
  "list_all (\<lambda>s. list_all (\<lambda>v. CHR ''$'' \<notin> set v) (stageInterpolatableStrings (\<lambda>_. []) (\<lambda>_. []) s)) (Pipeline_Stages demo_graph)"
  by code_simp


lemma demo_graph_order: "id_order demo_graph = [''build'', ''push'', ''deploy'']"
  by (simp add: id_order_def demo_graph_shape(1))

lemma demo_graph_dag: "pipeline_dag demo_graph = AddNode (AddNode (AddNode NewDAG ''build'' []) ''push'' [''build'']) ''deploy'' [''push'']"
  by (simp add: pipeline_dag_def demo_graph_def demo_image_def synthesizePipeline_def plain_stage_def plain_edge_def edge_deps_def Let_def)

lemma demo_graph_sorts:
  "TopologicalSort (id_order demo_graph) (id_order demo_graph) (pipeline_dag demo_graph) = Some (Inr [[''build''], [''push''], [''deploy'']])"
  unfolding demo_graph_order demo_graph_dag by code_simp

lemma demo_graph_valid:
  "ValidatePipelineDAG (\<lambda>_. []) (\<lambda>_. []) (id_order demo_graph) (id_order demo_graph) (id_order demo_graph) demo_graph = Some []"
proof -
  have "References v = []" if "s \<in> set (Pipeline_Stages demo_graph)" "v \<in> set (stageInterpolatableStrings (\<lambda>_. []) (\<lambda>_. []) s)" for s v
    using demo_graph_strings that by (intro References_plain) (auto simp: list_all_iff)
  then have "refs_ok (\<lambda>_. []) (\<lambda>_. []) demo_graph" by (auto simp: refs_ok_def stage_refs_set)
  moreover have ids: "Stage_ID ` set (Pipeline_Stages demo_graph) = {''build'', ''push'', ''deploy''}"
    unfolding set_map [symmetric] demo_graph_shape(1) by simp
  moreover have "edge_rel (Pipeline_Edges demo_graph) = {(''build'', ''push''), (''push'', ''deploy'')}"
    unfolding edge_rel_def Setcompr_eq_image Collect_mem_eq demo_graph_shape(2) by (simp add: plain_edge_def)
  moreover have "acyclic {(''build'', ''push''), (''push'', ''deploy'')}"
    by (rule acyclicI_order [where f = "\<lambda>i. if i = ''build'' then 2 else if i = ''push'' then 1 else (0::nat)"]) auto
  ultimately have "well_formed (\<lambda>_. []) (\<lambda>_. []) demo_graph"
    by (auto simp: well_formed_def demo_graph_shape(1,2) plain_edge_def)
  then show ?thesis using Validate_iff [OF id_orders, of "\<lambda>_. []" "\<lambda>_. []" demo_graph] by auto
qed

lemma demo_graph_executes:
  assumes "Run_Status run \<noteq> ''cancelled''"
  shows "\<exists>out statuses. Execute image_xp demo_graph run out None statuses \<and> Result_Status (snd out) = ''success''"
proof -
  let ?r = "new_runner image_xp (pipeline_dag demo_graph)" and ?L = "[[''build''], [''push''], [''deploy'']]"
  have "0 < Runner_maxParallel ?r" by (simp add: new_runner_def image_xp_def NewRunnerBounded_def)
  moreover have "\<forall>k < length ?L. \<exists>i. ?L ! k = [i]" by (auto simp: less_Suc_eq numeral_3_eq_3)
  ultimately obtain t where t: "run_reachable ?r ?L t" "rs_result t = Some None"
    using chain_run [of ?r ?L "run_start ?r", OF _ run_init] by (auto simp: run_start_def)
  let ?run = "run\<lparr>Run_Status := ''running'', Run_StartedAt := Some (xp_startedAt image_xp)\<rparr>"
  have "Execute image_xp demo_graph run (finish image_xp ?run None (Run_Status run = ''cancelled'')) None (rs_statuses t)"
  proof (rule Execute.ran [where rerr = None, OF _ _ _ t])
    show "\<forall>s \<in> set (Pipeline_Stages demo_graph). \<not> sc_ReviewOnly (Stage_Config s)"
      by (rule demo_graph_shape(3))
    show "build_dag image_xp demo_graph = Some (Inr (pipeline_dag demo_graph))"
      by (simp add: build_dag_def BuildDAGFromPipeline_def image_xp_def demo_graph_valid)
    show "TopologicalSort (xp_ks1 image_xp) (xp_ks2 image_xp) (pipeline_dag demo_graph) = Some (Inr ?L)"
      by (simp add: image_xp_def demo_graph_sorts)
    show "''running'' = run_to (xp_lf image_xp) (xp_orders image_xp) (Run_Status run) ''start'' ''running'' \<or> ''running'' = ''cancelled''"
      by (simp add: run_to_start_not_cancelled [OF image_execute_ok])
  qed simp
  moreover have "Result_Status (snd (finish image_xp ?run None (Run_Status run = ''cancelled''))) = ''success''"
    using assms by (simp add: execute_finish [OF image_execute_ok])
  ultimately show ?thesis by blast
qed


end
